(* ===== verification/Edge_Prelude.thy ===== *)
theory Edge_Prelude
  imports Main "HOL-Library.Word" "HOL-Library.List_Lexorder" "HOL-Library.Multiset"
begin

text \<open>
  The shared layer of the development: the fixed-width integers and byte strings the protocol
  crates use, Rust's \<open>Result\<close> with the \<open>?\<close> operator, checked and saturating arithmetic,
  little-endian integers, UTF-8 strings, the ordered collections of the standard library
  (\<open>BTreeMap\<close>, \<open>BTreeSet\<close>, binary search on a sorted vector) and the loop combinators.
  Everything here models the Rust language and its standard library, not the repository.
\<close>

section \<open>Integers, bytes and the collections of facts\<close>

type_synonym u8 = "8 word"
type_synonym u16 = "16 word"
type_synonym u32 = "32 word"
type_synonym u64 = "64 word"

text \<open>A \<open>usize\<close> is a natural number; the target is a 64-bit one.\<close>

type_synonym usize = nat

type_synonym bytes = "u8 list"

text \<open>\<open>result_simps\<close>: when a fallible computation ends in \<open>Ok\<close>, \<open>Err\<close> or \<open>Abort\<close>.\<close>

named_theorems result_simps

text \<open>\<open>codec_simps\<close>: what decoding gives on encoded bytes.\<close>

named_theorems codec_simps

definition usize_max :: usize where
  "usize_max = 2 ^ 64 - 1"

section \<open>Results\<close>

text \<open>
  \<open>Ok\<close> and \<open>Err\<close> are Rust's. \<open>Abort\<close> is no value of the Rust type: it stands for a call that
  yields none, because it panics or because a loop in it does not end. A theorem that a call
  returns states that its result is not \<open>Abort\<close>.
\<close>

datatype ('e, 'a) result = Ok 'a | Err 'e | Abort

fun try_bind :: "('e, 'a) result \<Rightarrow> ('a \<Rightarrow> ('e, 'b) result) \<Rightarrow> ('e, 'b) result" where
  "try_bind (Ok x) f = f x"
| "try_bind (Err e) f = Err e"
| "try_bind Abort f = Abort"

fun map_err :: "('e \<Rightarrow> 'f) \<Rightarrow> ('e, 'a) result \<Rightarrow> ('f, 'a) result" where
  "map_err f (Ok x) = Ok x"
| "map_err f (Err e) = Err (f e)"
| "map_err f Abort = Abort"

fun ok_or :: "'a option \<Rightarrow> 'e \<Rightarrow> ('e, 'a) result" where
  "ok_or (Some x) e = Ok x"
| "ok_or None e = Err e"

fun is_ok :: "('e, 'a) result \<Rightarrow> bool" where
  "is_ok (Ok x) = True"
| "is_ok (Err e) = False"
| "is_ok Abort = False"

lemma try_bind_cong [fundef_cong]:
  "m = m' \<Longrightarrow> (\<And>x. m' = Ok x \<Longrightarrow> f x = g x) \<Longrightarrow> try_bind m f = try_bind m' g"
  by (cases m') auto

lemma try_bind_eq_Ok [result_simps]:
  "try_bind m f = Ok y \<longleftrightarrow> (\<exists>x. m = Ok x \<and> f x = Ok y)"
  by (cases m) auto

lemma try_bind_eq_Err [result_simps]:
  "try_bind m f = Err e \<longleftrightarrow> m = Err e \<or> (\<exists>x. m = Ok x \<and> f x = Err e)"
  by (cases m) auto

lemma try_bind_eq_Abort [result_simps]:
  "try_bind m f = Abort \<longleftrightarrow> m = Abort \<or> (\<exists>x. m = Ok x \<and> f x = Abort)"
  by (cases m) auto

lemma try_bindE:
  assumes "try_bind m f = Ok y"
  obtains x where "m = Ok x" and "f x = Ok y"
  using assms by (auto simp: result_simps)

lemma map_err_eq_Ok [result_simps]: "map_err f m = Ok y \<longleftrightarrow> m = Ok y"
  by (cases m) auto

lemma map_err_eq_Err [result_simps]: "map_err f m = Err e \<longleftrightarrow> (\<exists>d. m = Err d \<and> e = f d)"
  by (cases m) auto

lemma map_err_eq_Abort [result_simps]: "map_err f m = Abort \<longleftrightarrow> m = Abort"
  by (cases m) auto

lemma ok_or_eq_Ok [result_simps]: "ok_or m e = Ok y \<longleftrightarrow> m = Some y"
  by (cases m) auto

lemma ok_or_eq_Err [result_simps]: "ok_or m e = Err d \<longleftrightarrow> m = None \<and> d = e"
  by (cases m) auto

lemma ok_or_neq_Abort [result_simps]: "ok_or m e \<noteq> Abort"
  by (cases m) auto

lemma is_ok_iff [result_simps]: "is_ok m \<longleftrightarrow> (\<exists>x. m = Ok x)"
  by (cases m) auto

lemma if_Err_eq_Ok [result_simps]: "(if c then Err e else m) = Ok y \<longleftrightarrow> \<not> c \<and> m = Ok y"
  by auto

lemma if_Err_eq_Abort [result_simps]: "(if c then Err e else m) = Abort \<longleftrightarrow> \<not> c \<and> m = Abort"
  by auto

section \<open>Checked and saturating arithmetic\<close>

definition checked_add :: "'a::len word \<Rightarrow> 'a word \<Rightarrow> 'a word option" where
  "checked_add a b = (if unat a + unat b < 2 ^ LENGTH('a) then Some (a + b) else None)"

definition checked_sub :: "'a::len word \<Rightarrow> 'a word \<Rightarrow> 'a word option" where
  "checked_sub a b = (if b \<le> a then Some (a - b) else None)"

definition checked_mul :: "'a::len word \<Rightarrow> 'a word \<Rightarrow> 'a word option" where
  "checked_mul a b = (if unat a * unat b < 2 ^ LENGTH('a) then Some (a * b) else None)"

definition saturating_add :: "'a::len word \<Rightarrow> 'a word \<Rightarrow> 'a word" where
  "saturating_add a b = (if unat a + unat b < 2 ^ LENGTH('a) then a + b else - 1)"

definition saturating_sub :: "'a::len word \<Rightarrow> 'a word \<Rightarrow> 'a word" where
  "saturating_sub a b = (if b \<le> a then a - b else 0)"

definition usize_checked_add :: "usize \<Rightarrow> usize \<Rightarrow> usize option" where
  "usize_checked_add a b = (if a + b \<le> usize_max then Some (a + b) else None)"

definition u16_try_from :: "usize \<Rightarrow> u16 option" where
  "u16_try_from n = (if n < 2 ^ 16 then Some (of_nat n) else None)"

definition u32_try_from :: "usize \<Rightarrow> u32 option" where
  "u32_try_from n = (if n < 2 ^ 32 then Some (of_nat n) else None)"

lemma unat_add_less:
  fixes a b :: "'a::len word"
  assumes "unat a + unat b < 2 ^ LENGTH('a)"
  shows "unat (a + b) = unat a + unat b"
  using assms by (simp add: unat_word_ariths)

lemma checked_add_Some_iff:
  fixes a b :: "'a::len word"
  shows "checked_add a b = Some c \<longleftrightarrow> unat c = unat a + unat b"
proof
  assume "checked_add a b = Some c"
  then show "unat c = unat a + unat b"
    by (auto simp: checked_add_def unat_add_less split: if_splits)
next
  assume eq: "unat c = unat a + unat b"
  have "unat c < 2 ^ LENGTH('a)" by (rule unsigned_less)
  with eq have lt: "unat a + unat b < 2 ^ LENGTH('a)" by simp
  then have "unat (a + b) = unat c" using eq by (simp add: unat_add_less)
  then have "a + b = c" by (simp add: word_unat_eq_iff)
  with lt show "checked_add a b = Some c" by (simp add: checked_add_def)
qed

lemma checked_add_None_iff:
  fixes a b :: "'a::len word"
  shows "checked_add a b = None \<longleftrightarrow> 2 ^ LENGTH('a) \<le> unat a + unat b"
  by (auto simp: checked_add_def)

lemma checked_sub_Some_iff:
  fixes a b :: "'a::len word"
  shows "checked_sub a b = Some c \<longleftrightarrow> unat a = unat c + unat b"
proof
  assume "checked_sub a b = Some c"
  then have "b \<le> a" and "c = a - b" by (auto simp: checked_sub_def split: if_splits)
  then show "unat a = unat c + unat b" by (simp add: unat_sub word_le_nat_alt)
next
  assume eq: "unat a = unat c + unat b"
  then have le: "b \<le> a" by (simp add: word_le_nat_alt)
  then have "unat (a - b) = unat c" using eq by (simp add: unat_sub)
  then have "a - b = c" by (simp add: word_unat_eq_iff)
  with le show "checked_sub a b = Some c" by (simp add: checked_sub_def)
qed

lemma checked_mul_Some_iff:
  fixes a b :: "'a::len word"
  shows "checked_mul a b = Some c \<longleftrightarrow> unat c = unat a * unat b"
proof
  assume "checked_mul a b = Some c"
  then show "unat c = unat a * unat b"
    by (auto simp: checked_mul_def unat_word_ariths split: if_splits)
next
  assume eq: "unat c = unat a * unat b"
  have "unat c < 2 ^ LENGTH('a)" by (rule unsigned_less)
  with eq have lt: "unat a * unat b < 2 ^ LENGTH('a)" by simp
  then have "unat (a * b) = unat c" using eq by (simp add: unat_word_ariths)
  then have "a * b = c" by (simp add: word_unat_eq_iff)
  with lt show "checked_mul a b = Some c" by (simp add: checked_mul_def)
qed

lemma checked_mul_None_iff:
  fixes a b :: "'a::len word"
  shows "checked_mul a b = None \<longleftrightarrow> 2 ^ LENGTH('a) \<le> unat a * unat b"
  by (auto simp: checked_mul_def)

lemma unat_saturating_add:
  fixes a b :: "'a::len word"
  shows "unat (saturating_add a b) = min (unat a + unat b) (2 ^ LENGTH('a) - 1)"
proof (cases "unat a + unat b < 2 ^ LENGTH('a)")
  case True
  then show ?thesis by (simp add: saturating_add_def unat_add_less)
next
  case False
  then show ?thesis by (simp add: saturating_add_def unsigned_minus_1_eq_mask mask_eq_exp_minus_1)
qed

lemma unat_saturating_sub: "unat (saturating_sub a b) = unat a - unat b"
  by (auto simp: saturating_sub_def unat_sub word_le_nat_alt)

lemma u16_try_from_Some_iff: "u16_try_from n = Some w \<longleftrightarrow> unat w = n"
proof
  assume "u16_try_from n = Some w"
  then show "unat w = n"
    by (auto simp: u16_try_from_def unat_of_nat split: if_splits)
next
  assume "unat w = n"
  then have "n = unat w" by simp
  moreover have "unat w < 2 ^ 16" using unsigned_less [of w] by simp
  ultimately show "u16_try_from n = Some w" by (simp add: u16_try_from_def)
qed

lemma u32_try_from_Some_iff: "u32_try_from n = Some w \<longleftrightarrow> unat w = n"
proof
  assume "u32_try_from n = Some w"
  then show "unat w = n"
    by (auto simp: u32_try_from_def unat_of_nat split: if_splits)
next
  assume "unat w = n"
  then have "n = unat w" by simp
  moreover have "unat w < 2 ^ 32" using unsigned_less [of w] by simp
  ultimately show "u32_try_from n = Some w" by (simp add: u32_try_from_def)
qed

section \<open>Little-endian integers\<close>

text \<open>\<open>to_le_bytes\<close> and \<open>from_le_bytes\<close> on \<open>n\<close> bytes.\<close>

fun le_bytes :: "nat \<Rightarrow> nat \<Rightarrow> bytes" where
  "le_bytes 0 v = []"
| "le_bytes (Suc n) v = of_nat (v mod 256) # le_bytes n (v div 256)"

fun le_value :: "bytes \<Rightarrow> nat" where
  "le_value [] = 0"
| "le_value (b # bs) = unat b + 256 * le_value bs"

definition u16_to_le_bytes :: "u16 \<Rightarrow> bytes" where
  "u16_to_le_bytes w = le_bytes 2 (unat w)"

definition u32_to_le_bytes :: "u32 \<Rightarrow> bytes" where
  "u32_to_le_bytes w = le_bytes 4 (unat w)"

definition u64_to_le_bytes :: "u64 \<Rightarrow> bytes" where
  "u64_to_le_bytes w = le_bytes 8 (unat w)"

definition u16_from_le_bytes :: "bytes \<Rightarrow> u16" where
  "u16_from_le_bytes bs = of_nat (le_value bs)"

definition u32_from_le_bytes :: "bytes \<Rightarrow> u32" where
  "u32_from_le_bytes bs = of_nat (le_value bs)"

definition u64_from_le_bytes :: "bytes \<Rightarrow> u64" where
  "u64_from_le_bytes bs = of_nat (le_value bs)"

lemma length_le_bytes [simp]: "length (le_bytes n v) = n"
  by (induction n arbitrary: v) auto

lemma unat_byte_mod: "unat (of_nat (v mod 256) :: u8) = v mod 256"
  by (simp add: unat_of_nat)

lemma le_value_le_bytes: "le_value (le_bytes n v) = v mod 256 ^ n"
proof (induction n arbitrary: v)
  case 0
  then show ?case by simp
next
  case (Suc n)
  have "le_value (le_bytes (Suc n) v) = v mod 256 + 256 * (v div 256 mod 256 ^ n)"
    using Suc.IH [of "v div 256"] by (simp add: unat_of_nat)
  also have "\<dots> = v mod 256 ^ Suc n"
    by (simp add: mod_mult2_eq)
  finally show ?case .
qed

lemma le_value_less: "le_value bs < 256 ^ length bs"
proof (induction bs)
  case Nil
  then show ?case by simp
next
  case (Cons b bs)
  have "unat b < 256" using unsigned_less [of b] by simp
  then show ?case using Cons.IH by simp
qed

lemma le_bytes_le_value: "length bs = n \<Longrightarrow> le_bytes n (le_value bs) = bs"
proof (induction bs arbitrary: n)
  case Nil
  then show ?case by simp
next
  case (Cons b bs)
  have "unat b < 256" using unsigned_less [of b] by simp
  then have "(unat b + 256 * le_value bs) mod 256 = unat b"
    and "(unat b + 256 * le_value bs) div 256 = le_value bs" by simp_all
  with Cons show ?case by (cases n) simp_all
qed

lemma length_to_le_bytes [simp]:
  "length (u16_to_le_bytes a) = 2" "length (u32_to_le_bytes b) = 4" "length (u64_to_le_bytes c) = 8"
  by (simp_all add: u16_to_le_bytes_def u32_to_le_bytes_def u64_to_le_bytes_def)

lemma u16_le_roundtrip [simp]: "u16_from_le_bytes (u16_to_le_bytes w) = w"
  using unsigned_less [of w, where 'a = nat]
  by (simp add: u16_from_le_bytes_def u16_to_le_bytes_def le_value_le_bytes)

lemma u32_le_roundtrip [simp]: "u32_from_le_bytes (u32_to_le_bytes w) = w"
  using unsigned_less [of w, where 'a = nat]
  by (simp add: u32_from_le_bytes_def u32_to_le_bytes_def le_value_le_bytes)

lemma u64_le_roundtrip [simp]: "u64_from_le_bytes (u64_to_le_bytes w) = w"
  using unsigned_less [of w, where 'a = nat]
  by (simp add: u64_from_le_bytes_def u64_to_le_bytes_def le_value_le_bytes)

lemma u16_le_bytes_from [simp]: "length bs = 2 \<Longrightarrow> u16_to_le_bytes (u16_from_le_bytes bs) = bs"
  using le_value_less [of bs]
  by (simp add: u16_from_le_bytes_def u16_to_le_bytes_def unat_of_nat le_bytes_le_value)

lemma u32_le_bytes_from [simp]: "length bs = 4 \<Longrightarrow> u32_to_le_bytes (u32_from_le_bytes bs) = bs"
  using le_value_less [of bs]
  by (simp add: u32_from_le_bytes_def u32_to_le_bytes_def unat_of_nat le_bytes_le_value)

lemma u64_le_bytes_from [simp]: "length bs = 8 \<Longrightarrow> u64_to_le_bytes (u64_from_le_bytes bs) = bs"
  using le_value_less [of bs]
  by (simp add: u64_from_le_bytes_def u64_to_le_bytes_def unat_of_nat le_bytes_le_value)

lemma u16_to_le_bytes_inj [simp]: "u16_to_le_bytes a = u16_to_le_bytes b \<longleftrightarrow> a = b"
  by (metis u16_le_roundtrip)

lemma u32_to_le_bytes_inj [simp]: "u32_to_le_bytes a = u32_to_le_bytes b \<longleftrightarrow> a = b"
  by (metis u32_le_roundtrip)

lemma u64_to_le_bytes_inj [simp]: "u64_to_le_bytes a = u64_to_le_bytes b \<longleftrightarrow> a = b"
  by (metis u64_le_roundtrip)

section \<open>Strings\<close>

text \<open>
  A \<open>String\<close> or \<open>&str\<close> is its UTF-8 bytes. \<open>utf8_valid\<close> is the test of
  \<open>std::str::from_utf8\<close>: the well-formed byte sequences of RFC 3629 (no overlong form, no
  surrogate, nothing above U+10FFFF). \<open>str_is_blank\<close> is \<open>s.trim().is_empty()\<close>: every character
  has the Unicode property White_Space.
\<close>

definition str :: "string \<Rightarrow> bytes" where
  "str s = map of_char s"

definition utf8_cont :: "u8 \<Rightarrow> bool" where
  "utf8_cont b \<longleftrightarrow> 0x80 \<le> b \<and> b \<le> 0xBF"

definition utf8_second3 :: "u8 \<Rightarrow> u8 \<Rightarrow> bool" where
  "utf8_second3 a b \<longleftrightarrow>
     (if a = 0xE0 then 0xA0 \<le> b \<and> b \<le> 0xBF
      else if a = 0xED then 0x80 \<le> b \<and> b \<le> 0x9F
      else utf8_cont b)"

definition utf8_second4 :: "u8 \<Rightarrow> u8 \<Rightarrow> bool" where
  "utf8_second4 a b \<longleftrightarrow>
     (if a = 0xF0 then 0x90 \<le> b \<and> b \<le> 0xBF
      else if a = 0xF4 then 0x80 \<le> b \<and> b \<le> 0x8F
      else utf8_cont b)"

fun utf8_valid :: "bytes \<Rightarrow> bool" where
  "utf8_valid [] = True"
| "utf8_valid (a # r) =
     (if a < 0x80 then utf8_valid r
      else if 0xC2 \<le> a \<and> a \<le> 0xDF then
        (case r of b # r' \<Rightarrow> utf8_cont b \<and> utf8_valid r' | _ \<Rightarrow> False)
      else if 0xE0 \<le> a \<and> a \<le> 0xEF then
        (case r of b # c # r' \<Rightarrow> utf8_second3 a b \<and> utf8_cont c \<and> utf8_valid r' | _ \<Rightarrow> False)
      else if 0xF0 \<le> a \<and> a \<le> 0xF4 then
        (case r of b # c # d # r' \<Rightarrow>
           utf8_second4 a b \<and> utf8_cont c \<and> utf8_cont d \<and> utf8_valid r' | _ \<Rightarrow> False)
      else False)"

fun str_is_blank :: "bytes \<Rightarrow> bool" where
  "str_is_blank [] = True"
| "str_is_blank (a # r) =
     (if (0x09 \<le> a \<and> a \<le> 0x0D) \<or> a = 0x20 then str_is_blank r
      else if a = 0xC2 then
        (case r of b # r' \<Rightarrow> (b = 0x85 \<or> b = 0xA0) \<and> str_is_blank r' | _ \<Rightarrow> False)
      else
        (case r of b # c # r' \<Rightarrow>
           ((a = 0xE1 \<and> b = 0x9A \<and> c = 0x80) \<or>
            (a = 0xE2 \<and> b = 0x80 \<and>
               ((0x80 \<le> c \<and> c \<le> 0x8A) \<or> c = 0xA8 \<or> c = 0xA9 \<or> c = 0xAF)) \<or>
            (a = 0xE2 \<and> b = 0x81 \<and> c = 0x9F) \<or>
            (a = 0xE3 \<and> b = 0x80 \<and> c = 0x80)) \<and> str_is_blank r' | _ \<Rightarrow> False))"

section \<open>Loops\<close>

text \<open>A \<open>for\<close> loop whose body may return early with an error: the state is threaded through.\<close>

fun try_fold :: "('s \<Rightarrow> 'a \<Rightarrow> ('e, 's) result) \<Rightarrow> 's \<Rightarrow> 'a list \<Rightarrow> ('e, 's) result" where
  "try_fold f s [] = Ok s"
| "try_fold f s (x # xs) = try_bind (f s x) (\<lambda>s'. try_fold f s' xs)"

fun try_map :: "('a \<Rightarrow> ('e, 'b) result) \<Rightarrow> 'a list \<Rightarrow> ('e, 'b list) result" where
  "try_map f [] = Ok []"
| "try_map f (x # xs) = try_bind (f x) (\<lambda>y. try_bind (try_map f xs) (\<lambda>ys. Ok (y # ys)))"

text \<open>\<open>slice.windows(2)\<close>.\<close>

fun windows2 :: "'a list \<Rightarrow> ('a \<times> 'a) list" where
  "windows2 (x # y # r) = (x, y) # windows2 (y # r)"
| "windows2 _ = []"

lemma try_fold_append:
  "try_fold f s (xs @ ys) = try_bind (try_fold f s xs) (\<lambda>s'. try_fold f s' ys)"
proof (induction xs arbitrary: s)
  case Nil
  then show ?case by simp
next
  case (Cons x xs)
  then show ?case by (cases "f s x") simp_all
qed

lemma try_map_eq_Ok:
  "try_map f xs = Ok ys \<longleftrightarrow> list_all2 (\<lambda>x y. f x = Ok y) xs ys"
proof (induction xs arbitrary: ys)
  case Nil
  then show ?case by auto
next
  case (Cons x xs)
  then show ?case by (cases ys) (auto simp: result_simps)
qed

lemma try_map_neq_Abort: "(\<And>x. x \<in> set xs \<Longrightarrow> f x \<noteq> Abort) \<Longrightarrow> try_map f xs \<noteq> Abort"
  by (induction xs) (auto simp: result_simps)

lemma windows2_all_iff:
  assumes "transp R"
  shows "(\<forall>(x, y) \<in> set (windows2 xs). R x y) \<longleftrightarrow> sorted_wrt R xs"
proof (induction xs rule: windows2.induct)
  case (1 x y r)
  then show ?case
    using assms by (auto dest: transpD)
qed auto

end
