(* ===== verification/Edge_Collections.thy ===== *)
theory Edge_Collections
  imports Edge_Prelude
begin

text \<open>
  The ordered collections of Rust's standard library that the protocol crates rely on:
  \<open>BTreeMap\<close> and \<open>BTreeSet\<close> as association lists kept strictly sorted by key, and binary search
  on a sorted vector. The locale \<open>ordered_map\<close> is the contract the encoders and the consensus
  state use; it is interpreted on the association lists.
\<close>

section \<open>The contract of an ordered map\<close>

locale ordered_map =
  fixes empty :: 'm
    and get :: "'m \<Rightarrow> 'k :: linorder \<Rightarrow> 'v option"
    and insert :: "'k \<Rightarrow> 'v \<Rightarrow> 'm \<Rightarrow> 'm"
    and retain :: "('k \<Rightarrow> 'v \<Rightarrow> bool) \<Rightarrow> 'm \<Rightarrow> 'm"
    and entries :: "'m \<Rightarrow> ('k \<times> 'v) list"
    and inv :: "'m \<Rightarrow> bool"
  assumes inv_empty: "inv empty"
    and inv_insert: "inv m \<Longrightarrow> inv (insert k v m)"
    and inv_retain: "inv m \<Longrightarrow> inv (retain P m)"
    and get_empty: "get empty k = None"
    and get_insert: "inv m \<Longrightarrow> get (insert k v m) k' = (if k' = k then Some v else get m k')"
    and get_retain: "inv m \<Longrightarrow> get (retain P m) k =
      (case get m k of None \<Rightarrow> None | Some v \<Rightarrow> if P k v then Some v else None)"
    and entries_sorted: "inv m \<Longrightarrow> sorted_wrt (<) (map fst (entries m))"
    and get_entries: "inv m \<Longrightarrow> get m = map_of (entries m)"
begin

lemma entries_distinct: "inv m \<Longrightarrow> distinct (map fst (entries m))"
  using entries_sorted strict_sorted_iff by blast

lemma get_iff_entries: "inv m \<Longrightarrow> get m k = Some v \<longleftrightarrow> (k, v) \<in> set (entries m)"
  by (simp add: get_entries entries_distinct)

lemma entries_ext:
  assumes "inv m" "inv m'" "\<And>k. get m k = get m' k"
  shows "entries m = entries m'"
proof -
  have set_eq: "set (entries m) = set (entries m')"
    using assms get_iff_entries by (auto; metis)
  have "inj_on fst (set (entries m) \<union> set (entries m'))"
    using entries_distinct [OF assms(1)] set_eq by (simp add: distinct_map)
  then show ?thesis
    using assms(1,2) set_eq entries_distinct entries_sorted
    by (intro map_sorted_distinct_set_unique [of fst]) (auto simp: strict_sorted_iff)
qed

lemma insert_commute_entries:
  assumes "inv m" "k \<noteq> k'"
  shows "entries (insert k v (insert k' v' m)) = entries (insert k' v' (insert k v m))"
  using assms by (intro entries_ext) (auto simp: get_insert inv_insert)

end

section \<open>BTreeMap and BTreeSet\<close>

type_synonym ('k, 'v) btree_map = "('k \<times> 'v) list"
type_synonym 'k btree_set = "('k, unit) btree_map"

definition bm_get :: "('k :: linorder, 'v) btree_map \<Rightarrow> 'k \<Rightarrow> 'v option" where
  "bm_get m k = map_of m k"

fun bm_insert :: "'k :: linorder \<Rightarrow> 'v \<Rightarrow> ('k, 'v) btree_map \<Rightarrow> ('k, 'v) btree_map" where
  "bm_insert k v [] = [(k, v)]"
| "bm_insert k v ((k', v') # m) =
     (if k < k' then (k, v) # (k', v') # m
      else if k = k' then (k, v) # m
      else (k', v') # bm_insert k v m)"

definition bm_retain :: "('k :: linorder \<Rightarrow> 'v \<Rightarrow> bool) \<Rightarrow> ('k, 'v) btree_map \<Rightarrow> ('k, 'v) btree_map"
  where "bm_retain P m = filter (\<lambda>(k, v). P k v) m"

definition bm_contains_key :: "('k :: linorder, 'v) btree_map \<Rightarrow> 'k \<Rightarrow> bool" where
  "bm_contains_key m k \<longleftrightarrow> bm_get m k \<noteq> None"

definition bm_inv :: "('k :: linorder, 'v) btree_map \<Rightarrow> bool" where
  "bm_inv m \<longleftrightarrow> sorted_wrt (<) (map fst m)"

lemma set_bm_insert_keys: "fst ` set (bm_insert k v m) = Set.insert k (fst ` set m)"
  by (induction k v m rule: bm_insert.induct) auto

lemma bm_inv_insert: "bm_inv m \<Longrightarrow> bm_inv (bm_insert k v m)"
proof (induction k v m rule: bm_insert.induct)
  case (1 k v)
  then show ?case by (simp add: bm_inv_def)
next
  case (2 k v k' v' m)
  then show ?case
    using set_bm_insert_keys [of k v m]
    by (auto simp: bm_inv_def simp del: set_map simp add: set_map [symmetric] image_set)
qed

lemma map_of_bm_insert:
  "bm_inv m \<Longrightarrow> map_of (bm_insert k v m) = (map_of m)(k \<mapsto> v)"
  by (induction k v m rule: bm_insert.induct) (auto simp: bm_inv_def fun_eq_iff map_of_eq_None_iff)

lemma bm_inv_retain: "bm_inv m \<Longrightarrow> bm_inv (bm_retain P m)"
  by (auto simp: bm_inv_def bm_retain_def sorted_wrt_map sorted_wrt_filter)

lemma map_of_bm_retain:
  "bm_inv m \<Longrightarrow> map_of (bm_retain P m) k =
     (case map_of m k of None \<Rightarrow> None | Some v \<Rightarrow> if P k v then Some v else None)"
proof (induction m)
  case Nil
  then show ?case by (simp add: bm_retain_def)
next
  case (Cons a m)
  moreover have "map_of m (fst a) = None"
    using Cons.prems by (auto simp: bm_inv_def map_of_eq_None_iff)
  ultimately show ?case by (cases a) (auto simp: bm_retain_def bm_inv_def)
qed

interpretation bm: ordered_map "[]" bm_get bm_insert bm_retain "\<lambda>m. m" bm_inv
  by unfold_locales
    (auto simp: bm_inv_insert bm_inv_retain map_of_bm_insert map_of_bm_retain bm_get_def fun_eq_iff,
      simp_all add: bm_inv_def)

text \<open>\<open>BTreeSet::insert\<close> returns whether the element was new.\<close>

definition bs_insert :: "'k :: linorder \<Rightarrow> 'k btree_set \<Rightarrow> bool \<times> 'k btree_set" where
  "bs_insert k s = (\<not> bm_contains_key s k, bm_insert k () s)"

definition bs_elems :: "'k btree_set \<Rightarrow> 'k list" where
  "bs_elems s = map fst s"

lemma bm_contains_key_iff: "bm_contains_key m k \<longleftrightarrow> k \<in> fst ` set m"
  by (auto simp: bm_contains_key_def bm_get_def map_of_eq_None_iff)

lemma bm_get_SomeD: "bm_get m k = Some v \<Longrightarrow> (k, v) \<in> set m"
  by (simp add: bm_get_def map_of_SomeD)

lemma length_bm_insert:
  "bm_inv m \<Longrightarrow> length (bm_insert k v m) = (if bm_contains_key m k then length m else Suc (length m))"
proof (induction k v m rule: bm_insert.induct)
  case (1 k v)
  then show ?case by (simp add: bm_contains_key_iff)
next
  case (2 k v k' v' m)
  have tail: "\<And>x. x \<in> fst ` set m \<Longrightarrow> k' < x" using 2(2) by (auto simp: bm_inv_def)
  consider "k < k'" | "k = k'" | "k' < k" by fastforce
  then show ?case
  proof cases
    case 1
    then show ?thesis using tail [of k] by (fastforce simp: bm_contains_key_iff)
  next
    case 2
    then show ?thesis by (simp add: bm_contains_key_iff)
  next
    case 3
    then show ?thesis using 2 by (auto simp: bm_contains_key_iff bm_inv_def)
  qed
qed

section \<open>Binary search\<close>

text \<open>
  \<open>slice.binary_search_by_key(&k, f)\<close>: \<open>Inr i\<close> is Rust's \<open>Ok(i)\<close>, \<open>Inl i\<close> its \<open>Err(i)\<close> with the
  insertion point.
\<close>

function bsearch :: "('a \<Rightarrow> 'k :: linorder) \<Rightarrow> 'k \<Rightarrow> 'a list \<Rightarrow> nat \<Rightarrow> nat \<Rightarrow> nat + nat" where
  "bsearch f k xs lo hi =
     (if hi \<le> lo then Inl lo
      else let mid = (lo + hi) div 2 in
        if f (xs ! mid) < k then bsearch f k xs (Suc mid) hi
        else if f (xs ! mid) = k then Inr mid
        else bsearch f k xs lo mid)"
  by pat_completeness auto
termination
  by (relation "measure (\<lambda>(f, k, xs, lo, hi). hi - lo)") auto

declare bsearch.simps [simp del]

definition binary_search_by_key :: "'k :: linorder \<Rightarrow> ('a \<Rightarrow> 'k) \<Rightarrow> 'a list \<Rightarrow> nat + nat" where
  "binary_search_by_key k f xs = bsearch f k xs 0 (length xs)"

definition key_sorted :: "('a \<Rightarrow> 'k :: linorder) \<Rightarrow> 'a list \<Rightarrow> bool" where
  "key_sorted f xs \<longleftrightarrow> sorted_wrt (<) (map f xs)"

lemma key_sorted_nth:
  "key_sorted f xs \<Longrightarrow> i < j \<Longrightarrow> j < length xs \<Longrightarrow> f (xs ! i) < f (xs ! j)"
  by (simp add: key_sorted_def sorted_wrt_iff_nth_less)

lemma key_sorted_distinct: "key_sorted f xs \<Longrightarrow> distinct (map f xs)"
  by (simp add: key_sorted_def strict_sorted_iff)

lemma bsearch_spec:
  assumes "key_sorted f xs" "hi \<le> length xs" "lo \<le> hi"
    and "\<And>j. j < lo \<Longrightarrow> f (xs ! j) < k"
    and "\<And>j. hi \<le> j \<Longrightarrow> j < length xs \<Longrightarrow> k < f (xs ! j)"
  shows "case bsearch f k xs lo hi of
      Inr i \<Rightarrow> i < length xs \<and> f (xs ! i) = k
    | Inl i \<Rightarrow> i \<le> length xs \<and> (\<forall>j < i. f (xs ! j) < k) \<and>
        (\<forall>j. i \<le> j \<longrightarrow> j < length xs \<longrightarrow> k < f (xs ! j))"
  using assms
proof (induction f k xs lo hi rule: bsearch.induct)
  case (1 f k xs lo hi)
  define mid where "mid = (lo + hi) div 2"
  show ?case
  proof (cases "hi \<le> lo")
    case True
    then show ?thesis using 1 by (subst bsearch.simps) auto
  next
    case False
    then have m: "lo \<le> mid" "mid < hi" "mid < length xs" using 1 by (auto simp: mid_def)
    consider "f (xs ! mid) < k" | "f (xs ! mid) = k" | "k < f (xs ! mid)" by fastforce
    then show ?thesis
    proof cases
      case 1
      then have "\<And>j. j < Suc mid \<Longrightarrow> f (xs ! j) < k"
        using key_sorted_nth [OF \<open>key_sorted f xs\<close>] m by (metis less_SucE less_trans)
      with 1 m False "1.prems" show ?thesis
        using "1.IH"(1) [OF False mid_def 1]
        by (simp add: bsearch.simps [of f k xs lo hi] mid_def [symmetric])
    next
      case 2
      with m False show ?thesis
        by (simp add: bsearch.simps [of f k xs lo hi] mid_def [symmetric])
    next
      case 3
      then have "\<And>j. mid \<le> j \<Longrightarrow> j < length xs \<Longrightarrow> k < f (xs ! j)"
        using key_sorted_nth [OF \<open>key_sorted f xs\<close>] m by (metis le_neq_implies_less less_trans)
      moreover have "\<not> f (xs ! mid) < k" "f (xs ! mid) \<noteq> k" using 3 by auto
      ultimately show ?thesis
        using "1.IH"(2) [OF False mid_def] m False "1.prems"
        by (simp add: bsearch.simps [of f k xs lo hi] mid_def [symmetric])
    qed
  qed
qed

lemma binary_search_spec:
  "key_sorted f xs \<Longrightarrow>
   case binary_search_by_key k f xs of
      Inr i \<Rightarrow> i < length xs \<and> f (xs ! i) = k
    | Inl i \<Rightarrow> i \<le> length xs \<and> (\<forall>j < i. f (xs ! j) < k) \<and>
        (\<forall>j. i \<le> j \<longrightarrow> j < length xs \<longrightarrow> k < f (xs ! j))"
  unfolding binary_search_by_key_def by (rule bsearch_spec) auto

lemma binary_search_found:
  assumes "key_sorted f xs" "i < length xs"
  shows "binary_search_by_key (f (xs ! i)) f xs = Inr i"
proof -
  have "case binary_search_by_key (f (xs ! i)) f xs of Inr j \<Rightarrow> j = i | Inl _ \<Rightarrow> False"
  proof (cases "binary_search_by_key (f (xs ! i)) f xs")
    case (Inl j)
    then show ?thesis
      using binary_search_spec [OF assms(1), of "f (xs ! i)"] assms(2)
      by (simp; metis less_irrefl not_le)
  next
    case (Inr j)
    then show ?thesis
      using binary_search_spec [OF assms(1), of "f (xs ! i)"] assms
        key_sorted_distinct [OF assms(1)]
      by (auto simp: distinct_conv_nth)
  qed
  then show ?thesis by (auto split: sum.splits)
qed

text \<open>The lookup \<open>binary_search_by_key(..).ok().map(|i| &xs[i])\<close> and what it finds.\<close>

definition bsearch_get :: "'k :: linorder \<Rightarrow> ('a \<Rightarrow> 'k) \<Rightarrow> 'a list \<Rightarrow> 'a option" where
  "bsearch_get k f xs =
     (case binary_search_by_key k f xs of Inr i \<Rightarrow> Some (xs ! i) | Inl _ \<Rightarrow> None)"

lemma bsearch_get_Some_iff:
  assumes "key_sorted f xs"
  shows "bsearch_get k f xs = Some x \<longleftrightarrow> x \<in> set xs \<and> f x = k"
proof
  assume "bsearch_get k f xs = Some x"
  then show "x \<in> set xs \<and> f x = k"
    using binary_search_spec [OF assms, of k]
    by (auto simp: bsearch_get_def split: sum.splits)
next
  assume "x \<in> set xs \<and> f x = k"
  then show "bsearch_get k f xs = Some x"
    using binary_search_found [OF assms] by (auto simp: bsearch_get_def in_set_conv_nth)
qed

lemma bsearch_get_None_iff:
  assumes "key_sorted f xs"
  shows "bsearch_get k f xs = None \<longleftrightarrow> k \<notin> f ` set xs"
  using bsearch_get_Some_iff [OF assms, of k]
  by (metis image_iff not_None_eq)

section \<open>Sorted vectors\<close>

text \<open>\<open>Vec::insert\<close> and \<open>Vec::remove\<close> at a position.\<close>

definition vec_insert :: "nat \<Rightarrow> 'a \<Rightarrow> 'a list \<Rightarrow> 'a list" where
  "vec_insert i x xs = take i xs @ x # drop i xs"

definition vec_remove :: "nat \<Rightarrow> 'a list \<Rightarrow> 'a list" where
  "vec_remove i xs = take i xs @ drop (Suc i) xs"

lemma set_take_drop: "set xs = set (take i xs) \<union> set (drop i xs)"
  using append_take_drop_id [of i xs] by (metis set_append)

lemma set_vec_insert [simp]: "set (vec_insert i x xs) = insert x (set xs)"
  unfolding vec_insert_def set_take_drop [of xs i] by simp

lemma length_vec_insert [simp]: "length (vec_insert i x xs) = Suc (length xs)"
  by (simp add: vec_insert_def min_def)

lemma key_sorted_append:
  "key_sorted f (xs @ ys) \<longleftrightarrow>
     key_sorted f xs \<and> key_sorted f ys \<and> (\<forall>x \<in> set xs. \<forall>y \<in> set ys. f x < f y)"
  by (auto simp: key_sorted_def sorted_wrt_append)

lemma key_sorted_Cons:
  "key_sorted f (x # xs) \<longleftrightarrow> (\<forall>y \<in> set xs. f x < f y) \<and> key_sorted f xs"
  by (auto simp: key_sorted_def)

lemma binary_search_insert_sorted:
  assumes "key_sorted f xs" "binary_search_by_key (f x) f xs = Inl i"
  shows "key_sorted f (vec_insert i x xs)" "f x \<notin> f ` set xs" "i \<le> length xs"
proof -
  have spec: "i \<le> length xs" "\<forall>j < i. f (xs ! j) < f x"
    "\<forall>j. i \<le> j \<longrightarrow> j < length xs \<longrightarrow> f x < f (xs ! j)"
    using binary_search_spec [OF assms(1), of "f x"] assms(2) by auto
  have left: "\<forall>y \<in> set (take i xs). f y < f x"
    using spec by (auto simp: in_set_conv_nth)
  have right: "\<forall>y \<in> set (drop i xs). f x < f y"
    using spec by (auto simp: in_set_conv_nth)
  have "key_sorted f (take i xs @ drop i xs)" using assms(1) by simp
  then show "key_sorted f (vec_insert i x xs)"
    using left right unfolding vec_insert_def key_sorted_append key_sorted_Cons by auto
  show "f x \<notin> f ` set xs"
    unfolding set_take_drop [of xs i] using left right by fastforce
  show "i \<le> length xs" by (rule spec(1))
qed

lemma binary_search_present:
  assumes "key_sorted f xs" "binary_search_by_key k f xs = Inr i"
  shows "i < length xs" "f (xs ! i) = k"
  using binary_search_spec [OF assms(1), of k] assms(2) by auto

text \<open>Lookups after an insertion and after the replacement of a found entry.\<close>

lemma bsearch_get_eqI:
  assumes "key_sorted f xs" "\<And>x. m = Some x \<longleftrightarrow> x \<in> set xs \<and> f x = k"
  shows "bsearch_get k f xs = m"
  using assms(2) bsearch_get_Some_iff [OF assms(1), of k] by (metis option.exhaust)

lemma bsearch_get_insert:
  assumes "key_sorted f xs" "binary_search_by_key (f x) f xs = Inl i"
  shows "bsearch_get k f (vec_insert i x xs) = (if k = f x then Some x else bsearch_get k f xs)"
proof (rule bsearch_get_eqI)
  show "key_sorted f (vec_insert i x xs)" by (rule binary_search_insert_sorted(1) [OF assms])
  show "(if k = f x then Some x else bsearch_get k f xs) = Some y \<longleftrightarrow>
      y \<in> set (vec_insert i x xs) \<and> f y = k" for y
    using binary_search_insert_sorted(2) [OF assms] bsearch_get_Some_iff [OF assms(1), of k y]
    by (auto simp: image_iff)
qed

lemma bsearch_replace:
  assumes xs: "key_sorted f xs" and i: "binary_search_by_key k f xs = Inr i" and x: "f x = k"
  shows "key_sorted f (xs[i := x])"
    "bsearch_get a f (xs[i := x]) = (if a = k then Some x else bsearch_get a f xs)"
    "y \<in> set (xs[i := x]) \<Longrightarrow> y \<in> set xs \<or> y = x"
proof -
  note at = binary_search_present [OF xs i]
  have "map f (xs[i := x]) = map f xs" using at x by (simp add: map_update list_update_same_conv)
  then show ks: "key_sorted f (xs[i := x])" using xs by (simp add: key_sorted_def)
  show "y \<in> set (xs[i := x]) \<Longrightarrow> y \<in> set xs \<or> y = x" using set_update_subset_insert [of xs i x] by auto
  show "bsearch_get a f (xs[i := x]) = (if a = k then Some x else bsearch_get a f xs)"
  proof (cases "a = k")
    case True
    then show ?thesis using bsearch_get_Some_iff [OF ks, of k x] at(1) x by (simp add: set_update_memI)
  next
    case False
    have "y \<in> set (xs[i := x]) \<longleftrightarrow> y \<in> set xs" if "f y = a" for y
      using that False at x by (auto simp: in_set_conv_nth nth_list_update)
    then show ?thesis
      using False bsearch_get_Some_iff [OF xs, of a] by (intro bsearch_get_eqI [OF ks]) auto
  qed
qed

lemma vec_remove_sorted:
  assumes "key_sorted f xs" "i < length xs"
  shows "key_sorted f (vec_remove i xs)" "set (vec_remove i xs) = set xs - {xs ! i}"
proof -
  have split: "xs = take i xs @ xs ! i # drop (Suc i) xs"
    using assms(2) by (rule id_take_nth_drop)
  have "distinct xs" using key_sorted_distinct [OF assms(1)] by (simp add: distinct_map)
  then have d: "distinct (take i xs @ xs ! i # drop (Suc i) xs)" using split by simp
  have "set xs = set (take i xs @ xs ! i # drop (Suc i) xs)" using split by simp
  then show "set (vec_remove i xs) = set xs - {xs ! i}"
    using d by (auto simp: vec_remove_def)
  have "key_sorted f (take i xs @ xs ! i # drop (Suc i) xs)" using assms(1) split by simp
  then show "key_sorted f (vec_remove i xs)"
    unfolding vec_remove_def key_sorted_append key_sorted_Cons by auto
qed

section \<open>The contract of a sorted registry\<close>

text \<open>
  Registries kept as a vector in strictly increasing key order: adding an entry keeps the order
  and succeeds only for a new key.
\<close>

locale sorted_registry =
  fixes key :: "'x \<Rightarrow> 'k :: linorder"
    and entries :: "'r \<Rightarrow> 'x list"
    and add :: "'x \<Rightarrow> 'r \<Rightarrow> ('e, 'r) result"
  assumes add_sorted: "key_sorted key (entries r) \<Longrightarrow> add x r = Ok r' \<Longrightarrow> key_sorted key (entries r')"
    and add_entries: "key_sorted key (entries r) \<Longrightarrow> add x r = Ok r' \<Longrightarrow>
      set (entries r') = insert x (set (entries r)) \<and> key x \<notin> key ` set (entries r)"
begin

lemma add_all_sorted:
  "key_sorted key (entries r) \<Longrightarrow> try_fold (\<lambda>r x. add x r) r xs = Ok r' \<Longrightarrow>
   key_sorted key (entries r') \<and> set (entries r') = set xs \<union> set (entries r) \<and>
   distinct (map key xs) \<and> key ` set xs \<inter> key ` set (entries r) = {}"
proof (induction xs arbitrary: r)
  case Nil
  then show ?case by simp
next
  case (Cons x xs)
  then obtain r1 where r1: "add x r = Ok r1" "try_fold (\<lambda>r x. add x r) r1 xs = Ok r'"
    by (auto simp: try_bind_eq_Ok)
  show ?case
    using Cons.IH [OF add_sorted [OF Cons.prems(1) r1(1)] r1(2)] add_entries [OF Cons.prems(1) r1(1)]
    by auto
qed

lemma add_order_irrelevant:
  assumes "key_sorted key (entries r)" "mset xs = mset ys"
    and "try_fold (\<lambda>r x. add x r) r xs = Ok r1" "try_fold (\<lambda>r x. add x r) r ys = Ok r2"
  shows "entries r1 = entries r2"
proof -
  note 1 = add_all_sorted [OF assms(1,3)] and 2 = add_all_sorted [OF assms(1,4)]
  have "set xs = set ys" using assms(2) by (rule mset_eq_setD)
  with 1 2 have eq: "set (entries r1) = set (entries r2)" by simp
  have d: "distinct (map key (entries r1))" "distinct (map key (entries r2))"
    "sorted (map key (entries r1))" "sorted (map key (entries r2))"
    using 1 2 by (simp_all add: key_sorted_def strict_sorted_iff)
  have inj: "inj_on key (set (entries r1) \<union> set (entries r2))"
    using d(1) eq by (simp add: distinct_map)
  show ?thesis using d eq by (intro map_sorted_distinct_set_unique [OF inj])
qed

end

end
