(* ===== verification/Protocol_Types.thy ===== *)
theory Protocol_Types
  imports Edge_Collections
begin

text \<open>
  The crate \<^verbatim>\<open>src/crates/protocol-types\<close>: identifiers, the self-describing digest, the hash
  suites with the algorithm each purpose uses, and causal execution generations. Newtypes over an
  integer or a byte array are the underlying type; \<open>array32\<close> is the length a \<open>[u8; 32]\<close> has.
\<close>

section \<open>Identifiers\<close>

datatype type_error =
    EmptyChainId
  | UnknownHashAlgorithmId u16
  | UnknownHashDomain u16
  | UnknownSignatureSchemeId u16
  | ZeroAtomicityDomainId

type_synonym chain_id = bytes
type_synonym protocol_version = u32
type_synonym epoch = u64
type_synonym validator_id = bytes
type_synonym atomicity_domain_id = bytes
type_synonym hash_suite_id = u16

definition array32 :: "bytes \<Rightarrow> bool" where
  "array32 bs \<longleftrightarrow> length bs = 32"

definition chain_id_new :: "bytes \<Rightarrow> (type_error, chain_id) result" where
  "chain_id_new value = (if str_is_blank value then Err EmptyChainId else Ok value)"

text \<open>A chain identifier the constructor can have produced.\<close>

definition chain_id_wf :: "chain_id \<Rightarrow> bool" where
  "chain_id_wf c \<longleftrightarrow> utf8_valid c \<and> \<not> str_is_blank c"

definition atomicity_domain_id_new :: "bytes \<Rightarrow> (type_error, atomicity_domain_id) result" where
  "atomicity_domain_id_new bs =
     (if bs = replicate 32 0 then Err ZeroAtomicityDomainId else Ok bs)"

section \<open>Algorithm, domain and scheme identifiers\<close>

datatype hash_algorithm_id = Sha2_256 | Sha3_256 | Blake3_256

fun hash_algorithm_as_u16 :: "hash_algorithm_id \<Rightarrow> u16" where
  "hash_algorithm_as_u16 Sha2_256 = 0x0001"
| "hash_algorithm_as_u16 Sha3_256 = 0x0002"
| "hash_algorithm_as_u16 Blake3_256 = 0x0003"

definition hash_algorithm_try_from :: "u16 \<Rightarrow> (type_error, hash_algorithm_id) result" where
  "hash_algorithm_try_from value =
     (if value = 0x0001 then Ok Sha2_256
      else if value = 0x0002 then Ok Sha3_256
      else if value = 0x0003 then Ok Blake3_256
      else Err (UnknownHashAlgorithmId value))"

datatype hash_domain =
    HdTransaction | HdObject | HdExecutionEffects | HdContractCode | HdProtocolConfig
  | HdCertificate | HdValidatorSet | HdGovernanceAction | HdSystemModule | HdMigration
  | HdStateNode | HdConsensusMessage | HdNodeEvent | HdAssetId | HdObjectType

fun hash_domain_as_u16 :: "hash_domain \<Rightarrow> u16" where
  "hash_domain_as_u16 HdTransaction = 0x0001"
| "hash_domain_as_u16 HdObject = 0x0002"
| "hash_domain_as_u16 HdExecutionEffects = 0x0003"
| "hash_domain_as_u16 HdContractCode = 0x0004"
| "hash_domain_as_u16 HdProtocolConfig = 0x0005"
| "hash_domain_as_u16 HdCertificate = 0x0006"
| "hash_domain_as_u16 HdValidatorSet = 0x0007"
| "hash_domain_as_u16 HdGovernanceAction = 0x0008"
| "hash_domain_as_u16 HdSystemModule = 0x0009"
| "hash_domain_as_u16 HdMigration = 0x000A"
| "hash_domain_as_u16 HdStateNode = 0x000B"
| "hash_domain_as_u16 HdConsensusMessage = 0x000C"
| "hash_domain_as_u16 HdNodeEvent = 0x000D"
| "hash_domain_as_u16 HdAssetId = 0x000E"
| "hash_domain_as_u16 HdObjectType = 0x000F"

definition hash_domain_try_from :: "u16 \<Rightarrow> (type_error, hash_domain) result" where
  "hash_domain_try_from value =
     (if value = 0x0001 then Ok HdTransaction
      else if value = 0x0002 then Ok HdObject
      else if value = 0x0003 then Ok HdExecutionEffects
      else if value = 0x0004 then Ok HdContractCode
      else if value = 0x0005 then Ok HdProtocolConfig
      else if value = 0x0006 then Ok HdCertificate
      else if value = 0x0007 then Ok HdValidatorSet
      else if value = 0x0008 then Ok HdGovernanceAction
      else if value = 0x0009 then Ok HdSystemModule
      else if value = 0x000A then Ok HdMigration
      else if value = 0x000B then Ok HdStateNode
      else if value = 0x000C then Ok HdConsensusMessage
      else if value = 0x000D then Ok HdNodeEvent
      else if value = 0x000E then Ok HdAssetId
      else if value = 0x000F then Ok HdObjectType
      else Err (UnknownHashDomain value))"

datatype signature_scheme_id = Ed25519 | Secp256k1

fun signature_scheme_as_u16 :: "signature_scheme_id \<Rightarrow> u16" where
  "signature_scheme_as_u16 Ed25519 = 0x0001"
| "signature_scheme_as_u16 Secp256k1 = 0x0002"

definition signature_scheme_try_from :: "u16 \<Rightarrow> (type_error, signature_scheme_id) result" where
  "signature_scheme_try_from value =
     (if value = 0x0001 then Ok Ed25519
      else if value = 0x0002 then Ok Secp256k1
      else Err (UnknownSignatureSchemeId value))"

lemma hash_algorithm_try_from_as_u16 [simp]:
  "hash_algorithm_try_from (hash_algorithm_as_u16 a) = Ok a"
  by (cases a) (simp_all add: hash_algorithm_try_from_def)

lemma hash_algorithm_try_from_OkD: "hash_algorithm_try_from v = Ok a \<Longrightarrow> hash_algorithm_as_u16 a = v"
  by (auto simp: hash_algorithm_try_from_def split: if_splits)

lemma hash_algorithm_try_from_neq_Abort [simp]: "hash_algorithm_try_from v \<noteq> Abort"
  by (simp add: hash_algorithm_try_from_def)

lemma hash_domain_try_from_as_u16 [simp]: "hash_domain_try_from (hash_domain_as_u16 d) = Ok d"
  by (cases d) (simp_all add: hash_domain_try_from_def)

lemma hash_domain_try_from_OkD: "hash_domain_try_from v = Ok d \<Longrightarrow> hash_domain_as_u16 d = v"
  by (auto simp: hash_domain_try_from_def split: if_splits)

lemma signature_scheme_try_from_as_u16 [simp]:
  "signature_scheme_try_from (signature_scheme_as_u16 s) = Ok s"
  by (cases s) (simp_all add: signature_scheme_try_from_def)

lemma signature_scheme_try_from_OkD:
  "signature_scheme_try_from v = Ok s \<Longrightarrow> signature_scheme_as_u16 s = v"
  by (auto simp: signature_scheme_try_from_def split: if_splits)

lemma hash_algorithm_as_u16_inj [simp]:
  "hash_algorithm_as_u16 a = hash_algorithm_as_u16 b \<longleftrightarrow> a = b"
  by (cases a; cases b) simp_all

lemma hash_domain_as_u16_inj [simp]: "hash_domain_as_u16 a = hash_domain_as_u16 b \<longleftrightarrow> a = b"
  by (metis hash_domain_try_from_as_u16 result.inject(1))

lemma signature_scheme_as_u16_inj [simp]:
  "signature_scheme_as_u16 a = signature_scheme_as_u16 b \<longleftrightarrow> a = b"
  by (cases a; cases b) simp_all

section \<open>Digests\<close>

text \<open>The derived order compares the algorithm, then the bytes.\<close>

datatype digest32 = Digest32 (algorithm: hash_algorithm_id) (digest_bytes: bytes)

definition digest32_wf :: "digest32 \<Rightarrow> bool" where
  "digest32_wf d \<longleftrightarrow> array32 (digest_bytes d)"

instantiation digest32 :: linorder
begin

definition less_eq_digest32 :: "digest32 \<Rightarrow> digest32 \<Rightarrow> bool" where
  "less_eq_digest32 a b \<longleftrightarrow>
     hash_algorithm_as_u16 (algorithm a) < hash_algorithm_as_u16 (algorithm b) \<or>
     algorithm a = algorithm b \<and> digest_bytes a \<le> digest_bytes b"

definition less_digest32 :: "digest32 \<Rightarrow> digest32 \<Rightarrow> bool" where
  "less_digest32 a b \<longleftrightarrow>
     hash_algorithm_as_u16 (algorithm a) < hash_algorithm_as_u16 (algorithm b) \<or>
     algorithm a = algorithm b \<and> digest_bytes a < digest_bytes b"

instance
proof
  fix a b c :: digest32
  show "(a < b) = (a \<le> b \<and> \<not> b \<le> a)"
    by (auto simp: less_eq_digest32_def less_digest32_def)
  show "a \<le> a" by (simp add: less_eq_digest32_def)
  show "a \<le> b \<Longrightarrow> b \<le> c \<Longrightarrow> a \<le> c" by (auto simp: less_eq_digest32_def)
  show "a \<le> b \<Longrightarrow> b \<le> a \<Longrightarrow> a = b"
    by (auto simp: less_eq_digest32_def intro: digest32.expand)
  show "a \<le> b \<or> b \<le> a"
    by (auto simp: less_eq_digest32_def)
qed

end

section \<open>Hash purposes and suites\<close>

datatype hash_purpose =
    HpTransaction | HpObject | HpExecutionEffects | HpContractCode | HpProtocolConfig
  | HpCertificate | HpValidatorSet | HpConsensusMessage | HpNodeEvent | HpSystemModuleManifest
  | HpAssetId | HpObjectType

fun purpose_domain :: "hash_purpose \<Rightarrow> hash_domain" where
  "purpose_domain HpTransaction = HdTransaction"
| "purpose_domain HpObject = HdObject"
| "purpose_domain HpExecutionEffects = HdExecutionEffects"
| "purpose_domain HpContractCode = HdContractCode"
| "purpose_domain HpProtocolConfig = HdProtocolConfig"
| "purpose_domain HpCertificate = HdCertificate"
| "purpose_domain HpValidatorSet = HdValidatorSet"
| "purpose_domain HpConsensusMessage = HdConsensusMessage"
| "purpose_domain HpNodeEvent = HdNodeEvent"
| "purpose_domain HpSystemModuleManifest = HdSystemModule"
| "purpose_domain HpAssetId = HdAssetId"
| "purpose_domain HpObjectType = HdObjectType"

lemma purpose_domain_inj [simp]: "purpose_domain p = purpose_domain q \<longleftrightarrow> p = q"
  by (cases p; cases q) simp_all

record hash_suite =
  suite_id :: hash_suite_id
  transaction_hash :: hash_algorithm_id
  object_digest :: hash_algorithm_id
  effects_hash :: hash_algorithm_id
  code_hash :: hash_algorithm_id
  config_hash :: hash_algorithm_id
  certificate_hash :: hash_algorithm_id

definition hash_suite_uniform :: "hash_suite_id \<Rightarrow> hash_algorithm_id \<Rightarrow> hash_suite" where
  "hash_suite_uniform i a =
     \<lparr> suite_id = i, transaction_hash = a, object_digest = a, effects_hash = a, code_hash = a,
       config_hash = a, certificate_hash = a \<rparr>"

definition hash_suite_genesis :: hash_suite where
  "hash_suite_genesis = hash_suite_uniform 1 Sha2_256"

fun algorithm_for :: "hash_suite \<Rightarrow> hash_purpose \<Rightarrow> hash_algorithm_id" where
  "algorithm_for s HpTransaction = transaction_hash s"
| "algorithm_for s HpObject = object_digest s"
| "algorithm_for s HpExecutionEffects = effects_hash s"
| "algorithm_for s HpContractCode = code_hash s"
| "algorithm_for s HpProtocolConfig = config_hash s"
| "algorithm_for s HpCertificate = certificate_hash s"
| "algorithm_for s HpValidatorSet = certificate_hash s"
| "algorithm_for s HpConsensusMessage = certificate_hash s"
| "algorithm_for s HpNodeEvent = certificate_hash s"
| "algorithm_for s HpSystemModuleManifest = config_hash s"
| "algorithm_for s HpAssetId = config_hash s"
| "algorithm_for s HpObjectType = config_hash s"

record hash_suite_schedule =
  hss_activation_epoch :: epoch
  hss_suite :: hash_suite

section \<open>Execution generations\<close>

type_synonym execution_generation = u64

datatype execution_generation_overflow = ExecutionGenerationOverflow

definition genesis_floor :: execution_generation where
  "genesis_floor = 0"

definition successor_of ::
  "execution_generation \<Rightarrow> execution_generation list \<Rightarrow>
   (execution_generation_overflow, execution_generation) result" where
  "successor_of verified_cut_floor verified_dependencies =
     (let maximum = fold (\<lambda>dependency maximum. max maximum dependency)
                      verified_dependencies verified_cut_floor in
      ok_or (checked_add maximum 1) ExecutionGenerationOverflow)"

lemma fold_max_eq_Max: "fold (\<lambda>d m. max m d) ds (f :: 'a :: linorder) = Max (insert f (set ds))"
proof (induction ds arbitrary: f)
  case Nil
  then show ?case by simp
next
  case (Cons d ds)
  have "Max (insert f (insert d (set ds))) = Max (insert (max f d) (set ds))"
    by (cases "ds = []") (simp_all add: max.assoc)
  then show ?case using Cons by simp
qed

end
