(* ===== verification/Canonical_Encoding.thy ===== *)
theory Canonical_Encoding
  imports Protocol_Types
begin

text \<open>
  The crate \<^verbatim>\<open>src/crates/canonical-encoding\<close>: the field-framed canonical structure, its
  encoder, its zero-copy decoder with the typed field accessors, and the encoders of the core
  identifiers. The locales \<open>frame_codec\<close> and \<open>strict_codec\<close> state what a codec built on the
  frame promises; the frame itself and the digest interpret them here, the other crates' codecs
  in their own theories.
\<close>

section \<open>Encoding\<close>

definition PROTOCOL_MAGIC :: bytes where
  "PROTOCOL_MAGIC = [0x53, 0x4E, 0x52, 0x45]"

definition MAX_CANONICAL_FRAME_BYTES :: usize where
  "MAX_CANONICAL_FRAME_BYTES = 32 * 1024 * 1024"

definition FRAME_HEADER_BYTES :: usize where
  "FRAME_HEADER_BYTES = 10"

definition FIELD_HEADER_BYTES :: usize where
  "FIELD_HEADER_BYTES = 6"

datatype canonical_encoding_error =
    DuplicateField u16
  | TooManyFields usize
  | FieldTooLarge usize
  | EncFrameTooLarge usize

record canonical_struct =
  cs_type_id :: u16
  cs_version :: u16
  cs_fields :: "(u16, bytes) btree_map"

definition cs_new :: "u16 \<Rightarrow> u16 \<Rightarrow> canonical_struct" where
  "cs_new type_id version = \<lparr> cs_type_id = type_id, cs_version = version, cs_fields = [] \<rparr>"

definition cs_insert ::
  "u16 \<Rightarrow> bytes \<Rightarrow> canonical_struct \<Rightarrow> (canonical_encoding_error, canonical_struct) result" where
  "cs_insert field_id bs s =
     (if bm_contains_key (cs_fields s) field_id then Err (DuplicateField field_id)
      else Ok (s \<lparr> cs_fields := bm_insert field_id bs (cs_fields s) \<rparr>))"

definition field_bytes ::
  "u16 \<Rightarrow> bytes \<Rightarrow> canonical_struct \<Rightarrow> (canonical_encoding_error, canonical_struct) result" where
  "field_bytes field_id bs s = cs_insert field_id bs s"

definition field_str ::
  "u16 \<Rightarrow> bytes \<Rightarrow> canonical_struct \<Rightarrow> (canonical_encoding_error, canonical_struct) result" where
  "field_str field_id value s = cs_insert field_id value s"

definition field_u16 ::
  "u16 \<Rightarrow> u16 \<Rightarrow> canonical_struct \<Rightarrow> (canonical_encoding_error, canonical_struct) result" where
  "field_u16 field_id value s = cs_insert field_id (u16_to_le_bytes value) s"

definition field_u32 ::
  "u16 \<Rightarrow> u32 \<Rightarrow> canonical_struct \<Rightarrow> (canonical_encoding_error, canonical_struct) result" where
  "field_u32 field_id value s = cs_insert field_id (u32_to_le_bytes value) s"

definition field_u64 ::
  "u16 \<Rightarrow> u64 \<Rightarrow> canonical_struct \<Rightarrow> (canonical_encoding_error, canonical_struct) result" where
  "field_u64 field_id value s = cs_insert field_id (u64_to_le_bytes value) s"

text \<open>The checked fold that sizes the frame, and the loop that writes the fields.\<close>

fun sum_frame_len :: "usize \<Rightarrow> bytes list \<Rightarrow> usize option" where
  "sum_frame_len tot [] = Some tot"
| "sum_frame_len tot (bs # rest) =
     (case usize_checked_add tot FIELD_HEADER_BYTES of
        None \<Rightarrow> None
      | Some value \<Rightarrow>
          (case usize_checked_add value (length bs) of
             None \<Rightarrow> None
           | Some tot' \<Rightarrow> sum_frame_len tot' rest))"

fun write_fields ::
  "bytes \<Rightarrow> (u16 \<times> bytes) list \<Rightarrow> (canonical_encoding_error, bytes) result" where
  "write_fields output [] = Ok output"
| "write_fields output ((field_id, bs) # rest) =
     try_bind (ok_or (u32_try_from (length bs)) (FieldTooLarge (length bs))) (\<lambda>len.
     write_fields (output @ u16_to_le_bytes field_id @ u32_to_le_bytes len @ bs) rest)"

definition finish :: "canonical_struct \<Rightarrow> (canonical_encoding_error, bytes) result" where
  "finish s =
     try_bind (ok_or (u16_try_from (length (cs_fields s))) (TooManyFields (length (cs_fields s))))
       (\<lambda>field_count.
     try_bind (ok_or (sum_frame_len FRAME_HEADER_BYTES (map snd (cs_fields s)))
                 (EncFrameTooLarge usize_max)) (\<lambda>frame_len.
     if frame_len > MAX_CANONICAL_FRAME_BYTES then Err (EncFrameTooLarge frame_len)
     else write_fields
       (PROTOCOL_MAGIC @ u16_to_le_bytes (cs_type_id s) @ u16_to_le_bytes (cs_version s) @
        u16_to_le_bytes field_count) (cs_fields s)))"

section \<open>Decoding\<close>

datatype canonical_decoding_error =
    FrameTooLarge usize
  | Truncated usize usize usize
  | InvalidMagic
  | NonCanonicalFieldOrder u16 u16
  | TrailingBytes usize
  | FieldCountExceeded usize usize
  | MissingField u16
  | UnexpectedField u16
  | InvalidFieldLength u16 usize usize
  | InvalidUtf8 u16
  | UnexpectedTypeId u16 u16
  | UnexpectedVersion u16 u16
  | DecUnknownHashAlgorithmId u16

record canonical_frame =
  cf_type_id :: u16
  cf_version :: u16
  cf_fields :: "(u16 \<times> bytes) list"

text \<open>\<open>take\<close> returns the slice and the advanced offset.\<close>

definition take_bytes ::
  "bytes \<Rightarrow> usize \<Rightarrow> usize \<Rightarrow> (canonical_decoding_error, bytes \<times> usize) result" where
  "take_bytes input start len =
     (let remaining = length input - start in
      case usize_checked_add start len of
        None \<Rightarrow> Err (Truncated start len remaining)
      | Some end_ \<Rightarrow>
          if end_ > length input then Err (Truncated start len remaining)
          else Ok (take len (drop start input), end_))"

definition read_u16 :: "bytes \<Rightarrow> usize \<Rightarrow> (canonical_decoding_error, u16 \<times> usize) result" where
  "read_u16 input start =
     try_bind (take_bytes input start 2) (\<lambda>(bs, offset).
     if length bs \<noteq> 2 then Err (Truncated start 2 (length input - start))
     else Ok (u16_from_le_bytes bs, offset))"

definition read_u32 :: "bytes \<Rightarrow> usize \<Rightarrow> (canonical_decoding_error, u32 \<times> usize) result" where
  "read_u32 input start =
     try_bind (take_bytes input start 4) (\<lambda>(bs, offset).
     if length bs \<noteq> 4 then Err (Truncated start 4 (length input - start))
     else Ok (u32_from_le_bytes bs, offset))"

text \<open>
  The field loop, with the number of fields still to read. On a 64-bit target the conversion of
  the field length to \<open>usize\<close> cannot fail.
\<close>

fun decode_fields ::
  "bytes \<Rightarrow> nat \<Rightarrow> u16 option \<Rightarrow> usize \<Rightarrow> (u16 \<times> bytes) list \<Rightarrow>
   (canonical_decoding_error, (u16 \<times> bytes) list \<times> usize) result" where
  "decode_fields input 0 previous offset fs = Ok (fs, offset)"
| "decode_fields input (Suc n) previous offset fs =
     try_bind (read_u16 input offset) (\<lambda>(field_id, offset).
     if (case previous of Some p \<Rightarrow> field_id \<le> p | None \<Rightarrow> False)
     then Err (NonCanonicalFieldOrder (the previous) field_id)
     else
       try_bind (read_u32 input offset) (\<lambda>(field_len, offset).
       try_bind (take_bytes input offset (unat field_len)) (\<lambda>(bs, offset).
       decode_fields input n (Some field_id) offset (fs @ [(field_id, bs)]))))"

definition decode_canonical_frame_bounded ::
  "bytes \<Rightarrow> usize \<Rightarrow> (canonical_decoding_error, canonical_frame) result" where
  "decode_canonical_frame_bounded input maximum_fields =
     (if length input > MAX_CANONICAL_FRAME_BYTES then Err (FrameTooLarge (length input))
      else
        try_bind (take_bytes input 0 (length PROTOCOL_MAGIC)) (\<lambda>(magic, offset).
        if magic \<noteq> PROTOCOL_MAGIC then Err InvalidMagic
        else
          try_bind (read_u16 input offset) (\<lambda>(type_id, offset).
          try_bind (read_u16 input offset) (\<lambda>(version, offset).
          try_bind (read_u16 input offset) (\<lambda>(field_count, offset).
          if unat field_count > maximum_fields
          then Err (FieldCountExceeded maximum_fields (unat field_count))
          else
            try_bind (decode_fields input (unat field_count) None offset []) (\<lambda>(fs, offset).
            if offset \<noteq> length input then Err (TrailingBytes (length input - offset))
            else Ok \<lparr> cf_type_id = type_id, cf_version = version, cf_fields = fs \<rparr>))))))"

definition decode_canonical_frame ::
  "bytes \<Rightarrow> (canonical_decoding_error, canonical_frame) result" where
  "decode_canonical_frame input = decode_canonical_frame_bounded input usize_max"

section \<open>Typed access to a decoded frame\<close>

definition require_type :: "canonical_frame \<Rightarrow> u16 \<Rightarrow> (canonical_decoding_error, unit) result" where
  "require_type f expected =
     (if cf_type_id f \<noteq> expected then Err (UnexpectedTypeId expected (cf_type_id f)) else Ok ())"

definition require_version ::
  "canonical_frame \<Rightarrow> u16 \<Rightarrow> (canonical_decoding_error, unit) result" where
  "require_version f expected =
     (if cf_version f \<noteq> expected then Err (UnexpectedVersion expected (cf_version f)) else Ok ())"

definition frame_field :: "canonical_frame \<Rightarrow> u16 \<Rightarrow> bytes option" where
  "frame_field f field_id = map_option snd (bsearch_get field_id fst (cf_fields f))"

definition required_field ::
  "canonical_frame \<Rightarrow> u16 \<Rightarrow> (canonical_decoding_error, bytes) result" where
  "required_field f field_id = ok_or (frame_field f field_id) (MissingField field_id)"

fun require_only_fields_loop ::
  "(u16 \<times> bytes) list \<Rightarrow> u16 list \<Rightarrow> (canonical_decoding_error, unit) result" where
  "require_only_fields_loop [] allowed = Ok ()"
| "require_only_fields_loop ((field_id, _) # rest) allowed =
     (if field_id \<notin> set allowed then Err (UnexpectedField field_id)
      else require_only_fields_loop rest allowed)"

definition require_only_fields ::
  "canonical_frame \<Rightarrow> u16 list \<Rightarrow> (canonical_decoding_error, unit) result" where
  "require_only_fields f allowed = require_only_fields_loop (cf_fields f) allowed"

definition required_fixed_field ::
  "canonical_frame \<Rightarrow> usize \<Rightarrow> u16 \<Rightarrow> (canonical_decoding_error, bytes) result" where
  "required_fixed_field f n field_id =
     try_bind (required_field f field_id) (\<lambda>bs.
     if length bs \<noteq> n then Err (InvalidFieldLength field_id n (length bs)) else Ok bs)"

definition required_u16 :: "canonical_frame \<Rightarrow> u16 \<Rightarrow> (canonical_decoding_error, u16) result" where
  "required_u16 f field_id =
     try_bind (required_fixed_field f 2 field_id) (\<lambda>bs. Ok (u16_from_le_bytes bs))"

definition required_u32 :: "canonical_frame \<Rightarrow> u16 \<Rightarrow> (canonical_decoding_error, u32) result" where
  "required_u32 f field_id =
     try_bind (required_fixed_field f 4 field_id) (\<lambda>bs. Ok (u32_from_le_bytes bs))"

definition required_u64 :: "canonical_frame \<Rightarrow> u16 \<Rightarrow> (canonical_decoding_error, u64) result" where
  "required_u64 f field_id =
     try_bind (required_fixed_field f 8 field_id) (\<lambda>bs. Ok (u64_from_le_bytes bs))"

definition required_str :: "canonical_frame \<Rightarrow> u16 \<Rightarrow> (canonical_decoding_error, bytes) result" where
  "required_str f field_id =
     try_bind (required_field f field_id) (\<lambda>bs.
     if utf8_valid bs then Ok bs else Err (InvalidUtf8 field_id))"

section \<open>Encoders of the core identifiers\<close>

definition encode_hash_algorithm_id ::
  "hash_algorithm_id \<Rightarrow> (canonical_encoding_error, bytes) result" where
  "encode_hash_algorithm_id a =
     try_bind (field_u16 1 (hash_algorithm_as_u16 a) (cs_new 0x0101 1)) finish"

definition encode_hash_domain :: "hash_domain \<Rightarrow> (canonical_encoding_error, bytes) result" where
  "encode_hash_domain d = try_bind (field_u16 1 (hash_domain_as_u16 d) (cs_new 0x0102 1)) finish"

definition encode_digest32 :: "digest32 \<Rightarrow> (canonical_encoding_error, bytes) result" where
  "encode_digest32 d =
     try_bind (field_u16 1 (hash_algorithm_as_u16 (algorithm d)) (cs_new 0x0103 1)) (\<lambda>c.
     try_bind (field_bytes 2 (digest_bytes d) c) finish)"

definition decode_digest32 :: "bytes \<Rightarrow> (canonical_decoding_error, digest32) result" where
  "decode_digest32 input =
     try_bind (decode_canonical_frame input) (\<lambda>frame.
     try_bind (require_type frame 0x0103) (\<lambda>_.
     try_bind (require_version frame 1) (\<lambda>_.
     try_bind (require_only_fields frame [1, 2]) (\<lambda>_.
     try_bind (required_u16 frame 1) (\<lambda>algorithm_id.
     try_bind (map_err (\<lambda>_. DecUnknownHashAlgorithmId algorithm_id)
                 (hash_algorithm_try_from algorithm_id)) (\<lambda>a.
     try_bind (required_field frame 2) (\<lambda>encoded_digest.
     if length encoded_digest \<noteq> 32 then Err (InvalidFieldLength 2 32 (length encoded_digest))
     else Ok (Digest32 a encoded_digest))))))))"

definition encode_hash_suite :: "hash_suite \<Rightarrow> (canonical_encoding_error, bytes) result" where
  "encode_hash_suite s =
     try_bind (field_u16 1 (suite_id s) (cs_new 0x0104 1)) (\<lambda>c.
     try_bind (field_u16 2 (hash_algorithm_as_u16 (transaction_hash s)) c) (\<lambda>c.
     try_bind (field_u16 3 (hash_algorithm_as_u16 (object_digest s)) c) (\<lambda>c.
     try_bind (field_u16 4 (hash_algorithm_as_u16 (effects_hash s)) c) (\<lambda>c.
     try_bind (field_u16 5 (hash_algorithm_as_u16 (code_hash s)) c) (\<lambda>c.
     try_bind (field_u16 6 (hash_algorithm_as_u16 (config_hash s)) c) (\<lambda>c.
     try_bind (field_u16 7 (hash_algorithm_as_u16 (certificate_hash s)) c) finish))))))"

definition encode_chain_id :: "chain_id \<Rightarrow> (canonical_encoding_error, bytes) result" where
  "encode_chain_id c = try_bind (field_str 1 c (cs_new 0x0105 1)) finish"

definition encode_protocol_version ::
  "protocol_version \<Rightarrow> (canonical_encoding_error, bytes) result" where
  "encode_protocol_version v = try_bind (field_u32 1 v (cs_new 0x0106 1)) finish"

definition encode_epoch :: "epoch \<Rightarrow> (canonical_encoding_error, bytes) result" where
  "encode_epoch e = try_bind (field_u64 1 e (cs_new 0x0107 1)) finish"

definition encode_signature_scheme_id ::
  "signature_scheme_id \<Rightarrow> (canonical_encoding_error, bytes) result" where
  "encode_signature_scheme_id s =
     try_bind (field_u16 1 (signature_scheme_as_u16 s) (cs_new 0x0108 1)) finish"

section \<open>Shared shapes of the encoders and decoders\<close>

text \<open>
  The loop by which an encoder writes a list: item \<open>index\<close> goes to field \<open>index + base\<close>. It is
  the loop of \<open>encode_validator_set\<close>, \<open>encode_proposal_payload\<close>, \<open>encode_quorum_certificate\<close> and the
  schedule encoders, with their own item encoder and errors.
\<close>

definition put_item ::
  "'e \<Rightarrow> (canonical_encoding_error \<Rightarrow> 'e) \<Rightarrow> ('a \<Rightarrow> ('e, bytes) result) \<Rightarrow> usize \<Rightarrow>
   canonical_struct \<Rightarrow> nat \<times> 'a \<Rightarrow> ('e, canonical_struct) result" where
  "put_item too_many wrap enc base c ix =
     (case ix of (index, x) \<Rightarrow>
       try_bind (ok_or (u16_try_from (index + base)) too_many) (\<lambda>field_id.
       try_bind (enc x) (\<lambda>b.
       map_err wrap (field_bytes field_id b c))))"

definition put_items ::
  "'e \<Rightarrow> (canonical_encoding_error \<Rightarrow> 'e) \<Rightarrow> ('a \<Rightarrow> ('e, bytes) result) \<Rightarrow> usize \<Rightarrow> 'a list \<Rightarrow>
   canonical_struct \<Rightarrow> ('e, canonical_struct) result" where
  "put_items too_many wrap enc base xs c =
     try_fold (put_item too_many wrap enc base) c (enumerate 0 xs)"

text \<open>
  How a decoder of a closed schema starts: decode the frame, then check its type, its version and
  that it has no other fields.
\<close>

definition decode_closed_frame ::
  "u16 \<Rightarrow> u16 \<Rightarrow> u16 list \<Rightarrow> bytes \<Rightarrow> (canonical_decoding_error, canonical_frame) result" where
  "decode_closed_frame type_id version allowed input =
     try_bind (decode_canonical_frame input) (\<lambda>frame.
     try_bind (require_type frame type_id) (\<lambda>_.
     try_bind (require_version frame version) (\<lambda>_.
     try_bind (require_only_fields frame allowed) (\<lambda>_.
     Ok frame))))"

end
