(* ===== verification/Canonical_Codec.thy ===== *)
theory Canonical_Codec
  imports Canonical_Encoding
begin

text \<open>
  What the canonical frame of \<open>Canonical_Encoding\<close> guarantees: the exact bytes the encoder
  writes, the exact set of byte strings the decoder accepts and how it refuses the others. The
  locales \<open>frame_codec\<close> and \<open>strict_codec\<close> are the contracts every codec built on the frame
  is held to.
\<close>

section \<open>The bytes of a frame\<close>

definition encode_field :: "u16 \<times> bytes \<Rightarrow> bytes" where
  "encode_field fb =
     u16_to_le_bytes (fst fb) @ u32_to_le_bytes (of_nat (length (snd fb))) @ snd fb"

definition frame_bytes :: "u16 \<Rightarrow> u16 \<Rightarrow> (u16 \<times> bytes) list \<Rightarrow> bytes" where
  "frame_bytes t v fs =
     PROTOCOL_MAGIC @ u16_to_le_bytes t @ u16_to_le_bytes v @ u16_to_le_bytes (of_nat (length fs)) @
     concat (map encode_field fs)"

definition frame_size :: "(u16 \<times> bytes) list \<Rightarrow> nat" where
  "frame_size fs = 10 + sum_list (map (\<lambda>fb. 6 + length (snd fb)) fs)"

definition frame_fits :: "(u16 \<times> bytes) list \<Rightarrow> bool" where
  "frame_fits fs \<longleftrightarrow> length fs < 2 ^ 16 \<and> frame_size fs \<le> MAX_CANONICAL_FRAME_BYTES"

lemma length_PROTOCOL_MAGIC [simp]: "length PROTOCOL_MAGIC = 4"
  by (simp add: PROTOCOL_MAGIC_def)

lemma length_encode_field [simp]: "length (encode_field fb) = 6 + length (snd fb)"
  by (simp add: encode_field_def)

lemma length_concat_encode_field:
  "length (concat (map encode_field fs)) = sum_list (map (\<lambda>fb. 6 + length (snd fb)) fs)"
  by (simp add: length_concat comp_def)

lemma length_frame_bytes [simp]: "length (frame_bytes t v fs) = frame_size fs"
  by (simp add: frame_bytes_def frame_size_def length_concat_encode_field)

lemma max_frame_less: "MAX_CANONICAL_FRAME_BYTES < 2 ^ 32" "MAX_CANONICAL_FRAME_BYTES < usize_max"
  by (simp_all add: MAX_CANONICAL_FRAME_BYTES_def usize_max_def)

lemma field_length_le_frame_size: "fb \<in> set fs \<Longrightarrow> length (snd fb) \<le> frame_size fs"
proof -
  assume "fb \<in> set fs"
  then have "6 + length (snd fb) \<le> sum_list (map (\<lambda>fb. 6 + length (snd fb)) fs)"
    by (intro member_le_sum_list) auto
  then show ?thesis by (simp add: frame_size_def)
qed

lemma frame_fits_field: "frame_fits fs \<Longrightarrow> fb \<in> set fs \<Longrightarrow> length (snd fb) < 2 ^ 32"
  using field_length_le_frame_size [of fb fs] max_frame_less(1) by (simp add: frame_fits_def)

lemma sum_frame_len_eq:
  "n \<le> usize_max \<Longrightarrow>
   sum_frame_len n (map snd fs) =
     (let m = n + sum_list (map (\<lambda>fb. 6 + length (snd fb)) fs) in
      if m \<le> usize_max then Some m else None)"
proof (induction fs arbitrary: n)
  case Nil
  then show ?case by simp
next
  case (Cons fb fs)
  then show ?case
    by (cases "n + 6 + length (snd fb) \<le> usize_max")
      (auto simp: usize_checked_add_def FIELD_HEADER_BYTES_def Let_def add.assoc)
qed

lemma write_fields_eq:
  "\<forall>fb \<in> set fs. length (snd fb) < 2 ^ 32 \<Longrightarrow>
   write_fields out fs = Ok (out @ concat (map encode_field fs))"
  by (induction fs arbitrary: out)
    (auto simp: encode_field_def u32_try_from_def)

text \<open>The encoder on every branch.\<close>

lemma finish_eq:
  "finish s =
     (let fs = cs_fields s in
      if 2 ^ 16 \<le> length fs then Err (TooManyFields (length fs))
      else if MAX_CANONICAL_FRAME_BYTES < frame_size fs
        then Err (EncFrameTooLarge (min usize_max (frame_size fs)))
      else Ok (frame_bytes (cs_type_id s) (cs_version s) fs))"
proof -
  let ?fs = "cs_fields s"
  have size: "sum_frame_len FRAME_HEADER_BYTES (map snd ?fs) =
      (if frame_size ?fs \<le> usize_max then Some (frame_size ?fs) else None)"
    by (subst sum_frame_len_eq)
      (simp_all add: FRAME_HEADER_BYTES_def frame_size_def usize_max_def Let_def)
  have fields: "frame_fits ?fs \<Longrightarrow> \<forall>fb \<in> set ?fs. length (snd fb) < 2 ^ 32"
    using frame_fits_field by blast
  show ?thesis
    using max_frame_less(2) fields
    by (auto simp: finish_def size u16_try_from_def Let_def write_fields_eq frame_fits_def
        frame_bytes_def not_le not_less min_def)
qed

lemma finish_Ok_iff:
  "finish s = Ok b \<longleftrightarrow>
     frame_fits (cs_fields s) \<and> b = frame_bytes (cs_type_id s) (cs_version s) (cs_fields s)"
  by (auto simp: finish_eq frame_fits_def Let_def split: if_splits)

lemma finish_neq_Abort: "finish s \<noteq> Abort"
  by (simp add: finish_eq Let_def)

section \<open>The decoder reads the bytes of a frame\<close>

lemma take_bytes_append:
  assumes "length pre + length xs \<le> usize_max"
  shows "take_bytes (pre @ xs @ post) (length pre) (length xs) = Ok (xs, length pre + length xs)"
  using assms by (simp add: take_bytes_def usize_checked_add_def)

lemma take_bytes_OkD:
  assumes "take_bytes input start len = Ok (bs, off)"
  shows "off = start + len" "off \<le> length input" "length bs = len"
    "drop start input = bs @ drop off input"
proof -
  from assms have *: "off = start + len" "off \<le> length input" "bs = take len (drop start input)"
    by (auto simp: take_bytes_def usize_checked_add_def Let_def split: if_splits)
  then show "off = start + len" "off \<le> length input" "length bs = len" by auto
  show "drop start input = bs @ drop off input"
    using * by (metis add.commute append_take_drop_id drop_drop)
qed

lemma take_bytes_neq_Abort: "take_bytes input start len \<noteq> Abort"
  by (simp add: take_bytes_def Let_def split: option.split)

lemma read_u16_append:
  "length pre + 2 \<le> usize_max \<Longrightarrow>
   read_u16 (pre @ u16_to_le_bytes w @ post) (length pre) = Ok (w, length pre + 2)"
  using take_bytes_append [of pre "u16_to_le_bytes w" post] by (simp add: read_u16_def)

lemma read_u32_append:
  "length pre + 4 \<le> usize_max \<Longrightarrow>
   read_u32 (pre @ u32_to_le_bytes w @ post) (length pre) = Ok (w, length pre + 4)"
  using take_bytes_append [of pre "u32_to_le_bytes w" post] by (simp add: read_u32_def)

lemma read_u16_OkD:
  assumes "read_u16 input start = Ok (w, off)"
  shows "off = start + 2" "off \<le> length input"
    "drop start input = u16_to_le_bytes w @ drop off input"
  using assms by (auto simp: read_u16_def result_simps split: if_splits dest: take_bytes_OkD)

lemma read_u32_OkD:
  assumes "read_u32 input start = Ok (w, off)"
  shows "off = start + 4" "off \<le> length input"
    "drop start input = u32_to_le_bytes w @ drop off input"
  using assms by (auto simp: read_u32_def result_simps split: if_splits dest: take_bytes_OkD)

lemma decode_fields_encode:
  assumes "length pre + length (concat (map encode_field fs)) \<le> usize_max"
    and "\<forall>fb \<in> set fs. length (snd fb) < 2 ^ 32"
    and "sorted_wrt (<) (map fst fs)"
    and "\<forall>p. previous = Some p \<longrightarrow> (\<forall>fb \<in> set fs. p < fst fb)"
  shows "decode_fields (pre @ concat (map encode_field fs) @ post) (length fs) previous (length pre) acc
    = Ok (acc @ fs, length pre + length (concat (map encode_field fs)))"
  using assms
proof (induction fs arbitrary: pre previous acc)
  case Nil
  then show ?case by simp
next
  case (Cons fb fs)
  obtain i bs where fb: "fb = (i, bs)" by (cases fb)
  let ?rest = "concat (map encode_field fs)"
  let ?i = "u16_to_le_bytes i" and ?n = "u32_to_le_bytes (of_nat (length bs))"
  have in_eq: "pre @ concat (map encode_field (fb # fs)) @ post = pre @ ?i @ ?n @ bs @ ?rest @ post"
    by (simp add: fb encode_field_def)
  have len: "length pre + 6 + length bs + length ?rest \<le> usize_max"
    using Cons.prems(1) by (simp add: fb)
  have r1: "read_u16 (pre @ ?i @ ?n @ bs @ ?rest @ post) (length pre) = Ok (i, length pre + 2)"
    using len by (intro read_u16_append) simp
  have r2: "read_u32 (pre @ ?i @ ?n @ bs @ ?rest @ post) (length pre + 2) =
      Ok (of_nat (length bs), length pre + 6)"
    using read_u32_append [of "pre @ ?i" "of_nat (length bs)" "bs @ ?rest @ post"] len by simp
  have r3: "take_bytes (pre @ ?i @ ?n @ bs @ ?rest @ post) (length pre + 6) (length bs) =
      Ok (bs, length pre + 6 + length bs)"
    using take_bytes_append [of "pre @ ?i @ ?n" bs "?rest @ post"] len by simp
  have lt: "unat (of_nat (length bs) :: u32) = length bs"
    using Cons.prems(2) by (simp add: fb unat_of_nat)
  have order: "\<not> (case previous of Some p \<Rightarrow> i \<le> p | None \<Rightarrow> False)"
    using Cons.prems(4) by (auto simp: fb split: option.splits)
  have "decode_fields ((pre @ encode_field fb) @ ?rest @ post) (length fs) (Some i)
      (length (pre @ encode_field fb)) (acc @ [fb]) =
      Ok ((acc @ [fb]) @ fs, length (pre @ encode_field fb) + length ?rest)"
    using Cons.prems len by (intro Cons.IH) (auto simp: fb)
  then have rec: "decode_fields (pre @ ?i @ ?n @ bs @ ?rest @ post) (length fs) (Some i)
      (length pre + 6 + length bs) (acc @ [(i, bs)]) =
      Ok (acc @ fb # fs, length pre + 6 + length bs + length ?rest)"
    by (simp add: fb encode_field_def add.assoc)
  show ?case
    unfolding in_eq using order
    by (simp add: r1 r2 r3 lt rec del: add_2_eq_Suc add_2_eq_Suc') (simp add: fb)
qed

lemma decode_fields_SucE:
  assumes "decode_fields input (Suc n) previous off acc = Ok r"
  obtains i o1 w o2 bs o3 where "read_u16 input off = Ok (i, o1)"
    "\<not> (case previous of Some p \<Rightarrow> i \<le> p | None \<Rightarrow> False)"
    "read_u32 input o1 = Ok (w, o2)" "take_bytes input o2 (unat w) = Ok (bs, o3)"
    "decode_fields input n (Some i) o3 (acc @ [(i, bs)]) = Ok r"
  using assms by (auto simp: result_simps split: if_splits)

lemma decode_fields_OkD:
  assumes "decode_fields input n previous off acc = Ok (out, off')" "off \<le> length input"
  shows "\<exists>fs. out = acc @ fs \<and> length fs = n \<and> sorted_wrt (<) (map fst fs) \<and>
    (\<forall>p. previous = Some p \<longrightarrow> (\<forall>fb \<in> set fs. p < fst fb)) \<and>
    (\<forall>fb \<in> set fs. length (snd fb) < 2 ^ 32) \<and>
    off' = off + length (concat (map encode_field fs)) \<and> off' \<le> length input \<and>
    drop off input = concat (map encode_field fs) @ drop off' input"
  using assms
proof (induction n arbitrary: previous off acc)
  case 0
  then show ?case by simp
next
  case (Suc n)
  from Suc.prems(1) obtain i o1 w o2 bs o3 where
    r1: "read_u16 input off = Ok (i, o1)"
    and order: "\<not> (case previous of Some p \<Rightarrow> i \<le> p | None \<Rightarrow> False)"
    and r2: "read_u32 input o1 = Ok (w, o2)"
    and r3: "take_bytes input o2 (unat w) = Ok (bs, o3)"
    and rec: "decode_fields input n (Some i) o3 (acc @ [(i, bs)]) = Ok (out, off')"
    by (rule decode_fields_SucE)
  note R1 = read_u16_OkD [OF r1] and R2 = read_u32_OkD [OF r2] and R3 = take_bytes_OkD [OF r3]
  from Suc.IH [OF rec R3(2)] obtain fs where
    fs: "out = (acc @ [(i, bs)]) @ fs" "length fs = n" "sorted_wrt (<) (map fst fs)"
      "\<forall>fb \<in> set fs. i < fst fb" "\<forall>fb \<in> set fs. length (snd fb) < 2 ^ 32"
      "off' = o3 + length (concat (map encode_field fs))" "off' \<le> length input"
      "drop o3 input = concat (map encode_field fs) @ drop off' input"
    by auto
  have w: "(of_nat (length bs) :: u32) = w" "length bs < 2 ^ 32"
    using R3(3) unsigned_less [of w, where 'a = nat] by auto
  have prev: "\<forall>p. previous = Some p \<longrightarrow> (\<forall>fb \<in> set ((i, bs) # fs). p < fst fb)"
    using order fs(4) by (force split: option.splits)
  show ?case
    using fs w prev R1 R2 R3
    by (intro exI [of _ "(i, bs) # fs"])
      (simp add: encode_field_def [of "(i, bs)"] add.assoc add.left_commute [of off])
qed

section \<open>Round trip of the frame\<close>

definition frame_struct :: "canonical_frame \<Rightarrow> canonical_struct" where
  "frame_struct f =
     \<lparr> cs_type_id = cf_type_id f, cs_version = cf_version f, cs_fields = cf_fields f \<rparr>"

definition frame_wf :: "canonical_frame \<Rightarrow> bool" where
  "frame_wf f \<longleftrightarrow> key_sorted fst (cf_fields f)"

definition encode_frame :: "canonical_frame \<Rightarrow> (canonical_encoding_error, bytes) result" where
  "encode_frame f = finish (frame_struct f)"

lemma encode_frame_Ok_iff:
  "encode_frame f = Ok b \<longleftrightarrow>
     frame_fits (cf_fields f) \<and> b = frame_bytes (cf_type_id f) (cf_version f) (cf_fields f)"
  by (simp add: encode_frame_def finish_Ok_iff frame_struct_def)

lemma decode_frame_bytes_bounded:
  assumes "frame_fits fs" "key_sorted fst fs" "length fs \<le> maximum_fields"
  shows "decode_canonical_frame_bounded (frame_bytes t v fs) maximum_fields =
    Ok \<lparr> cf_type_id = t, cf_version = v, cf_fields = fs \<rparr>"
proof -
  let ?t = "u16_to_le_bytes t" and ?v = "u16_to_le_bytes v"
  let ?n = "u16_to_le_bytes (of_nat (length fs))" and ?r = "concat (map encode_field fs)"
  have size: "frame_size fs \<le> MAX_CANONICAL_FRAME_BYTES" using assms(1) by (simp add: frame_fits_def)
  have len: "10 + length ?r = frame_size fs" by (simp add: frame_size_def length_concat_encode_field)
  have bound: "10 + length ?r \<le> usize_max" using size len max_frame_less(2) by simp
  have b: "frame_bytes t v fs = PROTOCOL_MAGIC @ ?t @ ?v @ ?n @ ?r" by (simp add: frame_bytes_def)
  have r0: "take_bytes (frame_bytes t v fs) 0 4 = Ok (PROTOCOL_MAGIC, 4)"
    using take_bytes_append [of "[]" PROTOCOL_MAGIC "?t @ ?v @ ?n @ ?r"] bound by (simp add: b)
  have r1: "read_u16 (frame_bytes t v fs) 4 = Ok (t, 6)"
    using read_u16_append [of PROTOCOL_MAGIC t "?v @ ?n @ ?r"] bound by (simp add: b)
  have r2: "read_u16 (frame_bytes t v fs) 6 = Ok (v, 8)"
    using read_u16_append [of "PROTOCOL_MAGIC @ ?t" v "?n @ ?r"] bound by (simp add: b)
  have r3: "read_u16 (frame_bytes t v fs) 8 = Ok (of_nat (length fs), 10)"
    using read_u16_append [of "PROTOCOL_MAGIC @ ?t @ ?v" "of_nat (length fs)" ?r] bound
    by (simp add: b)
  have cnt: "unat (of_nat (length fs) :: u16) = length fs"
    using assms(1) by (simp add: frame_fits_def unat_of_nat)
  have r4: "decode_fields (frame_bytes t v fs) (length fs) None 10 [] = Ok (fs, frame_size fs)"
    using decode_fields_encode [of "PROTOCOL_MAGIC @ ?t @ ?v @ ?n" fs None "[]" "[]"]
      assms frame_fits_field bound by (simp add: b key_sorted_def len)
  show ?thesis
    using size assms(3)
    by (simp add: decode_canonical_frame_bounded_def r0 r1 r2 r3 cnt r4)
qed

lemma decode_canonical_frame_boundedD:
  assumes "decode_canonical_frame_bounded b maximum_fields = Ok f"
  shows "frame_fits (cf_fields f)" "key_sorted fst (cf_fields f)"
    "length (cf_fields f) \<le> maximum_fields"
    "b = frame_bytes (cf_type_id f) (cf_version f) (cf_fields f)"
proof -
  from assms obtain t o1 v o2 n o3 fs o4 and magic o0 where
    size: "length b \<le> MAX_CANONICAL_FRAME_BYTES"
    and r0: "take_bytes b 0 4 = Ok (PROTOCOL_MAGIC, o0)"
    and r1: "read_u16 b o0 = Ok (t, o1)" and r2: "read_u16 b o1 = Ok (v, o2)"
    and r3: "read_u16 b o2 = Ok (n, o3)" and cnt: "unat n \<le> maximum_fields"
    and r4: "decode_fields b (unat n) None o3 [] = Ok (fs, length b)"
    and f: "f = \<lparr> cf_type_id = t, cf_version = v, cf_fields = fs \<rparr>"
    by (auto simp: decode_canonical_frame_bounded_def result_simps split: if_splits)
  note R0 = take_bytes_OkD [OF r0] and R1 = read_u16_OkD [OF r1] and R2 = read_u16_OkD [OF r2]
    and R3 = read_u16_OkD [OF r3]
  from decode_fields_OkD [OF r4 R3(2)] have fs: "length fs = unat n" "key_sorted fst fs"
    "length b = o3 + length (concat (map encode_field fs))"
    "drop o3 b = concat (map encode_field fs)"
    by (auto simp: key_sorted_def)
  have n: "of_nat (length fs) = n" "length fs < 2 ^ 16"
    using fs(1) unsigned_less [of n, where 'a = nat] by auto
  show b: "b = frame_bytes (cf_type_id f) (cf_version f) (cf_fields f)"
    using R0(4) R1(3) R2(3) R3(3) fs(4) n by (simp add: frame_bytes_def f)
  show "frame_fits (cf_fields f)"
    using size n b length_frame_bytes by (metis f canonical_frame.select_convs(3) frame_fits_def)
  show "key_sorted fst (cf_fields f)" "length (cf_fields f) \<le> maximum_fields"
    using fs cnt by (simp_all add: f)
qed

lemma decode_canonical_frame_bounded_Ok_iff:
  "decode_canonical_frame_bounded b maximum_fields = Ok f \<longleftrightarrow>
     frame_wf f \<and> encode_frame f = Ok b \<and> length (cf_fields f) \<le> maximum_fields"
  using decode_canonical_frame_boundedD [of b maximum_fields f]
    decode_frame_bytes_bounded [of "cf_fields f" maximum_fields "cf_type_id f" "cf_version f"]
  by (auto simp: encode_frame_Ok_iff frame_wf_def)

lemma decode_canonical_frame_Ok_iff:
  "decode_canonical_frame b = Ok f \<longleftrightarrow> frame_wf f \<and> encode_frame f = Ok b"
proof -
  have "frame_fits fs \<Longrightarrow> length fs \<le> usize_max" for fs
    by (simp add: frame_fits_def usize_max_def)
  then show ?thesis
    by (auto simp: decode_canonical_frame_def decode_canonical_frame_bounded_Ok_iff
        encode_frame_Ok_iff)
qed

section \<open>Refusals\<close>

lemma take_bytes_take:
  "take_bytes input start len = Ok (bs, off) \<Longrightarrow> start \<le> m \<Longrightarrow> m \<le> length input \<Longrightarrow>
   take_bytes (take m input) start len =
     (if off \<le> m then Ok (bs, off) else Err (Truncated start len (m - start)))"
  by (auto simp: take_bytes_def usize_checked_add_def Let_def drop_take min_def split: if_splits)

lemma read_u16_take:
  "read_u16 input start = Ok (w, off) \<Longrightarrow> start \<le> m \<Longrightarrow> m \<le> length input \<Longrightarrow>
   read_u16 (take m input) start =
     (if off \<le> m then Ok (w, off) else Err (Truncated start 2 (m - start)))"
  using take_bytes_take [of input start 2 _ _ m]
  by (cases "take_bytes input start 2") (auto simp: read_u16_def split: if_splits)

lemma read_u32_take:
  "read_u32 input start = Ok (w, off) \<Longrightarrow> start \<le> m \<Longrightarrow> m \<le> length input \<Longrightarrow>
   read_u32 (take m input) start =
     (if off \<le> m then Ok (w, off) else Err (Truncated start 4 (m - start)))"
  using take_bytes_take [of input start 4 _ _ m]
  by (cases "take_bytes input start 4") (auto simp: read_u32_def split: if_splits)

lemma decode_fields_offset_mono:
  "decode_fields input n previous off acc = Ok (out, off') \<Longrightarrow> off \<le> off'"
proof (induction n arbitrary: previous off acc)
  case (Suc n)
  from Suc.prems obtain i o1 w o2 bs o3 where
    r1: "read_u16 input off = Ok (i, o1)" and r2: "read_u32 input o1 = Ok (w, o2)"
    and r3: "take_bytes input o2 (unat w) = Ok (bs, o3)"
    and rec: "decode_fields input n (Some i) o3 (acc @ [(i, bs)]) = Ok (out, off')"
    by (rule decode_fields_SucE)
  show ?case
    using Suc.IH [OF rec] read_u16_OkD(1) [OF r1] read_u32_OkD(1) [OF r2] take_bytes_OkD(1) [OF r3]
    by linarith
qed simp

lemma decode_fields_take:
  assumes "decode_fields input n previous off acc = Ok (out, off')" "off \<le> m" "m \<le> length input"
  shows "if off' \<le> m then decode_fields (take m input) n previous off acc = Ok (out, off')
    else \<exists>o' k r. decode_fields (take m input) n previous off acc = Err (Truncated o' k r)"
  using assms
proof (induction n arbitrary: previous off acc)
  case 0
  then show ?case by simp
next
  case (Suc n)
  from Suc.prems(1) obtain i o1 w o2 bs o3 where
    r1: "read_u16 input off = Ok (i, o1)"
    and order: "\<not> (case previous of Some p \<Rightarrow> i \<le> p | None \<Rightarrow> False)"
    and r2: "read_u32 input o1 = Ok (w, o2)"
    and r3: "take_bytes input o2 (unat w) = Ok (bs, o3)"
    and rec: "decode_fields input n (Some i) o3 (acc @ [(i, bs)]) = Ok (out, off')"
    by (rule decode_fields_SucE)
  have mono: "o1 \<le> o2" "o2 \<le> o3" "o3 \<le> off'"
    using read_u32_OkD(1) [OF r2] take_bytes_OkD(1) [OF r3] decode_fields_offset_mono [OF rec]
    by auto
  note T1 = read_u16_take [OF r1 Suc.prems(2,3)]
  show ?case
  proof (cases "o3 \<le> m")
    case True
    with mono have "o1 \<le> m" "o2 \<le> m" by auto
    with True order show ?thesis
      using Suc.IH [OF rec True Suc.prems(3)] Suc.prems
      by (simp add: T1 read_u32_take [OF r2] take_bytes_take [OF r3])
  next
    case False
    with mono order show ?thesis
      using Suc.prems T1 read_u32_take [OF r2, of m] take_bytes_take [OF r3, of m]
      by (cases "o1 \<le> m"; cases "o2 \<le> m") auto
  qed
qed

lemma decode_canonical_frame_take:
  assumes "decode_canonical_frame b = Ok f" "m < length b"
  shows "\<exists>o' k r. decode_canonical_frame (take m b) = Err (Truncated o' k r)"
proof -
  from assms(1) obtain t o1 v o2 n o3 fs o0 where
    size: "length b \<le> MAX_CANONICAL_FRAME_BYTES"
    and r0: "take_bytes b 0 4 = Ok (PROTOCOL_MAGIC, o0)"
    and r1: "read_u16 b o0 = Ok (t, o1)" and r2: "read_u16 b o1 = Ok (v, o2)"
    and r3: "read_u16 b o2 = Ok (n, o3)" and cnt: "unat n \<le> usize_max"
    and r4: "decode_fields b (unat n) None o3 [] = Ok (fs, length b)"
    by (auto simp: decode_canonical_frame_def decode_canonical_frame_bounded_def result_simps
        split: if_splits)
  have "o0 \<le> o1" "o1 \<le> o2" "o2 \<le> o3"
    using read_u16_OkD(1) [OF r1] read_u16_OkD(1) [OF r2] read_u16_OkD(1) [OF r3] by auto
  then consider "o3 \<le> m" "o2 \<le> m" "o1 \<le> m" "o0 \<le> m" | "m < o3" "o2 \<le> m" "o1 \<le> m" "o0 \<le> m"
    | "m < o2" "o1 \<le> m" "o0 \<le> m" | "m < o1" "o0 \<le> m" | "m < o0"
    by linarith
  then show ?thesis
    using assms(2) size cnt take_bytes_take [OF r0, of m] read_u16_take [OF r1, of m]
      read_u16_take [OF r2, of m] read_u16_take [OF r3, of m] decode_fields_take [OF r4, of m]
    by cases
      (auto simp: decode_canonical_frame_def decode_canonical_frame_bounded_def)
qed

lemma take_bytes_append_right:
  "take_bytes input start len = Ok r \<Longrightarrow> take_bytes (input @ x) start len = Ok r"
  by (auto simp: take_bytes_def usize_checked_add_def Let_def split: if_splits)

lemma read_u16_append_right: "read_u16 input start = Ok r \<Longrightarrow> read_u16 (input @ x) start = Ok r"
  using take_bytes_append_right [of input start 2 _ x]
  by (cases "take_bytes input start 2") (auto simp: read_u16_def split: if_splits)

lemma read_u32_append_right: "read_u32 input start = Ok r \<Longrightarrow> read_u32 (input @ x) start = Ok r"
  using take_bytes_append_right [of input start 4 _ x]
  by (cases "take_bytes input start 4") (auto simp: read_u32_def split: if_splits)

lemma decode_fields_append_right:
  "decode_fields input n previous off acc = Ok r \<Longrightarrow>
   decode_fields (input @ x) n previous off acc = Ok r"
proof (induction n arbitrary: previous off acc)
  case (Suc n)
  from Suc.prems obtain i o1 w o2 bs o3 where
    r1: "read_u16 input off = Ok (i, o1)"
    and order: "\<not> (case previous of Some p \<Rightarrow> i \<le> p | None \<Rightarrow> False)"
    and r2: "read_u32 input o1 = Ok (w, o2)"
    and r3: "take_bytes input o2 (unat w) = Ok (bs, o3)"
    and rec: "decode_fields input n (Some i) o3 (acc @ [(i, bs)]) = Ok r"
    by (rule decode_fields_SucE)
  then show ?case
    using Suc.IH [OF rec]
    by (simp add: read_u16_append_right [OF r1] read_u32_append_right [OF r2]
        take_bytes_append_right [OF r3])
qed simp

lemma decode_canonical_frame_append:
  assumes "decode_canonical_frame b = Ok f" "x \<noteq> []"
    "length (b @ x) \<le> MAX_CANONICAL_FRAME_BYTES"
  shows "decode_canonical_frame (b @ x) = Err (TrailingBytes (length x))"
proof -
  from assms(1) obtain t o1 v o2 n o3 fs o0 where
    r0: "take_bytes b 0 4 = Ok (PROTOCOL_MAGIC, o0)"
    and r1: "read_u16 b o0 = Ok (t, o1)" and r2: "read_u16 b o1 = Ok (v, o2)"
    and r3: "read_u16 b o2 = Ok (n, o3)" and cnt: "unat n \<le> usize_max"
    and r4: "decode_fields b (unat n) None o3 [] = Ok (fs, length b)"
    by (auto simp: decode_canonical_frame_def decode_canonical_frame_bounded_def result_simps
        split: if_splits)
  show ?thesis
    using assms(2,3) cnt
    by (simp add: decode_canonical_frame_def decode_canonical_frame_bounded_def
        take_bytes_append_right [OF r0] read_u16_append_right [OF r1] read_u16_append_right [OF r2]
        read_u16_append_right [OF r3] decode_fields_append_right [OF r4])
qed

section \<open>Contracts of a codec\<close>

text \<open>
  \<open>frame_codec\<close>: decoding gives back every well-formed value that was encoded. \<open>strict_codec\<close>
  adds that the decoder accepts nothing but the encoding of a well-formed value, so that each
  value has exactly one accepted representation.
\<close>

locale frame_codec =
  fixes enc :: "'a \<Rightarrow> ('e, bytes) result"
    and dec :: "bytes \<Rightarrow> ('d, 'a) result"
    and wf :: "'a \<Rightarrow> bool"
  assumes dec_enc: "wf x \<Longrightarrow> enc x = Ok b \<Longrightarrow> dec b = Ok x"
begin

lemma enc_inject: "wf x \<Longrightarrow> wf y \<Longrightarrow> enc x = Ok b \<Longrightarrow> enc y = Ok b \<Longrightarrow> x = y"
  using dec_enc by (metis result.inject(1))

end

locale strict_codec = frame_codec +
  assumes enc_dec: "dec b = Ok x \<Longrightarrow> wf x \<and> enc x = Ok b"
begin

lemma dec_Ok_iff: "dec b = Ok x \<longleftrightarrow> wf x \<and> enc x = Ok b"
  using dec_enc enc_dec by blast

lemma dec_inject: "dec b = Ok x \<Longrightarrow> dec b' = Ok x \<Longrightarrow> b = b'"
  using enc_dec by (metis result.inject(1))

end

interpretation frame: strict_codec encode_frame decode_canonical_frame frame_wf
  by unfold_locales (auto simp: decode_canonical_frame_Ok_iff)

section \<open>Building and reading frames with known fields\<close>

text \<open>
  \<open>encode_simps\<close> turns the chain of \<open>field_*\<close> calls of an encoder into one frame with a literal
  field list, and the accessors of a decoder into lookups in such a list.
\<close>

named_theorems encode_simps

lemma finish_encode_frame [encode_simps]:
  "finish \<lparr> cs_type_id = t, cs_version = v, cs_fields = fs \<rparr> =
     encode_frame \<lparr> cf_type_id = t, cf_version = v, cf_fields = fs \<rparr>"
  by (simp add: encode_frame_def frame_struct_def)

lemma cs_insert_literal [encode_simps]:
  "cs_insert i b \<lparr> cs_type_id = t, cs_version = v, cs_fields = fs \<rparr> =
     (if i \<in> fst ` set fs then Err (DuplicateField i)
      else Ok \<lparr> cs_type_id = t, cs_version = v, cs_fields = bm_insert i b fs \<rparr>)"
  by (simp add: cs_insert_def bm_contains_key_iff)

declare cs_new_def [encode_simps] field_bytes_def [encode_simps] field_str_def [encode_simps]
  field_u16_def [encode_simps] field_u32_def [encode_simps] field_u64_def [encode_simps]

lemma encode_frame_neq_Abort [simp]: "encode_frame f \<noteq> Abort"
  by (simp add: encode_frame_def finish_neq_Abort)

lemma decode_encode_frame:
  "encode_frame f = Ok b \<Longrightarrow> frame_wf f \<Longrightarrow> decode_canonical_frame b = Ok f"
  by (rule frame.dec_enc)

lemma frame_field_eq: "frame_wf f \<Longrightarrow> frame_field f i = map_of (cf_fields f) i"
proof -
  assume wf: "frame_wf f"
  then have sorted: "key_sorted fst (cf_fields f)" by (simp add: frame_wf_def)
  show ?thesis
  proof (cases "map_of (cf_fields f) i")
    case None
    then have "bsearch_get i fst (cf_fields f) = None"
      using bsearch_get_None_iff [OF sorted] by (simp add: map_of_eq_None_iff)
    with None show ?thesis by (simp add: frame_field_def)
  next
    case (Some b)
    then have "bsearch_get i fst (cf_fields f) = Some (i, b)"
      using bsearch_get_Some_iff [OF sorted] by (auto dest: map_of_SomeD)
    with Some show ?thesis by (simp add: frame_field_def)
  qed
qed

lemma required_field_Ok_iff [result_simps]:
  "required_field f i = Ok b \<longleftrightarrow> frame_field f i = Some b"
  by (auto simp: required_field_def result_simps)

lemma required_fixed_field_Ok_iff [result_simps]:
  "required_fixed_field f n i = Ok b \<longleftrightarrow> frame_field f i = Some b \<and> length b = n"
  by (auto simp: required_fixed_field_def result_simps split: if_splits)

lemma required_u16_Ok_iff [result_simps]:
  "required_u16 f i = Ok w \<longleftrightarrow> frame_field f i = Some (u16_to_le_bytes w)"
  by (cases "frame_field f i") (auto simp: required_u16_def result_simps)

lemma required_u32_Ok_iff [result_simps]:
  "required_u32 f i = Ok w \<longleftrightarrow> frame_field f i = Some (u32_to_le_bytes w)"
  by (cases "frame_field f i") (auto simp: required_u32_def result_simps)

lemma required_u64_Ok_iff [result_simps]:
  "required_u64 f i = Ok w \<longleftrightarrow> frame_field f i = Some (u64_to_le_bytes w)"
  by (cases "frame_field f i") (auto simp: required_u64_def result_simps)

lemma required_str_Ok_iff [result_simps]:
  "required_str f i = Ok b \<longleftrightarrow> frame_field f i = Some b \<and> utf8_valid b"
  by (auto simp: required_str_def result_simps split: if_splits)

lemma require_type_Ok_iff [result_simps]: "require_type f t = Ok u \<longleftrightarrow> cf_type_id f = t"
  by (simp add: require_type_def)

lemma require_version_Ok_iff [result_simps]: "require_version f v = Ok u \<longleftrightarrow> cf_version f = v"
  by (simp add: require_version_def)

lemma require_only_fields_Ok_iff [result_simps]:
  "require_only_fields f allowed = Ok u \<longleftrightarrow> fst ` set (cf_fields f) \<subseteq> set allowed"
proof -
  have "require_only_fields_loop fs allowed = Ok u \<longleftrightarrow> fst ` set fs \<subseteq> set allowed" for fs
    by (induction fs allowed rule: require_only_fields_loop.induct) auto
  then show ?thesis by (simp add: require_only_fields_def)
qed

lemma require_only_fields_neq_Abort: "require_only_fields f allowed \<noteq> Abort"
proof -
  have "require_only_fields_loop fs allowed \<noteq> Abort" for fs
    by (induction fs allowed rule: require_only_fields_loop.induct) auto
  then show ?thesis by (simp add: require_only_fields_def)
qed

lemma frame_fields_determined:
  assumes "frame_wf f" "fst ` set (cf_fields f) \<subseteq> set ids" "sorted_wrt (<) ids"
    and "\<forall>i \<in> set ids. frame_field f i \<noteq> None"
  shows "cf_fields f = map (\<lambda>i. (i, the (frame_field f i))) ids"
proof -
  let ?fs = "cf_fields f"
  have sorted: "sorted_wrt (<) (map fst ?fs)" using assms(1) by (simp add: frame_wf_def key_sorted_def)
  have "set ids \<subseteq> fst ` set ?fs"
    using assms(1,4) by (auto simp: frame_field_eq map_of_eq_None_iff)
  with assms(2) have "set (map fst ?fs) = set ids" by auto
  then have keys: "map fst ?fs = ids"
    using sorted assms(3) strict_sorted_equal by blast
  have "map (\<lambda>i. (i, the (frame_field f i))) (map fst ?fs) = map id ?fs"
    unfolding map_map
  proof (rule map_cong)
    fix fb assume "fb \<in> set ?fs"
    then have "map_of ?fs (fst fb) = Some (snd fb)"
      using sorted by (simp add: map_of_is_SomeI strict_sorted_iff)
    then show "((\<lambda>i. (i, the (frame_field f i))) \<circ> fst) fb = id fb"
      using assms(1) by (simp add: frame_field_eq)
  qed simp
  then show ?thesis using keys by simp
qed

lemma frame_eqI:
  assumes "frame_wf f" "cf_type_id f = t" "cf_version f = v"
    and "fst ` set (cf_fields f) \<subseteq> set ids" "sorted_wrt (<) ids"
    and "\<forall>i \<in> set ids. frame_field f i \<noteq> None"
  shows "f = \<lparr> cf_type_id = t, cf_version = v,
    cf_fields = map (\<lambda>i. (i, the (frame_field f i))) ids \<rparr>"
  using frame_fields_determined [OF assms(1,4,5,6)] assms(2,3) by (cases f) simp

lemma frame_wf_literal [simp]:
  "frame_wf \<lparr> cf_type_id = t, cf_version = v, cf_fields = fs \<rparr> \<longleftrightarrow> key_sorted fst fs"
  by (simp add: frame_wf_def)

section \<open>Closed schemas\<close>

lemma decode_closed_frame_Ok_iff:
  "decode_closed_frame t v ids b = Ok f \<longleftrightarrow>
     frame_wf f \<and> cf_type_id f = t \<and> cf_version f = v \<and> fst ` set (cf_fields f) \<subseteq> set ids \<and>
     encode_frame f = Ok b"
  by (auto simp: decode_closed_frame_def result_simps decode_canonical_frame_Ok_iff)

lemma frame_field_literal [simp]:
  "key_sorted fst fs \<Longrightarrow>
   frame_field \<lparr> cf_type_id = t, cf_version = v, cf_fields = fs \<rparr> i = map_of fs i"
  by (simp add: frame_field_eq)

lemma key_sorted_literal [simp]:
  "key_sorted fst []" "key_sorted fst [x]"
  "key_sorted fst (x # y # zs) \<longleftrightarrow> fst x < fst y \<and> key_sorted fst (y # zs)"
  by (auto simp: key_sorted_def)

text \<open>
  A decoder that requires every field of its schema sees exactly the frames with those fields, so
  its result is determined by the list of field values.
\<close>

lemma decode_closed_iff:
  assumes "sorted_wrt (<) ids"
    and "\<And>f. K f = Ok x \<Longrightarrow> \<forall>i \<in> set ids. frame_field f i \<noteq> None"
  shows "try_bind (map_err w (decode_closed_frame t v ids b)) K = Ok x \<longleftrightarrow>
    (\<exists>vals. length vals = length ids \<and>
      encode_frame \<lparr> cf_type_id = t, cf_version = v, cf_fields = zip ids vals \<rparr> = Ok b \<and>
      K \<lparr> cf_type_id = t, cf_version = v, cf_fields = zip ids vals \<rparr> = Ok x)"
proof
  assume "try_bind (map_err w (decode_closed_frame t v ids b)) K = Ok x"
  then obtain f where f: "decode_closed_frame t v ids b = Ok f" "K f = Ok x"
    by (auto simp: result_simps)
  let ?vals = "map (\<lambda>i. the (frame_field f i)) ids"
  have "f = \<lparr> cf_type_id = t, cf_version = v,
      cf_fields = map (\<lambda>i. (i, the (frame_field f i))) ids \<rparr>"
    using f(1) assms(1) assms(2) [OF f(2)]
    by (intro frame_eqI) (auto simp: decode_closed_frame_Ok_iff)
  then have "f = \<lparr> cf_type_id = t, cf_version = v, cf_fields = zip ids ?vals \<rparr>"
    by (simp add: zip_map2 zip_same_conv_map comp_def)
  then show "\<exists>vals. length vals = length ids \<and>
      encode_frame \<lparr> cf_type_id = t, cf_version = v, cf_fields = zip ids vals \<rparr> = Ok b \<and>
      K \<lparr> cf_type_id = t, cf_version = v, cf_fields = zip ids vals \<rparr> = Ok x"
    using f by (intro exI [of _ ?vals]) (auto simp: decode_closed_frame_Ok_iff)
next
  assume "\<exists>vals. length vals = length ids \<and>
      encode_frame \<lparr> cf_type_id = t, cf_version = v, cf_fields = zip ids vals \<rparr> = Ok b \<and>
      K \<lparr> cf_type_id = t, cf_version = v, cf_fields = zip ids vals \<rparr> = Ok x"
  then obtain vals where vals: "length vals = length ids"
    "encode_frame \<lparr> cf_type_id = t, cf_version = v, cf_fields = zip ids vals \<rparr> = Ok b"
    "K \<lparr> cf_type_id = t, cf_version = v, cf_fields = zip ids vals \<rparr> = Ok x" by auto
  have "fst ` set (zip ids vals) \<subseteq> set ids" by (auto dest: set_zip_leftD)
  moreover have "key_sorted fst (zip ids vals)" using vals(1) assms(1) by (simp add: key_sorted_def)
  ultimately have "decode_closed_frame t v ids b =
      Ok \<lparr> cf_type_id = t, cf_version = v, cf_fields = zip ids vals \<rparr>"
    using vals by (simp add: decode_closed_frame_Ok_iff)
  then show "try_bind (map_err w (decode_closed_frame t v ids b)) K = Ok x" using vals by simp
qed

lemma closed_frame_ex_iff:
  assumes "sorted_wrt (<) ids" "\<And>f. P f \<Longrightarrow> \<forall>i \<in> set ids. frame_field f i \<noteq> None"
  shows "(\<exists>f. decode_closed_frame t v ids b = Ok f \<and> P f) \<longleftrightarrow>
    (\<exists>vals. length vals = length ids \<and>
      encode_frame \<lparr> cf_type_id = t, cf_version = v, cf_fields = zip ids vals \<rparr> = Ok b \<and>
      P \<lparr> cf_type_id = t, cf_version = v, cf_fields = zip ids vals \<rparr>)"
proof -
  let ?K = "\<lambda>f. if P f then Ok () else Abort :: (canonical_decoding_error, unit) result"
  have K: "?K f = Ok () \<Longrightarrow> \<forall>i \<in> set ids. frame_field f i \<noteq> None" for f
    using assms(2) by (auto split: if_splits)
  from decode_closed_iff [of ids ?K "()" "\<lambda>e. e" t v b, OF assms(1) K] show ?thesis
    by (auto simp: result_simps split: if_splits)
qed

lemma ex_length_literal [codec_simps]:
  "(\<exists>vals. length vals = 0 \<and> P vals) \<longleftrightarrow> P []"
  "(\<exists>vals. length vals = Suc n \<and> P vals) \<longleftrightarrow> (\<exists>x vs. length vs = n \<and> P (x # vs))"
  "(\<exists>vals. vals = [] \<and> P vals) \<longleftrightarrow> P []"
  by (auto simp: length_Suc_conv)

lemmas decode_closed_plain_iff = decode_closed_iff [where w = "\<lambda>e. e"]

lemma map_err_id [simp]: "map_err (\<lambda>e. e) r = r"
  by (cases r) auto

section \<open>Lists in indexed fields\<close>

lemma bm_insert_between:
  "\<forall>fb \<in> set m. fst fb < k \<Longrightarrow> \<forall>fb \<in> set m'. k < fst fb \<Longrightarrow>
   bm_insert k v (m @ m') = m @ (k, v) # m'"
proof (induction m)
  case Nil
  then show ?case by (cases m') auto
next
  case (Cons a m)
  then show ?case by (cases a) auto
qed

lemma bm_insert_last:
  "\<forall>fb \<in> set m. fst fb < k \<Longrightarrow> bm_insert k v m = m @ [(k, v)]"
  using bm_insert_between [of m k "[]" v] by simp

lemma put_items_from_Ok_iff:
  assumes "\<forall>fb \<in> set m. unat (fst fb) < k + base" "k + length xs + base \<le> 2 ^ 16"
  shows "try_fold (put_item e wrap enc base) \<lparr> cs_type_id = t, cs_version = w, cs_fields = m \<rparr>
      (enumerate k xs) = Ok c \<longleftrightarrow>
    (\<exists>bs. list_all2 (\<lambda>x b. enc x = Ok b) xs bs \<and>
      c = \<lparr> cs_type_id = t, cs_version = w,
            cs_fields = m @ zip (map of_nat [k + base..<k + base + length xs]) bs \<rparr>)"
  using assms
proof (induction xs arbitrary: k m)
  case Nil
  then show ?case by auto
next
  case (Cons x xs)
  define i where "i = (of_nat (k + base) :: u16)"
  have k: "k + base < 2 ^ 16" using Cons.prems(2) by simp
  then have ui: "unat i = k + base" unfolding i_def unat_of_nat by simp
  have fid: "u16_try_from (k + base) = Some i" using k unfolding u16_try_from_def i_def by simp
  have less: "\<forall>fb \<in> set m. fst fb < i"
    using Cons.prems(1) ui by (simp add: word_less_nat_alt)
  then have new: "i \<notin> fst ` set m" by fastforce
  have step: "put_item e wrap enc base \<lparr> cs_type_id = t, cs_version = w, cs_fields = m \<rparr> (k, x) =
      try_bind (enc x) (\<lambda>b.
        Ok \<lparr> cs_type_id = t, cs_version = w, cs_fields = m @ [(i, b)] \<rparr>)"
    using new less fid by (simp add: put_item_def encode_simps bm_insert_last)
  have IH: "try_fold (put_item e wrap enc base) \<lparr> cs_type_id = t, cs_version = w,
      cs_fields = m @ [(i, b)] \<rparr> (enumerate (Suc k) xs) = Ok c \<longleftrightarrow>
    (\<exists>bs. list_all2 (\<lambda>x b. enc x = Ok b) xs bs \<and>
      c = \<lparr> cs_type_id = t, cs_version = w, cs_fields = (m @ [(i, b)]) @
        zip (map of_nat [Suc k + base..<Suc k + base + length xs]) bs \<rparr>)" for b
    using Cons.prems ui by (intro Cons.IH) (auto simp: less_Suc_eq)
  have upt: "map of_nat [k + base..<k + base + length (x # xs)] =
      i # map of_nat [Suc k + base..<Suc k + base + length xs]"
    by (simp add: upt_conv_Cons i_def add.assoc del: upt_Suc)
  have "try_fold (put_item e wrap enc base) \<lparr> cs_type_id = t, cs_version = w, cs_fields = m \<rparr>
      (enumerate k (x # xs)) = Ok c \<longleftrightarrow>
    (\<exists>b. enc x = Ok b \<and>
      (\<exists>bs. list_all2 (\<lambda>x b. enc x = Ok b) xs bs \<and>
        c = \<lparr> cs_type_id = t, cs_version = w, cs_fields = (m @ [(i, b)]) @
          zip (map of_nat [Suc k + base..<Suc k + base + length xs]) bs \<rparr>))"
    unfolding enumerate_simps(2) try_fold.simps(2) step try_bind_eq_Ok
    by (simp only: IH [symmetric]) (auto simp: try_bind_eq_Ok)
  also have "\<dots> \<longleftrightarrow> (\<exists>bs. list_all2 (\<lambda>x b. enc x = Ok b) (x # xs) bs \<and>
      c = \<lparr> cs_type_id = t, cs_version = w,
            cs_fields = m @ zip (map of_nat [k + base..<k + base + length (x # xs)]) bs \<rparr>)"
    unfolding upt list_all2_Cons1 by (auto simp del: upt_Suc) (metis zip_Cons_Cons)+
  finally show ?case .
qed

lemma put_items_Ok_iff:
  assumes "\<forall>fb \<in> set m. unat (fst fb) < base" "length xs + base \<le> 2 ^ 16"
  shows "put_items e wrap enc base xs \<lparr> cs_type_id = t, cs_version = w, cs_fields = m \<rparr> = Ok c \<longleftrightarrow>
    (\<exists>bs. list_all2 (\<lambda>x b. enc x = Ok b) xs bs \<and>
      c = \<lparr> cs_type_id = t, cs_version = w,
            cs_fields = m @ zip (map of_nat [base..<base + length xs]) bs \<rparr>)"
  using put_items_from_Ok_iff [of m 0 base xs e wrap enc t w c] assms by (simp add: put_items_def)

lemma sorted_of_nat_upt:
  "n \<le> 2 ^ 16 \<Longrightarrow> sorted_wrt (<) (map (of_nat :: nat \<Rightarrow> u16) [m..<n])"
  by (auto simp: sorted_wrt_iff_nth_less word_less_nat_alt unat_of_nat simp del: of_nat_add)

section \<open>Digests and identifiers\<close>

lemma encode_digest32_frame:
  "encode_digest32 d = encode_frame \<lparr> cf_type_id = 0x0103, cf_version = 1,
     cf_fields = [(1, u16_to_le_bytes (hash_algorithm_as_u16 (algorithm d))), (2, digest_bytes d)] \<rparr>"
  by (simp add: encode_digest32_def encode_simps)

lemma decode_digest32_Ok_iff:
  "decode_digest32 b = Ok d \<longleftrightarrow> digest32_wf d \<and> encode_digest32 d = Ok b"
proof
  assume "decode_digest32 b = Ok d"
  then obtain f a w where f: "decode_canonical_frame b = Ok f" "cf_type_id f = 0x0103"
    "cf_version f = 1" "fst ` set (cf_fields f) \<subseteq> set [1, 2]"
    "frame_field f 1 = Some (u16_to_le_bytes a)" "hash_algorithm_try_from a = Ok (algorithm d)"
    "frame_field f 2 = Some w" "length w = 32" "digest_bytes d = w"
    by (auto simp: decode_digest32_def result_simps split: if_splits)
  have wf: "frame_wf f" "encode_frame f = Ok b" using frame.enc_dec [OF f(1)] by auto
  have "f = \<lparr> cf_type_id = 0x0103, cf_version = 1, cf_fields =
      map (\<lambda>i. (i, the (frame_field f i))) [1, 2] \<rparr>"
    using f wf by (intro frame_eqI) auto
  then show "digest32_wf d \<and> encode_digest32 d = Ok b"
    using f wf hash_algorithm_try_from_OkD [OF f(6)]
    by (simp add: encode_digest32_frame digest32_wf_def array32_def)
next
  assume *: "digest32_wf d \<and> encode_digest32 d = Ok b"
  let ?f = "\<lparr> cf_type_id = 0x0103, cf_version = 1, cf_fields =
    [(1, u16_to_le_bytes (hash_algorithm_as_u16 (algorithm d))), (2, digest_bytes d)] \<rparr>"
  have "decode_canonical_frame b = Ok ?f"
    using * by (intro decode_encode_frame) (simp_all add: encode_digest32_frame key_sorted_def)
  then show "decode_digest32 b = Ok d"
    using * by (simp add: decode_digest32_def result_simps frame_field_eq key_sorted_def
        digest32_wf_def array32_def)
qed

interpretation digest32: strict_codec encode_digest32 decode_digest32 digest32_wf
  by unfold_locales (auto simp: decode_digest32_Ok_iff)

section \<open>Correctness of the canonical frame\<close>

lemma try_fold_cs_insert_inv:
  assumes "try_fold (\<lambda>s (i, b). cs_insert i b s) \<lparr> cs_type_id = t, cs_version = v, cs_fields = m \<rparr> fs
      = Ok s" "bm_inv m"
  shows "bm_inv (cs_fields s) \<and> cs_type_id s = t \<and> cs_version s = v \<and>
    (\<forall>i. bm_get (cs_fields s) i = (case bm_get m i of Some b \<Rightarrow> Some b | None \<Rightarrow> map_of fs i))"
  using assms
proof (induction fs arbitrary: m)
  case Nil
  then show ?case by (auto split: option.split)
next
  case (Cons fb fs)
  obtain i b where fb: "fb = (i, b)" by (cases fb)
  from Cons.prems have new: "\<not> bm_contains_key m i"
    by (auto simp: fb cs_insert_def split: if_splits)
  with Cons.prems have rest: "try_fold (\<lambda>s (i, b). cs_insert i b s)
      \<lparr> cs_type_id = t, cs_version = v, cs_fields = bm_insert i b m \<rparr> fs = Ok s"
    by (simp add: fb cs_insert_def)
  have "bm_inv (bm_insert i b m)" using Cons.prems(2) by (rule bm_inv_insert)
  from Cons.IH [OF rest this] new Cons.prems(2) show ?case
    by (auto simp: fb bm.get_insert bm_contains_key_def split: option.splits)
qed

lemma try_fold_cs_insert_distinct:
  assumes "distinct (map fst fs)" "fst ` set fs \<inter> fst ` set m = {}" "bm_inv m"
  shows "is_ok (try_fold (\<lambda>s (i, b). cs_insert i b s)
    \<lparr> cs_type_id = t, cs_version = v, cs_fields = m \<rparr> fs)"
  using assms
proof (induction fs arbitrary: m)
  case Nil
  then show ?case by simp
next
  case (Cons fb fs)
  obtain i b where fb: "fb = (i, b)" by (cases fb)
  have "is_ok (try_fold (\<lambda>s (i, b). cs_insert i b s)
      \<lparr> cs_type_id = t, cs_version = v, cs_fields = bm_insert i b m \<rparr> fs)"
    using Cons.prems by (intro Cons.IH) (auto simp: fb bm_inv_insert set_bm_insert_keys)
  then show ?case
    using Cons.prems by (simp add: fb cs_insert_def bm_contains_key_iff)
qed

lemma try_fold_cs_insert_duplicate:
  assumes "\<not> distinct (map fst fs) \<or> fst ` set fs \<inter> fst ` set m \<noteq> {}"
  shows "\<exists>i \<in> fst ` set fs. try_fold (\<lambda>s (i, b). cs_insert i b s)
    \<lparr> cs_type_id = t, cs_version = v, cs_fields = m \<rparr> fs = Err (DuplicateField i)"
  using assms
proof (induction fs arbitrary: m)
  case Nil
  then show ?case by simp
next
  case (Cons fb fs)
  obtain i b where fb: "fb = (i, b)" by (cases fb)
  show ?case
  proof (cases "bm_contains_key m i")
    case True
    then show ?thesis by (simp add: fb cs_insert_def)
  next
    case False
    then have "\<not> distinct (map fst fs) \<or> fst ` set fs \<inter> fst ` set (bm_insert i b m) \<noteq> {}"
      using Cons.prems by (auto simp: fb set_bm_insert_keys bm_contains_key_iff)
    from Cons.IH [OF this] False show ?thesis
      by (auto simp: fb cs_insert_def)
  qed
qed

text \<open>
  C22. The canonical frame decoder accepts exactly the output of the encoder: \<open>decode_canonical_frame\<close>
  returns a frame on some bytes if and only if the frame's field identifiers are strictly
  increasing and \<open>finish\<close> on the same type, version and fields writes precisely those bytes. Every
  frame therefore has one accepted representation and every accepted input is canonical. The bounded
  decoder returns a frame exactly when the ordinary decoder returns that frame and it has at most
  \<open>maximum_fields\<close> fields.
\<close>

theorem canonical_frame_exact:
  "(decode_canonical_frame b = Ok f \<longleftrightarrow>
     sorted_wrt (<) (map fst (cf_fields f)) \<and>
     finish \<lparr> cs_type_id = cf_type_id f, cs_version = cf_version f, cs_fields = cf_fields f \<rparr> = Ok b) \<and>
   (decode_canonical_frame_bounded b maximum_fields = Ok f \<longleftrightarrow>
     decode_canonical_frame b = Ok f \<and> length (cf_fields f) \<le> maximum_fields)"
  unfolding decode_canonical_frame_bounded_Ok_iff decode_canonical_frame_Ok_iff
  by (auto simp: frame_wf_def key_sorted_def encode_frame_def frame_struct_def)

text \<open>
  C23. A frame is self-delimiting: when the decoder accepts some bytes, every proper prefix of them
  is refused as truncated, and every non-empty extension within the size limit is refused with the
  exact number of trailing bytes.
\<close>

theorem canonical_frame_self_delimiting:
  assumes "decode_canonical_frame b = Ok f"
  shows "(m < length b \<longrightarrow>
      (\<exists>start needed remaining. decode_canonical_frame (take m b) =
         Err (Truncated start needed remaining))) \<and>
    (x \<noteq> [] \<and> length (b @ x) \<le> MAX_CANONICAL_FRAME_BYTES \<longrightarrow>
      decode_canonical_frame (b @ x) = Err (TrailingBytes (length x)))"
  using decode_canonical_frame_take [OF assms] decode_canonical_frame_append [OF assms] by blast

theorem canonical_frame_self_delimiting_witness:
  "decode_canonical_frame (frame_bytes 7 1 [(3, [9])] @ [0, 0]) = Err (TrailingBytes 2) \<and>
   (\<exists>start needed remaining. decode_canonical_frame (take 12 (frame_bytes 7 1 [(3, [9])])) =
      Err (Truncated start needed remaining))"
proof -
  have "decode_canonical_frame (frame_bytes 7 1 [(3, [9])]) =
      Ok \<lparr> cf_type_id = 7, cf_version = 1, cf_fields = [(3, [9])] \<rparr>"
    by (simp add: decode_canonical_frame_Ok_iff encode_frame_Ok_iff key_sorted_def frame_fits_def
        frame_size_def MAX_CANONICAL_FRAME_BYTES_def)
  from canonical_frame_self_delimiting [OF this, of 12 "[0, 0]"] show ?thesis
    by (simp add: frame_size_def MAX_CANONICAL_FRAME_BYTES_def)
qed

text \<open>
  C24. The order in which fields are added to a \<open>CanonicalStruct\<close> does not matter: with distinct
  field identifiers every order of the same insertions succeeds and \<open>finish\<close> gives the same
  bytes; with a repeated identifier the insertions end in \<open>DuplicateField\<close>.
\<close>

theorem canonical_struct_order_independent:
  assumes "mset fs = mset fs'"
  shows "(distinct (map fst fs) \<longrightarrow>
      is_ok (try_fold (\<lambda>s (i, b). cs_insert i b s) (cs_new t v) fs) \<and>
      try_bind (try_fold (\<lambda>s (i, b). cs_insert i b s) (cs_new t v) fs) finish =
      try_bind (try_fold (\<lambda>s (i, b). cs_insert i b s) (cs_new t v) fs') finish) \<and>
    (\<not> distinct (map fst fs) \<longrightarrow>
      (\<exists>i. try_fold (\<lambda>s (i, b). cs_insert i b s) (cs_new t v) fs' = Err (DuplicateField i)))"
proof (intro conjI impI)
  let ?build = "\<lambda>fs. try_fold (\<lambda>s (i, b). cs_insert i b s) (cs_new t v) fs"
  have distinct': "distinct (map fst fs) \<longleftrightarrow> distinct (map fst fs')"
    using assms by (metis mset_eq_imp_distinct_iff mset_map)
  {
    assume d: "distinct (map fst fs)"
    show ok: "is_ok (?build fs)"
      unfolding cs_new_def by (rule try_fold_cs_insert_distinct) (use d in \<open>auto simp: bm_inv_def\<close>)
    have "is_ok (?build fs')"
      unfolding cs_new_def
      by (rule try_fold_cs_insert_distinct) (use d distinct' in \<open>auto simp: bm_inv_def\<close>)
    with ok obtain s s' where s: "?build fs = Ok s" "?build fs' = Ok s'"
      by (auto simp: is_ok_iff)
    have inv: "bm_inv []" by (simp add: bm_inv_def)
    note S = try_fold_cs_insert_inv [OF s(1) [unfolded cs_new_def] inv]
      and S' = try_fold_cs_insert_inv [OF s(2) [unfolded cs_new_def] inv]
    have "map_of fs = map_of fs'"
      using d distinct' assms by (metis map_of_inject_set mset_eq_setD)
    then have "cs_fields s = cs_fields s'"
      using S S' by (intro bm.entries_ext) (auto simp: bm.get_empty)
    then have "s = s'" using S S' by (cases s; cases s') auto
    with s show "try_bind (?build fs) finish = try_bind (?build fs') finish" by simp
  next
    assume "\<not> distinct (map fst fs)"
    then show "\<exists>i. ?build fs' = Err (DuplicateField i)"
      using try_fold_cs_insert_duplicate [of fs' "[]" t v] distinct' by (auto simp: cs_new_def)
  }
qed

theorem canonical_struct_order_independent_witness:
  "try_bind (try_fold (\<lambda>s (i, b). cs_insert i b s) (cs_new 5 1) [(2, [7]), (1, [])]) finish =
   try_bind (try_fold (\<lambda>s (i, b). cs_insert i b s) (cs_new 5 1) [(1, []), (2, [7])]) finish \<and>
   (\<exists>i. try_fold (\<lambda>s (i, b). cs_insert i b s) (cs_new 5 1) [(1, [8]), (1, [])] =
      Err (DuplicateField i))"
  using canonical_struct_order_independent [of "[(2, [7]), (1, [])]" "[(1, []), (2, [7])]" 5 1]
    canonical_struct_order_independent [of "[(1, []), (1, [8])]" "[(1, [8]), (1, [])]" 5 1]
  by (simp add: add_mset_commute)

end
