(* ===== verification/Hashing.thy ===== *)
theory Hashing
  imports Canonical_Codec
begin

text \<open>
  The crate \<^verbatim>\<open>src/crates/hashing\<close>: the domain-separation frames, the epoch-activated hash-suite
  resolver and the verification of digests. SHA-256 and SHA3-256 come from other packages; the
  record \<open>sha_functions\<close> is the parameter that stands for them.
\<close>

section \<open>Frames\<close>

definition HASH_DOMAIN_VERSION :: u16 where
  "HASH_DOMAIN_VERSION = 1"

definition HASH_FRAME_ENCODING_VERSION :: u16 where
  "HASH_FRAME_ENCODING_VERSION = 1"

definition HASH_FRAME_TYPE_ID :: u16 where
  "HASH_FRAME_TYPE_ID = 0x1001"

definition TYPE_IDENTITY_FRAME_TYPE_ID :: u16 where
  "TYPE_IDENTITY_FRAME_TYPE_ID = 0x1002"

datatype hashing_error =
    UnsupportedAlgorithm hash_algorithm_id
  | HashingCanonicalEncoding canonical_encoding_error
  | EmptySchedule
  | MissingGenesisSuite
  | NonMonotonicSchedule
  | NoActiveHashSuite epoch
  | UntrustedAlgorithmForEpoch hash_algorithm_id hash_purpose epoch
  | ObjectTypeRequiresDedicatedFrame

record sha_functions =
  sha2_256 :: "bytes \<Rightarrow> bytes"
  sha3_256 :: "bytes \<Rightarrow> bytes"

definition frame_hash_input ::
  "hash_algorithm_id \<Rightarrow> hash_purpose \<Rightarrow> protocol_version \<Rightarrow> chain_id \<Rightarrow> bytes \<Rightarrow>
   (hashing_error, bytes) result" where
  "frame_hash_input a purpose version chain payload =
     (if purpose = HpObjectType then Err ObjectTypeRequiresDedicatedFrame
      else map_err HashingCanonicalEncoding (
        try_bind (field_u16 1 (hash_algorithm_as_u16 a)
                    (cs_new HASH_FRAME_TYPE_ID HASH_FRAME_ENCODING_VERSION)) (\<lambda>frame.
        try_bind (field_u16 2 (hash_domain_as_u16 (purpose_domain purpose)) frame) (\<lambda>frame.
        try_bind (field_u16 3 HASH_DOMAIN_VERSION frame) (\<lambda>frame.
        try_bind (field_str 4 chain frame) (\<lambda>frame.
        try_bind (field_u32 5 version frame) (\<lambda>frame.
        try_bind (field_bytes 6 payload frame) finish)))))))"

definition frame_type_identity_input ::
  "hash_algorithm_id \<Rightarrow> chain_id \<Rightarrow> bytes \<Rightarrow> (hashing_error, bytes) result" where
  "frame_type_identity_input a chain payload =
     map_err HashingCanonicalEncoding (
       try_bind (field_u16 1 (hash_algorithm_as_u16 a)
                   (cs_new TYPE_IDENTITY_FRAME_TYPE_ID HASH_FRAME_ENCODING_VERSION)) (\<lambda>frame.
       try_bind (field_u16 2 (hash_domain_as_u16 (purpose_domain HpObjectType)) frame) (\<lambda>frame.
       try_bind (field_u16 3 HASH_DOMAIN_VERSION frame) (\<lambda>frame.
       try_bind (field_str 4 chain frame) (\<lambda>frame.
       try_bind (field_bytes 5 payload frame) finish)))))"

fun hash_unframed_bytes ::
  "sha_functions \<Rightarrow> hash_algorithm_id \<Rightarrow> bytes \<Rightarrow> (hashing_error, bytes) result" where
  "hash_unframed_bytes sha Sha2_256 input = Ok (sha2_256 sha input)"
| "hash_unframed_bytes sha Sha3_256 input = Ok (sha3_256 sha input)"
| "hash_unframed_bytes sha Blake3_256 input = Err (UnsupportedAlgorithm Blake3_256)"

definition builtin_hash ::
  "sha_functions \<Rightarrow> hash_algorithm_id \<Rightarrow> hash_purpose \<Rightarrow> protocol_version \<Rightarrow> chain_id \<Rightarrow> bytes \<Rightarrow>
   (hashing_error, digest32) result" where
  "builtin_hash sha a purpose version chain payload =
     (if a = Blake3_256 then Err (UnsupportedAlgorithm a)
      else
        try_bind (frame_hash_input a purpose version chain payload) (\<lambda>frame.
        try_bind (hash_unframed_bytes sha a frame) (\<lambda>bs.
        Ok (Digest32 a bs))))"

definition verify_digest ::
  "sha_functions \<Rightarrow> digest32 \<Rightarrow> hash_purpose \<Rightarrow> protocol_version \<Rightarrow> chain_id \<Rightarrow> bytes \<Rightarrow>
   (hashing_error, bool) result" where
  "verify_digest sha d purpose version chain payload =
     try_bind (builtin_hash sha (algorithm d) purpose version chain payload) (\<lambda>computed.
     Ok (computed = d))"

section \<open>The hash-suite resolver\<close>

record hash_suite_resolver =
  hsr_chain_id :: chain_id
  hsr_protocol_version :: protocol_version
  hsr_schedules :: "hash_suite_schedule list"

definition hash_suite_resolver_new ::
  "chain_id \<Rightarrow> protocol_version \<Rightarrow> hash_suite_schedule list \<Rightarrow>
   (hashing_error, hash_suite_resolver) result" where
  "hash_suite_resolver_new chain version schedules =
     (if schedules = [] then Err EmptySchedule
      else if hss_activation_epoch (hd schedules) \<noteq> 0 then Err MissingGenesisSuite
      else if list_ex (\<lambda>(x, y). hss_activation_epoch x \<ge> hss_activation_epoch y)
                (windows2 schedules) then Err NonMonotonicSchedule
      else Ok \<lparr> hsr_chain_id = chain, hsr_protocol_version = version,
                hsr_schedules = schedules \<rparr>)"

definition suite_for_epoch :: "hash_suite_resolver \<Rightarrow> epoch \<Rightarrow> (hashing_error, hash_suite) result" where
  "suite_for_epoch r e =
     ok_or (map_option hss_suite
              (find (\<lambda>entry. hss_activation_epoch entry \<le> e) (rev (hsr_schedules r))))
       (NoActiveHashSuite e)"

definition is_algorithm_trusted_for_purpose ::
  "hash_suite_resolver \<Rightarrow> hash_purpose \<Rightarrow> epoch \<Rightarrow> hash_algorithm_id \<Rightarrow> bool" where
  "is_algorithm_trusted_for_purpose r purpose e a =
     list_ex (\<lambda>entry. algorithm_for (hss_suite entry) purpose = a)
       (filter (\<lambda>entry. hss_activation_epoch entry \<le> e) (hsr_schedules r))"

definition hash_for_purpose ::
  "sha_functions \<Rightarrow> hash_suite_resolver \<Rightarrow> epoch \<Rightarrow> hash_purpose \<Rightarrow> bytes \<Rightarrow>
   (hashing_error, digest32) result" where
  "hash_for_purpose sha r e purpose payload =
     try_bind (suite_for_epoch r e) (\<lambda>suite.
     builtin_hash sha (algorithm_for suite purpose) purpose (hsr_protocol_version r)
       (hsr_chain_id r) payload)"

definition hash_type_identity ::
  "sha_functions \<Rightarrow> hash_suite_resolver \<Rightarrow> epoch \<Rightarrow> bytes \<Rightarrow> (hashing_error, digest32) result" where
  "hash_type_identity sha r e payload =
     try_bind (suite_for_epoch r e) (\<lambda>suite.
     let a = algorithm_for suite HpObjectType in
     try_bind (frame_type_identity_input a (hsr_chain_id r) payload) (\<lambda>frame.
     try_bind (hash_unframed_bytes sha a frame) (\<lambda>bs.
     Ok (Digest32 a bs))))"

definition verify_type_identity_digest ::
  "sha_functions \<Rightarrow> hash_suite_resolver \<Rightarrow> digest32 \<Rightarrow> epoch \<Rightarrow> bytes \<Rightarrow>
   (hashing_error, bool) result" where
  "verify_type_identity_digest sha r d e payload =
     (if \<not> is_algorithm_trusted_for_purpose r HpObjectType e (algorithm d)
      then Err (UntrustedAlgorithmForEpoch (algorithm d) HpObjectType e)
      else
        try_bind (frame_type_identity_input (algorithm d) (hsr_chain_id r) payload) (\<lambda>frame.
        try_bind (hash_unframed_bytes sha (algorithm d) frame) (\<lambda>computed.
        Ok (computed = digest_bytes d))))"

section \<open>Epoch-activated schedules\<close>

text \<open>
  The contract shared by the schedules of the protocol: entries in strictly increasing order of
  their activation point, the first of which is active from the start, and a lookup that scans
  them backwards.
\<close>

locale activation_schedule =
  fixes activation :: "'e \<Rightarrow> 'k :: linorder"
    and active :: "'e list \<Rightarrow> 'k \<Rightarrow> 'e option"
    and valid :: "'e list \<Rightarrow> bool"
  assumes active_find: "active xs k = find (\<lambda>e. activation e \<le> k) (rev xs)"
    and valid_sorted: "valid xs \<Longrightarrow> sorted_wrt (<) (map activation xs)"
    and valid_genesis: "valid xs \<Longrightarrow> xs \<noteq> [] \<and> activation (hd xs) \<le> k"
begin

lemma active_Some_iff:
  assumes "valid xs"
  shows "active xs k = Some e \<longleftrightarrow>
    e \<in> set xs \<and> activation e \<le> k \<and>
    (\<forall>e' \<in> set xs. activation e' \<le> k \<longrightarrow> activation e' \<le> activation e)"
proof -
  have "find (\<lambda>e. activation e \<le> k) (rev xs) = Some e \<longleftrightarrow>
    e \<in> set xs \<and> activation e \<le> k \<and>
    (\<forall>e' \<in> set xs. activation e' \<le> k \<longrightarrow> activation e' \<le> activation e)"
    if "sorted_wrt (<) (map activation xs)" for xs
    using that
  proof (induction xs rule: rev_induct)
    case Nil
    then show ?case by simp
  next
    case (snoc x xs)
    then have less: "\<And>y. y \<in> set xs \<Longrightarrow> \<not> activation x \<le> activation y"
      by (auto simp: sorted_wrt_append not_le)
    show ?case
    proof (cases "activation x \<le> k")
      case True
      with less show ?thesis by (auto simp: linear) (meson linear)+
    next
      case False
      with snoc show ?thesis by (auto simp: sorted_wrt_append)
    qed
  qed
  then show ?thesis using assms by (simp add: active_find valid_sorted)
qed

lemma active_total: "valid xs \<Longrightarrow> \<exists>e. active xs k = Some e"
proof -
  assume "valid xs"
  then have "hd xs \<in> set xs" "activation (hd xs) \<le> k" using valid_genesis by auto
  then have "find (\<lambda>e. activation e \<le> k) (rev xs) \<noteq> None" by (auto simp: find_None_iff)
  then show ?thesis by (simp add: active_find)
qed

lemma active_mono:
  "valid xs \<Longrightarrow> k \<le> k' \<Longrightarrow> active xs k = Some e \<Longrightarrow> active xs k' = Some e' \<Longrightarrow>
   activation e \<le> activation e'"
  by (auto simp: active_Some_iff)

lemma active_stable:
  "valid xs \<Longrightarrow> active xs k = Some e \<Longrightarrow> k \<le> k' \<Longrightarrow>
   (\<forall>e' \<in> set xs. \<not> (k < activation e' \<and> activation e' \<le> k')) \<Longrightarrow> active xs k' = Some e"
  by (simp add: active_Some_iff) (meson not_less order_trans)

end

definition schedules_valid :: "hash_suite_schedule list \<Rightarrow> bool" where
  "schedules_valid xs \<longleftrightarrow> xs \<noteq> [] \<and> hss_activation_epoch (hd xs) = 0 \<and>
     key_sorted hss_activation_epoch xs"

lemma windows2_none_ge_iff:
  "list_ex (\<lambda>(x, y). f x \<ge> f y) (windows2 xs) \<longleftrightarrow> \<not> key_sorted (f :: 'a \<Rightarrow> 'k :: linorder) xs"
proof -
  have "transp (\<lambda>x y. f x < f y)" by (auto simp: transp_def)
  from windows2_all_iff [OF this, of xs] show ?thesis
    by (fastforce simp: list_ex_iff key_sorted_def sorted_wrt_map not_le [symmetric])
qed

lemma hash_suite_resolver_new_Ok_iff:
  "hash_suite_resolver_new c v xs = Ok r \<longleftrightarrow>
     schedules_valid xs \<and> r = \<lparr> hsr_chain_id = c, hsr_protocol_version = v, hsr_schedules = xs \<rparr>"
  by (auto simp: hash_suite_resolver_new_def schedules_valid_def windows2_none_ge_iff split: if_splits)

interpretation suites: activation_schedule hss_activation_epoch
  "\<lambda>xs k. find (\<lambda>e. hss_activation_epoch e \<le> k) (rev xs)" schedules_valid
  by unfold_locales (auto simp: schedules_valid_def key_sorted_def)

lemma suite_for_epoch_Ok_iff:
  "schedules_valid (hsr_schedules r) \<Longrightarrow>
   suite_for_epoch r e = Ok s \<longleftrightarrow>
     (\<exists>x \<in> set (hsr_schedules r). hss_suite x = s \<and> hss_activation_epoch x \<le> e \<and>
       (\<forall>y \<in> set (hsr_schedules r). hss_activation_epoch y \<le> e \<longrightarrow>
          hss_activation_epoch y \<le> hss_activation_epoch x))"
  by (auto simp: suite_for_epoch_def result_simps suites.active_Some_iff)

section \<open>The frames as canonical frames\<close>

lemma frame_hash_input_Ok_iff:
  "frame_hash_input a p v c pl = Ok b \<longleftrightarrow>
     p \<noteq> HpObjectType \<and>
     encode_frame \<lparr> cf_type_id = 0x1001, cf_version = 1, cf_fields =
       [(1, u16_to_le_bytes (hash_algorithm_as_u16 a)),
        (2, u16_to_le_bytes (hash_domain_as_u16 (purpose_domain p))),
        (3, u16_to_le_bytes 1), (4, c), (5, u32_to_le_bytes v), (6, pl)] \<rparr> = Ok b"
  by (simp add: frame_hash_input_def encode_simps HASH_FRAME_TYPE_ID_def HASH_DOMAIN_VERSION_def
      HASH_FRAME_ENCODING_VERSION_def map_err_eq_Ok)

lemma frame_type_identity_input_Ok_iff:
  "frame_type_identity_input a c pl = Ok b \<longleftrightarrow>
     encode_frame \<lparr> cf_type_id = 0x1002, cf_version = 1, cf_fields =
       [(1, u16_to_le_bytes (hash_algorithm_as_u16 a)),
        (2, u16_to_le_bytes (hash_domain_as_u16 HdObjectType)),
        (3, u16_to_le_bytes 1), (4, c), (5, pl)] \<rparr> = Ok b"
  by (simp add: frame_type_identity_input_def encode_simps TYPE_IDENTITY_FRAME_TYPE_ID_def
      HASH_DOMAIN_VERSION_def HASH_FRAME_ENCODING_VERSION_def map_err_eq_Ok)

lemma frame_hash_input_decode:
  "frame_hash_input a p v c pl = Ok b \<Longrightarrow> decode_canonical_frame b =
     Ok \<lparr> cf_type_id = 0x1001, cf_version = 1, cf_fields =
       [(1, u16_to_le_bytes (hash_algorithm_as_u16 a)),
        (2, u16_to_le_bytes (hash_domain_as_u16 (purpose_domain p))),
        (3, u16_to_le_bytes 1), (4, c), (5, u32_to_le_bytes v), (6, pl)] \<rparr>"
  by (rule decode_encode_frame) (simp_all add: frame_hash_input_Ok_iff key_sorted_def)

lemma frame_type_identity_input_decode:
  "frame_type_identity_input a c pl = Ok b \<Longrightarrow> decode_canonical_frame b =
     Ok \<lparr> cf_type_id = 0x1002, cf_version = 1, cf_fields =
       [(1, u16_to_le_bytes (hash_algorithm_as_u16 a)),
        (2, u16_to_le_bytes (hash_domain_as_u16 HdObjectType)),
        (3, u16_to_le_bytes 1), (4, c), (5, pl)] \<rparr>"
  by (rule decode_encode_frame) (simp_all add: frame_type_identity_input_Ok_iff key_sorted_def)

lemma hash_unframed_bytes_OkD:
  "hash_unframed_bytes sha a b = Ok h \<Longrightarrow>
   a = Sha2_256 \<and> h = sha2_256 sha b \<or> a = Sha3_256 \<and> h = sha3_256 sha b"
  by (cases a) auto

section \<open>Correctness of hashing\<close>

lemma builtin_hash_OkD:
  assumes "builtin_hash sha a p v c pl = Ok d"
  obtains b where "frame_hash_input a p v c pl = Ok b" "algorithm d = a"
    "hash_unframed_bytes sha a b = Ok (digest_bytes d)" "a \<noteq> Blake3_256"
  using assms by (auto simp: builtin_hash_def result_simps split: if_splits)

lemma frame_hash_input_inject:
  assumes "frame_hash_input a p v c pl = Ok b" "frame_hash_input a' p' v' c' pl' = Ok b"
  shows "a = a' \<and> p = p' \<and> v = v' \<and> c = c' \<and> pl = pl'"
  using frame_hash_input_decode [OF assms(1)] frame_hash_input_decode [OF assms(2)] by simp

lemma frame_type_identity_input_inject:
  assumes "frame_type_identity_input a c pl = Ok b" "frame_type_identity_input a' c' pl' = Ok b"
  shows "a = a' \<and> c = c' \<and> pl = pl'"
  using frame_type_identity_input_decode [OF assms(1)] frame_type_identity_input_decode [OF assms(2)]
  by simp

text \<open>
  C29. A constructed resolver has exactly one active suite for every epoch: \<open>suite_for_epoch\<close> returns
  the suite of the schedule entry with the latest activation not after the epoch, and every other
  entry already activated was activated strictly earlier.
\<close>

theorem suite_for_epoch_latest:
  assumes "hash_suite_resolver_new c v xs = Ok r"
  shows "\<exists>x \<in> set xs. suite_for_epoch r e = Ok (hss_suite x) \<and> hss_activation_epoch x \<le> e \<and>
    (\<forall>y \<in> set xs. hss_activation_epoch y \<le> e \<longrightarrow>
       y = x \<or> hss_activation_epoch y < hss_activation_epoch x)"
proof -
  have valid: "schedules_valid xs" and r: "hsr_schedules r = xs"
    using assms by (auto simp: hash_suite_resolver_new_Ok_iff)
  obtain x where x: "find (\<lambda>z. hss_activation_epoch z \<le> e) (rev xs) = Some x"
    using suites.active_total [OF valid] by auto
  have inj: "inj_on hss_activation_epoch (set xs)"
    using valid key_sorted_distinct distinct_map by (auto simp: schedules_valid_def)
  show ?thesis
  proof (intro bexI conjI)
    show "suite_for_epoch r e = Ok (hss_suite x)" using x by (simp add: suite_for_epoch_def r)
    show "x \<in> set xs" "hss_activation_epoch x \<le> e"
      using x suites.active_Some_iff [OF valid] by blast+
    show "\<forall>y \<in> set xs. hss_activation_epoch y \<le> e \<longrightarrow>
        y = x \<or> hss_activation_epoch y < hss_activation_epoch x"
      using x suites.active_Some_iff [OF valid] inj by (metis inj_onD order.not_eq_order_implies_strict)
  qed
qed

theorem suite_for_epoch_latest_witness:
  "\<exists>x \<in> set [\<lparr> hss_activation_epoch = 0, hss_suite = hash_suite_genesis \<rparr>,
             \<lparr> hss_activation_epoch = 9, hss_suite = hash_suite_uniform 2 Sha3_256 \<rparr>].
     suite_for_epoch \<lparr> hsr_chain_id = str ''c'', hsr_protocol_version = 1, hsr_schedules =
         [\<lparr> hss_activation_epoch = 0, hss_suite = hash_suite_genesis \<rparr>,
          \<lparr> hss_activation_epoch = 9, hss_suite = hash_suite_uniform 2 Sha3_256 \<rparr>] \<rparr> 12
       = Ok (hss_suite x) \<and> hss_activation_epoch x = 9"
proof -
  let ?xs = "[\<lparr> hss_activation_epoch = 0, hss_suite = hash_suite_genesis \<rparr>,
    \<lparr> hss_activation_epoch = 9, hss_suite = hash_suite_uniform 2 Sha3_256 \<rparr>]"
  have "hash_suite_resolver_new (str ''c'') 1 ?xs =
      Ok \<lparr> hsr_chain_id = str ''c'', hsr_protocol_version = 1, hsr_schedules = ?xs \<rparr>"
    by (simp add: hash_suite_resolver_new_def)
  from suite_for_epoch_latest [OF this, of 12] show ?thesis by auto
qed

lemma derived_type_identity_verifies:
  assumes "hash_type_identity sha r e payload = Ok d" "e \<le> e'"
  shows "verify_type_identity_digest sha r d e' payload = Ok True"
proof -
  from assms(1) obtain s b where s: "suite_for_epoch r e = Ok s"
    "frame_type_identity_input (algorithm_for s HpObjectType) (hsr_chain_id r) payload = Ok b"
    "hash_unframed_bytes sha (algorithm_for s HpObjectType) b = Ok (digest_bytes d)"
    "algorithm d = algorithm_for s HpObjectType"
    by (auto simp: hash_type_identity_def result_simps Let_def)
  from s(1) obtain x where "x \<in> set (hsr_schedules r)" "hss_activation_epoch x \<le> e" "hss_suite x = s"
    by (auto simp: suite_for_epoch_def result_simps find_Some_iff) (metis nth_mem length_rev set_rev)
  then have "is_algorithm_trusted_for_purpose r HpObjectType e' (algorithm d)"
    using s(4) assms(2) by (auto simp: is_algorithm_trusted_for_purpose_def list_ex_iff)
  with s show ?thesis by (auto simp: verify_type_identity_digest_def)
qed

text \<open>
  C30. A type-identity digest outlives suite rotations: a digest derived at some epoch verifies at
  every later epoch of the same resolver, whatever suite is active there, and a digest whose
  algorithm no activated entry ever selected for \<open>ObjectType\<close> is refused as untrusted.
\<close>

theorem type_identity_survives_rotation:
  assumes "hash_suite_resolver_new c v xs = Ok r" "hash_type_identity sha r e payload = Ok d"
    and "e \<le> e'"
  shows "verify_type_identity_digest sha r d e' payload = Ok True \<and>
    (\<forall>d'. (\<forall>x \<in> set xs. hss_activation_epoch x \<le> e' \<longrightarrow>
        algorithm_for (hss_suite x) HpObjectType \<noteq> algorithm d') \<longrightarrow>
      verify_type_identity_digest sha r d' e' payload =
        Err (UntrustedAlgorithmForEpoch (algorithm d') HpObjectType e'))"
proof -
  have "hsr_schedules r = xs" using assms(1) by (auto simp: hash_suite_resolver_new_Ok_iff)
  then show ?thesis
    using derived_type_identity_verifies [OF assms(2,3)]
    by (auto simp: verify_type_identity_digest_def is_algorithm_trusted_for_purpose_def list_ex_iff)
qed

theorem type_identity_survives_rotation_witness:
  "\<exists>d. verify_type_identity_digest \<lparr> sha2_256 = (\<lambda>x. x), sha3_256 = rev \<rparr>
     \<lparr> hsr_chain_id = str ''c'', hsr_protocol_version = 1, hsr_schedules =
         [\<lparr> hss_activation_epoch = 0, hss_suite = hash_suite_genesis \<rparr>,
          \<lparr> hss_activation_epoch = 9, hss_suite = hash_suite_uniform 2 Sha3_256 \<rparr>] \<rparr>
     d 12 [1] = Ok True \<and> algorithm d = Sha2_256"
proof -
  let ?xs = "[\<lparr> hss_activation_epoch = 0, hss_suite = hash_suite_genesis \<rparr>,
    \<lparr> hss_activation_epoch = 9, hss_suite = hash_suite_uniform 2 Sha3_256 \<rparr>]"
  let ?r = "\<lparr> hsr_chain_id = str ''c'', hsr_protocol_version = 1, hsr_schedules = ?xs \<rparr>"
  let ?sha = "\<lparr> sha2_256 = (\<lambda>x. x), sha3_256 = rev \<rparr>"
  have new: "hash_suite_resolver_new (str ''c'') 1 ?xs = Ok ?r"
    by (simp add: hash_suite_resolver_new_def)
  obtain b where b: "frame_type_identity_input Sha2_256 (str ''c'') [1] = Ok b"
    by (simp add: frame_type_identity_input_Ok_iff encode_frame_Ok_iff frame_fits_def
        frame_size_def str_def MAX_CANONICAL_FRAME_BYTES_def)
  have "hash_type_identity ?sha ?r 5 [1] = Ok (Digest32 Sha2_256 b)"
    by (simp add: hash_type_identity_def suite_for_epoch_def hash_suite_genesis_def
        hash_suite_uniform_def b)
  from type_identity_survives_rotation [OF new this, of 12] show ?thesis by auto
qed

text \<open>
  C31. What \<open>hash_for_purpose\<close> returns is accepted by \<open>verify_digest\<close> in its own context, and a digest
  that verifies in two contexts is the hash of two framed inputs that are equal only when the
  purpose, protocol version, chain and payload all agree: accepting a digest out of context needs
  a collision of the hash function itself.
\<close>

theorem verify_digest_context_bound:
  assumes "hash_for_purpose sha r e p payload = Ok d"
  shows "verify_digest sha d p (hsr_protocol_version r) (hsr_chain_id r) payload = Ok True \<and>
    p \<noteq> HpObjectType \<and> algorithm d \<noteq> Blake3_256 \<and>
    (\<forall>p' v' c' payload'. verify_digest sha d p' v' c' payload' = Ok True \<longrightarrow>
      (\<exists>b b'. hash_unframed_bytes sha (algorithm d) b = Ok (digest_bytes d) \<and>
        hash_unframed_bytes sha (algorithm d) b' = Ok (digest_bytes d) \<and>
        frame_hash_input (algorithm d) p (hsr_protocol_version r) (hsr_chain_id r) payload = Ok b \<and>
        frame_hash_input (algorithm d) p' v' c' payload' = Ok b' \<and>
        (b = b' \<longleftrightarrow> p = p' \<and> hsr_protocol_version r = v' \<and> hsr_chain_id r = c' \<and>
          payload = payload')))"
proof -
  from assms obtain a where h: "builtin_hash sha a p (hsr_protocol_version r) (hsr_chain_id r) payload
      = Ok d"
    by (auto simp: hash_for_purpose_def result_simps)
  then have a: "algorithm d = a" by (auto elim: builtin_hash_OkD)
  obtain b where b: "frame_hash_input a p (hsr_protocol_version r) (hsr_chain_id r) payload = Ok b"
    "hash_unframed_bytes sha a b = Ok (digest_bytes d)" "a \<noteq> Blake3_256"
    using h by (auto elim: builtin_hash_OkD)
  have "\<exists>b'. hash_unframed_bytes sha a b' = Ok (digest_bytes d) \<and>
      frame_hash_input a p' v' c' payload' = Ok b' \<and>
      (b = b' \<longleftrightarrow> p = p' \<and> hsr_protocol_version r = v' \<and> hsr_chain_id r = c' \<and> payload = payload')"
    if verified: "verify_digest sha d p' v' c' payload' = Ok True" for p' v' c' payload'
  proof -
    from verified have "builtin_hash sha a p' v' c' payload' = Ok d"
      by (auto simp: verify_digest_def result_simps a)
    then obtain b' where b': "frame_hash_input a p' v' c' payload' = Ok b'"
      "hash_unframed_bytes sha a b' = Ok (digest_bytes d)"
      by (auto elim: builtin_hash_OkD)
    then show ?thesis using b frame_hash_input_inject by (metis result.inject(1))
  qed
  moreover have "p \<noteq> HpObjectType" using b(1) by (auto simp: frame_hash_input_Ok_iff)
  ultimately show ?thesis using h b by (auto simp: verify_digest_def a)
qed

theorem verify_digest_context_bound_witness:
  "\<exists>d. verify_digest \<lparr> sha2_256 = (\<lambda>x. x), sha3_256 = rev \<rparr> d HpObject 1 (str ''c'') [7] = Ok True \<and>
     algorithm d \<noteq> Blake3_256"
proof -
  let ?r = "\<lparr> hsr_chain_id = str ''c'', hsr_protocol_version = 1, hsr_schedules =
    [\<lparr> hss_activation_epoch = 0, hss_suite = hash_suite_genesis \<rparr>] \<rparr>"
  obtain b where b: "frame_hash_input Sha2_256 HpObject 1 (str ''c'') [7] = Ok b"
    by (simp add: frame_hash_input_Ok_iff encode_frame_Ok_iff frame_fits_def
        frame_size_def str_def MAX_CANONICAL_FRAME_BYTES_def)
  have "hash_for_purpose \<lparr> sha2_256 = (\<lambda>x. x), sha3_256 = rev \<rparr> ?r 3 HpObject [7] =
      Ok (Digest32 Sha2_256 b)"
    by (simp add: hash_for_purpose_def suite_for_epoch_def hash_suite_genesis_def
        hash_suite_uniform_def builtin_hash_def b)
  from verify_digest_context_bound [OF this]
  have "verify_digest \<lparr> sha2_256 = (\<lambda>x. x), sha3_256 = rev \<rparr> (Digest32 Sha2_256 b) HpObject
      (hsr_protocol_version ?r) (hsr_chain_id ?r) [7] = Ok True" by blast
  then show ?thesis by (intro exI [of _ "Digest32 Sha2_256 b"]) simp
qed

end
