(* ===== verification/Validator_Set.thy ===== *)
theory Validator_Set
  imports Hashing
begin

text \<open>
  The crate \<^verbatim>\<open>src/crates/validator-set\<close>: the epoch snapshot of validators, its quorum threshold
  and rotating leader, and its canonical encoding. The locale \<open>weighted_quorum\<close> derives what
  two quorums share from the threshold alone; it is interpreted on the snapshots.
\<close>

section \<open>Validators\<close>

definition VALIDATOR_INFO_TYPE_ID :: u16 where
  "VALIDATOR_INFO_TYPE_ID = 0xC001"

definition VALIDATOR_SET_TYPE_ID :: u16 where
  "VALIDATOR_SET_TYPE_ID = 0xC002"

definition VS_ENCODING_VERSION :: u16 where
  "VS_ENCODING_VERSION = 1"

definition MAX_VALIDATORS :: usize where
  "MAX_VALIDATORS = 10000"

definition MAX_PUBLIC_KEY_BYTES :: usize where
  "MAX_PUBLIC_KEY_BYTES = 512"

datatype validator_set_error =
    VsEmpty
  | TooManyValidators usize
  | ZeroVotingPower validator_id
  | EmptyPublicKey validator_id
  | PublicKeyTooLarge validator_id usize
  | DuplicateValidator validator_id
  | DuplicatePublicKey validator_id
  | VotingPowerOverflow
  | VsCanonicalEncoding canonical_encoding_error
  | VsCanonicalDecoding canonical_decoding_error
  | VsInvalidEncoding bytes
  | VsHashing hashing_error

record validator_info =
  vi_id :: validator_id
  vi_voting_power :: u64
  vi_signature_scheme :: signature_scheme_id
  vi_public_key :: bytes

definition validator_info_validate :: "validator_info \<Rightarrow> (validator_set_error, unit) result" where
  "validator_info_validate v =
     (if vi_voting_power v = 0 then Err (ZeroVotingPower (vi_id v))
      else if vi_public_key v = [] then Err (EmptyPublicKey (vi_id v))
      else if length (vi_public_key v) > MAX_PUBLIC_KEY_BYTES
        then Err (PublicKeyTooLarge (vi_id v) (length (vi_public_key v)))
      else Ok ())"

section \<open>Snapshots\<close>

record validator_set =
  vs_epoch :: epoch
  vs_validators :: "validator_info list"
  vs_total_voting_power :: u64

text \<open>One turn of the loop that validates the sorted members and sums their power.\<close>

definition sum_power_step ::
  "u64 \<times> validator_id option \<Rightarrow> validator_info \<Rightarrow>
   (validator_set_error, u64 \<times> validator_id option) result" where
  "sum_power_step st v =
     (case st of (total_power, previous) \<Rightarrow>
       try_bind (validator_info_validate v) (\<lambda>_.
       if previous = Some (vi_id v) then Err (DuplicateValidator (vi_id v))
       else
         try_bind (ok_or (checked_add total_power (vi_voting_power v)) VotingPowerOverflow)
           (\<lambda>total_power. Ok (total_power, Some (vi_id v)))))"

definition seen_key_step ::
  "bytes btree_set \<Rightarrow> validator_info \<Rightarrow> (validator_set_error, bytes btree_set) result" where
  "seen_key_step seen v =
     (case bs_insert (vi_public_key v) seen of (new, seen) \<Rightarrow>
       if \<not> new then Err (DuplicatePublicKey (vi_id v)) else Ok seen)"

definition validator_set_new ::
  "epoch \<Rightarrow> validator_info list \<Rightarrow> (validator_set_error, validator_set) result" where
  "validator_set_new e vs =
     (if vs = [] then Err VsEmpty
      else if length vs > MAX_VALIDATORS then Err (TooManyValidators (length vs))
      else
        let vs = sort_key vi_id vs in
        try_bind (try_fold sum_power_step (0, None) vs) (\<lambda>(total_power, _).
        try_bind (try_fold seen_key_step [] vs) (\<lambda>_.
        Ok \<lparr> vs_epoch = e, vs_validators = vs, vs_total_voting_power = total_power \<rparr>)))"

definition quorum_threshold :: "validator_set \<Rightarrow> u64" where
  "quorum_threshold s = vs_total_voting_power s - (vs_total_voting_power s - 1) div 3"

definition vs_get :: "validator_set \<Rightarrow> validator_id \<Rightarrow> validator_info option" where
  "vs_get s vid = bsearch_get vid vi_id (vs_validators s)"

definition leader :: "validator_set \<Rightarrow> u64 \<Rightarrow> validator_id option" where
  "leader s view =
     (case checked_sub view 1 of
        None \<Rightarrow> None
      | Some adjusted \<Rightarrow>
          Some (vi_id (vs_validators s !
            unat (adjusted mod of_nat (length (vs_validators s))))))"

section \<open>Encoding\<close>

definition encode_validator_info :: "validator_info \<Rightarrow> (validator_set_error, bytes) result" where
  "encode_validator_info v =
     try_bind (validator_info_validate v) (\<lambda>_.
     map_err VsCanonicalEncoding (
       try_bind (field_bytes 1 (vi_id v) (cs_new VALIDATOR_INFO_TYPE_ID VS_ENCODING_VERSION)) (\<lambda>c.
       try_bind (field_u64 2 (vi_voting_power v) c) (\<lambda>c.
       try_bind (field_u16 3 (signature_scheme_as_u16 (vi_signature_scheme v)) c) (\<lambda>c.
       try_bind (field_bytes 4 (vi_public_key v) c) finish)))))"

definition encode_validator_set :: "validator_set \<Rightarrow> (validator_set_error, bytes) result" where
  "encode_validator_set s =
     (let n = length (vs_validators s) in
      try_bind (map_err VsCanonicalEncoding
        (field_u64 1 (vs_epoch s) (cs_new VALIDATOR_SET_TYPE_ID VS_ENCODING_VERSION))) (\<lambda>c.
      try_bind (map_err VsCanonicalEncoding (field_u64 2 (vs_total_voting_power s) c)) (\<lambda>c.
      try_bind (map_err VsCanonicalEncoding (field_u64 3 (quorum_threshold s) c)) (\<lambda>c.
      try_bind (ok_or (u32_try_from n) (TooManyValidators n)) (\<lambda>count.
      try_bind (map_err VsCanonicalEncoding (field_u32 4 count c)) (\<lambda>c.
      try_bind (put_items (TooManyValidators n) VsCanonicalEncoding encode_validator_info 5
                  (vs_validators s) c) (\<lambda>c.
      map_err VsCanonicalEncoding (finish c))))))))"

definition validator_set_digest ::
  "sha_functions \<Rightarrow> validator_set \<Rightarrow> hash_suite_resolver \<Rightarrow> (validator_set_error, digest32) result"
  where
  "validator_set_digest sha s r =
     try_bind (encode_validator_set s) (\<lambda>b.
     map_err VsHashing (hash_for_purpose sha r (vs_epoch s) HpValidatorSet b))"

definition decode_member ::
  "usize \<Rightarrow> bytes \<Rightarrow> (validator_set_error, validator_info) result" where
  "decode_member maximum_key_bytes b =
     try_bind (map_err VsCanonicalDecoding (decode_canonical_frame b)) (\<lambda>member.
     try_bind (map_err VsCanonicalDecoding (require_type member VALIDATOR_INFO_TYPE_ID)) (\<lambda>_.
     try_bind (map_err VsCanonicalDecoding (require_version member VS_ENCODING_VERSION)) (\<lambda>_.
     try_bind (map_err VsCanonicalDecoding (require_only_fields member [1, 2, 3, 4])) (\<lambda>_.
     try_bind (map_err VsCanonicalDecoding (required_field member 4)) (\<lambda>key.
     if length key > min maximum_key_bytes MAX_PUBLIC_KEY_BYTES
     then Err (VsInvalidEncoding (str ''validator key bound''))
     else
       try_bind (map_err VsCanonicalDecoding (required_field member 1)) (\<lambda>vid.
       if length vid \<noteq> 32 then Err (VsInvalidEncoding (str ''validator id length''))
       else
         try_bind (map_err VsCanonicalDecoding (required_u16 member 3)) (\<lambda>scheme.
         try_bind (map_err (\<lambda>_. VsInvalidEncoding (str ''validator signature scheme''))
                     (signature_scheme_try_from scheme)) (\<lambda>signature_scheme.
         try_bind (map_err VsCanonicalDecoding (required_u64 member 2)) (\<lambda>voting_power.
         Ok \<lparr> vi_id = vid, vi_voting_power = voting_power,
              vi_signature_scheme = signature_scheme, vi_public_key = key \<rparr>)))))))))"

definition decode_validator_set_with_limits ::
  "bytes \<Rightarrow> usize \<Rightarrow> usize \<Rightarrow> (validator_set_error, validator_set) result" where
  "decode_validator_set_with_limits b maximum_members maximum_key_bytes =
     try_bind (map_err VsCanonicalDecoding (decode_canonical_frame b)) (\<lambda>frame.
     try_bind (map_err VsCanonicalDecoding (require_type frame VALIDATOR_SET_TYPE_ID)) (\<lambda>_.
     try_bind (map_err VsCanonicalDecoding (require_version frame VS_ENCODING_VERSION)) (\<lambda>_.
     try_bind (map_err VsCanonicalDecoding (required_u32 frame 4)) (\<lambda>count32.
     let count = unat count32 in
     if count > min maximum_members MAX_VALIDATORS then Err (TooManyValidators count)
     else
       try_bind (try_map (\<lambda>value. ok_or (u16_try_from value)
                   (VsInvalidEncoding (str ''validator field capacity''))) [1..<count + 5]) (\<lambda>ids.
       try_bind (map_err VsCanonicalDecoding (require_only_fields frame ids)) (\<lambda>_.
       try_bind (try_map (\<lambda>index.
           try_bind (map_err VsCanonicalDecoding (required_field frame (ids ! (index + 4))))
             (decode_member maximum_key_bytes)) [0..<count]) (\<lambda>vs.
       try_bind (map_err VsCanonicalDecoding (required_u64 frame 1)) (\<lambda>e.
       try_bind (validator_set_new e vs) (\<lambda>s.
       try_bind (encode_validator_set s) (\<lambda>b'.
       if b' \<noteq> b
       then Err (VsInvalidEncoding (str ''noncanonical validator set or summary''))
       else Ok s))))))))))"

definition decode_validator_set :: "bytes \<Rightarrow> (validator_set_error, validator_set) result" where
  "decode_validator_set b =
     decode_validator_set_with_limits b MAX_VALIDATORS MAX_PUBLIC_KEY_BYTES"

section \<open>Invariant of a constructed snapshot\<close>

definition power_sum :: "validator_info list \<Rightarrow> nat" where
  "power_sum vs = sum_list (map (\<lambda>v. unat (vi_voting_power v)) vs)"

definition validator_info_ok :: "validator_info \<Rightarrow> bool" where
  "validator_info_ok v \<longleftrightarrow> vi_voting_power v \<noteq> 0 \<and> vi_public_key v \<noteq> [] \<and>
     length (vi_public_key v) \<le> MAX_PUBLIC_KEY_BYTES"

definition validator_set_inv :: "validator_set \<Rightarrow> bool" where
  "validator_set_inv s \<longleftrightarrow>
     vs_validators s \<noteq> [] \<and> length (vs_validators s) \<le> MAX_VALIDATORS \<and>
     key_sorted vi_id (vs_validators s) \<and> (\<forall>v \<in> set (vs_validators s). validator_info_ok v) \<and>
     distinct (map vi_public_key (vs_validators s)) \<and>
     unat (vs_total_voting_power s) = power_sum (vs_validators s)"

lemma validator_info_validate_Ok_iff [result_simps]:
  "validator_info_validate v = Ok u \<longleftrightarrow> validator_info_ok v"
  by (auto simp: validator_info_validate_def validator_info_ok_def not_le)

lemma sum_power_step_Ok_iff:
  "sum_power_step (t, prev) v = Ok r \<longleftrightarrow>
     validator_info_ok v \<and> prev \<noteq> Some (vi_id v) \<and>
     unat t + unat (vi_voting_power v) < 2 ^ 64 \<and> r = (t + vi_voting_power v, Some (vi_id v))"
  by (auto simp: sum_power_step_def result_simps checked_add_def split: if_splits)

lemma sum_power_fold_Ok_iff:
  assumes "sorted (map vi_id vs)" "\<forall>p. prev = Some p \<longrightarrow> (\<forall>v \<in> set vs. p \<le> vi_id v)"
  shows "(\<exists>q. try_fold sum_power_step (t, prev) vs = Ok (r, q)) \<longleftrightarrow>
    (\<forall>v \<in> set vs. validator_info_ok v) \<and> key_sorted vi_id vs \<and>
    (\<forall>p. prev = Some p \<longrightarrow> (\<forall>v \<in> set vs. p < vi_id v)) \<and>
    unat r = unat t + power_sum vs"
  using assms
proof (induction vs arbitrary: t prev)
  case Nil
  then show ?case by (auto simp: key_sorted_def power_sum_def word_unat_eq_iff)
next
  case (Cons v vs)
  let ?t = "t + vi_voting_power v"
  have IH: "(\<exists>q. try_fold sum_power_step (?t, Some (vi_id v)) vs = Ok (r, q)) \<longleftrightarrow>
    (\<forall>v \<in> set vs. validator_info_ok v) \<and> key_sorted vi_id vs \<and>
    (\<forall>w \<in> set vs. vi_id v < vi_id w) \<and> unat r = unat ?t + power_sum vs"
    using Cons.prems Cons.IH [of "Some (vi_id v)" ?t] by auto
  have step: "(\<exists>q. try_fold sum_power_step (t, prev) (v # vs) = Ok (r, q)) \<longleftrightarrow>
    validator_info_ok v \<and> prev \<noteq> Some (vi_id v) \<and> unat t + unat (vi_voting_power v) < 2 ^ 64 \<and>
    (\<exists>q. try_fold sum_power_step (?t, Some (vi_id v)) vs = Ok (r, q))"
    by (auto simp: try_bind_eq_Ok sum_power_step_Ok_iff)
  have sum: "unat t + unat (vi_voting_power v) < 2 ^ 64 \<and> unat r = unat ?t + power_sum vs \<longleftrightarrow>
      unat r = unat t + power_sum (v # vs)"
    using unsigned_less [of r, where 'a = nat] unat_add_less [of t "vi_voting_power v"]
    by (auto simp: power_sum_def)
  have prev: "prev \<noteq> Some (vi_id v) \<and> (\<forall>w \<in> set vs. vi_id v < vi_id w) \<longleftrightarrow>
      (\<forall>p. prev = Some p \<longrightarrow> (\<forall>w \<in> set (v # vs). p < vi_id w)) \<and> (\<forall>w \<in> set vs. vi_id v < vi_id w)"
    using Cons.prems(2) by (cases prev) (auto simp: le_less)
  show ?case
    unfolding step IH using sum prev by (auto simp: key_sorted_def)
qed

lemma seen_key_fold_Ok_iff:
  assumes "bm_inv seen"
  shows "is_ok (try_fold seen_key_step seen vs) \<longleftrightarrow>
    distinct (map vi_public_key vs) \<and> vi_public_key ` set vs \<inter> fst ` set seen = {}"
  using assms
proof (induction vs arbitrary: seen)
  case Nil
  then show ?case by simp
next
  case (Cons v vs)
  have IH: "is_ok (try_fold seen_key_step (bm_insert (vi_public_key v) () seen) vs) \<longleftrightarrow>
      distinct (map vi_public_key vs) \<and>
      vi_public_key ` set vs \<inter> insert (vi_public_key v) (fst ` set seen) = {}"
    using Cons.IH [of "bm_insert (vi_public_key v) () seen"] Cons.prems
    by (simp add: bm_inv_insert set_bm_insert_keys)
  show ?case
    using IH by (auto simp: seen_key_step_def [of seen v] bs_insert_def bm_contains_key_iff)
qed

lemma seen_key_fold_neq_Abort: "try_fold seen_key_step seen vs \<noteq> Abort"
  by (induction vs arbitrary: seen)
    (auto simp: seen_key_step_def bs_insert_def result_simps split: if_splits)

lemma power_sum_sort_key [simp]: "power_sum (sort_key f vs) = power_sum vs"
proof -
  have "mset (map (\<lambda>v. unat (vi_voting_power v)) (sort_key f vs)) =
      mset (map (\<lambda>v. unat (vi_voting_power v)) vs)" by simp
  then show ?thesis unfolding power_sum_def by (metis sum_mset_sum_list)
qed

lemma distinct_map_sort_key [simp]: "distinct (map g (sort_key f vs)) \<longleftrightarrow> distinct (map g vs)"
  by (metis mset_eq_imp_distinct_iff mset_map mset_sort)

text \<open>When \<open>ValidatorSet::new\<close> succeeds, and with what.\<close>

lemma validator_set_new_Ok_iff:
  "validator_set_new e vs = Ok s \<longleftrightarrow>
     vs_epoch s = e \<and> vs_validators s = sort_key vi_id vs \<and> validator_set_inv s"
proof -
  let ?vs = "sort_key vi_id vs"
  have fold: "(\<exists>q. try_fold sum_power_step (0, None) ?vs = Ok (r, q)) \<longleftrightarrow>
      (\<forall>v \<in> set vs. validator_info_ok v) \<and> key_sorted vi_id ?vs \<and> unat r = power_sum ?vs" for r
    using sum_power_fold_Ok_iff [of ?vs None 0 r] by simp
  have keys: "(\<exists>m. try_fold seen_key_step [] ?vs = Ok m) \<longleftrightarrow> distinct (map vi_public_key ?vs)"
    using seen_key_fold_Ok_iff [of "[]" ?vs] by (simp add: bm_inv_def is_ok_iff)
  have "validator_set_new e vs = Ok s \<longleftrightarrow> vs \<noteq> [] \<and> length vs \<le> MAX_VALIDATORS \<and>
      (\<exists>q. try_fold sum_power_step (0, None) ?vs = Ok (vs_total_voting_power s, q)) \<and>
      (\<exists>m. try_fold seen_key_step [] ?vs = Ok m) \<and> vs_epoch s = e \<and> vs_validators s = ?vs"
    by (cases s) (auto simp: validator_set_new_def Let_def try_bind_eq_Ok)
  also have "\<dots> \<longleftrightarrow> vs_epoch s = e \<and> vs_validators s = ?vs \<and> validator_set_inv s"
    unfolding fold keys by (auto simp: validator_set_inv_def)
      (metis length_0_conv length_sort)+
  finally show ?thesis .
qed

section \<open>Quorums\<close>

text \<open>
  Any set of members with voting powers and a threshold above two thirds of the total: two
  quorums share more than a third of the power.
\<close>

locale weighted_quorum =
  fixes valid :: "'s \<Rightarrow> bool"
    and members :: "'s \<Rightarrow> 'v set"
    and power :: "'s \<Rightarrow> 'v \<Rightarrow> nat"
    and threshold :: "'s \<Rightarrow> nat"
  assumes finite_members: "valid s \<Longrightarrow> finite (members s)"
    and threshold_two_thirds: "valid s \<Longrightarrow> 2 * sum (power s) (members s) < 3 * threshold s"
begin

lemma quorum_intersection:
  assumes "valid s" "A \<subseteq> members s" "B \<subseteq> members s"
    "threshold s \<le> sum (power s) A" "threshold s \<le> sum (power s) B"
  shows "sum (power s) (members s) < 3 * sum (power s) (A \<inter> B)"
proof -
  have fin: "finite A" "finite B" using assms finite_members finite_subset by blast+
  have "sum (power s) (A \<union> B) \<le> sum (power s) (members s)"
    using assms finite_members by (intro sum_mono2) auto
  moreover have "sum (power s) A + sum (power s) B =
      sum (power s) (A \<union> B) + sum (power s) (A \<inter> B)"
    using fin by (rule sum.union_inter [symmetric])
  ultimately show ?thesis using threshold_two_thirds [OF assms(1)] assms(4,5) by linarith
qed

lemma quorum_correct_member:
  assumes "valid s" "A \<subseteq> members s" "B \<subseteq> members s"
    "threshold s \<le> sum (power s) A" "threshold s \<le> sum (power s) B"
    and "3 * sum (power s) (F \<inter> members s) \<le> sum (power s) (members s)"
  shows "\<exists>v \<in> A \<inter> B. v \<notin> F"
proof (rule ccontr)
  assume "\<not> ?thesis"
  then have "A \<inter> B \<subseteq> F \<inter> members s" using assms(2) by auto
  then have "sum (power s) (A \<inter> B) \<le> sum (power s) (F \<inter> members s)"
    using finite_members [OF assms(1)] by (intro sum_mono2) auto
  then show False using quorum_intersection [OF assms(1-5)] assms(6) by linarith
qed

end

definition vs_members :: "validator_set \<Rightarrow> validator_id set" where
  "vs_members s = vi_id ` set (vs_validators s)"

definition vs_power :: "validator_set \<Rightarrow> validator_id \<Rightarrow> nat" where
  "vs_power s vid = (case vs_get s vid of Some v \<Rightarrow> unat (vi_voting_power v) | None \<Rightarrow> 0)"

lemma vs_get_Some_iff:
  "validator_set_inv s \<Longrightarrow> vs_get s vid = Some v \<longleftrightarrow> v \<in> set (vs_validators s) \<and> vi_id v = vid"
  by (simp add: vs_get_def bsearch_get_Some_iff validator_set_inv_def)

lemma vs_get_None_iff: "validator_set_inv s \<Longrightarrow> vs_get s vid = None \<longleftrightarrow> vid \<notin> vs_members s"
  by (simp add: vs_get_def bsearch_get_None_iff validator_set_inv_def vs_members_def)

lemma finite_vs_members [simp]: "finite (vs_members s)"
  by (simp add: vs_members_def)

lemma sum_vs_power:
  assumes "validator_set_inv s"
  shows "sum (vs_power s) (vs_members s) = unat (vs_total_voting_power s)"
proof -
  have inj: "inj_on vi_id (set (vs_validators s))"
    using assms key_sorted_distinct by (auto simp: validator_set_inv_def distinct_map)
  have d: "distinct (vs_validators s)"
    using assms key_sorted_distinct by (auto simp: validator_set_inv_def distinct_map)
  have "sum (vs_power s) (vs_members s) = (\<Sum>v \<in> set (vs_validators s). vs_power s (vi_id v))"
    unfolding vs_members_def using inj by (rule sum.reindex_cong) auto
  also have "\<dots> = (\<Sum>v \<in> set (vs_validators s). unat (vi_voting_power v))"
  proof (rule sum.cong)
    fix v assume "v \<in> set (vs_validators s)"
    then have "vs_get s (vi_id v) = Some v" using vs_get_Some_iff [OF assms] by blast
    then show "vs_power s (vi_id v) = unat (vi_voting_power v)" by (simp add: vs_power_def)
  qed simp
  also have "\<dots> = power_sum (vs_validators s)"
    using d by (simp add: power_sum_def sum_list_distinct_conv_sum_set)
  finally show ?thesis using assms by (simp add: validator_set_inv_def)
qed

lemma total_power_pos: "validator_set_inv s \<Longrightarrow> 0 < unat (vs_total_voting_power s)"
proof -
  assume inv: "validator_set_inv s"
  then obtain v vs where vs: "vs_validators s = v # vs"
    by (cases "vs_validators s") (auto simp: validator_set_inv_def)
  then have "0 < unat (vi_voting_power v)"
    using inv by (auto simp: validator_set_inv_def validator_info_ok_def unat_gt_0)
  then show ?thesis using inv vs by (simp add: validator_set_inv_def power_sum_def)
qed

lemma unat_quorum_threshold:
  assumes "validator_set_inv s"
  shows "unat (quorum_threshold s) =
    unat (vs_total_voting_power s) - (unat (vs_total_voting_power s) - 1) div 3"
proof -
  let ?t = "vs_total_voting_power s"
  have pos: "1 \<le> ?t"
    using total_power_pos [OF assms] by (simp add: word_le_nat_alt)
  have d: "unat ((?t - 1) div 3) = (unat ?t - 1) div 3"
    using pos by (simp add: unat_div unat_sub)
  then have "(?t - 1) div 3 \<le> ?t" by (simp add: word_le_nat_alt)
  then show ?thesis by (simp add: quorum_threshold_def unat_sub d)
qed

lemma quorum_threshold_bounds:
  assumes "validator_set_inv s"
  shows "2 * unat (vs_total_voting_power s) < 3 * unat (quorum_threshold s)"
    "unat (quorum_threshold s) \<le> unat (vs_total_voting_power s)"
    "3 * (unat (quorum_threshold s) - 1) \<le> 2 * unat (vs_total_voting_power s)"
proof -
  have eq: "unat (quorum_threshold s) =
      unat (vs_total_voting_power s) - (unat (vs_total_voting_power s) - 1) div 3"
    by (rule unat_quorum_threshold [OF assms])
  have "0 < unat (vs_total_voting_power s)" by (rule total_power_pos [OF assms])
  then show "2 * unat (vs_total_voting_power s) < 3 * unat (quorum_threshold s)"
    "unat (quorum_threshold s) \<le> unat (vs_total_voting_power s)"
    "3 * (unat (quorum_threshold s) - 1) \<le> 2 * unat (vs_total_voting_power s)"
    unfolding eq by linarith+
qed

interpretation vs_quorum: weighted_quorum validator_set_inv vs_members vs_power
  "\<lambda>s. unat (quorum_threshold s)"
  by unfold_locales (auto simp: sum_vs_power quorum_threshold_bounds(1))

section \<open>Leaders\<close>

lemma mset_rotate: "mset (rotate n xs) = mset xs"
  unfolding rotate_drop_take by (metis append_take_drop_id mset_append union_commute)

lemma leader_eq:
  assumes "validator_set_inv s" "view \<noteq> 0"
  shows "leader s view = Some (map vi_id (vs_validators s) !
    ((unat view - 1) mod length (vs_validators s)))"
proof -
  let ?n = "length (vs_validators s)"
  have n: "0 < ?n" "?n < 2 ^ 64" using assms(1) by (auto simp: validator_set_inv_def MAX_VALIDATORS_def)
  have "1 \<le> view" using assms(2) by (simp add: word_le_nat_alt unat_gt_0 Suc_le_eq)
  then have "unat ((view - 1) mod of_nat ?n) = (unat view - 1) mod ?n"
    using n by (simp add: unat_mod unat_sub unat_of_nat)
  then show ?thesis
    using \<open>1 \<le> view\<close> n by (simp add: leader_def checked_sub_def)
qed

lemma leader_member:
  assumes "validator_set_inv s" "leader s view = Some l"
  shows "l \<in> vs_members s"
proof -
  have "view \<noteq> 0" using assms(2) by (auto simp: leader_def checked_sub_def split: if_splits)
  moreover have "(unat view - 1) mod length (vs_validators s) < length (vs_validators s)"
    using assms(1) by (simp add: validator_set_inv_def)
  ultimately show ?thesis using assms by (auto simp: leader_eq vs_members_def)
qed

section \<open>The snapshot codec\<close>

definition info_frame :: "validator_info \<Rightarrow> canonical_frame" where
  "info_frame v = \<lparr> cf_type_id = 0xC001, cf_version = 1, cf_fields =
     [(1, vi_id v), (2, u64_to_le_bytes (vi_voting_power v)),
      (3, u16_to_le_bytes (signature_scheme_as_u16 (vi_signature_scheme v))),
      (4, vi_public_key v)] \<rparr>"

definition set_frame :: "validator_set \<Rightarrow> bytes list \<Rightarrow> canonical_frame" where
  "set_frame s bs = \<lparr> cf_type_id = 0xC002, cf_version = 1, cf_fields =
     [(1, u64_to_le_bytes (vs_epoch s)), (2, u64_to_le_bytes (vs_total_voting_power s)),
      (3, u64_to_le_bytes (quorum_threshold s)),
      (4, u32_to_le_bytes (of_nat (length (vs_validators s))))] @
     zip (map of_nat [5..<5 + length (vs_validators s)]) bs \<rparr>"

definition validator_set_wf :: "validator_set \<Rightarrow> bool" where
  "validator_set_wf s \<longleftrightarrow> validator_set_inv s \<and> (\<forall>v \<in> set (vs_validators s). array32 (vi_id v))"

lemma encode_validator_info_Ok_iff:
  "encode_validator_info v = Ok b \<longleftrightarrow> validator_info_ok v \<and> encode_frame (info_frame v) = Ok b"
  by (simp add: encode_validator_info_def result_simps encode_simps info_frame_def
      VALIDATOR_INFO_TYPE_ID_def VS_ENCODING_VERSION_def)

lemma info_frame_wf [simp]: "frame_wf (info_frame v)"
  by (simp add: info_frame_def key_sorted_def)

lemma decode_member_Ok_iff:
  "decode_member k b = Ok v \<longleftrightarrow>
     array32 (vi_id v) \<and> length (vi_public_key v) \<le> min k MAX_PUBLIC_KEY_BYTES \<and>
     encode_frame (info_frame v) = Ok b"
proof
  assume "decode_member k b = Ok v"
  then obtain f w where f: "decode_canonical_frame b = Ok f" "cf_type_id f = 0xC001"
    "cf_version f = 1" "fst ` set (cf_fields f) \<subseteq> set [1, 2, 3, 4]"
    "frame_field f 1 = Some (vi_id v)" "length (vi_id v) = 32"
    "frame_field f 2 = Some (u64_to_le_bytes (vi_voting_power v))"
    "frame_field f 3 = Some (u16_to_le_bytes w)"
    "signature_scheme_try_from w = Ok (vi_signature_scheme v)"
    "frame_field f 4 = Some (vi_public_key v)"
    "length (vi_public_key v) \<le> min k MAX_PUBLIC_KEY_BYTES"
    by (auto simp: decode_member_def result_simps VALIDATOR_INFO_TYPE_ID_def
        VS_ENCODING_VERSION_def not_less split: if_splits)
  have wf: "frame_wf f" "encode_frame f = Ok b" using frame.enc_dec [OF f(1)] by auto
  have "f = \<lparr> cf_type_id = 0xC001, cf_version = 1, cf_fields =
      map (\<lambda>i. (i, the (frame_field f i))) [1, 2, 3, 4] \<rparr>"
    using f wf by (intro frame_eqI) auto
  then have "f = info_frame v"
    using f signature_scheme_try_from_OkD [OF f(9)] by (simp add: info_frame_def)
  then show "array32 (vi_id v) \<and> length (vi_public_key v) \<le> min k MAX_PUBLIC_KEY_BYTES \<and>
      encode_frame (info_frame v) = Ok b"
    using f wf by (simp add: array32_def)
next
  assume *: "array32 (vi_id v) \<and> length (vi_public_key v) \<le> min k MAX_PUBLIC_KEY_BYTES \<and>
    encode_frame (info_frame v) = Ok b"
  then have "decode_canonical_frame b = Ok (info_frame v)" by (intro decode_encode_frame) auto
  then show "decode_member k b = Ok v"
    using * frame_field_eq [OF info_frame_wf, of v]
    by (simp add: decode_member_def result_simps)
      (simp add: info_frame_def array32_def VALIDATOR_INFO_TYPE_ID_def VS_ENCODING_VERSION_def
        not_less)
qed

lemma encode_validator_set_Ok_iff:
  assumes "length (vs_validators s) \<le> MAX_VALIDATORS"
  shows "encode_validator_set s = Ok b \<longleftrightarrow>
    (\<exists>bs. list_all2 (\<lambda>v b. encode_validator_info v = Ok b) (vs_validators s) bs \<and>
      encode_frame (set_frame s bs) = Ok b)"
proof -
  have small: "length (vs_validators s) < 2 ^ 32"
    using assms by (simp add: MAX_VALIDATORS_def)
  have members: "put_items (TooManyValidators n) VsCanonicalEncoding encode_validator_info 5
      (vs_validators s) \<lparr> cs_type_id = 0xC002, cs_version = 1, cs_fields =
        [(1, e), (2, p), (3, q), (4, r)] \<rparr> = Ok c \<longleftrightarrow>
    (\<exists>bs. list_all2 (\<lambda>v b. encode_validator_info v = Ok b) (vs_validators s) bs \<and>
      c = \<lparr> cs_type_id = 0xC002, cs_version = 1, cs_fields = [(1, e), (2, p), (3, q), (4, r)] @
        zip (map of_nat [5..<5 + length (vs_validators s)]) bs \<rparr>)" for n e p q r c
    using assms by (intro put_items_Ok_iff) (auto simp: MAX_VALIDATORS_def)
  show ?thesis
    using small
    by (auto simp: encode_validator_set_def Let_def encode_simps u32_try_from_def
        VALIDATOR_SET_TYPE_ID_def VS_ENCODING_VERSION_def try_bind_eq_Ok members map_err_eq_Ok
        set_frame_def)
qed

lemma set_frame_keys:
  "length bs = length (vs_validators s) \<Longrightarrow>
   map fst (cf_fields (set_frame s bs)) = map of_nat [1..<5 + length (vs_validators s)]"
proof -
  assume "length bs = length (vs_validators s)"
  moreover have "[1..<5] = [1, 2, 3, 4]" by (simp add: upt_conv_Cons)
  then have "[1..<5 + length (vs_validators s)] = [1, 2, 3, 4] @ [5..<5 + length (vs_validators s)]"
    using upt_add_eq_append [of 1 5 "length (vs_validators s)"] by simp
  ultimately show ?thesis by (simp add: set_frame_def)
qed

lemma set_frame_wf:
  assumes "length bs = length (vs_validators s)" "length (vs_validators s) \<le> MAX_VALIDATORS"
  shows "frame_wf (set_frame s bs)"
  using assms sorted_of_nat_upt [of "5 + length (vs_validators s)" 1]
  by (simp add: frame_wf_def key_sorted_def set_frame_keys MAX_VALIDATORS_def)

lemma set_frame_member:
  assumes "length bs = length (vs_validators s)" "length (vs_validators s) \<le> MAX_VALIDATORS"
    "i < length bs"
  shows "frame_field (set_frame s bs) (of_nat (i + 5)) = Some (bs ! i)"
proof -
  have wf: "frame_wf (set_frame s bs)" using assms by (intro set_frame_wf) auto
  have d: "distinct (map fst (cf_fields (set_frame s bs)))"
    using wf key_sorted_distinct by (auto simp: frame_wf_def)
  have "(of_nat (i + 5) :: u16, bs ! i) \<in> set (zip (map of_nat [5..<5 + length (vs_validators s)]) bs)"
    using assms by (auto simp: set_zip add.commute [of i] simp del: of_nat_add intro!: exI [of _ i])
  then have "(of_nat (i + 5), bs ! i) \<in> set (cf_fields (set_frame s bs))"
    by (simp add: set_frame_def del: of_nat_add)
  then show ?thesis unfolding frame_field_eq [OF wf] using d by (simp add: map_of_is_SomeI)
qed

lemma set_frame_head:
  assumes "length bs = length (vs_validators s)" "length (vs_validators s) \<le> MAX_VALIDATORS"
  shows "frame_field (set_frame s bs) 1 = Some (u64_to_le_bytes (vs_epoch s))"
    "frame_field (set_frame s bs) 4 = Some (u32_to_le_bytes (of_nat (length (vs_validators s))))"
  using frame_field_eq [OF set_frame_wf [OF assms]] by (simp_all add: set_frame_def)

lemma sort_key_key_sorted: "key_sorted f xs \<Longrightarrow> sort_key f xs = xs"
  by (simp add: key_sorted_def sort_key_id_if_sorted strict_sorted_iff)

lemma validator_set_new_fixpoint:
  "validator_set_inv s \<Longrightarrow> validator_set_new (vs_epoch s) (vs_validators s) = Ok s"
  by (simp add: validator_set_new_Ok_iff sort_key_key_sorted validator_set_inv_def)

lemma u16_field_ids:
  "n \<le> MAX_VALIDATORS \<Longrightarrow>
   try_map (\<lambda>value. ok_or (u16_try_from value) e) [1..<n + 5] = Ok (map of_nat [1..<n + 5])"
  by (auto simp: try_map_eq_Ok list_all2_conv_all_nth u16_try_from_def MAX_VALIDATORS_def)

lemma encode_decode_validator_set:
  assumes wf: "validator_set_wf s" and enc: "encode_validator_set s = Ok b"
    and members: "length (vs_validators s) \<le> m"
    and keys: "\<forall>v \<in> set (vs_validators s). length (vi_public_key v) \<le> k"
  shows "decode_validator_set_with_limits b m k = Ok s"
proof -
  let ?vs = "vs_validators s" and ?n = "length (vs_validators s)"
  have inv: "validator_set_inv s" using wf by (simp add: validator_set_wf_def)
  have max: "?n \<le> MAX_VALIDATORS" using inv by (simp add: validator_set_inv_def)
  have n: "unat (of_nat ?n :: u32) = ?n" using max by (simp add: unat_of_nat MAX_VALIDATORS_def)
  obtain bs where bs: "list_all2 (\<lambda>v b. encode_validator_info v = Ok b) ?vs bs"
    "encode_frame (set_frame s bs) = Ok b"
    using enc encode_validator_set_Ok_iff [OF max] by auto
  have len: "length bs = ?n" using bs(1) list_all2_lengthD by fastforce
  have dec: "decode_canonical_frame b = Ok (set_frame s bs)"
    using bs(2) set_frame_wf [OF len max] by (rule decode_encode_frame)
  have only: "fst ` set (cf_fields (set_frame s bs)) \<subseteq> set (map of_nat [1..<?n + 5])"
    using set_frame_keys [OF len] by (metis add.commute image_set order_refl)
  have "try_bind (map_err VsCanonicalDecoding (required_field (set_frame s bs)
      (map of_nat [1..<?n + 5] ! (i + 4)))) (decode_member k) = Ok (?vs ! i)" if i: "i < ?n" for i
  proof -
    have "map of_nat [1..<?n + 5] ! (i + 4) = (of_nat (i + 5) :: u16)"
      using i by (simp add: add.commute [of i] del: upt_Suc of_nat_add)
    moreover have "decode_member k (bs ! i) = Ok (?vs ! i)"
      using bs(1) i wf keys inv
      by (auto simp: decode_member_Ok_iff list_all2_conv_all_nth encode_validator_info_Ok_iff
          validator_set_wf_def validator_info_ok_def)
    ultimately show ?thesis
      using set_frame_member [OF len max] i len by (simp add: required_field_def del: of_nat_add)
  qed
  then have vs: "try_map (\<lambda>index. try_bind (map_err VsCanonicalDecoding
      (required_field (set_frame s bs) (map of_nat [1..<?n + 5] ! (index + 4))))
      (decode_member k)) [0..<?n] = Ok ?vs"
    unfolding try_map_eq_Ok list_all2_conv_all_nth by simp
  have hd: "required_u32 (set_frame s bs) 4 = Ok (of_nat ?n)"
    "required_u64 (set_frame s bs) 1 = Ok (vs_epoch s)"
    using set_frame_head [OF len max] by (simp_all add: result_simps)
  have t: "require_type (set_frame s bs) VALIDATOR_SET_TYPE_ID = Ok ()"
    "require_version (set_frame s bs) VS_ENCODING_VERSION = Ok ()"
    "require_only_fields (set_frame s bs) (map of_nat [1..<?n + 5]) = Ok ()"
    using only by (simp_all add: result_simps set_frame_def VALIDATOR_SET_TYPE_ID_def
        VS_ENCODING_VERSION_def)
  show ?thesis
    unfolding decode_validator_set_with_limits_def
    using members max
    by (simp add: dec t hd n u16_field_ids vs validator_set_new_fixpoint [OF inv] enc Let_def
        not_less del: upt_Suc One_nat_def)
qed

lemma decode_encode_validator_set:
  assumes "decode_validator_set_with_limits b m k = Ok s"
  shows "validator_set_wf s" "encode_validator_set s = Ok b" "length (vs_validators s) \<le> m"
    "\<forall>v \<in> set (vs_validators s). length (vi_public_key v) \<le> k"
proof -
  from assms obtain f count ids vs e where
    count: "unat (count :: u32) \<le> min m MAX_VALIDATORS"
    and vs: "try_map (\<lambda>index. try_bind (map_err VsCanonicalDecoding
        (required_field f (ids ! (index + 4)))) (decode_member k)) [0..<unat count] = Ok vs"
    and new: "validator_set_new e vs = Ok s" and enc: "encode_validator_set s = Ok b"
    by (auto simp: decode_validator_set_with_limits_def result_simps Let_def not_less
        split: if_splits)
  have "length vs = unat count" using vs list_all2_lengthD by (fastforce simp: try_map_eq_Ok)
  then have len: "length (vs_validators s) = unat count"
    using new by (simp add: validator_set_new_Ok_iff)
  have "\<exists>c. decode_member k c = Ok v" if "v \<in> set vs" for v
    using vs that by (fastforce simp: try_map_eq_Ok list_all2_conv_all_nth in_set_conv_nth result_simps)
  then have "\<forall>v \<in> set (vs_validators s). array32 (vi_id v) \<and> length (vi_public_key v) \<le> k"
    using new by (auto simp: validator_set_new_Ok_iff decode_member_Ok_iff)
  then show "validator_set_wf s" "encode_validator_set s = Ok b" "length (vs_validators s) \<le> m"
    "\<forall>v \<in> set (vs_validators s). length (vi_public_key v) \<le> k"
    using new enc len count by (auto simp: validator_set_wf_def validator_set_new_Ok_iff)
qed

lemma decode_validator_set_with_limits_Ok_iff:
  "decode_validator_set_with_limits b m k = Ok s \<longleftrightarrow>
     validator_set_wf s \<and> encode_validator_set s = Ok b \<and> length (vs_validators s) \<le> m \<and>
     (\<forall>v \<in> set (vs_validators s). length (vi_public_key v) \<le> k)"
  using encode_decode_validator_set decode_encode_validator_set by metis

lemma decode_validator_set_Ok_iff:
  "decode_validator_set b = Ok s \<longleftrightarrow> validator_set_wf s \<and> encode_validator_set s = Ok b"
  by (auto simp: decode_validator_set_def decode_validator_set_with_limits_Ok_iff
      validator_set_wf_def validator_set_inv_def validator_info_ok_def)

interpretation validator_set_codec: strict_codec encode_validator_set decode_validator_set
  validator_set_wf
  by unfold_locales (auto simp: decode_validator_set_Ok_iff)

section \<open>A four-member snapshot\<close>

text \<open>The concrete set the witnesses of this and later theories use.\<close>

definition sample_id :: "u8 \<Rightarrow> validator_id" where
  "sample_id i = i # replicate 31 0"

definition sample_validator :: "u8 \<Rightarrow> validator_info" where
  "sample_validator i = \<lparr> vi_id = sample_id i, vi_voting_power = 1,
     vi_signature_scheme = Ed25519, vi_public_key = [i] \<rparr>"

definition sample_set :: validator_set where
  "sample_set = \<lparr> vs_epoch = 0, vs_validators = map sample_validator [1, 2, 3, 4],
     vs_total_voting_power = 4 \<rparr>"

lemma sample_validator_simps [simp]:
  "vi_id (sample_validator i) = sample_id i" "vi_voting_power (sample_validator i) = 1"
  "vi_signature_scheme (sample_validator i) = Ed25519" "vi_public_key (sample_validator i) = [i]"
  by (simp_all add: sample_validator_def)

lemma sample_id_less [simp]: "sample_id i < sample_id j \<longleftrightarrow> i < j"
  by (auto simp: sample_id_def)

lemma sample_id_inject [simp]: "sample_id i = sample_id j \<longleftrightarrow> i = j"
  by (auto simp: sample_id_def)

lemma sample_set_inv: "validator_set_inv sample_set"
  by (simp add: validator_set_inv_def sample_set_def key_sorted_def validator_info_ok_def
      MAX_VALIDATORS_def MAX_PUBLIC_KEY_BYTES_def power_sum_def)

lemma sample_set_new:
  "validator_set_new 0 (map sample_validator [1, 2, 3, 4]) = Ok sample_set"
  using validator_set_new_fixpoint [OF sample_set_inv] by (simp add: sample_set_def)

lemma sample_set_members: "vs_members sample_set = sample_id ` {1, 2, 3, 4}"
  by (auto simp: vs_members_def sample_set_def)

lemma sample_set_get:
  "i \<in> {1, 2, 3, 4} \<Longrightarrow> vs_get sample_set (sample_id i) = Some (sample_validator i)"
  unfolding vs_get_Some_iff [OF sample_set_inv] by (auto simp: sample_set_def)

lemma sample_set_power: "i \<in> {1, 2, 3, 4} \<Longrightarrow> vs_power sample_set (sample_id i) = 1"
  by (simp add: vs_power_def sample_set_get)

lemma sample_set_threshold: "quorum_threshold sample_set = 3"
  by (simp add: quorum_threshold_def sample_set_def)

section \<open>Correctness of validator sets\<close>

text \<open>
  C25. Any two quorums of one validator set overlap in more than a third of its voting power: the
  threshold is the least power strictly above two thirds of the total, it never underflows, and
  for two groups of members that both reach it, the power they share exceeds one third of the
  total. If the faulty members hold at most a third, some correct member is in both.
\<close>

theorem quorum_threshold_correct:
  assumes "validator_set_new e vs = Ok s"
    and "A \<subseteq> vs_members s" "B \<subseteq> vs_members s"
    and "unat (quorum_threshold s) \<le> sum (vs_power s) A"
    and "unat (quorum_threshold s) \<le> sum (vs_power s) B"
  shows "unat (vs_total_voting_power s) < 3 * sum (vs_power s) (A \<inter> B) \<and>
    (3 * sum (vs_power s) (F \<inter> vs_members s) \<le> unat (vs_total_voting_power s) \<longrightarrow>
      (\<exists>v \<in> A \<inter> B. v \<notin> F)) \<and>
    2 * unat (vs_total_voting_power s) < 3 * unat (quorum_threshold s) \<and>
    unat (quorum_threshold s) \<le> unat (vs_total_voting_power s) \<and>
    3 * (unat (quorum_threshold s) - 1) \<le> 2 * unat (vs_total_voting_power s)"
proof -
  have inv: "validator_set_inv s" using assms(1) by (simp add: validator_set_new_Ok_iff)
  show ?thesis
    using vs_quorum.quorum_intersection [OF inv assms(2-5)]
      vs_quorum.quorum_correct_member [OF inv assms(2-5)] quorum_threshold_bounds [OF inv]
    by (simp add: sum_vs_power [OF inv])
qed

theorem quorum_threshold_correct_witness:
  "unat (vs_total_voting_power sample_set) <
     3 * sum (vs_power sample_set) (sample_id ` {1, 2, 3} \<inter> sample_id ` {2, 3, 4}) \<and>
   (\<exists>v \<in> sample_id ` {1, 2, 3} \<inter> sample_id ` {2, 3, 4}. v \<notin> {sample_id 2})"
proof -
  have sums: "unat (quorum_threshold sample_set) \<le> sum (vs_power sample_set) (sample_id ` {1, 2, 3})"
    "unat (quorum_threshold sample_set) \<le> sum (vs_power sample_set) (sample_id ` {2, 3, 4})"
    by (simp_all add: sample_set_threshold sample_set_power)
  have one: "3 * sum (vs_power sample_set) ({sample_id 2} \<inter> vs_members sample_set) \<le>
      unat (vs_total_voting_power sample_set)"
    by (simp add: sample_set_members sample_set_power) (simp add: sample_set_def)
  show ?thesis
    using quorum_threshold_correct [OF sample_set_new _ _ sums, of "{sample_id 2}"] one
    by (simp add: sample_set_members)
qed

text \<open>
  C26. \<open>ValidatorSet::new\<close> accepts exactly the non-empty lists of at most \<open>MAX_VALIDATORS\<close> valid
  members with distinct identifiers and distinct public keys whose powers sum below \<open>2 ^ 64\<close>; the
  snapshot is the list sorted by identifier with the exact sum, whatever order the list came in.
\<close>

theorem validator_set_new_exact:
  "validator_set_new e vs = Ok s \<longleftrightarrow>
     vs \<noteq> [] \<and> length vs \<le> MAX_VALIDATORS \<and>
     list_all (\<lambda>v. validator_info_validate v = Ok ()) vs \<and>
     distinct (map vi_id vs) \<and> distinct (map vi_public_key vs) \<and>
     sum_list (map (\<lambda>v. unat (vi_voting_power v)) vs) < 2 ^ 64 \<and>
     s = \<lparr> vs_epoch = e, vs_validators = sort_key vi_id vs,
           vs_total_voting_power = of_nat (sum_list (map (\<lambda>v. unat (vi_voting_power v)) vs)) \<rparr>"
proof -
  have sorted: "key_sorted vi_id (sort_key vi_id vs) \<longleftrightarrow> distinct (map vi_id vs)"
    by (simp add: key_sorted_def strict_sorted_iff)
  have total: "unat (t :: u64) = n \<longleftrightarrow> n < 2 ^ 64 \<and> t = of_nat n" for t n
    using unsigned_less [of t, where 'a = nat] by (auto simp: unat_of_nat)
  have nonempty: "sort_key vi_id vs = [] \<longleftrightarrow> vs = []"
    by (metis length_0_conv length_sort)
  show ?thesis
    unfolding validator_set_new_Ok_iff validator_set_inv_def total
    by (cases s) (auto simp: sorted nonempty result_simps list_all_iff power_sum_def [symmetric])
qed

text \<open>
  C27. The leader rotation is fair: in any window of as many consecutive non-zero views as there are
  validators, every validator leads exactly once; view 0 has no leader.
\<close>

theorem leader_rotation_fair:
  assumes "validator_set_new e vs = Ok s" "view \<noteq> 0"
    and "unat view + length vs \<le> 2 ^ 64"
  shows "mset (map (\<lambda>i. leader s (view + of_nat i)) [0..<length vs]) =
      mset (map (\<lambda>v. Some (vi_id v)) vs) \<and> leader s 0 = None"
proof -
  have inv: "validator_set_inv s" and vs: "vs_validators s = sort_key vi_id vs"
    using assms(1) by (auto simp: validator_set_new_Ok_iff)
  define ids where "ids = map (\<lambda>v. Some (vi_id v)) (vs_validators s)"
  have len: "length ids = length vs" "length (vs_validators s) = length vs"
    by (simp_all add: ids_def vs)
  have "map (\<lambda>i. leader s (view + of_nat i)) [0..<length vs] = rotate (unat view - 1) ids"
  proof (rule nth_equalityI)
    fix i assume "i < length (map (\<lambda>i. leader s (view + of_nat i)) [0..<length vs])"
    then have i: "i < length vs" by simp
    have pos: "0 < unat view" using assms(2) by (simp add: unat_gt_0)
    have sum: "unat (view + of_nat i) = unat view + i"
      using i assms(3) by (subst unat_add_less) (simp_all add: unat_of_nat)
    then have nz: "view + of_nat i \<noteq> 0" using pos by (metis add_gr_0 unat_0 less_irrefl)
    have "0 < length vs" using i by linarith
    then have "(unat view - 1 + i) mod length vs < length vs" by simp
    then have "leader s (view + of_nat i) = rotate (unat view - 1) ids ! i"
      using leader_eq [OF inv nz] sum pos i len by (simp add: nth_rotate ids_def)
    then show "map (\<lambda>i. leader s (view + of_nat i)) [0..<length vs] ! i =
        rotate (unat view - 1) ids ! i" using i by simp
  qed (simp add: len)
  moreover have "mset (rotate (unat view - 1) ids) = mset (map (\<lambda>v. Some (vi_id v)) vs)"
    by (simp add: ids_def vs mset_rotate)
  moreover have "leader s 0 = None" by (simp add: leader_def checked_sub_def)
  ultimately show ?thesis by simp
qed

theorem leader_rotation_fair_witness:
  "{#leader sample_set 7, leader sample_set 8, leader sample_set 9, leader sample_set 10#} =
     {#Some (sample_id 1), Some (sample_id 2), Some (sample_id 3), Some (sample_id 4)#}"
  using leader_rotation_fair [OF sample_set_new, of 7] by simp

text \<open>
  C28. The snapshot codec is exact, with limits only narrowing it: \<open>decode_validator_set_with_limits\<close>
  returns a set if and only if the bytes are that set's canonical encoding, the set satisfies
  the invariant of \<open>ValidatorSet::new\<close> with 32-byte identifiers, and it respects both limits.
  Redundant totals and thresholds that do not match are never accepted.
\<close>

theorem validator_set_codec_exact:
  "decode_validator_set_with_limits b maximum_members maximum_key_bytes = Ok s \<longleftrightarrow>
     encode_validator_set s = Ok b \<and>
     validator_set_new (vs_epoch s) (vs_validators s) = Ok s \<and>
     length (vs_validators s) \<le> maximum_members \<and>
     list_all (\<lambda>v. length (vi_id v) = 32 \<and> length (vi_public_key v) \<le> maximum_key_bytes)
       (vs_validators s)"
proof -
  have "validator_set_inv s \<longleftrightarrow> validator_set_new (vs_epoch s) (vs_validators s) = Ok s"
    using validator_set_new_fixpoint by (auto simp: validator_set_new_Ok_iff)
  then show ?thesis
    unfolding decode_validator_set_with_limits_Ok_iff validator_set_wf_def array32_def list_all_iff
    by auto
qed

end
