(* ===== verification/Signature_Frames.thy ===== *)
theory Signature_Frames
  imports Canonical_Codec
begin

text \<open>
  The crate \<^verbatim>\<open>src/crates/crypto\<close>: the signature-domain frame and its strict decoder, signing and
  verification of canonical payloads, Ed25519 verification and the owner-address policy. The curve
  arithmetic comes from other packages; the records \<open>ed25519_lib\<close> and \<open>edwards_lib\<close> stand for it.
\<close>

section \<open>Data\<close>

definition SIGNATURE_FRAME_TYPE_ID :: u16 where
  "SIGNATURE_FRAME_TYPE_ID = 0x2001"

definition SIGNATURE_FRAME_VERSION :: u16 where
  "SIGNATURE_FRAME_VERSION = 1"

datatype crypto_error =
    EmptyMessageType
  | InvalidVerificationKeyLength usize
  | MalformedVerificationKey
  | InvalidSignatureLength usize
  | SignatureSchemeMismatch signature_scheme_id signature_scheme_id
  | CryptoCanonicalEncoding canonical_encoding_error
  | CryptoCanonicalDecoding canonical_decoding_error
  | CryptoProtocolType type_error

type_synonym signature_message_type = bytes

definition signature_message_type_new :: "bytes \<Rightarrow> (crypto_error, signature_message_type) result" where
  "signature_message_type_new value =
     (if str_is_blank value then Err EmptyMessageType else Ok value)"

record signature_domain =
  sd_chain_id :: chain_id
  sd_protocol_version :: protocol_version
  sd_epoch :: epoch
  sd_message_type :: signature_message_type
  sd_signature_scheme_id :: signature_scheme_id

record signature_frame_view =
  sfv_chain_id :: bytes
  sfv_protocol_version :: protocol_version
  sfv_epoch :: epoch
  sfv_message_type :: bytes
  sfv_signature_scheme_id :: signature_scheme_id
  sfv_payload :: bytes

section \<open>Framing\<close>

definition frame_signature_message ::
  "signature_domain \<Rightarrow> bytes \<Rightarrow> (crypto_error, bytes) result" where
  "frame_signature_message sdom payload =
     map_err CryptoCanonicalEncoding (
       try_bind (field_str 1 (sd_chain_id sdom)
                   (cs_new SIGNATURE_FRAME_TYPE_ID SIGNATURE_FRAME_VERSION)) (\<lambda>frame.
       try_bind (field_u32 2 (sd_protocol_version sdom) frame) (\<lambda>frame.
       try_bind (field_u64 3 (sd_epoch sdom) frame) (\<lambda>frame.
       try_bind (field_str 4 (sd_message_type sdom) frame) (\<lambda>frame.
       try_bind (field_u16 5 (signature_scheme_as_u16 (sd_signature_scheme_id sdom)) frame) (\<lambda>frame.
       try_bind (field_bytes 6 payload frame) finish))))))"

definition decode_signature_frame :: "bytes \<Rightarrow> (crypto_error, signature_frame_view) result" where
  "decode_signature_frame input =
     try_bind (map_err CryptoCanonicalDecoding (decode_canonical_frame input)) (\<lambda>frame.
     try_bind (map_err CryptoCanonicalDecoding (require_type frame SIGNATURE_FRAME_TYPE_ID)) (\<lambda>_.
     try_bind (map_err CryptoCanonicalDecoding (require_version frame SIGNATURE_FRAME_VERSION)) (\<lambda>_.
     try_bind (map_err CryptoCanonicalDecoding (require_only_fields frame [1, 2, 3, 4, 5, 6])) (\<lambda>_.
     try_bind (map_err CryptoCanonicalDecoding (required_str frame 1)) (\<lambda>chain_id.
     if str_is_blank chain_id then Err (CryptoProtocolType EmptyChainId)
     else
       try_bind (map_err CryptoCanonicalDecoding (required_u32 frame 2)) (\<lambda>protocol_version.
       try_bind (map_err CryptoCanonicalDecoding (required_u64 frame 3)) (\<lambda>epoch.
       try_bind (map_err CryptoCanonicalDecoding (required_str frame 4)) (\<lambda>message_type.
       if str_is_blank message_type then Err EmptyMessageType
       else
         try_bind (map_err CryptoCanonicalDecoding (required_u16 frame 5)) (\<lambda>scheme.
         try_bind (map_err CryptoProtocolType (signature_scheme_try_from scheme))
           (\<lambda>signature_scheme_id.
         try_bind (map_err CryptoCanonicalDecoding (required_field frame 6)) (\<lambda>payload.
         Ok \<lparr> sfv_chain_id = chain_id, sfv_protocol_version = protocol_version,
              sfv_epoch = epoch, sfv_message_type = message_type,
              sfv_signature_scheme_id = signature_scheme_id,
              sfv_payload = payload \<rparr>)))))))))))"

section \<open>Signing and verifying\<close>

text \<open>
  A signer is its scheme and \<open>sign_framed\<close>, a verifier its scheme and \<open>verify_framed\<close>: the
  required methods of the traits, which the provided methods call.
\<close>

definition sign_canonical ::
  "signature_scheme_id \<Rightarrow> (bytes \<Rightarrow> (crypto_error, bytes) result) \<Rightarrow> signature_domain \<Rightarrow> bytes \<Rightarrow>
   (crypto_error, bytes) result" where
  "sign_canonical scheme_id sign_framed sdom payload =
     (if sd_signature_scheme_id sdom \<noteq> scheme_id
      then Err (SignatureSchemeMismatch scheme_id (sd_signature_scheme_id sdom))
      else try_bind (frame_signature_message sdom payload) sign_framed)"

definition verify_canonical ::
  "signature_scheme_id \<Rightarrow> (bytes \<Rightarrow> bytes \<Rightarrow> (crypto_error, bool) result) \<Rightarrow> signature_domain \<Rightarrow>
   bytes \<Rightarrow> bytes \<Rightarrow> (crypto_error, bool) result" where
  "verify_canonical scheme_id verify_framed sdom payload signature =
     (if sd_signature_scheme_id sdom \<noteq> scheme_id
      then Err (SignatureSchemeMismatch scheme_id (sd_signature_scheme_id sdom))
      else try_bind (frame_signature_message sdom payload) (\<lambda>framed. verify_framed framed signature))"

definition VERIFICATION_KEY_LEN :: usize where
  "VERIFICATION_KEY_LEN = 32"

definition SIGNATURE_LEN :: usize where
  "SIGNATURE_LEN = 64"

text \<open>\<open>ed_key_valid\<close>: the bytes decode to a point; \<open>ed_verify key sig msg\<close>: the check succeeds.\<close>

record ed25519_lib =
  ed_key_valid :: "bytes \<Rightarrow> bool"
  ed_verify :: "bytes \<Rightarrow> bytes \<Rightarrow> bytes \<Rightarrow> bool"

definition from_verifying_key_bytes :: "ed25519_lib \<Rightarrow> bytes \<Rightarrow> (crypto_error, bytes) result" where
  "from_verifying_key_bytes lib key =
     (if length key \<noteq> VERIFICATION_KEY_LEN then Err (InvalidVerificationKeyLength (length key))
      else if \<not> ed_key_valid lib key then Err MalformedVerificationKey
      else Ok key)"

definition ed25519_verify_framed ::
  "ed25519_lib \<Rightarrow> bytes \<Rightarrow> bytes \<Rightarrow> bytes \<Rightarrow> (crypto_error, bool) result" where
  "ed25519_verify_framed lib key framed_message signature =
     (if length signature \<noteq> SIGNATURE_LEN then Err (InvalidSignatureLength (length signature))
      else Ok (ed_verify lib key signature framed_message))"

section \<open>Owner addresses\<close>

datatype owner_address_policy = LegacyZip215 | CanonicalPrimeOrder

datatype owner_address_error =
  MalformedPoint | NonCanonicalPoint | IdentityPoint | NonPrimeOrderPoint

record 'p edwards_lib =
  decompress :: "bytes \<Rightarrow> 'p option"
  compress :: "'p \<Rightarrow> bytes"
  is_identity :: "'p \<Rightarrow> bool"
  is_torsion_free :: "'p \<Rightarrow> bool"

definition validate_ed25519_owner_address ::
  "'p edwards_lib \<Rightarrow> bytes \<Rightarrow> owner_address_policy \<Rightarrow> (owner_address_error, unit) result" where
  "validate_ed25519_owner_address lib bs policy =
     (if policy = LegacyZip215 then Ok ()
      else
        try_bind (ok_or (decompress lib bs) MalformedPoint) (\<lambda>point.
        if compress lib point \<noteq> bs then Err NonCanonicalPoint
        else if is_identity lib point then Err IdentityPoint
        else if \<not> is_torsion_free lib point then Err NonPrimeOrderPoint
        else Ok ()))"

section \<open>The signature frame as a codec\<close>

definition view_domain :: "signature_frame_view \<Rightarrow> signature_domain" where
  "view_domain v =
     \<lparr> sd_chain_id = sfv_chain_id v, sd_protocol_version = sfv_protocol_version v,
       sd_epoch = sfv_epoch v, sd_message_type = sfv_message_type v,
       sd_signature_scheme_id = sfv_signature_scheme_id v \<rparr>"

definition encode_view :: "signature_frame_view \<Rightarrow> (crypto_error, bytes) result" where
  "encode_view v = frame_signature_message (view_domain v) (sfv_payload v)"

definition view_wf :: "signature_frame_view \<Rightarrow> bool" where
  "view_wf v \<longleftrightarrow> chain_id_wf (sfv_chain_id v) \<and> utf8_valid (sfv_message_type v) \<and>
     \<not> str_is_blank (sfv_message_type v)"

definition signature_frame :: "signature_domain \<Rightarrow> bytes \<Rightarrow> canonical_frame" where
  "signature_frame sdom payload = \<lparr> cf_type_id = 0x2001, cf_version = 1, cf_fields =
     [(1, sd_chain_id sdom), (2, u32_to_le_bytes (sd_protocol_version sdom)),
      (3, u64_to_le_bytes (sd_epoch sdom)), (4, sd_message_type sdom),
      (5, u16_to_le_bytes (signature_scheme_as_u16 (sd_signature_scheme_id sdom))), (6, payload)] \<rparr>"

lemma frame_signature_message_eq:
  "frame_signature_message sdom payload =
     map_err CryptoCanonicalEncoding (encode_frame (signature_frame sdom payload))"
  by (simp add: frame_signature_message_def signature_frame_def encode_simps
      SIGNATURE_FRAME_TYPE_ID_def SIGNATURE_FRAME_VERSION_def)

lemma signature_frame_wf [simp]: "frame_wf (signature_frame sdom payload)"
  by (simp add: signature_frame_def key_sorted_def)

lemma frame_signature_message_decode:
  "frame_signature_message sdom payload = Ok b \<Longrightarrow>
   decode_canonical_frame b = Ok (signature_frame sdom payload)"
  by (rule decode_encode_frame) (simp_all add: frame_signature_message_eq map_err_eq_Ok)

lemma signature_frame_inject [simp]:
  "signature_frame sdom pl = signature_frame sdom' pl' \<longleftrightarrow> sdom = sdom' \<and> pl = pl'"
  by (cases sdom; cases sdom') (auto simp: signature_frame_def)

lemma decode_signature_frame_Ok_iff:
  "decode_signature_frame b = Ok v \<longleftrightarrow> view_wf v \<and> encode_view v = Ok b"
proof
  assume "decode_signature_frame b = Ok v"
  then obtain f w where f: "decode_canonical_frame b = Ok f" "cf_type_id f = 0x2001"
    "cf_version f = 1" "fst ` set (cf_fields f) \<subseteq> set [1, 2, 3, 4, 5, 6]"
    "frame_field f 1 = Some (sfv_chain_id v)" "utf8_valid (sfv_chain_id v)"
    "\<not> str_is_blank (sfv_chain_id v)"
    "frame_field f 2 = Some (u32_to_le_bytes (sfv_protocol_version v))"
    "frame_field f 3 = Some (u64_to_le_bytes (sfv_epoch v))"
    "frame_field f 4 = Some (sfv_message_type v)" "utf8_valid (sfv_message_type v)"
    "\<not> str_is_blank (sfv_message_type v)" "frame_field f 5 = Some (u16_to_le_bytes w)"
    "signature_scheme_try_from w = Ok (sfv_signature_scheme_id v)"
    "frame_field f 6 = Some (sfv_payload v)"
    by (auto simp: decode_signature_frame_def result_simps SIGNATURE_FRAME_TYPE_ID_def
        SIGNATURE_FRAME_VERSION_def split: if_splits)
  have wf: "frame_wf f" "encode_frame f = Ok b" using frame.enc_dec [OF f(1)] by auto
  have "f = \<lparr> cf_type_id = 0x2001, cf_version = 1, cf_fields =
      map (\<lambda>i. (i, the (frame_field f i))) [1, 2, 3, 4, 5, 6] \<rparr>"
    using f wf by (intro frame_eqI) auto
  then have "f = signature_frame (view_domain v) (sfv_payload v)"
    using f(5-15) signature_scheme_try_from_OkD [OF f(14)]
    by (simp add: signature_frame_def view_domain_def)
  then show "view_wf v \<and> encode_view v = Ok b"
    using f wf by (simp add: view_wf_def chain_id_wf_def encode_view_def frame_signature_message_eq)
next
  assume *: "view_wf v \<and> encode_view v = Ok b"
  then have "decode_canonical_frame b = Ok (signature_frame (view_domain v) (sfv_payload v))"
    by (intro frame_signature_message_decode) (simp add: encode_view_def)
  then show "decode_signature_frame b = Ok v"
    using * frame_field_eq [OF signature_frame_wf, of "view_domain v" "sfv_payload v"]
    by (simp add: decode_signature_frame_def result_simps)
      (simp add: signature_frame_def view_domain_def view_wf_def chain_id_wf_def
        SIGNATURE_FRAME_TYPE_ID_def SIGNATURE_FRAME_VERSION_def)
qed

interpretation signature_frame: strict_codec encode_view decode_signature_frame view_wf
  by unfold_locales (auto simp: decode_signature_frame_Ok_iff)

section \<open>Correctness of signature frames\<close>

text \<open>
  C32. The strict decoder is the exact inverse of \<open>frame_signature_message\<close>: it returns a view if and
  only if the bytes are the frame of that view's domain and payload and both strings are
  non-blank UTF-8. A signed frame can therefore be read in one way only, and a signature over it
  cannot be replayed under another chain, version, epoch, message type, scheme or payload.
\<close>

theorem signature_frame_exact:
  "decode_signature_frame b = Ok v \<longleftrightarrow>
     frame_signature_message
       \<lparr> sd_chain_id = sfv_chain_id v, sd_protocol_version = sfv_protocol_version v,
         sd_epoch = sfv_epoch v, sd_message_type = sfv_message_type v,
         sd_signature_scheme_id = sfv_signature_scheme_id v \<rparr> (sfv_payload v) = Ok b \<and>
     utf8_valid (sfv_chain_id v) \<and> chain_id_new (sfv_chain_id v) = Ok (sfv_chain_id v) \<and>
     utf8_valid (sfv_message_type v) \<and>
     signature_message_type_new (sfv_message_type v) = Ok (sfv_message_type v)"
  unfolding decode_signature_frame_Ok_iff
  by (auto simp: encode_view_def view_domain_def view_wf_def chain_id_wf_def chain_id_new_def
      signature_message_type_new_def)

text \<open>
  What is asked of Ed25519 for one key: its holder's signatures on the framed messages \<open>M\<close> it was asked
  to sign are 64 bytes and verify, and no signature in circulation verifies for another message.
\<close>

definition signer_correct ::
  "ed25519_lib \<Rightarrow> bytes \<Rightarrow> (bytes \<Rightarrow> (crypto_error, bytes) result) \<Rightarrow> bytes set \<Rightarrow> bool" where
  "signer_correct lib key sign M \<longleftrightarrow> (\<forall>m \<in> M. \<forall>s. sign m = Ok s \<longrightarrow>
     length s = SIGNATURE_LEN \<and> ed_verify lib key s m)"

definition key_unforgeable :: "ed25519_lib \<Rightarrow> bytes \<Rightarrow> bytes set \<Rightarrow> bytes set \<Rightarrow> bool" where
  "key_unforgeable lib key sigs M \<longleftrightarrow> (\<forall>s \<in> sigs. \<forall>m. ed_verify lib key s m \<longrightarrow> m \<in> M)"

text \<open>The framed messages of the requests \<open>R\<close> that a signer of the given scheme accepts.\<close>

definition framed_requests ::
  "signature_scheme_id \<Rightarrow> (signature_domain \<times> bytes) set \<Rightarrow> bytes set" where
  "framed_requests sc R = {m. \<exists>(sdom, payload) \<in> R. sd_signature_scheme_id sdom = sc \<and>
     frame_signature_message sdom payload = Ok m}"

lemma frame_signature_message_inject:
  assumes "frame_signature_message sdom pl = Ok b" "frame_signature_message sdom' pl' = Ok b"
  shows "sdom = sdom' \<and> pl = pl'"
  using frame_signature_message_decode [OF assms(1)] frame_signature_message_decode [OF assms(2)] by simp

text \<open>
  C33. A canonical signature authenticates the whole signing request. If the holder of an Ed25519 key
  signs only the frames of its requests, what \<open>sign_canonical\<close> returns for a request passes
  \<open>verify_canonical\<close> for it, and a signature in circulation passes \<open>verify_canonical\<close> for a domain and
  payload only if exactly that chain, version, epoch, message type, scheme and payload was a request.
  Asked of Ed25519, for framed messages: signatures of the key verify and cannot be forged.
\<close>

theorem signature_binds_request:
  assumes "signer_correct lib key sign (framed_requests sc R)"
    and "key_unforgeable lib key sigs (framed_requests sc R)"
  shows "((sdom, payload) \<in> R \<longrightarrow> sign_canonical sc sign sdom payload = Ok s \<longrightarrow>
      verify_canonical sc (ed25519_verify_framed lib key) sdom payload s = Ok True) \<and>
    (s \<in> sigs \<longrightarrow> verify_canonical sc (ed25519_verify_framed lib key) sdom payload s = Ok True \<longrightarrow>
      (sdom, payload) \<in> R \<and> sd_signature_scheme_id sdom = sc)"
proof (intro conjI impI)
  assume "(sdom, payload) \<in> R" "sign_canonical sc sign sdom payload = Ok s"
  then show "verify_canonical sc (ed25519_verify_framed lib key) sdom payload s = Ok True"
    using assms(1)
    by (fastforce simp: sign_canonical_def verify_canonical_def ed25519_verify_framed_def signer_correct_def
        framed_requests_def result_simps split: if_splits)
next
  assume s: "s \<in> sigs" "verify_canonical sc (ed25519_verify_framed lib key) sdom payload s = Ok True"
  then obtain m where m: "frame_signature_message sdom payload = Ok m" "ed_verify lib key s m"
    and sc: "sd_signature_scheme_id sdom = sc"
    by (auto simp: verify_canonical_def ed25519_verify_framed_def result_simps split: if_splits)
  then have "m \<in> framed_requests sc R" using assms(2) s(1) by (auto simp: key_unforgeable_def)
  then obtain sdom' payload' where "(sdom', payload') \<in> R" "frame_signature_message sdom' payload' = Ok m"
    by (auto simp: framed_requests_def)
  then show "(sdom, payload) \<in> R" using frame_signature_message_inject m(1) by metis
  show "sd_signature_scheme_id sdom = sc" by (rule sc)
qed

definition sample_request :: "epoch \<Rightarrow> signature_domain" where
  "sample_request e = \<lparr> sd_chain_id = str ''c'', sd_protocol_version = 1, sd_epoch = e,
     sd_message_type = str ''vote'', sd_signature_scheme_id = Ed25519 \<rparr>"

definition sample_ed25519 :: ed25519_lib where
  "sample_ed25519 = \<lparr> ed_key_valid = (\<lambda>_. True), ed_verify = (\<lambda>key s m. s = key @ key \<and>
     frame_signature_message (sample_request 4) [1] = Ok m) \<rparr>"

theorem signature_binds_request_witness:
  "\<exists>s. sign_canonical Ed25519 (\<lambda>_. Ok (replicate 64 7)) (sample_request 4) [1] = Ok s \<and>
     verify_canonical Ed25519 (ed25519_verify_framed sample_ed25519 (replicate 32 7)) (sample_request 4) [1] s =
       Ok True \<and>
     verify_canonical Ed25519 (ed25519_verify_framed sample_ed25519 (replicate 32 7)) (sample_request 5) [1] s \<noteq>
       Ok True"
proof -
  let ?sign = "\<lambda>_. Ok (replicate 64 7)" and ?R = "{(sample_request 4, [1])}" and ?s = "replicate 64 7"
  obtain b where b: "frame_signature_message (sample_request 4) [1] = Ok b"
    by (simp add: frame_signature_message_eq sample_request_def signature_frame_def map_err_eq_Ok
        encode_frame_Ok_iff frame_fits_def frame_size_def MAX_CANONICAL_FRAME_BYTES_def str_def)
  have "signer_correct sample_ed25519 (replicate 32 7) ?sign (framed_requests Ed25519 ?R)"
    "key_unforgeable sample_ed25519 (replicate 32 7) UNIV (framed_requests Ed25519 ?R)"
    by (auto simp: signer_correct_def key_unforgeable_def framed_requests_def sample_ed25519_def SIGNATURE_LEN_def
        sample_request_def replicate_add [symmetric])
  note t = signature_binds_request [OF this, of _ _ ?s]
  have "sign_canonical Ed25519 ?sign (sample_request 4) [1] = Ok ?s"
    using b by (simp add: sign_canonical_def sample_request_def)
  moreover have "sample_request 5 \<noteq> sample_request 4" by (simp add: sample_request_def)
  ultimately show ?thesis using t [of "sample_request 4" "[1]"] t [of "sample_request 5" "[1]"] by auto
qed

end
