(* ===== verification/Protocol_Upgrades.thy ===== *)
theory Protocol_Upgrades
  imports Hashing
begin

text \<open>
  The crate \<^verbatim>\<open>src/crates/protocol-upgrades\<close>: feature flags, the committed hash-suite schedule, the
  chain of scheduled protocol upgrades and the descriptors of lazy object migrations, with their
  encoders. Both schedules interpret \<open>activation_schedule\<close> where they have a genesis entry, and
  the flags interpret \<open>sorted_registry\<close>.
\<close>

section \<open>Data\<close>

definition FEATURE_FLAGS_TYPE_ID :: u16 where
  "FEATURE_FLAGS_TYPE_ID = 0xC001"

definition HASH_SUITE_SCHEDULE_ENTRY_TYPE_ID :: u16 where
  "HASH_SUITE_SCHEDULE_ENTRY_TYPE_ID = 0xC002"

definition HASH_SUITE_SCHEDULE_TYPE_ID :: u16 where
  "HASH_SUITE_SCHEDULE_TYPE_ID = 0xC003"

definition COMPATIBILITY_POLICY_TYPE_ID :: u16 where
  "COMPATIBILITY_POLICY_TYPE_ID = 0xC004"

definition PROTOCOL_UPGRADE_TYPE_ID :: u16 where
  "PROTOCOL_UPGRADE_TYPE_ID = 0xC005"

definition PROTOCOL_UPGRADE_SCHEDULE_TYPE_ID :: u16 where
  "PROTOCOL_UPGRADE_SCHEDULE_TYPE_ID = 0xC006"

definition MIGRATION_DESCRIPTOR_TYPE_ID :: u16 where
  "MIGRATION_DESCRIPTOR_TYPE_ID = 0xC007"

definition PU_ENCODING_VERSION :: u16 where
  "PU_ENCODING_VERSION = 1"

definition MAX_SCHEDULE_ENTRIES :: usize where
  "MAX_SCHEDULE_ENTRIES = 65535 - 1"

datatype feature_flag = ChainIrExecution | SystemModuleExecution | LazyObjectMigration

fun feature_flag_as_u16 :: "feature_flag \<Rightarrow> u16" where
  "feature_flag_as_u16 ChainIrExecution = 0x0001"
| "feature_flag_as_u16 SystemModuleExecution = 0x0002"
| "feature_flag_as_u16 LazyObjectMigration = 0x0003"

datatype protocol_upgrade_error =
    DuplicateFeatureFlag feature_flag
  | FeatureFlagsOutOfOrder
  | EmptyHashSuiteSchedule
  | MissingGenesisHashSuite
  | ZeroHashSuiteId
  | DuplicateHashSuiteId hash_suite_id
  | NonMonotonicActivationEpochs
  | ScheduleTooLarge usize
  | ActivationNotInFuture epoch epoch
  | ZeroProtocolVersion
  | NonIncreasingProtocolVersion protocol_version protocol_version
  | DiscontinuousProtocolVersions protocol_version protocol_version
  | ZeroMigrationVersion
  | ZeroSourceSchemaVersion
  | ZeroTargetSchemaVersion
  | NonIncreasingSchemaVersion u32 u32
  | PuCanonicalEncoding canonical_encoding_error

definition validate_future_activation ::
  "epoch \<Rightarrow> epoch \<Rightarrow> (protocol_upgrade_error, unit) result" where
  "validate_future_activation activation_epoch current_epoch =
     (if activation_epoch \<le> current_epoch
      then Err (ActivationNotInFuture activation_epoch current_epoch) else Ok ())"

section \<open>Feature flags\<close>

type_synonym feature_flags = "feature_flag list"

definition feature_flags_genesis :: feature_flags where
  "feature_flags_genesis = []"

definition feature_flags_contains :: "feature_flags \<Rightarrow> feature_flag \<Rightarrow> bool" where
  "feature_flags_contains flags flag =
     (case binary_search_by_key (feature_flag_as_u16 flag) feature_flag_as_u16 flags of
        Inr _ \<Rightarrow> True | Inl _ \<Rightarrow> False)"

definition feature_flags_enable ::
  "feature_flag \<Rightarrow> feature_flags \<Rightarrow> (protocol_upgrade_error, feature_flags) result" where
  "feature_flags_enable flag flags =
     (case binary_search_by_key (feature_flag_as_u16 flag) feature_flag_as_u16 flags of
        Inr _ \<Rightarrow> Err (DuplicateFeatureFlag flag)
      | Inl index \<Rightarrow> Ok (vec_insert index flag flags))"

definition feature_flags_disable :: "feature_flag \<Rightarrow> feature_flags \<Rightarrow> bool \<times> feature_flags" where
  "feature_flags_disable flag flags =
     (case binary_search_by_key (feature_flag_as_u16 flag) feature_flag_as_u16 flags of
        Inr index \<Rightarrow> (True, vec_remove index flags)
      | Inl _ \<Rightarrow> (False, flags))"

fun feature_flags_validate_pairs ::
  "(feature_flag \<times> feature_flag) list \<Rightarrow> (protocol_upgrade_error, unit) result" where
  "feature_flags_validate_pairs [] = Ok ()"
| "feature_flags_validate_pairs ((x, y) # rest) =
     (if x = y then Err (DuplicateFeatureFlag x)
      else if feature_flag_as_u16 x > feature_flag_as_u16 y then Err FeatureFlagsOutOfOrder
      else feature_flags_validate_pairs rest)"

definition feature_flags_validate :: "feature_flags \<Rightarrow> (protocol_upgrade_error, unit) result" where
  "feature_flags_validate flags = feature_flags_validate_pairs (windows2 flags)"

section \<open>The hash-suite schedule\<close>

type_synonym hash_suite_schedule_config = "hash_suite_schedule list"

definition schedule_genesis :: hash_suite_schedule_config where
  "schedule_genesis = [\<lparr> hss_activation_epoch = 0, hss_suite = hash_suite_genesis \<rparr>]"

definition suite_ids_step ::
  "hash_suite_id btree_set \<Rightarrow> hash_suite_schedule \<Rightarrow>
   (protocol_upgrade_error, hash_suite_id btree_set) result" where
  "suite_ids_step seen_ids entry =
     (if suite_id (hss_suite entry) = 0 then Err ZeroHashSuiteId
      else case bs_insert (suite_id (hss_suite entry)) seen_ids of (new, seen_ids) \<Rightarrow>
        if \<not> new then Err (DuplicateHashSuiteId (suite_id (hss_suite entry))) else Ok seen_ids)"

definition hash_suite_schedule_validate ::
  "hash_suite_schedule_config \<Rightarrow> (protocol_upgrade_error, unit) result" where
  "hash_suite_schedule_validate entries =
     (if entries = [] then Err EmptyHashSuiteSchedule
      else if length entries > MAX_SCHEDULE_ENTRIES then Err (ScheduleTooLarge (length entries))
      else if hss_activation_epoch (hd entries) \<noteq> 0 then Err MissingGenesisHashSuite
      else
        try_bind (try_fold suite_ids_step [] entries) (\<lambda>_.
        if list_ex (\<lambda>(x, y). hss_activation_epoch x \<ge> hss_activation_epoch y) (windows2 entries)
        then Err NonMonotonicActivationEpochs
        else Ok ()))"

definition hash_suite_schedule_new ::
  "hash_suite_schedule list \<Rightarrow> (protocol_upgrade_error, hash_suite_schedule_config) result" where
  "hash_suite_schedule_new entries =
     try_bind (hash_suite_schedule_validate entries) (\<lambda>_. Ok entries)"

definition schedule_entry_at ::
  "hash_suite_schedule_config \<Rightarrow> epoch \<Rightarrow> hash_suite_schedule option" where
  "schedule_entry_at entries e = find (\<lambda>entry. hss_activation_epoch entry \<le> e) (rev entries)"

definition hash_suite_active_at :: "hash_suite_schedule_config \<Rightarrow> epoch \<Rightarrow> hash_suite option" where
  "hash_suite_active_at entries e = map_option hss_suite (schedule_entry_at entries e)"

definition hash_suite_schedule_add ::
  "hash_suite \<Rightarrow> epoch \<Rightarrow> epoch \<Rightarrow> hash_suite_schedule_config \<Rightarrow>
   (protocol_upgrade_error, hash_suite_schedule_config) result" where
  "hash_suite_schedule_add suite activation_epoch current_epoch entries =
     try_bind (validate_future_activation activation_epoch current_epoch) (\<lambda>_.
     if suite_id suite = 0 then Err ZeroHashSuiteId
     else if list_ex (\<lambda>entry. suite_id (hss_suite entry) = suite_id suite) entries
       then Err (DuplicateHashSuiteId (suite_id suite))
     else if entries \<noteq> [] \<and> hss_activation_epoch (last entries) \<ge> activation_epoch
       then Err NonMonotonicActivationEpochs
     else if length entries \<ge> MAX_SCHEDULE_ENTRIES then Err (ScheduleTooLarge (length entries + 1))
     else Ok (entries @ [\<lparr> hss_activation_epoch = activation_epoch, hss_suite = suite \<rparr>]))"

section \<open>Protocol upgrades\<close>

datatype compatibility_policy = Strict | ReadOldWriteNew

fun compatibility_policy_as_u16 :: "compatibility_policy \<Rightarrow> u16" where
  "compatibility_policy_as_u16 Strict = 0x0001"
| "compatibility_policy_as_u16 ReadOldWriteNew = 0x0002"

record protocol_upgrade =
  pu_from_version :: protocol_version
  pu_to_version :: protocol_version
  pu_activation_epoch :: epoch
  pu_new_config_hash :: digest32
  pu_migration_hash :: "digest32 option"
  pu_compatibility_policy :: compatibility_policy

definition protocol_upgrade_validate ::
  "protocol_upgrade \<Rightarrow> (protocol_upgrade_error, unit) result" where
  "protocol_upgrade_validate u =
     (if pu_from_version u = 0 \<or> pu_to_version u = 0 then Err ZeroProtocolVersion
      else if pu_to_version u \<le> pu_from_version u
        then Err (NonIncreasingProtocolVersion (pu_from_version u) (pu_to_version u))
      else Ok ())"

definition validate_for_enactment ::
  "protocol_upgrade \<Rightarrow> epoch \<Rightarrow> (protocol_upgrade_error, unit) result" where
  "validate_for_enactment u current_epoch =
     try_bind (protocol_upgrade_validate u) (\<lambda>_.
     validate_future_activation (pu_activation_epoch u) current_epoch)"

type_synonym protocol_upgrade_schedule = "protocol_upgrade list"

definition upgrade_schedule_add ::
  "protocol_upgrade \<Rightarrow> epoch \<Rightarrow> protocol_upgrade_schedule \<Rightarrow>
   (protocol_upgrade_error, protocol_upgrade_schedule) result" where
  "upgrade_schedule_add u current_epoch upgrades =
     try_bind (validate_for_enactment u current_epoch) (\<lambda>_.
     if length upgrades \<ge> MAX_SCHEDULE_ENTRIES then Err (ScheduleTooLarge (length upgrades + 1))
     else if upgrades \<noteq> [] \<and> pu_activation_epoch (last upgrades) \<ge> pu_activation_epoch u
       then Err NonMonotonicActivationEpochs
     else if upgrades \<noteq> [] \<and> pu_to_version (last upgrades) \<noteq> pu_from_version u
       then Err (DiscontinuousProtocolVersions (pu_to_version (last upgrades)) (pu_from_version u))
     else Ok (upgrades @ [u]))"

definition upgrade_active_at ::
  "protocol_upgrade_schedule \<Rightarrow> epoch \<Rightarrow> protocol_upgrade option" where
  "upgrade_active_at upgrades e = find (\<lambda>u. pu_activation_epoch u \<le> e) (rev upgrades)"

text \<open>
  \<open>partition_point\<close> on a vector partitioned by the predicate is the length of the prefix that
  satisfies it.
\<close>

definition prune_activated :: "epoch \<Rightarrow> protocol_upgrade_schedule \<Rightarrow> protocol_upgrade_schedule" where
  "prune_activated e upgrades =
     drop (length (takeWhile (\<lambda>u. pu_activation_epoch u \<le> e) upgrades)) upgrades"

fun upgrade_validate_pairs ::
  "(protocol_upgrade \<times> protocol_upgrade) list \<Rightarrow> (protocol_upgrade_error, unit) result" where
  "upgrade_validate_pairs [] = Ok ()"
| "upgrade_validate_pairs ((x, y) # rest) =
     (if pu_activation_epoch x \<ge> pu_activation_epoch y then Err NonMonotonicActivationEpochs
      else if pu_to_version x \<noteq> pu_from_version y
        then Err (DiscontinuousProtocolVersions (pu_to_version x) (pu_from_version y))
      else upgrade_validate_pairs rest)"

definition upgrade_schedule_validate ::
  "protocol_upgrade_schedule \<Rightarrow> (protocol_upgrade_error, unit) result" where
  "upgrade_schedule_validate upgrades =
     (if length upgrades > MAX_SCHEDULE_ENTRIES then Err (ScheduleTooLarge (length upgrades))
      else
        try_bind (try_map protocol_upgrade_validate upgrades) (\<lambda>_.
        upgrade_validate_pairs (windows2 upgrades)))"

section \<open>Migration descriptors\<close>

record migration_descriptor =
  md_migration_version :: u32
  md_object_type :: digest32
  md_from_schema_version :: u32
  md_to_schema_version :: u32
  md_migration_hash :: digest32

definition migration_descriptor_validate ::
  "migration_descriptor \<Rightarrow> (protocol_upgrade_error, unit) result" where
  "migration_descriptor_validate d =
     (if md_migration_version d = 0 then Err ZeroMigrationVersion
      else if md_from_schema_version d = 0 then Err ZeroSourceSchemaVersion
      else if md_to_schema_version d = 0 then Err ZeroTargetSchemaVersion
      else if md_to_schema_version d \<le> md_from_schema_version d
        then Err (NonIncreasingSchemaVersion (md_from_schema_version d) (md_to_schema_version d))
      else Ok ())"

section \<open>Encoders\<close>

definition encode_feature_flags :: "feature_flags \<Rightarrow> (protocol_upgrade_error, bytes) result" where
  "encode_feature_flags flags =
     try_bind (feature_flags_validate flags) (\<lambda>_.
     try_bind (ok_or (u16_try_from (length flags)) (ScheduleTooLarge (length flags))) (\<lambda>count.
     try_bind (map_err PuCanonicalEncoding
       (field_u16 1 count (cs_new FEATURE_FLAGS_TYPE_ID PU_ENCODING_VERSION))) (\<lambda>c.
     try_bind (put_items (ScheduleTooLarge (length flags)) PuCanonicalEncoding
       (\<lambda>flag. Ok (u16_to_le_bytes (feature_flag_as_u16 flag))) 2 flags c) (\<lambda>c.
     map_err PuCanonicalEncoding (finish c)))))"

definition encode_hash_suite_schedule_entry ::
  "hash_suite_schedule \<Rightarrow> (protocol_upgrade_error, bytes) result" where
  "encode_hash_suite_schedule_entry entry =
     (if suite_id (hss_suite entry) = 0 then Err ZeroHashSuiteId
      else map_err PuCanonicalEncoding (
        try_bind (encode_epoch (hss_activation_epoch entry)) (\<lambda>e.
        try_bind (field_bytes 1 e
          (cs_new HASH_SUITE_SCHEDULE_ENTRY_TYPE_ID PU_ENCODING_VERSION)) (\<lambda>c.
        try_bind (encode_hash_suite (hss_suite entry)) (\<lambda>s.
        try_bind (field_bytes 2 s c) finish)))))"

definition encode_hash_suite_schedule ::
  "hash_suite_schedule_config \<Rightarrow> (protocol_upgrade_error, bytes) result" where
  "encode_hash_suite_schedule entries =
     try_bind (hash_suite_schedule_validate entries) (\<lambda>_.
     try_bind (ok_or (u16_try_from (length entries)) (ScheduleTooLarge (length entries))) (\<lambda>count.
     try_bind (map_err PuCanonicalEncoding
       (field_u16 1 count (cs_new HASH_SUITE_SCHEDULE_TYPE_ID PU_ENCODING_VERSION))) (\<lambda>c.
     try_bind (put_items (ScheduleTooLarge (length entries)) PuCanonicalEncoding
       encode_hash_suite_schedule_entry 2 entries c) (\<lambda>c.
     map_err PuCanonicalEncoding (finish c)))))"

definition encode_compatibility_policy ::
  "compatibility_policy \<Rightarrow> (protocol_upgrade_error, bytes) result" where
  "encode_compatibility_policy policy =
     map_err PuCanonicalEncoding (
       try_bind (field_u16 1 (compatibility_policy_as_u16 policy)
         (cs_new COMPATIBILITY_POLICY_TYPE_ID PU_ENCODING_VERSION)) finish)"

definition encode_protocol_upgrade ::
  "protocol_upgrade \<Rightarrow> (protocol_upgrade_error, bytes) result" where
  "encode_protocol_upgrade u =
     try_bind (protocol_upgrade_validate u) (\<lambda>_.
     try_bind (map_err PuCanonicalEncoding (
       try_bind (encode_protocol_version (pu_from_version u)) (\<lambda>b.
       try_bind (field_bytes 1 b (cs_new PROTOCOL_UPGRADE_TYPE_ID PU_ENCODING_VERSION)) (\<lambda>c.
       try_bind (encode_protocol_version (pu_to_version u)) (\<lambda>b.
       try_bind (field_bytes 2 b c) (\<lambda>c.
       try_bind (encode_epoch (pu_activation_epoch u)) (\<lambda>b.
       try_bind (field_bytes 3 b c) (\<lambda>c.
       try_bind (encode_digest32 (pu_new_config_hash u)) (\<lambda>b.
       try_bind (field_bytes 4 b c) (\<lambda>c.
       case pu_migration_hash u of
         None \<Rightarrow> Ok c
       | Some h \<Rightarrow> try_bind (encode_digest32 h) (\<lambda>b. field_bytes 5 b c))))))))))) (\<lambda>c.
     try_bind (encode_compatibility_policy (pu_compatibility_policy u)) (\<lambda>b.
     map_err PuCanonicalEncoding (try_bind (field_bytes 6 b c) finish))))"

definition encode_protocol_upgrade_schedule ::
  "protocol_upgrade_schedule \<Rightarrow> (protocol_upgrade_error, bytes) result" where
  "encode_protocol_upgrade_schedule upgrades =
     try_bind (upgrade_schedule_validate upgrades) (\<lambda>_.
     try_bind (ok_or (u16_try_from (length upgrades)) (ScheduleTooLarge (length upgrades))) (\<lambda>count.
     try_bind (map_err PuCanonicalEncoding
       (field_u16 1 count (cs_new PROTOCOL_UPGRADE_SCHEDULE_TYPE_ID PU_ENCODING_VERSION))) (\<lambda>c.
     try_bind (put_items (ScheduleTooLarge (length upgrades)) PuCanonicalEncoding
       encode_protocol_upgrade 2 upgrades c) (\<lambda>c.
     map_err PuCanonicalEncoding (finish c)))))"

definition encode_migration_descriptor ::
  "migration_descriptor \<Rightarrow> (protocol_upgrade_error, bytes) result" where
  "encode_migration_descriptor d =
     try_bind (migration_descriptor_validate d) (\<lambda>_.
     map_err PuCanonicalEncoding (
       try_bind (field_u32 1 (md_migration_version d)
         (cs_new MIGRATION_DESCRIPTOR_TYPE_ID PU_ENCODING_VERSION)) (\<lambda>c.
       try_bind (encode_digest32 (md_object_type d)) (\<lambda>b.
       try_bind (field_bytes 2 b c) (\<lambda>c.
       try_bind (field_u32 3 (md_from_schema_version d) c) (\<lambda>c.
       try_bind (field_u32 4 (md_to_schema_version d) c) (\<lambda>c.
       try_bind (encode_digest32 (md_migration_hash d)) (\<lambda>b.
       try_bind (field_bytes 5 b c) finish))))))))"

section \<open>Feature flags as a sorted registry\<close>

lemma feature_flag_as_u16_inj [simp]: "feature_flag_as_u16 a = feature_flag_as_u16 b \<longleftrightarrow> a = b"
  by (cases a; cases b) simp_all

definition flags_sorted :: "feature_flags \<Rightarrow> bool" where
  "flags_sorted flags \<longleftrightarrow> key_sorted feature_flag_as_u16 flags"

lemma feature_flags_enable_OkD:
  assumes "flags_sorted flags" "feature_flags_enable flag flags = Ok flags'"
  shows "flags_sorted flags'" "set flags' = insert flag (set flags)" "flag \<notin> set flags"
proof -
  from assms(2) obtain i where
    i: "binary_search_by_key (feature_flag_as_u16 flag) feature_flag_as_u16 flags = Inl i"
    "flags' = vec_insert i flag flags"
    by (auto simp: feature_flags_enable_def split: sum.splits)
  note B = binary_search_insert_sorted [OF assms(1) [unfolded flags_sorted_def] i(1)]
  show "flags_sorted flags'" "set flags' = insert flag (set flags)" "flag \<notin> set flags"
    using B i by (auto simp: flags_sorted_def)
qed

interpretation flags: sorted_registry feature_flag_as_u16 "\<lambda>flags. flags" feature_flags_enable
  using feature_flags_enable_OkD by unfold_locales (auto simp: flags_sorted_def)

lemma feature_flags_contains_iff:
  "flags_sorted flags \<Longrightarrow> feature_flags_contains flags flag \<longleftrightarrow> flag \<in> set flags"
proof -
  assume "flags_sorted flags"
  then have "key_sorted feature_flag_as_u16 flags" by (simp add: flags_sorted_def)
  from binary_search_spec [OF this, of "feature_flag_as_u16 flag"] show ?thesis
    by (auto simp: feature_flags_contains_def in_set_conv_nth split: sum.splits)
      (metis less_irrefl not_le)
qed

lemma feature_flags_disable_spec:
  assumes "flags_sorted flags" "feature_flags_disable flag flags = (was, flags')"
  shows "flags_sorted flags'" "set flags' = set flags - {flag}" "was \<longleftrightarrow> flag \<in> set flags"
proof -
  have sorted: "key_sorted feature_flag_as_u16 flags" using assms(1) by (simp add: flags_sorted_def)
  have was: "was \<longleftrightarrow> feature_flags_contains flags flag"
    using assms(2) by (auto simp: feature_flags_disable_def feature_flags_contains_def split: sum.splits)
  then show "was \<longleftrightarrow> flag \<in> set flags" using feature_flags_contains_iff [OF assms(1)] by simp
  show "flags_sorted flags'" "set flags' = set flags - {flag}"
  proof -
    have "flags_sorted flags' \<and> set flags' = set flags - {flag}"
    proof (cases "binary_search_by_key (feature_flag_as_u16 flag) feature_flag_as_u16 flags")
      case (Inl i)
      then show ?thesis
        using assms binary_search_insert_sorted(2) [OF sorted Inl]
        by (auto simp: feature_flags_disable_def)
    next
      case (Inr i)
      have "i < length flags" "flags ! i = flag" using binary_search_present [OF sorted Inr] by simp_all
      then show ?thesis
        using assms(2) Inr vec_remove_sorted [OF sorted]
        by (auto simp: feature_flags_disable_def flags_sorted_def)
    qed
    then show "flags_sorted flags'" "set flags' = set flags - {flag}" by auto
  qed
qed

lemma feature_flags_validate_Ok_iff:
  "feature_flags_validate flags = Ok u \<longleftrightarrow> flags_sorted flags"
proof -
  have pairs: "feature_flags_validate_pairs ps = Ok () \<longleftrightarrow>
      (\<forall>(x, y) \<in> set ps. feature_flag_as_u16 x < feature_flag_as_u16 y)" for ps
    by (induction ps rule: feature_flags_validate_pairs.induct)
      (auto simp: less_le not_less simp flip: feature_flag_as_u16_inj)
  have "transp (\<lambda>x y. feature_flag_as_u16 x < feature_flag_as_u16 y)" by (auto simp: transp_def)
  from windows2_all_iff [OF this, of flags] show ?thesis
    by (simp add: feature_flags_validate_def pairs flags_sorted_def key_sorted_def sorted_wrt_map)
qed

section \<open>The schedules\<close>

definition suite_schedule_inv :: "hash_suite_schedule_config \<Rightarrow> bool" where
  "suite_schedule_inv entries \<longleftrightarrow>
     schedules_valid entries \<and> length entries \<le> MAX_SCHEDULE_ENTRIES \<and>
     (\<forall>x \<in> set entries. suite_id (hss_suite x) \<noteq> 0) \<and>
     distinct (map (\<lambda>x. suite_id (hss_suite x)) entries)"

lemma suite_ids_fold_Ok_iff:
  assumes "bm_inv seen"
  shows "(\<exists>m. try_fold suite_ids_step seen xs = Ok m) \<longleftrightarrow>
    (\<forall>x \<in> set xs. suite_id (hss_suite x) \<noteq> 0) \<and>
    distinct (map (\<lambda>x. suite_id (hss_suite x)) xs) \<and>
    (\<lambda>x. suite_id (hss_suite x)) ` set xs \<inter> fst ` set seen = {}"
  using assms
proof (induction xs arbitrary: seen)
  case Nil
  then show ?case by simp
next
  case (Cons x xs)
  let ?i = "suite_id (hss_suite x)"
  have "(\<exists>m. try_fold suite_ids_step seen (x # xs) = Ok m) \<longleftrightarrow> ?i \<noteq> 0 \<and> ?i \<notin> fst ` set seen \<and>
      (\<exists>m. try_fold suite_ids_step (bm_insert ?i () seen) xs = Ok m)"
    by (auto simp: suite_ids_step_def [of seen x] bs_insert_def bm_contains_key_iff)
  also have "(\<exists>m. try_fold suite_ids_step (bm_insert ?i () seen) xs = Ok m) \<longleftrightarrow>
    (\<forall>x \<in> set xs. suite_id (hss_suite x) \<noteq> 0) \<and>
    distinct (map (\<lambda>x. suite_id (hss_suite x)) xs) \<and>
    (\<lambda>x. suite_id (hss_suite x)) ` set xs \<inter> insert ?i (fst ` set seen) = {}"
    using Cons.IH [of "bm_insert ?i () seen"] Cons.prems
    by (simp add: bm_inv_insert set_bm_insert_keys)
  finally show ?case by auto
qed

lemma hash_suite_schedule_validate_Ok_iff [result_simps]:
  "hash_suite_schedule_validate xs = Ok u \<longleftrightarrow> suite_schedule_inv xs"
proof -
  have fold: "(\<exists>m. try_fold suite_ids_step [] xs = Ok m) \<longleftrightarrow>
    (\<forall>x \<in> set xs. suite_id (hss_suite x) \<noteq> 0) \<and> distinct (map (\<lambda>x. suite_id (hss_suite x)) xs)"
    using suite_ids_fold_Ok_iff [of "[]" xs] by (simp add: bm_inv_def)
  have "hash_suite_schedule_validate xs = Ok u \<longleftrightarrow>
      xs \<noteq> [] \<and> length xs \<le> MAX_SCHEDULE_ENTRIES \<and> hss_activation_epoch (hd xs) = 0 \<and>
      (\<exists>m. try_fold suite_ids_step [] xs = Ok m) \<and> key_sorted hss_activation_epoch xs"
    by (auto simp: hash_suite_schedule_validate_def try_bind_eq_Ok windows2_none_ge_iff
        split: if_splits)
  then show ?thesis unfolding fold suite_schedule_inv_def schedules_valid_def by auto
qed

interpretation suite_schedule: activation_schedule hss_activation_epoch schedule_entry_at
  suite_schedule_inv
  by unfold_locales
    (auto simp: schedule_entry_at_def suite_schedule_inv_def schedules_valid_def key_sorted_def)

lemma validate_future_activation_Ok_iff [result_simps]:
  "validate_future_activation a c = Ok u \<longleftrightarrow> c < a"
  by (auto simp: validate_future_activation_def not_le)

lemma key_sorted_snoc:
  "key_sorted f xs \<Longrightarrow> xs = [] \<or> f (last xs) < f x \<Longrightarrow> key_sorted f (xs @ [x])"
proof -
  assume s: "key_sorted f xs" and l: "xs = [] \<or> f (last xs) < f x"
  have "\<forall>y \<in> set xs. f y < f x"
  proof (cases xs rule: rev_cases)
    case (snoc ys y)
    then have "\<forall>z \<in> set ys. f z < f y" using s by (auto simp: key_sorted_append)
    then show ?thesis using snoc l by auto
  qed simp
  then show ?thesis unfolding key_sorted_append using s by (simp add: key_sorted_def)
qed

lemma hash_suite_schedule_add_OkD:
  assumes "suite_schedule_inv xs" "hash_suite_schedule_add s a c xs = Ok xs'"
  shows "suite_schedule_inv xs'" "c < a"
    "xs' = xs @ [\<lparr> hss_activation_epoch = a, hss_suite = s \<rparr>]"
proof -
  have *: "c < a" "suite_id s \<noteq> 0" "\<forall>x \<in> set xs. suite_id (hss_suite x) \<noteq> suite_id s"
    "hss_activation_epoch (last xs) < a" "length xs < MAX_SCHEDULE_ENTRIES"
    "xs' = xs @ [\<lparr> hss_activation_epoch = a, hss_suite = s \<rparr>]" "xs \<noteq> []"
    using assms by (auto simp: hash_suite_schedule_add_def result_simps list_ex_iff
        suite_schedule_inv_def schedules_valid_def split: if_splits)
  then show "c < a" "xs' = xs @ [\<lparr> hss_activation_epoch = a, hss_suite = s \<rparr>]" by auto
  have "key_sorted hss_activation_epoch xs'"
    using * assms(1) by (auto simp: suite_schedule_inv_def schedules_valid_def intro: key_sorted_snoc)
  then show "suite_schedule_inv xs'"
    using * assms(1) by (auto simp: suite_schedule_inv_def schedules_valid_def)
qed

definition upgrade_chain :: "protocol_upgrade_schedule \<Rightarrow> bool" where
  "upgrade_chain us \<longleftrightarrow> (\<forall>(x, y) \<in> set (windows2 us). pu_to_version x = pu_from_version y)"

definition upgrade_schedule_inv :: "protocol_upgrade_schedule \<Rightarrow> bool" where
  "upgrade_schedule_inv us \<longleftrightarrow>
     length us \<le> MAX_SCHEDULE_ENTRIES \<and> key_sorted pu_activation_epoch us \<and>
     (\<forall>u \<in> set us. protocol_upgrade_validate u = Ok ()) \<and> upgrade_chain us"

lemma upgrade_schedule_validate_Ok_iff:
  "upgrade_schedule_validate us = Ok r \<longleftrightarrow> upgrade_schedule_inv us"
proof -
  have pairs: "upgrade_validate_pairs ps = Ok () \<longleftrightarrow>
      (\<forall>(x, y) \<in> set ps. pu_activation_epoch x < pu_activation_epoch y) \<and>
      (\<forall>(x, y) \<in> set ps. pu_to_version x = pu_from_version y)" for ps
    by (induction ps rule: upgrade_validate_pairs.induct) (auto simp: not_le)
  have all: "(\<exists>l. try_map protocol_upgrade_validate us = Ok l) \<longleftrightarrow>
      (\<forall>u \<in> set us. protocol_upgrade_validate u = Ok ())"
    by (induction us) (auto simp: result_simps)
  have "transp (\<lambda>x y. pu_activation_epoch x < pu_activation_epoch y)" by (auto simp: transp_def)
  from windows2_all_iff [OF this, of us] show ?thesis
    using all
    by (auto simp: upgrade_schedule_validate_def try_bind_eq_Ok pairs upgrade_schedule_inv_def
        upgrade_chain_def key_sorted_def sorted_wrt_map split: if_splits)
qed

lemma windows2_snoc:
  "windows2 (xs @ [y]) = (if xs = [] then [] else windows2 xs @ [(last xs, y)])"
  by (induction xs rule: windows2.induct) auto

lemma windows2_drop: "set (windows2 (drop n xs)) \<subseteq> set (windows2 xs)"
proof (induction n arbitrary: xs)
  case (Suc n)
  show ?case
  proof (cases xs)
    case (Cons x ys)
    have "set (windows2 ys) \<subseteq> set (windows2 (x # ys))" by (cases ys) auto
    then show ?thesis using Suc.IH [of ys] Cons by auto
  qed simp
qed simp

lemma upgrade_schedule_add_OkD:
  assumes "upgrade_schedule_inv us" "upgrade_schedule_add u c us = Ok us'"
  shows "upgrade_schedule_inv us'" "us' = us @ [u]" "c < pu_activation_epoch u"
proof -
  have *: "protocol_upgrade_validate u = Ok ()" "c < pu_activation_epoch u"
    "length us < MAX_SCHEDULE_ENTRIES" "us' = us @ [u]"
    "us = [] \<or> pu_activation_epoch (last us) < pu_activation_epoch u"
    "us = [] \<or> pu_to_version (last us) = pu_from_version u"
    using assms by (auto simp: upgrade_schedule_add_def validate_for_enactment_def result_simps
        split: if_splits)
  then show "us' = us @ [u]" "c < pu_activation_epoch u" by auto
  have "key_sorted pu_activation_epoch us'"
    using * assms(1) by (auto simp: upgrade_schedule_inv_def intro: key_sorted_snoc)
  then show "upgrade_schedule_inv us'"
    using * assms(1) by (auto simp: upgrade_schedule_inv_def upgrade_chain_def windows2_snoc)
qed

lemma prune_activated_eq:
  "key_sorted pu_activation_epoch us \<Longrightarrow>
   prune_activated e us = filter (\<lambda>u. e < pu_activation_epoch u) us"
proof (induction us)
  case Nil
  then show ?case by (simp add: prune_activated_def)
next
  case (Cons u us)
  then have "key_sorted pu_activation_epoch us"
    and "\<forall>v \<in> set us. pu_activation_epoch u < pu_activation_epoch v"
    by (auto simp: key_sorted_Cons)
  then show ?case
    using Cons.IH by (auto simp: prune_activated_def not_le intro!: filter_True [symmetric])
qed

lemma prune_activated_inv: "upgrade_schedule_inv us \<Longrightarrow> upgrade_schedule_inv (prune_activated e us)"
proof -
  assume inv: "upgrade_schedule_inv us"
  have "key_sorted pu_activation_epoch (prune_activated e us)"
    using inv prune_activated_eq [of us e]
    by (simp add: upgrade_schedule_inv_def key_sorted_def sorted_wrt_map sorted_wrt_filter)
  moreover have "upgrade_chain (prune_activated e us)"
    using inv windows2_drop [of _ us]
    by (fastforce simp: upgrade_schedule_inv_def upgrade_chain_def prune_activated_def)
  ultimately show ?thesis
    using inv by (auto simp: upgrade_schedule_inv_def prune_activated_def dest: in_set_dropD)
qed

section \<open>Correctness of scheduling\<close>

text \<open>
  C34. Scheduling a hash suite never rewrites history: starting from a valid schedule, a successful
  \<open>schedule\<close> call yields a valid schedule in which every epoch before the new activation, so in
  particular every epoch up to the current one, keeps its active suite and every later epoch gets
  the new suite.
\<close>

theorem hash_suite_schedule_append_only:
  assumes "hash_suite_schedule_new entries = Ok entries"
    and "hash_suite_schedule_add suite activation_epoch current_epoch entries = Ok entries'"
  shows "hash_suite_schedule_new entries' = Ok entries' \<and> current_epoch < activation_epoch \<and>
    (\<forall>e < activation_epoch. hash_suite_active_at entries' e = hash_suite_active_at entries e \<and>
       hash_suite_active_at entries e \<noteq> None) \<and>
    (\<forall>e \<ge> activation_epoch. hash_suite_active_at entries' e = Some suite)"
proof -
  have inv: "suite_schedule_inv entries"
    using assms(1) by (simp add: hash_suite_schedule_new_def result_simps)
  note D = hash_suite_schedule_add_OkD [OF inv assms(2)]
  have "hash_suite_schedule_validate entries' = Ok ()" using D(1) by (simp add: result_simps)
  moreover have "\<exists>x. schedule_entry_at entries e = Some x" for e
    using suite_schedule.active_total [OF inv] .
  ultimately show ?thesis
    using D(2,3)
    by (auto simp: hash_suite_schedule_new_def hash_suite_active_at_def schedule_entry_at_def)
qed

theorem hash_suite_schedule_append_only_witness:
  "hash_suite_active_at (schedule_genesis @
     [\<lparr> hss_activation_epoch = 9, hss_suite = hash_suite_uniform 2 Sha3_256 \<rparr>]) 8 =
     hash_suite_active_at schedule_genesis 8 \<and>
   hash_suite_active_at (schedule_genesis @
     [\<lparr> hss_activation_epoch = 9, hss_suite = hash_suite_uniform 2 Sha3_256 \<rparr>]) 9 =
     Some (hash_suite_uniform 2 Sha3_256)"
proof -
  have new: "hash_suite_schedule_new schedule_genesis = Ok schedule_genesis"
    by (simp add: hash_suite_schedule_new_def hash_suite_schedule_validate_def schedule_genesis_def
        MAX_SCHEDULE_ENTRIES_def suite_ids_step_def bs_insert_def bm_contains_key_def bm_get_def
        hash_suite_genesis_def hash_suite_uniform_def)
  have add: "hash_suite_schedule_add (hash_suite_uniform 2 Sha3_256) 9 5 schedule_genesis =
      Ok (schedule_genesis @ [\<lparr> hss_activation_epoch = 9, hss_suite = hash_suite_uniform 2 Sha3_256 \<rparr>])"
    by (simp add: hash_suite_schedule_add_def validate_future_activation_def schedule_genesis_def
        MAX_SCHEDULE_ENTRIES_def hash_suite_genesis_def hash_suite_uniform_def)
  show ?thesis using hash_suite_schedule_append_only [OF new add] by simp
qed

text \<open>
  C35. The upgrade schedule stays one continuous, strictly increasing version chain: a successful
  \<open>schedule\<close> call keeps \<open>validate\<close> true and changes what is active only from the new activation
  on; \<open>prune_activated\<close> keeps it true, removes exactly the transitions activated at or before the
  epoch, and leaves what is pending after it untouched.
\<close>

theorem upgrade_schedule_chain:
  assumes "upgrade_schedule_validate upgrades = Ok ()"
  shows "(upgrade_schedule_add u current_epoch upgrades = Ok upgrades' \<longrightarrow>
      upgrade_schedule_validate upgrades' = Ok () \<and> current_epoch < pu_activation_epoch u \<and>
      (\<forall>e. upgrade_active_at upgrades' e =
         (if pu_activation_epoch u \<le> e then Some u else upgrade_active_at upgrades e))) \<and>
    upgrade_schedule_validate (prune_activated e0 upgrades) = Ok () \<and>
    prune_activated e0 upgrades = filter (\<lambda>v. e0 < pu_activation_epoch v) upgrades \<and>
    upgrade_active_at (prune_activated e0 upgrades) e0 = None \<and>
    (\<forall>e v. upgrade_active_at upgrades e = Some v \<longrightarrow> e0 < pu_activation_epoch v \<longrightarrow>
       upgrade_active_at (prune_activated e0 upgrades) e = Some v) \<and>
    (\<forall>v \<in> set upgrades. pu_from_version v < pu_to_version v)"
proof -
  have inv: "upgrade_schedule_inv upgrades"
    using assms by (simp add: upgrade_schedule_validate_Ok_iff)
  then have prune: "prune_activated e0 upgrades = filter (\<lambda>v. e0 < pu_activation_epoch v) upgrades"
    by (simp add: prune_activated_eq upgrade_schedule_inv_def)
  have keep: "find P (rev (filter Q vs)) = Some v"
    if "find P (rev vs) = Some v" "Q v" for P Q and v :: protocol_upgrade and vs
    using that by (induction vs rule: rev_induct) (auto split: if_splits)
  have "\<forall>v \<in> set upgrades. pu_from_version v < pu_to_version v"
    using inv by (auto simp: upgrade_schedule_inv_def protocol_upgrade_validate_def not_le
        split: if_splits)
  moreover have "upgrade_active_at (prune_activated e0 upgrades) e0 = None"
    by (auto simp: upgrade_active_at_def prune find_None_iff)
  moreover have "upgrade_active_at (prune_activated e0 upgrades) e = Some v"
    if "upgrade_active_at upgrades e = Some v" "e0 < pu_activation_epoch v" for e v
    using that unfolding upgrade_active_at_def prune by (rule keep)
  moreover have "upgrade_schedule_validate upgrades' = Ok () \<and> current_epoch < pu_activation_epoch u \<and>
      (\<forall>e. upgrade_active_at upgrades' e =
         (if pu_activation_epoch u \<le> e then Some u else upgrade_active_at upgrades e))"
    if "upgrade_schedule_add u current_epoch upgrades = Ok upgrades'"
    using upgrade_schedule_add_OkD [OF inv that]
    by (auto simp: upgrade_schedule_validate_Ok_iff upgrade_active_at_def)
  moreover have "upgrade_schedule_validate (prune_activated e0 upgrades) = Ok ()"
    using prune_activated_inv [OF inv] by (simp add: upgrade_schedule_validate_Ok_iff)
  ultimately show ?thesis using prune by blast
qed

theorem upgrade_schedule_chain_witness:
  "upgrade_schedule_validate (prune_activated 6
     [\<lparr> pu_from_version = 2, pu_to_version = 3, pu_activation_epoch = 5,
        pu_new_config_hash = Digest32 Sha2_256 (replicate 32 0), pu_migration_hash = None,
        pu_compatibility_policy = Strict \<rparr>,
      \<lparr> pu_from_version = 3, pu_to_version = 5, pu_activation_epoch = 8,
        pu_new_config_hash = Digest32 Sha2_256 (replicate 32 1), pu_migration_hash = None,
        pu_compatibility_policy = ReadOldWriteNew \<rparr>]) = Ok ()"
proof -
  have "upgrade_schedule_validate
     [\<lparr> pu_from_version = 2, pu_to_version = 3, pu_activation_epoch = 5,
        pu_new_config_hash = Digest32 Sha2_256 (replicate 32 0), pu_migration_hash = None,
        pu_compatibility_policy = Strict \<rparr>,
      \<lparr> pu_from_version = 3, pu_to_version = 5, pu_activation_epoch = 8,
        pu_new_config_hash = Digest32 Sha2_256 (replicate 32 1), pu_migration_hash = None,
        pu_compatibility_policy = ReadOldWriteNew \<rparr>] = Ok ()"
    by (simp add: upgrade_schedule_validate_def protocol_upgrade_validate_def
        MAX_SCHEDULE_ENTRIES_def)
  from upgrade_schedule_chain [OF this, where ?e0.0 = 6] show ?thesis by blast
qed

end
