(* ===== verification/Objects.thy ===== *)
theory Objects
  imports Protocol_Upgrades
begin

text \<open>
  The crate \<^verbatim>\<open>src/crates/objects\<close>: object identifiers, owners with the protocol custody scope, the
  versioned object record, references to it, access modes, lazy migration, and the canonical
  codecs of all of them.
\<close>

section \<open>Data\<close>

definition OBJECT_ID_TYPE_ID :: u16 where
  "OBJECT_ID_TYPE_ID = 0x4001"

definition ADDRESS_TYPE_ID :: u16 where
  "ADDRESS_TYPE_ID = 0x4002"

definition OWNER_TYPE_ID :: u16 where
  "OWNER_TYPE_ID = 0x4003"

definition OBJECT_REF_TYPE_ID :: u16 where
  "OBJECT_REF_TYPE_ID = 0x4004"

definition OBJECT_CANONICAL_TYPE_ID :: u16 where
  "OBJECT_CANONICAL_TYPE_ID = 0x4005"

definition ACCESS_MODE_TYPE_ID :: u16 where
  "ACCESS_MODE_TYPE_ID = 0x4006"

definition PROTOCOL_CUSTODY_SCOPE_TYPE_ID :: u16 where
  "PROTOCOL_CUSTODY_SCOPE_TYPE_ID = 0x4007"

definition OB_ENCODING_VERSION :: u16 where
  "OB_ENCODING_VERSION = 1"

definition IDENTIFIER_LEN :: usize where
  "IDENTIFIER_LEN = 32"

lemmas object_ids [encode_simps] = OBJECT_ID_TYPE_ID_def ADDRESS_TYPE_ID_def OWNER_TYPE_ID_def
  OBJECT_REF_TYPE_ID_def OBJECT_CANONICAL_TYPE_ID_def ACCESS_MODE_TYPE_ID_def
  PROTOCOL_CUSTODY_SCOPE_TYPE_ID_def OB_ENCODING_VERSION_def IDENTIFIER_LEN_def

datatype object_error =
    InvalidObjectIdLength usize
  | InvalidAddressLength usize
  | UnknownAccessMode u8
  | UnknownOwnerTag u16
  | UnknownProtocolCustodyPurpose u16
  | InvalidProtocolCustodyChainId type_error
  | ObCanonicalEncoding canonical_encoding_error
  | ObCanonicalDecoding canonical_decoding_error

datatype migration_error =
    InvalidDescriptor protocol_upgrade_error
  | ObjectTypeMismatch digest32 digest32
  | SchemaVersionMismatch u32 u32
  | ObjectVersionOverflow
  | ExecutionFailed bytes

type_synonym object_id = bytes
type_synonym address = bytes

definition object_id_try_from_slice :: "bytes \<Rightarrow> (object_error, object_id) result" where
  "object_id_try_from_slice bs =
     (if length bs \<noteq> IDENTIFIER_LEN then Err (InvalidObjectIdLength (length bs)) else Ok bs)"

definition address_try_from_slice :: "bytes \<Rightarrow> (object_error, address) result" where
  "address_try_from_slice bs =
     (if length bs \<noteq> IDENTIFIER_LEN then Err (InvalidAddressLength (length bs)) else Ok bs)"

datatype protocol_custody_purpose =
  BondCollateral | FeeEscrow | ForfeitedCollateral | SunriseMigration

fun custody_purpose_tag :: "protocol_custody_purpose \<Rightarrow> u16" where
  "custody_purpose_tag BondCollateral = 1"
| "custody_purpose_tag FeeEscrow = 2"
| "custody_purpose_tag ForfeitedCollateral = 3"
| "custody_purpose_tag SunriseMigration = 4"

record protocol_custody_scope =
  pcs_purpose :: protocol_custody_purpose
  pcs_chain_id :: chain_id
  pcs_subject :: bytes
  pcs_resource :: bytes

datatype owner =
    OwnerAddress address
  | Shared
  | Immutable
  | System
  | ProtocolCustody protocol_custody_scope

fun owner_tag :: "owner \<Rightarrow> u16" where
  "owner_tag (OwnerAddress _) = 1"
| "owner_tag Shared = 2"
| "owner_tag Immutable = 3"
| "owner_tag System = 4"
| "owner_tag (ProtocolCustody _) = 5"

record object =
  ob_id :: object_id
  ob_version :: u64
  ob_owner :: owner
  ob_type_hash :: digest32
  ob_schema_version :: u32
  ob_data :: bytes

record object_ref =
  or_id :: object_id
  or_version :: u64
  or_digest :: digest32

datatype access_mode = Read | Write | Consume

fun access_mode_as_u8 :: "access_mode \<Rightarrow> u8" where
  "access_mode_as_u8 Read = 1"
| "access_mode_as_u8 Write = 2"
| "access_mode_as_u8 Consume = 3"

definition access_mode_try_from :: "u8 \<Rightarrow> (object_error, access_mode) result" where
  "access_mode_try_from value =
     (if value = 1 then Ok Read else if value = 2 then Ok Write else if value = 3 then Ok Consume
      else Err (UnknownAccessMode value))"

section \<open>Lazy migration\<close>

text \<open>A migration is its committed descriptor and its \<open>migrate_data\<close> implementation.\<close>

definition apply_lazy_migration ::
  "migration_descriptor \<Rightarrow> (bytes \<Rightarrow> (migration_error, bytes) result) \<Rightarrow> object \<Rightarrow>
   (migration_error, object) result" where
  "apply_lazy_migration descriptor migrate_data obj =
     try_bind (map_err InvalidDescriptor (migration_descriptor_validate descriptor)) (\<lambda>_.
     if ob_type_hash obj \<noteq> md_object_type descriptor
     then Err (ObjectTypeMismatch (md_object_type descriptor) (ob_type_hash obj))
     else if ob_schema_version obj \<noteq> md_from_schema_version descriptor
     then Err (SchemaVersionMismatch (md_from_schema_version descriptor) (ob_schema_version obj))
     else
       try_bind (ok_or (checked_add (ob_version obj) 1) ObjectVersionOverflow) (\<lambda>version.
       try_bind (migrate_data (ob_data obj)) (\<lambda>dat.
       Ok (obj \<lparr> ob_version := version, ob_schema_version := md_to_schema_version descriptor,
                 ob_data := dat \<rparr>))))"

section \<open>Encoders\<close>

definition encode_object_id :: "object_id \<Rightarrow> (object_error, bytes) result" where
  "encode_object_id i = map_err ObCanonicalEncoding
     (try_bind (field_bytes 1 i (cs_new OBJECT_ID_TYPE_ID OB_ENCODING_VERSION)) finish)"

definition encode_address :: "address \<Rightarrow> (object_error, bytes) result" where
  "encode_address a = map_err ObCanonicalEncoding
     (try_bind (field_bytes 1 a (cs_new ADDRESS_TYPE_ID OB_ENCODING_VERSION)) finish)"

definition encode_protocol_custody_scope ::
  "protocol_custody_scope \<Rightarrow> (object_error, bytes) result" where
  "encode_protocol_custody_scope scope = map_err ObCanonicalEncoding (
     try_bind (field_u16 1 (custody_purpose_tag (pcs_purpose scope))
       (cs_new PROTOCOL_CUSTODY_SCOPE_TYPE_ID OB_ENCODING_VERSION)) (\<lambda>c.
     try_bind (field_str 2 (pcs_chain_id scope) c) (\<lambda>c.
     try_bind (field_bytes 3 (pcs_subject scope) c) (\<lambda>c.
     try_bind (field_bytes 4 (pcs_resource scope) c) finish))))"

definition encode_owner :: "owner \<Rightarrow> (object_error, bytes) result" where
  "encode_owner owner =
     try_bind (map_err ObCanonicalEncoding
       (field_u16 1 (owner_tag owner) (cs_new OWNER_TYPE_ID OB_ENCODING_VERSION))) (\<lambda>c.
     try_bind (case owner of
         OwnerAddress a \<Rightarrow>
           try_bind (encode_address a) (\<lambda>b. map_err ObCanonicalEncoding (field_bytes 2 b c))
       | _ \<Rightarrow> Ok c) (\<lambda>c.
     try_bind (case owner of
         ProtocolCustody scope \<Rightarrow>
           try_bind (encode_protocol_custody_scope scope)
             (\<lambda>b. map_err ObCanonicalEncoding (field_bytes 3 b c))
       | _ \<Rightarrow> Ok c) (\<lambda>c.
     map_err ObCanonicalEncoding (finish c))))"

definition encode_object_ref :: "object_ref \<Rightarrow> (object_error, bytes) result" where
  "encode_object_ref r =
     try_bind (encode_object_id (or_id r)) (\<lambda>b.
     try_bind (map_err ObCanonicalEncoding
       (field_bytes 1 b (cs_new OBJECT_REF_TYPE_ID OB_ENCODING_VERSION))) (\<lambda>c.
     map_err ObCanonicalEncoding (
       try_bind (field_u64 2 (or_version r) c) (\<lambda>c.
       try_bind (encode_digest32 (or_digest r)) (\<lambda>b.
       try_bind (field_bytes 3 b c) finish)))))"

definition encode_object :: "object \<Rightarrow> (object_error, bytes) result" where
  "encode_object obj =
     try_bind (encode_object_id (ob_id obj)) (\<lambda>b.
     try_bind (map_err ObCanonicalEncoding
       (field_bytes 1 b (cs_new OBJECT_CANONICAL_TYPE_ID OB_ENCODING_VERSION))) (\<lambda>c.
     try_bind (map_err ObCanonicalEncoding (field_u64 2 (ob_version obj) c)) (\<lambda>c.
     try_bind (encode_owner (ob_owner obj)) (\<lambda>b.
     try_bind (map_err ObCanonicalEncoding (field_bytes 3 b c)) (\<lambda>c.
     map_err ObCanonicalEncoding (
       try_bind (encode_digest32 (ob_type_hash obj)) (\<lambda>b.
       try_bind (field_bytes 4 b c) (\<lambda>c.
       try_bind (field_u32 5 (ob_schema_version obj) c) (\<lambda>c.
       try_bind (field_bytes 6 (ob_data obj) c) finish)))))))))"

definition encode_access_mode :: "access_mode \<Rightarrow> (object_error, bytes) result" where
  "encode_access_mode mode = map_err ObCanonicalEncoding
     (try_bind (field_bytes 1 [access_mode_as_u8 mode]
        (cs_new ACCESS_MODE_TYPE_ID OB_ENCODING_VERSION)) finish)"

section \<open>Decoders\<close>

definition decode_object_id :: "bytes \<Rightarrow> (object_error, object_id) result" where
  "decode_object_id input =
     try_bind (map_err ObCanonicalDecoding
       (decode_closed_frame OBJECT_ID_TYPE_ID OB_ENCODING_VERSION [1] input)) (\<lambda>frame.
     try_bind (map_err ObCanonicalDecoding (required_field frame 1)) object_id_try_from_slice)"

definition decode_address :: "bytes \<Rightarrow> (object_error, address) result" where
  "decode_address input =
     try_bind (map_err ObCanonicalDecoding
       (decode_closed_frame ADDRESS_TYPE_ID OB_ENCODING_VERSION [1] input)) (\<lambda>frame.
     try_bind (map_err ObCanonicalDecoding (required_field frame 1)) address_try_from_slice)"

definition custody_purpose_of_tag :: "u16 \<Rightarrow> (object_error, protocol_custody_purpose) result" where
  "custody_purpose_of_tag tag =
     (if tag = 1 then Ok BondCollateral else if tag = 2 then Ok FeeEscrow
      else if tag = 3 then Ok ForfeitedCollateral else if tag = 4 then Ok SunriseMigration
      else Err (UnknownProtocolCustodyPurpose tag))"

definition decode_protocol_custody_scope ::
  "bytes \<Rightarrow> (object_error, protocol_custody_scope) result" where
  "decode_protocol_custody_scope input =
     try_bind (map_err ObCanonicalDecoding
       (decode_closed_frame PROTOCOL_CUSTODY_SCOPE_TYPE_ID OB_ENCODING_VERSION [1, 2, 3, 4] input))
       (\<lambda>frame.
     try_bind (map_err ObCanonicalDecoding (required_u16 frame 1)) (\<lambda>tag.
     try_bind (custody_purpose_of_tag tag) (\<lambda>purpose.
     try_bind (map_err ObCanonicalDecoding (required_str frame 2)) (\<lambda>chain.
     try_bind (map_err InvalidProtocolCustodyChainId (chain_id_new chain)) (\<lambda>chain_id.
     try_bind (map_err ObCanonicalDecoding (required_fixed_field frame IDENTIFIER_LEN 3))
       (\<lambda>subject.
     try_bind (map_err ObCanonicalDecoding (required_fixed_field frame IDENTIFIER_LEN 4))
       (\<lambda>resource.
     Ok \<lparr> pcs_purpose = purpose, pcs_chain_id = chain_id, pcs_subject = subject,
          pcs_resource = resource \<rparr>)))))))"

definition decode_owner :: "bytes \<Rightarrow> (object_error, owner) result" where
  "decode_owner input =
     try_bind (map_err ObCanonicalDecoding (decode_canonical_frame input)) (\<lambda>frame.
     try_bind (map_err ObCanonicalDecoding (require_type frame OWNER_TYPE_ID)) (\<lambda>_.
     try_bind (map_err ObCanonicalDecoding (require_version frame OB_ENCODING_VERSION)) (\<lambda>_.
     try_bind (map_err ObCanonicalDecoding (required_u16 frame 1)) (\<lambda>tag.
     if tag = 1 then
       try_bind (map_err ObCanonicalDecoding (require_only_fields frame [1, 2])) (\<lambda>_.
       try_bind (map_err ObCanonicalDecoding (required_field frame 2)) (\<lambda>b.
       try_bind (decode_address b) (\<lambda>a. Ok (OwnerAddress a))))
     else if tag = 2 then
       try_bind (map_err ObCanonicalDecoding (require_only_fields frame [1])) (\<lambda>_. Ok Shared)
     else if tag = 3 then
       try_bind (map_err ObCanonicalDecoding (require_only_fields frame [1])) (\<lambda>_. Ok Immutable)
     else if tag = 4 then
       try_bind (map_err ObCanonicalDecoding (require_only_fields frame [1])) (\<lambda>_. Ok System)
     else if tag = 5 then
       try_bind (map_err ObCanonicalDecoding (require_only_fields frame [1, 3])) (\<lambda>_.
       try_bind (map_err ObCanonicalDecoding (required_field frame 3)) (\<lambda>b.
       try_bind (decode_protocol_custody_scope b) (\<lambda>scope. Ok (ProtocolCustody scope))))
     else Err (UnknownOwnerTag tag)))))"

definition decode_object_ref :: "bytes \<Rightarrow> (object_error, object_ref) result" where
  "decode_object_ref input =
     try_bind (map_err ObCanonicalDecoding
       (decode_closed_frame OBJECT_REF_TYPE_ID OB_ENCODING_VERSION [1, 2, 3] input)) (\<lambda>frame.
     try_bind (map_err ObCanonicalDecoding (required_field frame 1)) (\<lambda>b.
     try_bind (decode_object_id b) (\<lambda>i.
     try_bind (map_err ObCanonicalDecoding (required_u64 frame 2)) (\<lambda>version.
     try_bind (map_err ObCanonicalDecoding (required_field frame 3)) (\<lambda>b.
     try_bind (map_err ObCanonicalDecoding (decode_digest32 b)) (\<lambda>digest.
     Ok \<lparr> or_id = i, or_version = version, or_digest = digest \<rparr>))))))"

definition decode_object :: "bytes \<Rightarrow> (object_error, object) result" where
  "decode_object input =
     try_bind (map_err ObCanonicalDecoding (decode_closed_frame OBJECT_CANONICAL_TYPE_ID
       OB_ENCODING_VERSION [1, 2, 3, 4, 5, 6] input)) (\<lambda>frame.
     try_bind (map_err ObCanonicalDecoding (required_field frame 1)) (\<lambda>b.
     try_bind (decode_object_id b) (\<lambda>i.
     try_bind (map_err ObCanonicalDecoding (required_u64 frame 2)) (\<lambda>version.
     try_bind (map_err ObCanonicalDecoding (required_field frame 3)) (\<lambda>b.
     try_bind (decode_owner b) (\<lambda>owner.
     try_bind (map_err ObCanonicalDecoding (required_field frame 4)) (\<lambda>b.
     try_bind (map_err ObCanonicalDecoding (decode_digest32 b)) (\<lambda>type_hash.
     try_bind (map_err ObCanonicalDecoding (required_u32 frame 5)) (\<lambda>schema_version.
     try_bind (map_err ObCanonicalDecoding (required_field frame 6)) (\<lambda>dat.
     Ok \<lparr> ob_id = i, ob_version = version, ob_owner = owner, ob_type_hash = type_hash,
          ob_schema_version = schema_version, ob_data = dat \<rparr>))))))))))"

definition decode_access_mode :: "bytes \<Rightarrow> (object_error, access_mode) result" where
  "decode_access_mode input =
     try_bind (map_err ObCanonicalDecoding
       (decode_closed_frame ACCESS_MODE_TYPE_ID OB_ENCODING_VERSION [1] input)) (\<lambda>frame.
     try_bind (map_err ObCanonicalDecoding (required_fixed_field frame 1 1)) (\<lambda>bs.
     access_mode_try_from (hd bs)))"

section \<open>The codecs are exact\<close>

lemma object_id_try_from_slice_Ok_iff [result_simps]:
  "object_id_try_from_slice bs = Ok i \<longleftrightarrow> bs = i \<and> length i = 32"
  by (auto simp: object_id_try_from_slice_def IDENTIFIER_LEN_def)

lemma address_try_from_slice_Ok_iff [result_simps]:
  "address_try_from_slice bs = Ok i \<longleftrightarrow> bs = i \<and> length i = 32"
  by (auto simp: address_try_from_slice_def IDENTIFIER_LEN_def)

lemma encode_object_id_Ok_iff:
  "encode_object_id i = Ok b \<longleftrightarrow>
     encode_frame \<lparr> cf_type_id = 0x4001, cf_version = 1, cf_fields = [(1, i)] \<rparr> = Ok b"
  by (simp add: encode_object_id_def encode_simps result_simps)

lemma decode_object_id_Ok_iff:
  "decode_object_id b = Ok i \<longleftrightarrow> array32 i \<and> encode_object_id i = Ok b"
  unfolding decode_object_id_def encode_object_id_Ok_iff object_ids
  by (subst decode_closed_iff) (auto simp: result_simps codec_simps array32_def)

lemma encode_address_Ok_iff:
  "encode_address i = Ok b \<longleftrightarrow>
     encode_frame \<lparr> cf_type_id = 0x4002, cf_version = 1, cf_fields = [(1, i)] \<rparr> = Ok b"
  by (simp add: encode_address_def encode_simps result_simps)

lemma decode_address_Ok_iff:
  "decode_address b = Ok i \<longleftrightarrow> array32 i \<and> encode_address i = Ok b"
  unfolding decode_address_def encode_address_Ok_iff object_ids
  by (subst decode_closed_iff) (auto simp: result_simps codec_simps array32_def)

definition custody_scope_wf :: "protocol_custody_scope \<Rightarrow> bool" where
  "custody_scope_wf s \<longleftrightarrow> chain_id_wf (pcs_chain_id s) \<and> array32 (pcs_subject s) \<and>
     array32 (pcs_resource s)"

lemma custody_purpose_of_tag_Ok_iff [result_simps]:
  "custody_purpose_of_tag t = Ok p \<longleftrightarrow> t = custody_purpose_tag p"
  by (cases p) (auto simp: custody_purpose_of_tag_def)

lemma chain_id_new_Ok_iff [result_simps]: "chain_id_new c = Ok d \<longleftrightarrow> c = d \<and> \<not> str_is_blank c"
  by (auto simp: chain_id_new_def)

lemma encode_custody_scope_Ok_iff:
  "encode_protocol_custody_scope s = Ok b \<longleftrightarrow>
     encode_frame \<lparr> cf_type_id = 0x4007, cf_version = 1, cf_fields =
       [(1, u16_to_le_bytes (custody_purpose_tag (pcs_purpose s))), (2, pcs_chain_id s),
        (3, pcs_subject s), (4, pcs_resource s)] \<rparr> = Ok b"
  by (simp add: encode_protocol_custody_scope_def encode_simps result_simps)

lemma decode_custody_scope_Ok_iff:
  "decode_protocol_custody_scope b = Ok s \<longleftrightarrow>
     custody_scope_wf s \<and> encode_protocol_custody_scope s = Ok b"
  unfolding decode_protocol_custody_scope_def encode_custody_scope_Ok_iff object_ids
  by (cases s) (subst decode_closed_iff; auto simp: result_simps codec_simps custody_scope_wf_def
      chain_id_wf_def array32_def)

fun owner_wf :: "owner \<Rightarrow> bool" where
  "owner_wf (OwnerAddress a) = array32 a"
| "owner_wf (ProtocolCustody scope) = custody_scope_wf scope"
| "owner_wf _ = True"

lemma encode_owner_Ok_iff:
  "encode_owner owner = Ok b \<longleftrightarrow>
     (case owner of
        OwnerAddress a \<Rightarrow> \<exists>ab. encode_address a = Ok ab \<and>
          encode_frame \<lparr> cf_type_id = 0x4003, cf_version = 1, cf_fields =
            [(1, u16_to_le_bytes 1), (2, ab)] \<rparr> = Ok b
      | ProtocolCustody scope \<Rightarrow> \<exists>sb. encode_protocol_custody_scope scope = Ok sb \<and>
          encode_frame \<lparr> cf_type_id = 0x4003, cf_version = 1, cf_fields =
            [(1, u16_to_le_bytes 5), (3, sb)] \<rparr> = Ok b
      | _ \<Rightarrow> encode_frame \<lparr> cf_type_id = 0x4003, cf_version = 1, cf_fields =
            [(1, u16_to_le_bytes (owner_tag owner))] \<rparr> = Ok b)"
  by (cases owner) (auto simp: encode_owner_def encode_simps result_simps)

text \<open>The tag is read before the field list is checked, so each variant is one closed frame.\<close>

lemma decode_owner_closed:
  "decode_owner b = Ok owner \<longleftrightarrow>
     (case owner of
        OwnerAddress a \<Rightarrow>
          \<exists>f. decode_closed_frame 0x4003 1 [1, 2] b = Ok f \<and>
            frame_field f 1 = Some (u16_to_le_bytes 1) \<and>
            (\<exists>ab. frame_field f 2 = Some ab \<and> decode_address ab = Ok a)
      | ProtocolCustody scope \<Rightarrow>
          \<exists>f. decode_closed_frame 0x4003 1 [1, 3] b = Ok f \<and>
            frame_field f 1 = Some (u16_to_le_bytes 5) \<and>
            (\<exists>sb. frame_field f 3 = Some sb \<and> decode_protocol_custody_scope sb = Ok scope)
      | _ \<Rightarrow>
          \<exists>f. decode_closed_frame 0x4003 1 [1] b = Ok f \<and>
            frame_field f 1 = Some (u16_to_le_bytes (owner_tag owner)))"
  by (cases owner)
    (auto simp: decode_owner_def decode_closed_frame_def result_simps object_ids split: if_splits,
      (rule exI [of _ 1] exI [of _ 2] exI [of _ 3] exI [of _ 4], simp; fail)+)

lemma decode_owner_Ok_iff: "decode_owner b = Ok owner \<longleftrightarrow> owner_wf owner \<and> encode_owner owner = Ok b"
  unfolding decode_owner_closed encode_owner_Ok_iff
  by (cases owner; simp; (subst closed_frame_ex_iff)?;
      auto simp: codec_simps decode_address_Ok_iff decode_custody_scope_Ok_iff)

lemma encode_object_ref_Ok_iff:
  "encode_object_ref r = Ok b \<longleftrightarrow>
     (\<exists>ib db. encode_object_id (or_id r) = Ok ib \<and> encode_digest32 (or_digest r) = Ok db \<and>
       encode_frame \<lparr> cf_type_id = 0x4004, cf_version = 1, cf_fields =
         [(1, ib), (2, u64_to_le_bytes (or_version r)), (3, db)] \<rparr> = Ok b)"
  by (auto simp: encode_object_ref_def encode_simps result_simps)

definition object_ref_wf :: "object_ref \<Rightarrow> bool" where
  "object_ref_wf r \<longleftrightarrow> array32 (or_id r) \<and> digest32_wf (or_digest r)"

lemma decode_object_ref_Ok_iff:
  "decode_object_ref b = Ok r \<longleftrightarrow> object_ref_wf r \<and> encode_object_ref r = Ok b"
  unfolding decode_object_ref_def encode_object_ref_Ok_iff object_ids
  by (cases r) (subst decode_closed_iff; auto simp: result_simps codec_simps object_ref_wf_def
      decode_object_id_Ok_iff decode_digest32_Ok_iff)

lemma encode_object_Ok_iff:
  "encode_object obj = Ok b \<longleftrightarrow>
     (\<exists>ib ob tb. encode_object_id (ob_id obj) = Ok ib \<and> encode_owner (ob_owner obj) = Ok ob \<and>
       encode_digest32 (ob_type_hash obj) = Ok tb \<and>
       encode_frame \<lparr> cf_type_id = 0x4005, cf_version = 1, cf_fields =
         [(1, ib), (2, u64_to_le_bytes (ob_version obj)), (3, ob), (4, tb),
          (5, u32_to_le_bytes (ob_schema_version obj)), (6, ob_data obj)] \<rparr> = Ok b)"
  by (auto simp: encode_object_def encode_simps result_simps)

definition object_wf :: "object \<Rightarrow> bool" where
  "object_wf obj \<longleftrightarrow> array32 (ob_id obj) \<and> owner_wf (ob_owner obj) \<and> digest32_wf (ob_type_hash obj)"

lemma decode_object_Ok_iff:
  "decode_object b = Ok obj \<longleftrightarrow> object_wf obj \<and> encode_object obj = Ok b"
  unfolding decode_object_def encode_object_Ok_iff object_ids
  by (cases obj) (subst decode_closed_iff; auto simp: result_simps codec_simps object_wf_def
      decode_object_id_Ok_iff decode_owner_Ok_iff decode_digest32_Ok_iff)

lemma access_mode_try_from_Ok_iff [result_simps]:
  "access_mode_try_from v = Ok m \<longleftrightarrow> v = access_mode_as_u8 m"
  by (cases m) (auto simp: access_mode_try_from_def)

lemma decode_access_mode_Ok_iff: "decode_access_mode b = Ok m \<longleftrightarrow> encode_access_mode m = Ok b"
  unfolding decode_access_mode_def encode_access_mode_def object_ids
  by (subst decode_closed_iff) (auto simp: result_simps codec_simps encode_simps length_Suc_conv)

interpretation object_id_codec: strict_codec encode_object_id decode_object_id array32
  by unfold_locales (auto simp: decode_object_id_Ok_iff)

interpretation owner_codec: strict_codec encode_owner decode_owner owner_wf
  by unfold_locales (auto simp: decode_owner_Ok_iff)

interpretation object_ref_codec: strict_codec encode_object_ref decode_object_ref object_ref_wf
  by unfold_locales (auto simp: decode_object_ref_Ok_iff)

interpretation object_codec: strict_codec encode_object decode_object object_wf
  by unfold_locales (auto simp: decode_object_Ok_iff)

interpretation access_mode_codec: strict_codec encode_access_mode decode_access_mode "\<lambda>_. True"
  by unfold_locales (auto simp: decode_access_mode_Ok_iff)

section \<open>Correctness of objects\<close>

text \<open>
  C36. The object codec is exact: \<open>decode_object\<close> returns an object if and only if the bytes are its
  canonical encoding, its identifier and type digest have 32 bytes, an address owner has 32 bytes
  and a custody owner has a non-blank UTF-8 chain identifier with 32-byte subject and resource.
  Two different objects, or two different owners, never share an encoding.
\<close>

theorem object_codec_exact:
  "decode_object b = Ok obj \<longleftrightarrow>
     encode_object obj = Ok b \<and> length (ob_id obj) = 32 \<and>
     length (digest_bytes (ob_type_hash obj)) = 32 \<and>
     (case ob_owner obj of
        OwnerAddress a \<Rightarrow> length a = 32
      | ProtocolCustody s \<Rightarrow> utf8_valid (pcs_chain_id s) \<and> \<not> str_is_blank (pcs_chain_id s) \<and>
          length (pcs_subject s) = 32 \<and> length (pcs_resource s) = 32
      | _ \<Rightarrow> True)"
  unfolding decode_object_Ok_iff
  by (auto simp: object_wf_def array32_def digest32_wf_def custody_scope_wf_def chain_id_wf_def
      split: owner.splits)

text \<open>
  C37. A lazy migration changes exactly what it may: when it succeeds the identity, owner and type
  are unchanged, the version grows by exactly one without wrapping, the schema version strictly
  increases to the committed target, and the data is what the migration computed; applying the
  same migration to its own result is refused with a schema mismatch.
\<close>

theorem lazy_migration_correct:
  assumes "apply_lazy_migration d migrate_data obj = Ok obj'"
  shows "ob_id obj' = ob_id obj \<and> ob_owner obj' = ob_owner obj \<and>
    ob_type_hash obj' = ob_type_hash obj \<and> ob_type_hash obj = md_object_type d \<and>
    unat (ob_version obj') = Suc (unat (ob_version obj)) \<and>
    ob_schema_version obj = md_from_schema_version d \<and>
    ob_schema_version obj' = md_to_schema_version d \<and>
    ob_schema_version obj < ob_schema_version obj' \<and>
    migrate_data (ob_data obj) = Ok (ob_data obj') \<and>
    apply_lazy_migration d migrate_data obj' =
      Err (SchemaVersionMismatch (md_from_schema_version d) (md_to_schema_version d))"
proof -
  have valid: "migration_descriptor_validate d = Ok ()"
    and lt: "md_from_schema_version d < md_to_schema_version d"
    using assms by (auto simp: apply_lazy_migration_def result_simps migration_descriptor_validate_def
        split: if_splits)
  obtain version dat where v: "unat version = unat (ob_version obj) + 1"
    "migrate_data (ob_data obj) = Ok dat" "ob_type_hash obj = md_object_type d"
    "ob_schema_version obj = md_from_schema_version d"
    "obj' = obj \<lparr> ob_version := version, ob_schema_version := md_to_schema_version d, ob_data := dat \<rparr>"
    using assms
    by (auto simp: apply_lazy_migration_def result_simps checked_add_Some_iff split: if_splits)
  then show ?thesis using valid lt by (auto simp: apply_lazy_migration_def)
qed

theorem lazy_migration_correct_witness:
  "\<exists>obj'. apply_lazy_migration
      \<lparr> md_migration_version = 1, md_object_type = Digest32 Sha2_256 (replicate 32 7),
        md_from_schema_version = 2, md_to_schema_version = 3,
        md_migration_hash = Digest32 Sha2_256 (replicate 32 8) \<rparr> (\<lambda>b. Ok (0 # b))
      \<lparr> ob_id = replicate 32 1, ob_version = 41, ob_owner = Shared,
        ob_type_hash = Digest32 Sha2_256 (replicate 32 7), ob_schema_version = 2,
        ob_data = [5] \<rparr> = Ok obj' \<and> unat (ob_version obj') = 42 \<and> ob_data obj' = [0, 5]"
proof -
  let ?d = "\<lparr> md_migration_version = 1, md_object_type = Digest32 Sha2_256 (replicate 32 7),
    md_from_schema_version = 2, md_to_schema_version = 3,
    md_migration_hash = Digest32 Sha2_256 (replicate 32 8) \<rparr>"
  let ?o = "\<lparr> ob_id = replicate 32 1, ob_version = 41, ob_owner = Shared,
    ob_type_hash = Digest32 Sha2_256 (replicate 32 7), ob_schema_version = 2, ob_data = [5] \<rparr>"
  let ?o' = "?o \<lparr> ob_version := 42, ob_schema_version := 3, ob_data := [0, 5] \<rparr>"
  have "apply_lazy_migration ?d (\<lambda>b. Ok (0 # b)) ?o = Ok ?o'"
    by (simp add: apply_lazy_migration_def migration_descriptor_validate_def checked_add_def)
  from this lazy_migration_correct [OF this] show ?thesis by (intro exI [of _ ?o']) simp
qed

end
