(* ===== verification/Indexed_Lists.thy ===== *)
theory Indexed_Lists
  imports Canonical_Codec
begin

text \<open>
  Frames that carry a list: fixed fields numbered from 1, then one field per item. The consensus
  messages and the persisted consensus state have this shape. Also the two induction principles for
  a loop over \<open>0..count\<close> that stops at the first error.
\<close>

section \<open>Loops over an index range\<close>

lemma try_fold_upt:
  assumes "\<And>k. i \<le> k \<Longrightarrow> k < n \<Longrightarrow> step (S k) k = Ok (S (Suc k))" "i \<le> n"
  shows "try_fold step (S i) [i..<n] = Ok (S n)"
  using assms
proof (induction "n - i" arbitrary: i)
  case 0
  then show ?case by simp
next
  case (Suc d)
  then have "[i..<n] = i # [Suc i..<n]" "step (S i) i = Ok (S (Suc i))"
    "try_fold step (S (Suc i)) [Suc i..<n] = Ok (S n)"
    by (auto simp: upt_conv_Cons)
  then show ?case by simp
qed

lemma try_fold_upt_inv:
  assumes "try_fold step s [i..<n] = Ok s'" "P i s" "i \<le> n"
    and "\<And>k t t'. i \<le> k \<Longrightarrow> k < n \<Longrightarrow> P k t \<Longrightarrow> step t k = Ok t' \<Longrightarrow> P (Suc k) t'"
  shows "P n s'"
  using assms
proof (induction "n - i" arbitrary: i s)
  case 0
  then show ?case by simp
next
  case (Suc d)
  then have upt: "[i..<n] = i # [Suc i..<n]" by (simp add: upt_conv_Cons)
  with Suc.prems(1) obtain t where t: "step s i = Ok t" "try_fold step t [Suc i..<n] = Ok s'"
    by (auto simp: result_simps)
  show ?case
  proof (rule Suc.hyps(1) [OF _ t(2)])
    show "d = n - Suc i" "Suc i \<le> n" using Suc.hyps(2) by auto
    show "P (Suc i) t" using Suc.prems(4) [OF _ _ Suc.prems(2) t(1)] Suc.hyps(2) by auto
  qed (use Suc.prems(4) in auto)
qed

lemma try_map_upt:
  "try_map f [0..<n] = Ok xs \<longleftrightarrow> length xs = n \<and> (\<forall>i < n. f i = Ok (xs ! i))"
  by (auto simp: try_map_eq_Ok list_all2_conv_all_nth)

section \<open>List frames\<close>

definition list_frame :: "u16 \<Rightarrow> u16 \<Rightarrow> (u16 \<times> bytes) list \<Rightarrow> bytes list \<Rightarrow> canonical_frame" where
  "list_frame t v hs bs = \<lparr> cf_type_id = t, cf_version = v, cf_fields =
     hs @ zip (map of_nat [Suc (length hs)..<Suc (length hs) + length bs]) bs \<rparr>"

definition list_head :: "(u16 \<times> bytes) list \<Rightarrow> nat \<Rightarrow> bool" where
  "list_head hs n \<longleftrightarrow> map fst hs = map of_nat [1..<Suc (length hs)] \<and> length hs + n < 2 ^ 16"

lemma list_frame_sel [simp]:
  "cf_type_id (list_frame t v hs bs) = t" "cf_version (list_frame t v hs bs) = v"
  "length (cf_fields (list_frame t v hs bs)) = length hs + length bs"
  by (simp_all add: list_frame_def del: upt_Suc)

lemma list_frame_keys:
  assumes "list_head hs (length bs)"
  shows "map fst (cf_fields (list_frame t v hs bs)) = map of_nat [1..<Suc (length hs + length bs)]"
proof -
  have "[1..<Suc (length hs + length bs)] =
      [1..<Suc (length hs)] @ [Suc (length hs)..<Suc (length hs) + length bs]"
    using upt_add_eq_append [of 1 "Suc (length hs)" "length bs"] by simp
  then show ?thesis using assms by (simp add: list_frame_def list_head_def)
qed

lemma list_frame_wf:
  assumes "list_head hs (length bs)"
  shows "frame_wf (list_frame t v hs bs)"
proof -
  have "sorted_wrt (<) (map (of_nat :: nat \<Rightarrow> u16) [1..<Suc (length hs + length bs)])"
    using assms by (intro sorted_of_nat_upt) (simp add: list_head_def)
  then show ?thesis
    using list_frame_keys [OF assms] by (simp add: frame_wf_def key_sorted_def)
qed

lemma list_frame_lookup:
  assumes "list_head hs (length bs)" "(k, b) \<in> set (cf_fields (list_frame t v hs bs))"
  shows "frame_field (list_frame t v hs bs) k = Some b"
proof -
  have wf: "frame_wf (list_frame t v hs bs)" using assms(1) by (rule list_frame_wf)
  then have "distinct (map fst (cf_fields (list_frame t v hs bs)))"
    using key_sorted_distinct by (auto simp: frame_wf_def)
  then show ?thesis unfolding frame_field_eq [OF wf] using assms(2) by (simp add: map_of_is_SomeI)
qed

lemma list_frame_item:
  assumes "list_head hs (length bs)" "i < length bs"
  shows "frame_field (list_frame t v hs bs) (of_nat (i + Suc (length hs))) = Some (bs ! i)"
proof (rule list_frame_lookup [OF assms(1)])
  have "(of_nat (i + Suc (length hs)) :: u16, bs ! i) \<in>
      set (zip (map of_nat [Suc (length hs)..<Suc (length hs) + length bs]) bs)"
    using assms(2) by (auto simp: set_zip add.commute [of i] simp del: of_nat_add of_nat_Suc upt_Suc
        intro!: exI [of _ i])
  then show "(of_nat (i + Suc (length hs)), bs ! i) \<in> set (cf_fields (list_frame t v hs bs))"
    by (simp add: list_frame_def del: of_nat_add of_nat_Suc)
qed

lemma list_frame_head:
  assumes "list_head hs (length bs)" "map_of hs k = Some b"
  shows "frame_field (list_frame t v hs bs) k = Some b"
  using map_of_SomeD [OF assms(2)]
  by (intro list_frame_lookup [OF assms(1)]) (simp add: list_frame_def)

lemma decode_list_frame:
  "list_head hs (length bs) \<Longrightarrow> encode_frame (list_frame t v hs bs) = Ok b \<Longrightarrow>
   decode_canonical_frame b = Ok (list_frame t v hs bs)"
  by (intro decode_encode_frame list_frame_wf)

lemma put_list_frame_Ok_iff:
  assumes "list_head hs (length xs)" "base = Suc (length hs)"
  shows "try_bind (put_items e wrap enc base xs \<lparr> cs_type_id = t, cs_version = v, cs_fields = hs \<rparr>)
      (\<lambda>c. map_err w (finish c)) = Ok b \<longleftrightarrow>
    (\<exists>bs. list_all2 (\<lambda>x b. enc x = Ok b) xs bs \<and> encode_frame (list_frame t v hs bs) = Ok b)"
proof -
  have keys: "unat i < base" if "i \<in> fst ` set hs" for i
  proof -
    have "i \<in> set (map of_nat [1..<Suc (length hs)])"
      using that assms(1) unfolding list_head_def by (metis image_set)
    then show ?thesis
      using assms by (auto simp: list_head_def unat_of_nat simp del: upt_Suc)
  qed
  have fields: "\<lparr> cf_type_id = t, cf_version = v,
      cf_fields = hs @ zip (map of_nat [base..<base + length xs]) bs \<rparr> = list_frame t v hs bs" if "list_all2 (\<lambda>x b. enc x = Ok b) xs bs" for bs
    using list_all2_lengthD [OF that] assms(2) by (simp add: list_frame_def del: upt_Suc)
  have "put_items e wrap enc base xs \<lparr> cs_type_id = t, cs_version = v, cs_fields = hs \<rparr> = Ok c \<longleftrightarrow>
      (\<exists>bs. list_all2 (\<lambda>x b. enc x = Ok b) xs bs \<and>
        c = \<lparr> cs_type_id = t, cs_version = v,
              cs_fields = hs @ zip (map of_nat [base..<base + length xs]) bs \<rparr>)" for c
    using keys assms by (intro put_items_Ok_iff) (auto simp: list_head_def)
  then have "try_bind (put_items e wrap enc base xs \<lparr> cs_type_id = t, cs_version = v, cs_fields = hs \<rparr>)
      (\<lambda>c. map_err w (finish c)) = Ok b \<longleftrightarrow>
    (\<exists>bs. list_all2 (\<lambda>x b. enc x = Ok b) xs bs \<and>
      encode_frame \<lparr> cf_type_id = t, cf_version = v,
        cf_fields = hs @ zip (map of_nat [base..<base + length xs]) bs \<rparr> = Ok b)"
    unfolding try_bind_eq_Ok map_err_eq_Ok by (auto simp: finish_encode_frame)
  also have "\<dots> \<longleftrightarrow>
      (\<exists>bs. list_all2 (\<lambda>x b. enc x = Ok b) xs bs \<and> encode_frame (list_frame t v hs bs) = Ok b)"
    using fields by (intro ex_cong1 conj_cong refl) simp
  finally show ?thesis .
qed

lemma item_keys_above:
  assumes "k \<in> fst ` set (zip (map of_nat [m..<m + n]) bs)" "m + n \<le> 2 ^ 16"
  shows "m \<le> unat (k :: u16)"
proof -
  have "k \<in> set (map of_nat [m..<m + n])" using assms(1) by (auto dest: set_zip_leftD)
  then obtain i where "k = of_nat i" "m \<le> i" "i < m + n" by (auto simp del: upt_Suc)
  then show ?thesis using assms(2) by (simp add: unat_of_nat)
qed

end
