(* ===== verification/Consensus_Messages.thy ===== *)
theory Consensus_Messages
  imports Validator_Set Signature_Frames Objects Indexed_Lists
begin

text \<open>
  The messages of shared-object consensus (\<^verbatim>\<open>src/crates/consensus/src/lib.rs\<close>): parameters, errors,
  votes, quorum certificates and proposals, their canonical encoders, and the bounded strict
  decoders of \<^verbatim>\<open>src/crates/consensus/src/durable.rs\<close>. A message kind is a \<open>strict_codec\<close>: its decoder
  accepts exactly the bytes its encoder writes for a well-formed message within the byte bound.
\<close>

section \<open>Constants and parameters\<close>

definition PROPOSAL_TYPE_ID :: u16 where
  "PROPOSAL_TYPE_ID = 0xD001"

definition VOTE_PAYLOAD_TYPE_ID :: u16 where
  "VOTE_PAYLOAD_TYPE_ID = 0xD002"

definition VOTE_TYPE_ID :: u16 where
  "VOTE_TYPE_ID = 0xD003"

definition CERTIFICATE_TYPE_ID :: u16 where
  "CERTIFICATE_TYPE_ID = 0xD004"

definition PARAMETERS_TYPE_ID :: u16 where
  "PARAMETERS_TYPE_ID = 0xD005"

definition CONSENSUS_ENCODING_VERSION :: u16 where
  "CONSENSUS_ENCODING_VERSION = 1"

lemmas consensus_ids [encode_simps] = PROPOSAL_TYPE_ID_def VOTE_PAYLOAD_TYPE_ID_def VOTE_TYPE_ID_def
  CERTIFICATE_TYPE_ID_def PARAMETERS_TYPE_ID_def CONSENSUS_ENCODING_VERSION_def

definition PROPOSAL_MESSAGE_TYPE :: bytes where
  "PROPOSAL_MESSAGE_TYPE = str ''shared-consensus-proposal-v1''"

definition VOTE_MESSAGE_TYPE :: bytes where
  "VOTE_MESSAGE_TYPE = str ''shared-consensus-vote-v1''"

definition MAX_SIGNATURE_BYTES :: usize where
  "MAX_SIGNATURE_BYTES = 4096"

definition MAX_BLOCK_TRANSACTIONS_LIMIT :: u32 where
  "MAX_BLOCK_TRANSACTIONS_LIMIT = 16384"

definition MAX_FUTURE_VIEW_GAP :: u64 where
  "MAX_FUTURE_VIEW_GAP = 64"

definition RETAIN_COMMITTED_HEIGHTS :: u64 where
  "RETAIN_COMMITTED_HEIGHTS = 2"

definition MAX_CERTIFICATE_VOTES :: usize where
  "MAX_CERTIFICATE_VOTES = 10000"

definition MAX_ENCODED_VOTE_BYTES :: usize where
  "MAX_ENCODED_VOTE_BYTES = 8 * 1024"

definition MAX_ENCODED_CERTIFICATE_BYTES :: usize where
  "MAX_ENCODED_CERTIFICATE_BYTES = 8 * 1024 * 1024"

definition MAX_ENCODED_PROPOSAL_BYTES :: usize where
  "MAX_ENCODED_PROPOSAL_BYTES = 10 * 1024 * 1024"

datatype consensus_protocol_id = ChainedHotStuffV1

definition consensus_protocol_as_u16 :: "consensus_protocol_id \<Rightarrow> u16" where
  "consensus_protocol_as_u16 p = (case p of ChainedHotStuffV1 \<Rightarrow> 0x0001)"

record consensus_parameters =
  cp_protocol :: consensus_protocol_id
  cp_max_block_transactions :: u32
  cp_view_timeout_millis :: u64

definition consensus_parameters_genesis :: consensus_parameters where
  "consensus_parameters_genesis =
     \<lparr> cp_protocol = ChainedHotStuffV1, cp_max_block_transactions = 1024,
       cp_view_timeout_millis = 10000 \<rparr>"

section \<open>Errors\<close>

datatype (plugins only: size) consensus_error =
    CeCanonicalEncoding canonical_encoding_error
  | CeCanonicalDecoding canonical_decoding_error
  | CeProtocolType type_error
  | CeHashing hashing_error
  | CeCrypto crypto_error
  | CeValidatorSet validator_set_error
  | Authenticator bytes
  | ValidatorSetEpochMismatch epoch epoch
  | HashChainMismatch
  | HashProtocolVersionMismatch
  | UnknownValidator validator_id
  | ContextMismatch
  | InvalidLeader u64 validator_id validator_id
  | ZeroViewOrHeight
  | InvalidProposalHeight
  | InvalidProposalView
  | FutureView u64 u64
  | StaleProposal u64 u64
  | TooManyTransactions usize
  | InvalidMaxBlockTransactions u32
  | ZeroViewTimeout
  | CeInvalidSignatureLength usize
  | ZeroAvailabilityRequestId
  | CeSignatureSchemeMismatch validator_id
  | InvalidSignature validator_id
  | InsufficientQuorum u64 u64
  | NonCanonicalCertificateVotes
  | CertificateVoteMismatch
  | CertificateProposalMismatch
  | InvalidGenesisCertificate
  | UnsafeProposal
  | AlreadyVoted u64 digest32 digest32
  | Equivocation validator_id u64 digest32 digest32
  | ArithmeticOverflow
  | NonSuccessiveEpoch epoch epoch
  | CeObject object_error
  | EquivocationEvidenceConflictKeyMismatch
  | EquivocationEvidenceStatementsIdentical
  | NonCanonicalEquivocationEvidenceOrder
  | NonCanonicalLockedObjectOrder
  | ObjectConflictRequiresDistinctTransactions
  | ObjectConflictNotFound
  | ObjectConflictNotProvenByPreimages
  | StateCollectionTooLarge bytes usize usize
  | InconsistentPersistedState bytes
  | UntrustedObserverTick
  | EncodedFrameTooLarge bytes usize usize
  | NonCanonicalCommittedBlockProof
  | CommittedBlockProofChainMismatch bytes
  | CommittedBlockProofIdentityMismatch
  | MissingCommittedBlockProof

definition consensus_parameters_validate ::
  "consensus_parameters \<Rightarrow> (consensus_error, unit) result" where
  "consensus_parameters_validate p =
     (if cp_max_block_transactions p = 0 \<or>
         cp_max_block_transactions p > MAX_BLOCK_TRANSACTIONS_LIMIT
      then Err (InvalidMaxBlockTransactions (cp_max_block_transactions p))
      else if cp_view_timeout_millis p = 0 then Err ZeroViewTimeout
      else Ok ())"

section \<open>Messages\<close>

text \<open>\<open>ConsensusVote\<close>\<close>

record consensus_vote =
  v_chain_id :: chain_id
  v_protocol_version :: protocol_version
  v_epoch :: epoch
  v_view :: u64
  v_height :: u64
  v_proposal_digest :: digest32
  v_validator :: validator_id
  v_signature_scheme :: signature_scheme_id
  v_signature :: bytes

text \<open>\<open>QuorumCertificate\<close>\<close>

record quorum_certificate =
  qc_chain_id :: chain_id
  qc_protocol_version :: protocol_version
  qc_epoch :: epoch
  qc_view :: u64
  qc_height :: u64
  qc_proposal_digest :: digest32
  qc_votes :: "consensus_vote list"

definition quorum_certificate_genesis ::
  "chain_id \<Rightarrow> protocol_version \<Rightarrow> epoch \<Rightarrow> digest32 \<Rightarrow> quorum_certificate" where
  "quorum_certificate_genesis c pv e genesis_block =
     \<lparr> qc_chain_id = c, qc_protocol_version = pv, qc_epoch = e, qc_view = 0, qc_height = 0,
       qc_proposal_digest = genesis_block, qc_votes = [] \<rparr>"

text \<open>\<open>ConsensusProposal\<close>\<close>

record consensus_proposal =
  p_chain_id :: chain_id
  p_protocol_version :: protocol_version
  p_epoch :: epoch
  p_view :: u64
  p_height :: u64
  p_leader :: validator_id
  p_justify :: quorum_certificate
  p_transactions :: "digest32 list"
  p_signature_scheme :: signature_scheme_id
  p_signature :: bytes

section \<open>Encoders\<close>

definition validate_signature_length :: "bytes \<Rightarrow> (consensus_error, unit) result" where
  "validate_signature_length signature =
     (if signature = [] \<or> length signature > MAX_SIGNATURE_BYTES
      then Err (CeInvalidSignatureLength (length signature)) else Ok ())"

definition encode_consensus_parameters ::
  "consensus_parameters \<Rightarrow> (consensus_error, bytes) result" where
  "encode_consensus_parameters p =
     try_bind (consensus_parameters_validate p) (\<lambda>_.
     map_err CeCanonicalEncoding (
       try_bind (field_u16 1 (consensus_protocol_as_u16 (cp_protocol p))
                   (cs_new PARAMETERS_TYPE_ID CONSENSUS_ENCODING_VERSION)) (\<lambda>c.
       try_bind (field_u32 2 (cp_max_block_transactions p) c) (\<lambda>c.
       try_bind (field_u64 3 (cp_view_timeout_millis p) c) finish))))"

definition encode_vote_payload :: "consensus_vote \<Rightarrow> (consensus_error, bytes) result" where
  "encode_vote_payload v =
     map_err CeCanonicalEncoding (
       try_bind (field_str 1 (v_chain_id v)
                   (cs_new VOTE_PAYLOAD_TYPE_ID CONSENSUS_ENCODING_VERSION)) (\<lambda>c.
       try_bind (field_u32 2 (v_protocol_version v) c) (\<lambda>c.
       try_bind (field_u64 3 (v_epoch v) c) (\<lambda>c.
       try_bind (field_u64 4 (v_view v) c) (\<lambda>c.
       try_bind (field_u64 5 (v_height v) c) (\<lambda>c.
       try_bind (encode_digest32 (v_proposal_digest v)) (\<lambda>d.
       try_bind (field_bytes 6 d c) (\<lambda>c.
       try_bind (field_bytes 7 (v_validator v) c) (\<lambda>c.
       try_bind (field_u16 8 (signature_scheme_as_u16 (v_signature_scheme v)) c) finish)))))))))"

definition encode_vote :: "consensus_vote \<Rightarrow> (consensus_error, bytes) result" where
  "encode_vote v =
     try_bind (validate_signature_length (v_signature v)) (\<lambda>_.
     try_bind (encode_vote_payload v) (\<lambda>payload.
     map_err CeCanonicalEncoding (
       try_bind (field_bytes 1 payload (cs_new VOTE_TYPE_ID CONSENSUS_ENCODING_VERSION)) (\<lambda>c.
       try_bind (field_bytes 2 (v_signature v) c) finish))))"

definition encode_quorum_certificate ::
  "quorum_certificate \<Rightarrow> (consensus_error, bytes) result" where
  "encode_quorum_certificate qc =
     (if length (qc_votes qc) > MAX_CERTIFICATE_VOTES then Err NonCanonicalCertificateVotes
      else
        try_bind (map_err CeCanonicalEncoding (
          try_bind (field_str 1 (qc_chain_id qc)
                      (cs_new CERTIFICATE_TYPE_ID CONSENSUS_ENCODING_VERSION)) (\<lambda>c.
          try_bind (field_u32 2 (qc_protocol_version qc) c) (\<lambda>c.
          try_bind (field_u64 3 (qc_epoch qc) c) (\<lambda>c.
          try_bind (field_u64 4 (qc_view qc) c) (\<lambda>c.
          try_bind (field_u64 5 (qc_height qc) c) (\<lambda>c.
          try_bind (encode_digest32 (qc_proposal_digest qc)) (\<lambda>d.
          field_bytes 6 d c)))))))) (\<lambda>c.
        try_bind (ok_or (u32_try_from (length (qc_votes qc))) NonCanonicalCertificateVotes)
          (\<lambda>count.
        try_bind (map_err CeCanonicalEncoding (field_u32 7 count c)) (\<lambda>c.
        try_bind (put_items NonCanonicalCertificateVotes CeCanonicalEncoding encode_vote 8
                    (qc_votes qc) c) (\<lambda>c.
        map_err CeCanonicalEncoding (finish c))))))"

definition encode_proposal_payload ::
  "consensus_proposal \<Rightarrow> (consensus_error, bytes) result" where
  "encode_proposal_payload p =
     (let n = length (p_transactions p) in
      if n > unat MAX_BLOCK_TRANSACTIONS_LIMIT then Err (TooManyTransactions n)
      else
        try_bind (map_err CeCanonicalEncoding (
          try_bind (field_str 1 (p_chain_id p)
                      (cs_new PROPOSAL_TYPE_ID CONSENSUS_ENCODING_VERSION)) (\<lambda>c.
          try_bind (field_u32 2 (p_protocol_version p) c) (\<lambda>c.
          try_bind (field_u64 3 (p_epoch p) c) (\<lambda>c.
          try_bind (field_u64 4 (p_view p) c) (\<lambda>c.
          try_bind (field_u64 5 (p_height p) c) (\<lambda>c.
          field_bytes 6 (p_leader p) c))))))) (\<lambda>c.
        try_bind (encode_quorum_certificate (p_justify p)) (\<lambda>j.
        try_bind (map_err CeCanonicalEncoding (field_bytes 7 j c)) (\<lambda>c.
        try_bind (ok_or (u32_try_from n) (TooManyTransactions n)) (\<lambda>count.
        try_bind (map_err CeCanonicalEncoding (field_u32 8 count c)) (\<lambda>c.
        try_bind (put_items (TooManyTransactions n) CeCanonicalEncoding
                    (\<lambda>d. map_err CeCanonicalEncoding (encode_digest32 d)) 10
                    (p_transactions p) c) (\<lambda>c.
        map_err CeCanonicalEncoding (
          try_bind (field_u16 9 (signature_scheme_as_u16 (p_signature_scheme p)) c) finish))))))))"

definition encode_proposal :: "consensus_proposal \<Rightarrow> (consensus_error, bytes) result" where
  "encode_proposal p =
     try_bind (validate_signature_length (p_signature p)) (\<lambda>_.
     try_bind (encode_proposal_payload p) (\<lambda>payload.
     map_err CeCanonicalEncoding (
       try_bind (field_bytes 1 payload (cs_new PROPOSAL_TYPE_ID (CONSENSUS_ENCODING_VERSION + 1)))
         (\<lambda>c.
       try_bind (field_bytes 2 (p_signature p) c) finish))))"

section \<open>Bounded strict decoders\<close>

definition ensure_encoded_bound :: "bytes \<Rightarrow> usize \<Rightarrow> usize \<Rightarrow> (consensus_error, unit) result" where
  "ensure_encoded_bound kind actual maximum =
     (if actual > maximum then Err (EncodedFrameTooLarge kind actual maximum) else Ok ())"

text \<open>The 32-byte array a field converts to with \<open>try_into\<close>.\<close>

definition field_array32 :: "u16 \<Rightarrow> bytes \<Rightarrow> (consensus_error, bytes) result" where
  "field_array32 field_id bs =
     (if length bs \<noteq> 32 then Err (CeCanonicalDecoding (InvalidFieldLength field_id 32 (length bs)))
      else Ok bs)"

text \<open>The chain id of field 1.\<close>

definition required_chain_id :: "canonical_frame \<Rightarrow> (consensus_error, chain_id) result" where
  "required_chain_id f =
     try_bind (map_err CeCanonicalDecoding (required_str f 1)) (\<lambda>value.
     map_err CeProtocolType (chain_id_new value))"

definition required_signature_scheme ::
  "canonical_frame \<Rightarrow> u16 \<Rightarrow> (consensus_error, signature_scheme_id) result" where
  "required_signature_scheme f field_id =
     try_bind (map_err CeCanonicalDecoding (required_u16 f field_id)) (\<lambda>value.
     map_err CeProtocolType (signature_scheme_try_from value))"

definition required_digest ::
  "canonical_frame \<Rightarrow> u16 \<Rightarrow> (consensus_error, digest32) result" where
  "required_digest f field_id =
     map_err CeCanonicalDecoding (try_bind (required_field f field_id) decode_digest32)"

definition decode_vote_payload ::
  "bytes \<Rightarrow> bytes \<Rightarrow> (consensus_error, consensus_vote) result" where
  "decode_vote_payload payload_bytes signature =
     try_bind (map_err CeCanonicalDecoding
       (decode_closed_frame VOTE_PAYLOAD_TYPE_ID CONSENSUS_ENCODING_VERSION [1, 2, 3, 4, 5, 6, 7, 8]
          payload_bytes)) (\<lambda>payload.
     try_bind (required_chain_id payload) (\<lambda>chain_id.
     try_bind (map_err CeCanonicalDecoding (required_u32 payload 2)) (\<lambda>protocol_version.
     try_bind (map_err CeCanonicalDecoding (required_u64 payload 3)) (\<lambda>epoch.
     try_bind (map_err CeCanonicalDecoding (required_u64 payload 4)) (\<lambda>view.
     try_bind (map_err CeCanonicalDecoding (required_u64 payload 5)) (\<lambda>height.
     try_bind (required_digest payload 6) (\<lambda>proposal_digest.
     try_bind (map_err CeCanonicalDecoding (required_field payload 7)) (\<lambda>validator_field.
     try_bind (field_array32 7 validator_field) (\<lambda>validator_bytes.
     try_bind (required_signature_scheme payload 8) (\<lambda>signature_scheme.
     if view = 0 \<or> height = 0 then Err ZeroViewOrHeight
     else Ok \<lparr> v_chain_id = chain_id, v_protocol_version = protocol_version, v_epoch = epoch,
               v_view = view, v_height = height, v_proposal_digest = proposal_digest,
               v_validator = validator_bytes, v_signature_scheme = signature_scheme,
               v_signature = signature \<rparr>))))))))))"

definition decode_vote :: "bytes \<Rightarrow> (consensus_error, consensus_vote) result" where
  "decode_vote input =
     try_bind (ensure_encoded_bound (str ''vote'') (length input) MAX_ENCODED_VOTE_BYTES) (\<lambda>_.
     try_bind (map_err CeCanonicalDecoding
       (decode_closed_frame VOTE_TYPE_ID CONSENSUS_ENCODING_VERSION [1, 2] input)) (\<lambda>outer.
     try_bind (map_err CeCanonicalDecoding (required_field outer 1)) (\<lambda>payload_bytes.
     try_bind (map_err CeCanonicalDecoding (required_field outer 2)) (\<lambda>signature.
     try_bind (decode_vote_payload payload_bytes signature) (\<lambda>vote.
     try_bind (encode_vote vote) (\<lambda>b.
     if b \<noteq> input then Err NonCanonicalCertificateVotes else Ok vote))))))"

text \<open>One turn of the loop that decodes the votes of a certificate, with the previous validator.\<close>

definition decode_certificate_vote ::
  "canonical_frame \<Rightarrow> u64 \<Rightarrow> u64 \<Rightarrow> digest32 \<Rightarrow> consensus_vote list \<times> validator_id option \<Rightarrow> nat \<Rightarrow>
   (consensus_error, consensus_vote list \<times> validator_id option) result" where
  "decode_certificate_vote frame view height proposal_digest st index =
     (case st of (votes, previous) \<Rightarrow>
       try_bind (ok_or (u16_try_from (index + 8)) NonCanonicalCertificateVotes) (\<lambda>field_id.
       try_bind (map_err CeCanonicalDecoding (required_field frame field_id)) (\<lambda>b.
       try_bind (decode_vote b) (\<lambda>vote.
       if v_view vote \<noteq> view \<or> v_height vote \<noteq> height \<or> v_proposal_digest vote \<noteq> proposal_digest
       then Err CertificateVoteMismatch
       else if (case previous of Some validator \<Rightarrow> validator \<ge> v_validator vote | None \<Rightarrow> False)
       then Err NonCanonicalCertificateVotes
       else Ok (votes @ [vote], Some (v_validator vote))))))"

definition decode_quorum_certificate :: "bytes \<Rightarrow> (consensus_error, quorum_certificate) result" where
  "decode_quorum_certificate input =
     try_bind (ensure_encoded_bound (str ''quorum_certificate'') (length input)
                 MAX_ENCODED_CERTIFICATE_BYTES) (\<lambda>_.
     try_bind (map_err CeCanonicalDecoding (decode_canonical_frame input)) (\<lambda>frame.
     try_bind (map_err CeCanonicalDecoding (require_type frame CERTIFICATE_TYPE_ID)) (\<lambda>_.
     try_bind (map_err CeCanonicalDecoding (require_version frame CONSENSUS_ENCODING_VERSION)) (\<lambda>_.
     try_bind (required_chain_id frame) (\<lambda>chain_id.
     try_bind (map_err CeCanonicalDecoding (required_u32 frame 2)) (\<lambda>protocol_version.
     try_bind (map_err CeCanonicalDecoding (required_u64 frame 3)) (\<lambda>epoch.
     try_bind (map_err CeCanonicalDecoding (required_u64 frame 4)) (\<lambda>view.
     try_bind (map_err CeCanonicalDecoding (required_u64 frame 5)) (\<lambda>height.
     try_bind (required_digest frame 6) (\<lambda>proposal_digest.
     try_bind (map_err CeCanonicalDecoding (required_u32 frame 7)) (\<lambda>count32.
     let count = unat count32 in
     if count > MAX_CERTIFICATE_VOTES then Err NonCanonicalCertificateVotes
     else if (view = 0 \<or> height = 0) \<and> \<not> (view = 0 \<and> height = 0 \<and> count = 0)
     then Err InvalidGenesisCertificate
     else
       try_bind (ok_or (usize_checked_add count 7) NonCanonicalCertificateVotes) (\<lambda>expected.
       if length (cf_fields frame) \<noteq> expected then Err NonCanonicalCertificateVotes
       else
         try_bind (try_fold (decode_certificate_vote frame view height proposal_digest)
                     ([], None) [0..<count]) (\<lambda>(votes, _).
         let certificate = \<lparr> qc_chain_id = chain_id, qc_protocol_version = protocol_version,
               qc_epoch = epoch, qc_view = view, qc_height = height,
               qc_proposal_digest = proposal_digest, qc_votes = votes \<rparr> in
         try_bind (encode_quorum_certificate certificate) (\<lambda>b.
         if b \<noteq> input then Err NonCanonicalCertificateVotes else Ok certificate))))))))))))))"

text \<open>One turn of the loop that decodes the transactions of a proposal.\<close>

definition decode_transaction ::
  "canonical_frame \<Rightarrow> usize \<Rightarrow> nat \<Rightarrow> (consensus_error, digest32) result" where
  "decode_transaction payload tx_count index =
     try_bind (ok_or (u16_try_from (index + 10)) (TooManyTransactions tx_count)) (\<lambda>field_id.
     required_digest payload field_id)"

definition decode_proposal_payload ::
  "bytes \<Rightarrow> bytes \<Rightarrow> (consensus_error, consensus_proposal) result" where
  "decode_proposal_payload payload_bytes signature =
     try_bind (map_err CeCanonicalDecoding (decode_canonical_frame payload_bytes)) (\<lambda>payload.
     try_bind (map_err CeCanonicalDecoding (require_type payload PROPOSAL_TYPE_ID)) (\<lambda>_.
     try_bind (map_err CeCanonicalDecoding (require_version payload CONSENSUS_ENCODING_VERSION))
       (\<lambda>_.
     try_bind (required_chain_id payload) (\<lambda>chain_id.
     try_bind (map_err CeCanonicalDecoding (required_u32 payload 2)) (\<lambda>protocol_version.
     try_bind (map_err CeCanonicalDecoding (required_u64 payload 3)) (\<lambda>epoch.
     try_bind (map_err CeCanonicalDecoding (required_u64 payload 4)) (\<lambda>view.
     try_bind (map_err CeCanonicalDecoding (required_u64 payload 5)) (\<lambda>height.
     try_bind (map_err CeCanonicalDecoding (required_field payload 6)) (\<lambda>leader_field.
     try_bind (field_array32 6 leader_field) (\<lambda>leader_bytes.
     try_bind (map_err CeCanonicalDecoding (required_field payload 7)) (\<lambda>j.
     try_bind (decode_quorum_certificate j) (\<lambda>justify.
     try_bind (map_err CeCanonicalDecoding (required_u32 payload 8)) (\<lambda>count32.
     let tx_count = unat count32 in
     if tx_count > unat MAX_BLOCK_TRANSACTIONS_LIMIT then Err (TooManyTransactions tx_count)
     else
       try_bind (required_signature_scheme payload 9) (\<lambda>signature_scheme.
       try_bind (ok_or (usize_checked_add tx_count 9) (TooManyTransactions tx_count)) (\<lambda>expected.
       if length (cf_fields payload) \<noteq> expected then Err (TooManyTransactions tx_count)
       else
         try_bind (try_map (decode_transaction payload tx_count) [0..<tx_count]) (\<lambda>transactions.
         if view = 0 \<or> height = 0 then Err ZeroViewOrHeight
         else Ok \<lparr> p_chain_id = chain_id, p_protocol_version = protocol_version, p_epoch = epoch,
                   p_view = view, p_height = height, p_leader = leader_bytes, p_justify = justify,
                   p_transactions = transactions, p_signature_scheme = signature_scheme,
                   p_signature = signature \<rparr>))))))))))))))))"

definition decode_proposal :: "bytes \<Rightarrow> (consensus_error, consensus_proposal) result" where
  "decode_proposal input =
     try_bind (ensure_encoded_bound (str ''proposal'') (length input) MAX_ENCODED_PROPOSAL_BYTES)
       (\<lambda>_.
     try_bind (map_err CeCanonicalDecoding
       (decode_closed_frame PROPOSAL_TYPE_ID (CONSENSUS_ENCODING_VERSION + 1) [1, 2] input)) (\<lambda>outer.
     try_bind (map_err CeCanonicalDecoding (required_field outer 1)) (\<lambda>payload_bytes.
     try_bind (map_err CeCanonicalDecoding (required_field outer 2)) (\<lambda>signature.
     try_bind (decode_proposal_payload payload_bytes signature) (\<lambda>proposal.
     try_bind (encode_proposal proposal) (\<lambda>b.
     if b \<noteq> input then Err NonCanonicalCertificateVotes else Ok proposal))))))"

end
