(* ===== verification/Consensus_Codec.thy ===== *)
theory Consensus_Codec
  imports Consensus_Messages
begin

text \<open>
  The vote, certificate and proposal codecs of \<^verbatim>\<open>src/crates/consensus\<close>: when an encoder succeeds and
  that each bounded decoder accepts exactly the encoder's output on well-formed messages.
\<close>

section \<open>Shared accessors\<close>

lemma validate_signature_length_Ok_iff [result_simps]:
  "validate_signature_length s = Ok u \<longleftrightarrow> s \<noteq> [] \<and> length s \<le> MAX_SIGNATURE_BYTES"
  by (auto simp: validate_signature_length_def)

lemma ensure_encoded_bound_Ok_iff [result_simps]:
  "ensure_encoded_bound k n m = Ok u \<longleftrightarrow> n \<le> m"
  by (auto simp: ensure_encoded_bound_def)

lemma field_array32_Ok_iff [result_simps]:
  "field_array32 i bs = Ok a \<longleftrightarrow> array32 bs \<and> a = bs"
  by (auto simp: field_array32_def array32_def)

lemma required_chain_id_Ok_iff [result_simps]:
  "required_chain_id f = Ok c \<longleftrightarrow> frame_field f 1 = Some c \<and> chain_id_wf c"
  by (auto simp: required_chain_id_def result_simps chain_id_new_def chain_id_wf_def)

lemma signature_scheme_try_from_Ok_iff:
  "signature_scheme_try_from w = Ok s \<longleftrightarrow> w = signature_scheme_as_u16 s"
  using signature_scheme_try_from_OkD by auto

lemma required_signature_scheme_Ok_iff [result_simps]:
  "required_signature_scheme f i = Ok s \<longleftrightarrow>
     frame_field f i = Some (u16_to_le_bytes (signature_scheme_as_u16 s))"
  by (auto simp: required_signature_scheme_def result_simps signature_scheme_try_from_Ok_iff)

lemma required_digest_Ok_iff [result_simps]:
  "required_digest f i = Ok d \<longleftrightarrow>
     digest32_wf d \<and> (\<exists>b. frame_field f i = Some b \<and> encode_digest32 d = Ok b)"
  by (auto simp: required_digest_def result_simps decode_digest32_Ok_iff)

lemma encode_frame_inject:
  "encode_frame f = Ok b \<Longrightarrow> encode_frame g = Ok b \<Longrightarrow> frame_wf f \<Longrightarrow> frame_wf g \<Longrightarrow> f = g"
  using decode_encode_frame [of f b] decode_encode_frame [of g b] by simp

lemma encode_digest32_inject:
  assumes "encode_digest32 d = Ok b" "encode_digest32 e = Ok b"
  shows "d = e"
  using encode_frame_inject [OF assms [unfolded encode_digest32_frame]]
  by (cases d; cases e) (simp add: frame_wf_def key_sorted_def)

section \<open>Votes\<close>

lemma encode_vote_payload_Ok_iff:
  "encode_vote_payload v = Ok b \<longleftrightarrow>
     (\<exists>d. encode_digest32 (v_proposal_digest v) = Ok d \<and>
       encode_frame \<lparr> cf_type_id = 0xD002, cf_version = 1, cf_fields =
         [(1, v_chain_id v), (2, u32_to_le_bytes (v_protocol_version v)),
          (3, u64_to_le_bytes (v_epoch v)), (4, u64_to_le_bytes (v_view v)),
          (5, u64_to_le_bytes (v_height v)), (6, d), (7, v_validator v),
          (8, u16_to_le_bytes (signature_scheme_as_u16 (v_signature_scheme v)))] \<rparr> = Ok b)"
  by (auto simp: encode_vote_payload_def encode_simps result_simps)

lemma encode_vote_Ok_iff:
  "encode_vote v = Ok b \<longleftrightarrow> v_signature v \<noteq> [] \<and> length (v_signature v) \<le> MAX_SIGNATURE_BYTES \<and>
     (\<exists>p. encode_vote_payload v = Ok p \<and>
       encode_frame \<lparr> cf_type_id = 0xD003, cf_version = 1,
         cf_fields = [(1, p), (2, v_signature v)] \<rparr> = Ok b)"
  by (auto simp: encode_vote_def encode_simps result_simps)

definition vote_wf :: "consensus_vote \<Rightarrow> bool" where
  "vote_wf v \<longleftrightarrow> chain_id_wf (v_chain_id v) \<and> digest32_wf (v_proposal_digest v) \<and>
     array32 (v_validator v) \<and> v_view v \<noteq> 0 \<and> v_height v \<noteq> 0"

text \<open>The encodings a bounded decoder takes.\<close>

definition vote_fits :: "consensus_vote \<Rightarrow> bool" where
  "vote_fits v \<longleftrightarrow> vote_wf v \<and> (\<forall>b. encode_vote v = Ok b \<longrightarrow> length b \<le> MAX_ENCODED_VOTE_BYTES)"

lemma decode_vote_payload_Ok_iff:
  "decode_vote_payload b s = Ok v \<longleftrightarrow> vote_wf v \<and> v_signature v = s \<and> encode_vote_payload v = Ok b"
  unfolding decode_vote_payload_def encode_vote_payload_Ok_iff consensus_ids
  by (cases v) (subst decode_closed_iff; auto simp: result_simps codec_simps vote_wf_def)

lemma decode_vote_Ok_iff: "decode_vote b = Ok v \<longleftrightarrow> vote_fits v \<and> encode_vote v = Ok b"
  unfolding decode_vote_def consensus_ids
  by (subst try_bind_eq_Ok, subst decode_closed_iff)
    (auto simp: result_simps codec_simps encode_vote_Ok_iff decode_vote_payload_Ok_iff
      vote_fits_def split: if_splits)

interpretation vote_codec: strict_codec encode_vote decode_vote vote_fits
  by unfold_locales (auto simp: decode_vote_Ok_iff)

section \<open>Quorum certificates\<close>

definition certificate_head :: "quorum_certificate \<Rightarrow> bytes \<Rightarrow> (u16 \<times> bytes) list" where
  "certificate_head qc d =
     [(1, qc_chain_id qc), (2, u32_to_le_bytes (qc_protocol_version qc)),
      (3, u64_to_le_bytes (qc_epoch qc)), (4, u64_to_le_bytes (qc_view qc)),
      (5, u64_to_le_bytes (qc_height qc)), (6, d),
      (7, u32_to_le_bytes (of_nat (length (qc_votes qc))))]"

lemma length_certificate_head [simp]: "length (certificate_head qc d) = 7"
  by (simp add: certificate_head_def)

lemma certificate_list_head: "n \<le> MAX_CERTIFICATE_VOTES \<Longrightarrow> list_head (certificate_head qc d) n"
  by (simp add: list_head_def certificate_head_def MAX_CERTIFICATE_VOTES_def upt_rec)

lemma encode_quorum_certificate_Ok_iff:
  "encode_quorum_certificate qc = Ok b \<longleftrightarrow> length (qc_votes qc) \<le> MAX_CERTIFICATE_VOTES \<and>
     (\<exists>d bs. encode_digest32 (qc_proposal_digest qc) = Ok d \<and>
       list_all2 (\<lambda>v b. encode_vote v = Ok b) (qc_votes qc) bs \<and>
       encode_frame (list_frame 0xD004 1 (certificate_head qc d) bs) = Ok b)"
proof (cases "length (qc_votes qc) \<le> MAX_CERTIFICATE_VOTES")
  case True
  have items: "try_bind (put_items NonCanonicalCertificateVotes CeCanonicalEncoding encode_vote 8
      (qc_votes qc) \<lparr> cs_type_id = 0xD004, cs_version = 1, cs_fields = certificate_head qc d \<rparr>)
      (\<lambda>c. map_err CeCanonicalEncoding (finish c)) = Ok b \<longleftrightarrow>
    (\<exists>bs. list_all2 (\<lambda>v b. encode_vote v = Ok b) (qc_votes qc) bs \<and>
      encode_frame (list_frame 0xD004 1 (certificate_head qc d) bs) = Ok b)" for d
    by (rule put_list_frame_Ok_iff [OF certificate_list_head [OF True]]) simp
  have "encode_quorum_certificate qc = Ok b \<longleftrightarrow>
      (\<exists>d. encode_digest32 (qc_proposal_digest qc) = Ok d \<and>
        try_bind (put_items NonCanonicalCertificateVotes CeCanonicalEncoding encode_vote 8
          (qc_votes qc) \<lparr> cs_type_id = 0xD004, cs_version = 1, cs_fields = certificate_head qc d \<rparr>)
          (\<lambda>c. map_err CeCanonicalEncoding (finish c)) = Ok b)"
    using True
    by (cases "encode_digest32 (qc_proposal_digest qc)")
      (simp_all add: encode_quorum_certificate_def encode_simps u32_try_from_def
        MAX_CERTIFICATE_VOTES_def certificate_head_def)
  then show ?thesis using True unfolding items by auto
next
  case False
  then show ?thesis by (simp add: encode_quorum_certificate_def)
qed

text \<open>
  What the strict decoder guarantees of a certificate: votes for exactly this block in strictly
  ascending validator order, and a genesis anchor has view, height and votes zero together.
\<close>

definition certificate_votes_wf :: "quorum_certificate \<Rightarrow> bool" where
  "certificate_votes_wf qc \<longleftrightarrow>
     (\<forall>v \<in> set (qc_votes qc). vote_fits v \<and> v_view v = qc_view qc \<and> v_height v = qc_height qc \<and>
        v_proposal_digest v = qc_proposal_digest qc) \<and>
     key_sorted v_validator (qc_votes qc)"

definition certificate_wf :: "quorum_certificate \<Rightarrow> bool" where
  "certificate_wf qc \<longleftrightarrow> chain_id_wf (qc_chain_id qc) \<and> digest32_wf (qc_proposal_digest qc) \<and>
     certificate_votes_wf qc \<and>
     (qc_view qc = 0 \<or> qc_height qc = 0 \<longrightarrow> qc_view qc = 0 \<and> qc_height qc = 0 \<and> qc_votes qc = [])"

definition certificate_fits :: "quorum_certificate \<Rightarrow> bool" where
  "certificate_fits qc \<longleftrightarrow> certificate_wf qc \<and>
     (\<forall>b. encode_quorum_certificate qc = Ok b \<longrightarrow> length b \<le> MAX_ENCODED_CERTIFICATE_BYTES)"

lemma decode_certificate_vote_Ok_iff:
  "decode_certificate_vote f view height dg (vs, prev) i = Ok r \<longleftrightarrow> i + 8 < 2 ^ 16 \<and>
     (\<exists>b v. frame_field f (of_nat (i + 8)) = Some b \<and> vote_fits v \<and> encode_vote v = Ok b \<and>
       v_view v = view \<and> v_height v = height \<and> v_proposal_digest v = dg \<and>
       (\<forall>p. prev = Some p \<longrightarrow> p < v_validator v) \<and> r = (vs @ [v], Some (v_validator v)))"
  by (auto simp: decode_certificate_vote_def result_simps u16_try_from_def decode_vote_Ok_iff not_le
      simp del: of_nat_add split: option.splits if_splits)

text \<open>The loop state before vote \<open>k\<close>.\<close>

definition certificate_prefix ::
  "consensus_vote list \<Rightarrow> nat \<Rightarrow> consensus_vote list \<times> validator_id option" where
  "certificate_prefix vs k =
     (take k vs, if k = 0 then None else Some (v_validator (vs ! (k - 1))))"

lemma decode_votes_complete:
  assumes wf: "certificate_votes_wf qc" and max: "length (qc_votes qc) \<le> MAX_CERTIFICATE_VOTES"
    and bs: "list_all2 (\<lambda>v b. encode_vote v = Ok b) (qc_votes qc) bs"
    and f: "\<And>i. i < length bs \<Longrightarrow> frame_field f (of_nat (i + 8)) = Some (bs ! i)"
  shows "try_fold (decode_certificate_vote f (qc_view qc) (qc_height qc) (qc_proposal_digest qc))
    ([], None) [0..<length (qc_votes qc)] = Ok (certificate_prefix (qc_votes qc) (length (qc_votes qc)))"
proof -
  let ?vs = "qc_votes qc"
  have "try_fold (decode_certificate_vote f (qc_view qc) (qc_height qc) (qc_proposal_digest qc))
      (certificate_prefix ?vs 0) [0..<length ?vs] = Ok (certificate_prefix ?vs (length ?vs))"
  proof (rule try_fold_upt)
    fix k assume k: "k < length ?vs"
    then have "frame_field f (of_nat (k + 8)) = Some (bs ! k)" "encode_vote (?vs ! k) = Ok (bs ! k)"
      using bs f by (auto simp: list_all2_conv_all_nth)
    moreover have "\<forall>p. snd (certificate_prefix ?vs k) = Some p \<longrightarrow> p < v_validator (?vs ! k)"
      using wf k by (auto simp: certificate_prefix_def certificate_votes_wf_def key_sorted_def
          sorted_wrt_iff_nth_less)
    moreover have "k + 8 < 2 ^ 16" using k max by (simp add: MAX_CERTIFICATE_VOTES_def)
    ultimately show "decode_certificate_vote f (qc_view qc) (qc_height qc) (qc_proposal_digest qc)
        (certificate_prefix ?vs k) k = Ok (certificate_prefix ?vs (Suc k))"
      using wf k
      by (auto simp: certificate_prefix_def decode_certificate_vote_Ok_iff certificate_votes_wf_def
          take_Suc_conv_app_nth simp del: of_nat_add intro!: exI [of _ "bs ! k"] exI [of _ "?vs ! k"])
  qed simp
  then show ?thesis by (simp add: certificate_prefix_def)
qed

lemma decode_votes_sound:
  assumes "try_fold (decode_certificate_vote f view height dg) ([], None) [0..<n] = Ok (vs, prev)"
  shows "length vs = n \<and> key_sorted v_validator vs \<and> (\<forall>v \<in> set vs. vote_fits v \<and>
    v_view v = view \<and> v_height v = height \<and> v_proposal_digest v = dg)"
proof -
  let ?P = "\<lambda>k (vs, prev). length vs = k \<and> key_sorted v_validator vs \<and>
    (\<forall>v \<in> set vs. vote_fits v \<and> v_view v = view \<and> v_height v = height \<and> v_proposal_digest v = dg) \<and>
    (\<forall>v \<in> set vs. \<exists>p. prev = Some p \<and> v_validator v \<le> p)"
  have "?P n (vs, prev)"
  proof (rule try_fold_upt_inv [where P = ?P, OF assms])
    fix k t t' assume inv: "?P k t" and step: "decode_certificate_vote f view height dg t k = Ok t'"
    obtain vs prev where t: "t = (vs, prev)" by (cases t)
    from step obtain v where v: "vote_fits v" "v_view v = view" "v_height v = height"
      "v_proposal_digest v = dg" "\<forall>p. prev = Some p \<longrightarrow> p < v_validator v"
      "t' = (vs @ [v], Some (v_validator v))"
      unfolding t decode_certificate_vote_Ok_iff by blast
    have "\<forall>w \<in> set vs. v_validator w < v_validator v"
      using inv v(5) unfolding t by (auto dest!: bspec intro: le_less_trans)
    then show "?P (Suc k) t'"
      using inv v unfolding t by (auto simp: key_sorted_def sorted_wrt_append less_imp_le)
  qed (auto simp: key_sorted_def)
  then show ?thesis by simp
qed

lemma decode_quorum_certificateD:
  assumes "decode_quorum_certificate b = Ok qc"
  shows "certificate_fits qc \<and> encode_quorum_certificate qc = Ok b"
proof -
  from assms obtain f n prev where f: "length b \<le> MAX_ENCODED_CERTIFICATE_BYTES"
    "chain_id_wf (qc_chain_id qc)" "digest32_wf (qc_proposal_digest qc)"
    "(qc_view qc = 0 \<or> qc_height qc = 0) \<longrightarrow> (qc_view qc = 0 \<and> qc_height qc = 0 \<and> n = 0)"
    "try_fold (decode_certificate_vote f (qc_view qc) (qc_height qc) (qc_proposal_digest qc))
       ([], None) [0..<n] = Ok (qc_votes qc, prev)"
    "encode_quorum_certificate qc = Ok b"
    by (auto simp: decode_quorum_certificate_def result_simps Let_def split: if_splits)
  then show ?thesis
    using decode_votes_sound [OF f(5)]
    by (auto simp: certificate_fits_def certificate_wf_def certificate_votes_wf_def)
qed

lemma decode_encode_quorum_certificate:
  assumes fits: "certificate_fits qc" and enc: "encode_quorum_certificate qc = Ok b"
  shows "decode_quorum_certificate b = Ok qc"
proof -
  from enc obtain d bs where max: "length (qc_votes qc) \<le> MAX_CERTIFICATE_VOTES"
    and d: "encode_digest32 (qc_proposal_digest qc) = Ok d"
    and bs: "list_all2 (\<lambda>v b. encode_vote v = Ok b) (qc_votes qc) bs"
    and b: "encode_frame (list_frame 0xD004 1 (certificate_head qc d) bs) = Ok b"
    by (auto simp: encode_quorum_certificate_Ok_iff)
  let ?f = "list_frame 0xD004 1 (certificate_head qc d) bs"
  have len: "length bs = length (qc_votes qc)" using bs by (simp add: list_all2_lengthD)
  have hs: "list_head (certificate_head qc d) (length bs)"
    using max len by (simp add: certificate_list_head)
  have n: "unat (of_nat (length (qc_votes qc)) :: u32) = length (qc_votes qc)"
    using max by (simp add: unat_of_nat MAX_CERTIFICATE_VOTES_def)
  have wf: "certificate_votes_wf qc" "certificate_wf qc"
    using fits by (auto simp: certificate_fits_def certificate_wf_def)
  have head: "frame_field ?f 1 = Some (qc_chain_id qc)" "frame_field ?f 6 = Some d"
    "frame_field ?f 2 = Some (u32_to_le_bytes (qc_protocol_version qc))"
    "frame_field ?f 3 = Some (u64_to_le_bytes (qc_epoch qc))"
    "frame_field ?f 4 = Some (u64_to_le_bytes (qc_view qc))"
    "frame_field ?f 5 = Some (u64_to_le_bytes (qc_height qc))"
    "frame_field ?f 7 = Some (u32_to_le_bytes (of_nat (length (qc_votes qc))))"
    by (rule list_frame_head [OF hs], simp add: certificate_head_def)+
  have votes: "try_fold (decode_certificate_vote ?f (qc_view qc) (qc_height qc)
      (qc_proposal_digest qc)) ([], None) [0..<length (qc_votes qc)] =
      Ok (certificate_prefix (qc_votes qc) (length (qc_votes qc)))"
    using list_frame_item [OF hs] by (intro decode_votes_complete [OF wf(1) max bs]) simp
  have "usize_checked_add (length (qc_votes qc)) 7 = Some (7 + length (qc_votes qc))"
    using max by (simp add: usize_checked_add_def usize_max_def MAX_CERTIFICATE_VOTES_def)
  moreover have "required_chain_id ?f = Ok (qc_chain_id qc)"
    "required_digest ?f 6 = Ok (qc_proposal_digest qc)"
    "required_u32 ?f 2 = Ok (qc_protocol_version qc)" "required_u64 ?f 3 = Ok (qc_epoch qc)"
    "required_u64 ?f 4 = Ok (qc_view qc)" "required_u64 ?f 5 = Ok (qc_height qc)"
    "required_u32 ?f 7 = Ok (of_nat (length (qc_votes qc)))"
    using wf(2) d head by (simp_all add: result_simps certificate_wf_def)
  moreover have "\<not> ((qc_view qc = 0 \<or> qc_height qc = 0) \<and>
      \<not> (qc_view qc = 0 \<and> qc_height qc = 0 \<and> length (qc_votes qc) = 0))"
    using wf(2) by (auto simp: certificate_wf_def)
  moreover have "length b \<le> MAX_ENCODED_CERTIFICATE_BYTES"
    using enc fits by (simp add: certificate_fits_def)
  ultimately show ?thesis
    using decode_list_frame [OF hs b] votes len n max enc
    by (cases qc) (auto simp: decode_quorum_certificate_def consensus_ids require_type_def
        require_version_def certificate_prefix_def ensure_encoded_bound_def Let_def)
qed

lemma decode_quorum_certificate_Ok_iff:
  "decode_quorum_certificate b = Ok qc \<longleftrightarrow>
     certificate_fits qc \<and> encode_quorum_certificate qc = Ok b"
  using decode_quorum_certificateD decode_encode_quorum_certificate by blast

interpretation certificate_codec: strict_codec encode_quorum_certificate decode_quorum_certificate
  certificate_fits
  by unfold_locales (auto simp: decode_quorum_certificate_Ok_iff)

section \<open>Proposals\<close>

definition proposal_head :: "consensus_proposal \<Rightarrow> bytes \<Rightarrow> (u16 \<times> bytes) list" where
  "proposal_head p j =
     [(1, p_chain_id p), (2, u32_to_le_bytes (p_protocol_version p)),
      (3, u64_to_le_bytes (p_epoch p)), (4, u64_to_le_bytes (p_view p)),
      (5, u64_to_le_bytes (p_height p)), (6, p_leader p), (7, j),
      (8, u32_to_le_bytes (of_nat (length (p_transactions p)))),
      (9, u16_to_le_bytes (signature_scheme_as_u16 (p_signature_scheme p)))]"

definition max_transactions :: nat where
  "max_transactions = 16384"

lemma unat_MAX_BLOCK_TRANSACTIONS_LIMIT [simp]: "unat MAX_BLOCK_TRANSACTIONS_LIMIT = max_transactions"
  by (simp add: MAX_BLOCK_TRANSACTIONS_LIMIT_def max_transactions_def)

lemma length_proposal_head [simp]: "length (proposal_head p j) = 9"
  by (simp add: proposal_head_def)

lemma proposal_list_head: "n \<le> max_transactions \<Longrightarrow> list_head (proposal_head p j) n"
  by (simp add: list_head_def proposal_head_def max_transactions_def upt_rec)

text \<open>The encoder writes the transactions from field 10 first and then field 9 before them.\<close>

lemma put_transactions_Ok_iff:
  assumes max: "length (p_transactions p) \<le> max_transactions"
  shows "try_bind (put_items e CeCanonicalEncoding (\<lambda>d. map_err CeCanonicalEncoding (encode_digest32 d))
      10 (p_transactions p)
      \<lparr> cs_type_id = 0xD001, cs_version = 1, cs_fields = take 8 (proposal_head p j) \<rparr>)
      (\<lambda>c. map_err CeCanonicalEncoding (
        try_bind (field_u16 9 (signature_scheme_as_u16 (p_signature_scheme p)) c) finish)) = Ok b \<longleftrightarrow>
    (\<exists>bs. list_all2 (\<lambda>t b. encode_digest32 t = Ok b) (p_transactions p) bs \<and>
      encode_frame (list_frame 0xD001 1 (proposal_head p j) bs) = Ok b)"
proof -
  let ?m = "take 8 (proposal_head p j)" and ?n = "length (p_transactions p)"
  have items: "put_items e CeCanonicalEncoding (\<lambda>d. map_err CeCanonicalEncoding (encode_digest32 d))
      10 (p_transactions p) \<lparr> cs_type_id = 0xD001, cs_version = 1, cs_fields = ?m \<rparr> = Ok c \<longleftrightarrow>
      (\<exists>bs. list_all2 (\<lambda>t b. map_err CeCanonicalEncoding (encode_digest32 t) = Ok b)
          (p_transactions p) bs \<and> c = \<lparr> cs_type_id = 0xD001, cs_version = 1,
            cs_fields = ?m @ zip (map of_nat [10..<10 + ?n]) bs \<rparr>)" for c
    using max by (intro put_items_Ok_iff) (auto simp: max_transactions_def proposal_head_def)
  have put: "field_u16 9 w \<lparr> cs_type_id = 0xD001, cs_version = 1,
      cs_fields = ?m @ zip (map of_nat [10..<10 + ?n]) bs \<rparr> =
      Ok \<lparr> cs_type_id = 0xD001, cs_version = 1,
        cs_fields = ?m @ (9, u16_to_le_bytes w) # zip (map of_nat [10..<10 + ?n]) bs \<rparr>" for w bs
  proof -
    have big: "(9 :: u16) < k" if "k \<in> fst ` set (zip (map of_nat [10..<10 + ?n]) bs)" for k
      using item_keys_above [OF that] max by (simp add: max_transactions_def word_less_nat_alt)
    then have "(9 :: u16) \<notin> fst ` set (zip (map of_nat [10..<10 + ?n]) bs)" by (metis less_irrefl)
    moreover have "bm_insert 9 (u16_to_le_bytes w) (?m @ zip (map of_nat [10..<10 + ?n]) bs) =
        ?m @ (9, u16_to_le_bytes w) # zip (map of_nat [10..<10 + ?n]) bs"
      using big by (intro bm_insert_between) (auto simp: proposal_head_def)
    ultimately show ?thesis
      unfolding field_u16_def cs_insert_literal by (auto simp: proposal_head_def)
  qed
  have frame: "\<lparr> cf_type_id = 0xD001, cf_version = 1, cf_fields = ?m @
      (9, u16_to_le_bytes (signature_scheme_as_u16 (p_signature_scheme p))) #
      zip (map of_nat [10..<10 + ?n]) bs \<rparr> = list_frame 0xD001 1 (proposal_head p j) bs"
    if "list_all2 (\<lambda>t b. encode_digest32 t = Ok b) (p_transactions p) bs" for bs
  proof -
    have "proposal_head p j = ?m @
        [(9, u16_to_le_bytes (signature_scheme_as_u16 (p_signature_scheme p)))]"
      by (simp add: proposal_head_def)
    moreover have "Suc (length (proposal_head p j)) = 10" by simp
    ultimately show ?thesis
      using list_all2_lengthD [OF that] unfolding list_frame_def by (metis append_Cons append_Nil append_assoc)
  qed
  show ?thesis
    unfolding try_bind_eq_Ok map_err_eq_Ok items
    by (auto simp: put finish_encode_frame frame) blast
qed

lemma encode_proposal_payload_Ok_iff:
  "encode_proposal_payload p = Ok b \<longleftrightarrow> length (p_transactions p) \<le> max_transactions \<and>
     (\<exists>j bs. encode_quorum_certificate (p_justify p) = Ok j \<and>
       list_all2 (\<lambda>t b. encode_digest32 t = Ok b) (p_transactions p) bs \<and>
       encode_frame (list_frame 0xD001 1 (proposal_head p j) bs) = Ok b)"
proof (cases "length (p_transactions p) \<le> max_transactions")
  case True
  let ?n = "length (p_transactions p)"
  have "encode_proposal_payload p = Ok b \<longleftrightarrow>
      (\<exists>j. encode_quorum_certificate (p_justify p) = Ok j \<and>
        try_bind (put_items (TooManyTransactions ?n) CeCanonicalEncoding
          (\<lambda>d. map_err CeCanonicalEncoding (encode_digest32 d)) 10 (p_transactions p)
          \<lparr> cs_type_id = 0xD001, cs_version = 1, cs_fields = take 8 (proposal_head p j) \<rparr>)
          (\<lambda>c. map_err CeCanonicalEncoding (
            try_bind (field_u16 9 (signature_scheme_as_u16 (p_signature_scheme p)) c) finish)) = Ok b)"
    using True
    by (cases "encode_quorum_certificate (p_justify p)")
      (simp_all add: encode_proposal_payload_def Let_def cs_new_def cs_insert_literal field_bytes_def
        field_str_def field_u32_def field_u64_def consensus_ids u32_try_from_def
        max_transactions_def proposal_head_def)
  then show ?thesis using True unfolding put_transactions_Ok_iff [OF True] by auto
next
  case False
  then show ?thesis by (simp add: encode_proposal_payload_def Let_def)
qed

lemma encode_proposal_Ok_iff:
  "encode_proposal p = Ok b \<longleftrightarrow> p_signature p \<noteq> [] \<and> length (p_signature p) \<le> MAX_SIGNATURE_BYTES \<and>
     (\<exists>pl. encode_proposal_payload p = Ok pl \<and>
       encode_frame \<lparr> cf_type_id = 0xD001, cf_version = 2,
         cf_fields = [(1, pl), (2, p_signature p)] \<rparr> = Ok b)"
  by (auto simp: encode_proposal_def encode_simps result_simps)

definition proposal_wf :: "consensus_proposal \<Rightarrow> bool" where
  "proposal_wf p \<longleftrightarrow> chain_id_wf (p_chain_id p) \<and> array32 (p_leader p) \<and>
     certificate_fits (p_justify p) \<and> (\<forall>t \<in> set (p_transactions p). digest32_wf t) \<and>
     p_view p \<noteq> 0 \<and> p_height p \<noteq> 0"

definition proposal_fits :: "consensus_proposal \<Rightarrow> bool" where
  "proposal_fits p \<longleftrightarrow> proposal_wf p \<and>
     (\<forall>b. encode_proposal p = Ok b \<longrightarrow> length b \<le> MAX_ENCODED_PROPOSAL_BYTES)"

lemma decode_transaction_Ok_iff:
  "i < max_transactions \<Longrightarrow> decode_transaction f n i = Ok t \<longleftrightarrow>
     digest32_wf t \<and> (\<exists>b. frame_field f (of_nat (i + 10)) = Some b \<and> encode_digest32 t = Ok b)"
  by (auto simp: decode_transaction_def result_simps u16_try_from_def max_transactions_def
      simp del: of_nat_add)

lemma decode_proposal_payload_wf:
  assumes "decode_proposal_payload b s = Ok p"
  shows "proposal_wf p \<and> p_signature p = s"
proof -
  from assms obtain f n where f: "chain_id_wf (p_chain_id p)" "array32 (p_leader p)"
    "certificate_fits (p_justify p)" "n \<le> max_transactions"
    "try_map (decode_transaction f n) [0..<n] = Ok (p_transactions p)"
    "p_view p \<noteq> 0" "p_height p \<noteq> 0" "p_signature p = s"
    by (auto simp: decode_proposal_payload_def result_simps Let_def decode_quorum_certificate_Ok_iff
        not_less split: if_splits)
  have "digest32_wf t" if "t \<in> set (p_transactions p)" for t
    using that f(4,5) unfolding try_map_upt in_set_conv_nth
    by (auto simp: decode_transaction_Ok_iff)
  then show ?thesis using f by (simp add: proposal_wf_def)
qed

lemma decode_encode_proposal_payload:
  assumes wf: "proposal_wf p" and enc: "encode_proposal_payload p = Ok b"
  shows "decode_proposal_payload b (p_signature p) = Ok p"
proof -
  from enc obtain j bs where max: "length (p_transactions p) \<le> max_transactions"
    and j: "encode_quorum_certificate (p_justify p) = Ok j"
    and bs: "list_all2 (\<lambda>t b. encode_digest32 t = Ok b) (p_transactions p) bs"
    and b: "encode_frame (list_frame 0xD001 1 (proposal_head p j) bs) = Ok b"
    by (auto simp: encode_proposal_payload_Ok_iff)
  let ?f = "list_frame 0xD001 1 (proposal_head p j) bs" and ?n = "length (p_transactions p)"
  have len: "length bs = ?n" using bs by (simp add: list_all2_lengthD)
  have hs: "list_head (proposal_head p j) (length bs)" using max len by (simp add: proposal_list_head)
  have n: "unat (of_nat ?n :: u32) = ?n"
    using max by (simp add: unat_of_nat max_transactions_def)
  have head: "frame_field ?f 1 = Some (p_chain_id p)"
    "frame_field ?f 2 = Some (u32_to_le_bytes (p_protocol_version p))"
    "frame_field ?f 3 = Some (u64_to_le_bytes (p_epoch p))"
    "frame_field ?f 4 = Some (u64_to_le_bytes (p_view p))"
    "frame_field ?f 5 = Some (u64_to_le_bytes (p_height p))"
    "frame_field ?f 6 = Some (p_leader p)" "frame_field ?f 7 = Some j"
    "frame_field ?f 8 = Some (u32_to_le_bytes (of_nat ?n))"
    "frame_field ?f 9 = Some (u16_to_le_bytes (signature_scheme_as_u16 (p_signature_scheme p)))"
    by (rule list_frame_head [OF hs], simp add: proposal_head_def)+
  have "try_map (decode_transaction ?f ?n) [0..<?n] = Ok (p_transactions p)"
    using list_frame_item [OF hs] bs max len wf unfolding try_map_upt
    by (auto simp: decode_transaction_Ok_iff list_all2_conv_all_nth proposal_wf_def
        simp del: of_nat_add)
  moreover have "usize_checked_add ?n 9 = Some (9 + ?n)"
    using max by (simp add: usize_checked_add_def usize_max_def max_transactions_def)
  moreover have "required_chain_id ?f = Ok (p_chain_id p)"
    "required_u32 ?f 2 = Ok (p_protocol_version p)" "required_u64 ?f 3 = Ok (p_epoch p)"
    "required_u64 ?f 4 = Ok (p_view p)" "required_u64 ?f 5 = Ok (p_height p)"
    "required_field ?f 6 = Ok (p_leader p)" "field_array32 6 (p_leader p) = Ok (p_leader p)"
    "required_field ?f 7 = Ok j" "required_u32 ?f 8 = Ok (of_nat ?n)"
    "required_signature_scheme ?f 9 = Ok (p_signature_scheme p)"
    "decode_quorum_certificate j = Ok (p_justify p)"
    using wf head j by (simp_all add: result_simps proposal_wf_def decode_quorum_certificate_Ok_iff)
  ultimately show ?thesis
    using decode_list_frame [OF hs b] len n max wf
    by (cases p) (simp add: decode_proposal_payload_def consensus_ids require_type_def
        require_version_def Let_def proposal_wf_def)
qed

lemma decode_proposal_Ok_iff:
  "decode_proposal b = Ok p \<longleftrightarrow> proposal_fits p \<and> encode_proposal p = Ok b"
proof -
  have "decode_proposal b = Ok p \<longleftrightarrow> length b \<le> MAX_ENCODED_PROPOSAL_BYTES \<and>
      encode_proposal p = Ok b \<and> (\<exists>pl s. encode_frame \<lparr> cf_type_id = 0xD001, cf_version = 2,
        cf_fields = [(1, pl), (2, s)] \<rparr> = Ok b \<and> decode_proposal_payload pl s = Ok p)"
    unfolding decode_proposal_def consensus_ids
    by (subst try_bind_eq_Ok, subst decode_closed_iff)
      (auto simp: result_simps codec_simps split: if_splits)
  also have "\<dots> \<longleftrightarrow> proposal_fits p \<and> encode_proposal p = Ok b"
    using decode_proposal_payload_wf decode_encode_proposal_payload
    by (auto simp: proposal_fits_def encode_proposal_Ok_iff) blast
  finally show ?thesis .
qed

interpretation proposal_codec: strict_codec encode_proposal decode_proposal proposal_fits
  by unfold_locales (auto simp: decode_proposal_Ok_iff)

section \<open>Correctness of the message codecs\<close>


end
