(* ===== verification/Chained_HotStuff.thy ===== *)
theory Chained_HotStuff
  imports Consensus_Codec "HOL-Library.Product_Lexorder"
begin

text \<open>
  The chained-HotStuff state machine of \<^verbatim>\<open>src/crates/consensus/src/lib.rs\<close>: the persisted state, the
  verification of proposals, votes and certificates, certificate formation, the lock and commit
  rules, pruning, and the event handler. The functions that take \<open>&mut\<close> arguments take and return
  the record \<open>consensus_output\<close>, which holds the state and the output vectors they write to.

  Hash functions, the signer and the verifier are arguments. Two loops follow \<open>justify\<close> links
  through \<open>known_proposals\<close>; they carry fuel, one more than the number of known proposals. A walk
  that exhausts it has visited a proposal twice and never ends in the code either; its value is
  \<open>Abort\<close>.
\<close>

section \<open>Signers and verifiers\<close>

text \<open>The trait \<open>ConsensusSigner\<close>.\<close>

record consensus_signer =
  sg_validator_id :: validator_id
  sg_signature_scheme :: signature_scheme_id
  sg_sign_framed :: "bytes \<Rightarrow> (bytes, bytes) result"

text \<open>The trait \<open>ConsensusVerifier\<close>: validator, scheme, public key, framed bytes, signature.\<close>

type_synonym consensus_verifier =
  "validator_id \<Rightarrow> signature_scheme_id \<Rightarrow> bytes \<Rightarrow> bytes \<Rightarrow> bytes \<Rightarrow> (bytes, bool) result"

datatype unsupported_scheme_response = UsrInvalidSignature | FastPathProfileError

text \<open>\<open>Ed25519ConsensusVerifier\<close>; \<open>to_string\<close> is the display text of an error.\<close>

definition ed25519_consensus_verify ::
  "ed25519_lib \<Rightarrow> (crypto_error \<Rightarrow> bytes) \<Rightarrow> unsupported_scheme_response \<Rightarrow> consensus_verifier" where
  "ed25519_consensus_verify lib to_string response validator scheme public_key framed signature =
     (if scheme \<noteq> Ed25519 then
        (case response of
           UsrInvalidSignature \<Rightarrow> Ok False
         | FastPathProfileError \<Rightarrow> Err (str ''fast-path phase 1 supports only Ed25519''))
      else
        try_bind (map_err to_string (from_verifying_key_bytes lib public_key)) (\<lambda>key.
        case ed25519_verify_framed lib key framed signature of
          Ok valid \<Rightarrow> Ok valid
        | Err (InvalidSignatureLength _) \<Rightarrow> Ok False
        | Err e \<Rightarrow> Err (to_string e)
        | Abort \<Rightarrow> Abort))"

section \<open>State, events and outputs\<close>

datatype consensus_event =
    EvProposal consensus_proposal
  | EvVote consensus_vote
  | EvCertificate quorum_certificate
  | EvTick u64

datatype consensus_message =
    MsgProposal consensus_proposal
  | MsgVote consensus_vote
  | MsgCertificate quorum_certificate

record committed_block =
  cb_height :: u64
  cb_view :: u64
  cb_digest :: digest32
  cb_transactions :: "digest32 list"

record committed_block_proof =
  cbp_committed :: consensus_proposal
  cbp_child :: consensus_proposal
  cbp_grandchild :: consensus_proposal
  cbp_grandchild_certificate :: quorum_certificate

record consensus_state =
  st_current_view :: u64
  st_view_deadline_unix_millis :: u64
  st_last_voted_view :: u64
  st_last_voted_digest :: "digest32 option"
  st_high_qc :: quorum_certificate
  st_locked_qc :: quorum_certificate
  st_committed_height :: u64
  st_known_proposals :: "(digest32, consensus_proposal) btree_map"
  st_certificates :: "(digest32, quorum_certificate) btree_map"
  st_pending_votes :: "(digest32, (validator_id, consensus_vote) btree_map) btree_map"
  st_observed_votes :: "(validator_id \<times> u64, digest32) btree_map"
  st_committed :: "digest32 btree_set"

record consensus_output =
  co_state :: consensus_state
  co_outbound_messages :: "consensus_message list"
  co_committed_blocks :: "committed_block list"
  co_committed_proofs :: "committed_block_proof list"
  co_view_advanced :: bool

record chained_hotstuff =
  hs_chain_id :: chain_id
  hs_protocol_version :: protocol_version
  hs_epoch :: epoch
  hs_validator_set :: validator_set
  hs_parameters :: consensus_parameters
  hs_resolver :: hash_suite_resolver
  hs_genesis_block :: digest32

definition chained_hotstuff_new ::
  "chain_id \<Rightarrow> protocol_version \<Rightarrow> epoch \<Rightarrow> validator_set \<Rightarrow> consensus_parameters \<Rightarrow>
   hash_suite_resolver \<Rightarrow> digest32 \<Rightarrow> (consensus_error, chained_hotstuff) result" where
  "chained_hotstuff_new c pv e vs params r genesis =
     try_bind (consensus_parameters_validate params) (\<lambda>_.
     if vs_epoch vs \<noteq> e then Err (ValidatorSetEpochMismatch e (vs_epoch vs))
     else if hsr_chain_id r \<noteq> c then Err HashChainMismatch
     else if hsr_protocol_version r \<noteq> pv then Err HashProtocolVersionMismatch
     else
       try_bind (map_err CeHashing (suite_for_epoch r e)) (\<lambda>_.
       Ok \<lparr> hs_chain_id = c, hs_protocol_version = pv, hs_epoch = e, hs_validator_set = vs,
            hs_parameters = params, hs_resolver = r, hs_genesis_block = genesis \<rparr>))"

definition genesis_state :: "chained_hotstuff \<Rightarrow> u64 \<Rightarrow> consensus_state" where
  "genesis_state hs now =
     (let genesis_qc = quorum_certificate_genesis (hs_chain_id hs) (hs_protocol_version hs)
        (hs_epoch hs) (hs_genesis_block hs) in
      \<lparr> st_current_view = 1,
        st_view_deadline_unix_millis = saturating_add now (cp_view_timeout_millis (hs_parameters hs)),
        st_last_voted_view = 0, st_last_voted_digest = None, st_high_qc = genesis_qc,
        st_locked_qc = genesis_qc, st_committed_height = 0, st_known_proposals = [],
        st_certificates = [], st_pending_votes = [], st_observed_votes = [], st_committed = [] \<rparr>)"

definition known_proposal :: "consensus_state \<Rightarrow> digest32 \<Rightarrow> consensus_proposal option" where
  "known_proposal st d = bm_get (st_known_proposals st) d"

definition contains_committed :: "consensus_state \<Rightarrow> digest32 \<Rightarrow> bool" where
  "contains_committed st d = bm_contains_key (st_committed st) d"

section \<open>Guards\<close>

definition ensure_context ::
  "chained_hotstuff \<Rightarrow> chain_id \<Rightarrow> protocol_version \<Rightarrow> epoch \<Rightarrow> (consensus_error, unit) result" where
  "ensure_context hs c pv e =
     (if c \<noteq> hs_chain_id hs \<or> pv \<noteq> hs_protocol_version hs \<or> e \<noteq> hs_epoch hs
      then Err ContextMismatch else Ok ())"

definition ensure_transaction_bound ::
  "chained_hotstuff \<Rightarrow> usize \<Rightarrow> (consensus_error, unit) result" where
  "ensure_transaction_bound hs n =
     (if n > unat (cp_max_block_transactions (hs_parameters hs))
      then Err (TooManyTransactions n) else Ok ())"

definition ensure_bounded_future_view :: "u64 \<Rightarrow> u64 \<Rightarrow> (consensus_error, unit) result" where
  "ensure_bounded_future_view current received =
     (let maximum = saturating_add current MAX_FUTURE_VIEW_GAP in
      if received > maximum then Err (FutureView current received) else Ok ())"

definition ensure_registered_scheme ::
  "chained_hotstuff \<Rightarrow> validator_id \<Rightarrow> signature_scheme_id \<Rightarrow> (consensus_error, unit) result" where
  "ensure_registered_scheme hs validator scheme =
     try_bind (ok_or (vs_get (hs_validator_set hs) validator) (UnknownValidator validator)) (\<lambda>info.
     if vi_signature_scheme info \<noteq> scheme then Err (CeSignatureSchemeMismatch validator) else Ok ())"

definition hs_signature_frame ::
  "chained_hotstuff \<Rightarrow> bytes \<Rightarrow> signature_scheme_id \<Rightarrow> bytes \<Rightarrow> (consensus_error, bytes) result" where
  "hs_signature_frame hs message_type scheme payload =
     map_err CeCrypto (
       try_bind (signature_message_type_new message_type) (\<lambda>mt.
       frame_signature_message
         \<lparr> sd_chain_id = hs_chain_id hs, sd_protocol_version = hs_protocol_version hs,
           sd_epoch = hs_epoch hs, sd_message_type = mt, sd_signature_scheme_id = scheme \<rparr> payload))"

definition proposal_digest ::
  "sha_functions \<Rightarrow> chained_hotstuff \<Rightarrow> consensus_proposal \<Rightarrow> (consensus_error, digest32) result" where
  "proposal_digest sha hs p =
     try_bind (encode_proposal p) (\<lambda>b.
     map_err CeHashing (hash_for_purpose sha (hs_resolver hs) (hs_epoch hs) HpConsensusMessage b))"

section \<open>Verification\<close>

definition validate_vote ::
  "chained_hotstuff \<Rightarrow> consensus_verifier \<Rightarrow> consensus_vote \<Rightarrow> (consensus_error, unit) result" where
  "validate_vote hs vf v =
     try_bind (ensure_context hs (v_chain_id v) (v_protocol_version v) (v_epoch v)) (\<lambda>_.
     if v_view v = 0 \<or> v_height v = 0 then Err ZeroViewOrHeight
     else
       try_bind (ensure_registered_scheme hs (v_validator v) (v_signature_scheme v)) (\<lambda>_.
       try_bind (validate_signature_length (v_signature v)) (\<lambda>_.
       try_bind (ok_or (vs_get (hs_validator_set hs) (v_validator v))
                   (UnknownValidator (v_validator v))) (\<lambda>info.
       try_bind (encode_vote_payload v) (\<lambda>payload.
       try_bind (hs_signature_frame hs VOTE_MESSAGE_TYPE (v_signature_scheme v) payload) (\<lambda>framed.
       try_bind (map_err Authenticator (vf (v_validator v) (v_signature_scheme v)
                   (vi_public_key info) framed (v_signature v))) (\<lambda>valid.
       if \<not> valid then Err (InvalidSignature (v_validator v)) else Ok ())))))))"

text \<open>One turn of the loop over the votes of a certificate: previous validator and power so far.\<close>

definition certificate_vote_step ::
  "chained_hotstuff \<Rightarrow> consensus_verifier \<Rightarrow> quorum_certificate \<Rightarrow> validator_id option \<times> u64 \<Rightarrow>
   consensus_vote \<Rightarrow> (consensus_error, validator_id option \<times> u64) result" where
  "certificate_vote_step hs vf qc s v =
     (case s of (previous, weight) \<Rightarrow>
       if (case previous of Some vid \<Rightarrow> vid \<ge> v_validator v | None \<Rightarrow> False)
       then Err NonCanonicalCertificateVotes
       else if v_view v \<noteq> qc_view qc \<or> v_height v \<noteq> qc_height qc \<or>
         v_proposal_digest v \<noteq> qc_proposal_digest qc
       then Err CertificateVoteMismatch
       else
         try_bind (validate_vote hs vf v) (\<lambda>_.
         try_bind (ok_or (vs_get (hs_validator_set hs) (v_validator v))
                     (UnknownValidator (v_validator v))) (\<lambda>validator.
         try_bind (ok_or (checked_add weight (vi_voting_power validator)) ArithmeticOverflow)
           (\<lambda>weight.
         Ok (Some (v_validator v), weight)))))"

definition verify_certificate ::
  "chained_hotstuff \<Rightarrow> consensus_verifier \<Rightarrow> quorum_certificate \<Rightarrow> (consensus_error, unit) result" where
  "verify_certificate hs vf qc =
     try_bind (ensure_context hs (qc_chain_id qc) (qc_protocol_version qc) (qc_epoch qc)) (\<lambda>_.
     if qc_view qc = 0 \<or> qc_height qc = 0 then
       if qc_view qc = 0 \<and> qc_height qc = 0 \<and> qc_proposal_digest qc = hs_genesis_block hs \<and>
         qc_votes qc = []
       then Ok () else Err InvalidGenesisCertificate
     else if length (qc_votes qc) > length (vs_validators (hs_validator_set hs))
     then Err NonCanonicalCertificateVotes
     else
       try_bind (try_fold (certificate_vote_step hs vf qc) (None, 0) (qc_votes qc)) (\<lambda>(_, weight).
       let required = quorum_threshold (hs_validator_set hs) in
       if weight < required then Err (InsufficientQuorum weight required) else Ok ()))"

definition validate_proposal ::
  "chained_hotstuff \<Rightarrow> consensus_verifier \<Rightarrow> consensus_proposal \<Rightarrow> (consensus_error, unit) result" where
  "validate_proposal hs vf p =
     try_bind (ensure_context hs (p_chain_id p) (p_protocol_version p) (p_epoch p)) (\<lambda>_.
     if p_view p = 0 \<or> p_height p = 0 then Err ZeroViewOrHeight
     else
       try_bind (ensure_transaction_bound hs (length (p_transactions p))) (\<lambda>_.
       try_bind (ok_or (leader (hs_validator_set hs) (p_view p)) ZeroViewOrHeight) (\<lambda>expected.
       if p_leader p \<noteq> expected then Err (InvalidLeader (p_view p) expected (p_leader p))
       else
         try_bind (ok_or (checked_add (qc_height (p_justify p)) 1) ArithmeticOverflow) (\<lambda>height.
         if p_height p \<noteq> height then Err InvalidProposalHeight
         else if p_view p \<le> qc_view (p_justify p) then Err InvalidProposalView
         else
           try_bind (verify_certificate hs vf (p_justify p)) (\<lambda>_.
           try_bind (ensure_registered_scheme hs (p_leader p) (p_signature_scheme p)) (\<lambda>_.
           try_bind (validate_signature_length (p_signature p)) (\<lambda>_.
           try_bind (ok_or (vs_get (hs_validator_set hs) (p_leader p))
                       (UnknownValidator (p_leader p))) (\<lambda>info.
           try_bind (encode_proposal_payload p) (\<lambda>payload.
           try_bind (hs_signature_frame hs PROPOSAL_MESSAGE_TYPE (p_signature_scheme p) payload)
             (\<lambda>framed.
           try_bind (map_err Authenticator (vf (p_leader p) (p_signature_scheme p)
                       (vi_public_key info) framed (p_signature p))) (\<lambda>valid.
           if \<not> valid then Err (InvalidSignature (p_leader p)) else Ok ())))))))))))"

section \<open>Forming certificates\<close>

definition form_step ::
  "chained_hotstuff \<Rightarrow> consensus_proposal \<Rightarrow> u64 \<times> consensus_vote list \<Rightarrow> consensus_vote \<Rightarrow>
   (consensus_error, u64 \<times> consensus_vote list) result" where
  "form_step hs p s v =
     (case s of (weight, matching) \<Rightarrow>
       if v_view v \<noteq> p_view p \<or> v_height v \<noteq> p_height p then Ok (weight, matching)
       else
         try_bind (ok_or (vs_get (hs_validator_set hs) (v_validator v))
                     (UnknownValidator (v_validator v))) (\<lambda>validator.
         try_bind (ok_or (checked_add weight (vi_voting_power validator)) ArithmeticOverflow)
           (\<lambda>weight.
         Ok (weight, matching @ [v]))))"

definition try_form_certificate ::
  "chained_hotstuff \<Rightarrow> consensus_state \<Rightarrow> digest32 \<Rightarrow>
   (consensus_error, quorum_certificate option) result" where
  "try_form_certificate hs st d =
     (if bm_contains_key (st_certificates st) d then Ok None
      else case bm_get (st_known_proposals st) d of
        None \<Rightarrow> Ok None
      | Some p \<Rightarrow>
          (case bm_get (st_pending_votes st) d of
             None \<Rightarrow> Ok None
           | Some pending \<Rightarrow>
               try_bind (try_fold (form_step hs p) (0, []) (map snd pending)) (\<lambda>(weight, matching).
               if weight < quorum_threshold (hs_validator_set hs) then Ok None
               else Ok (Some \<lparr> qc_chain_id = hs_chain_id hs,
                      qc_protocol_version = hs_protocol_version hs, qc_epoch = hs_epoch hs,
                      qc_view = p_view p, qc_height = p_height p, qc_proposal_digest = d,
                      qc_votes = matching \<rparr>))))"

section \<open>Committing\<close>

definition commit_chain_ancestor ::
  "(digest32 \<times> consensus_proposal) list \<Rightarrow> consensus_proposal \<Rightarrow> consensus_proposal \<Rightarrow> usize \<Rightarrow>
   consensus_proposal option" where
  "commit_chain_ancestor chain parent grandchild index =
     (if index < length chain then Some (snd (chain ! index))
      else if index = length chain then Some parent
      else if usize_checked_add (length chain) 1 = Some index then Some grandchild
      else None)"

definition commit_chain_ancestor_certificate ::
  "(digest32 \<times> consensus_proposal) list \<Rightarrow> consensus_proposal \<Rightarrow> consensus_proposal \<Rightarrow>
   quorum_certificate \<Rightarrow> usize \<Rightarrow> quorum_certificate option" where
  "commit_chain_ancestor_certificate chain parent grandchild grandchild_certificate index =
     (if usize_checked_add (length chain) 1 = Some index then Some grandchild_certificate
      else case usize_checked_add index 1 of
        None \<Rightarrow> None
      | Some next_index \<Rightarrow>
          map_option p_justify (commit_chain_ancestor chain parent grandchild next_index))"

text \<open>The backward walk of \<open>commit_through\<close>, newest first.\<close>

fun commit_walk ::
  "nat \<Rightarrow> consensus_state \<Rightarrow> digest32 \<Rightarrow> (digest32 \<times> consensus_proposal) list \<Rightarrow>
   (consensus_error, (digest32 \<times> consensus_proposal) list) result" where
  "commit_walk 0 st cursor chain = Abort"
| "commit_walk (Suc n) st cursor chain =
     (case bm_get (st_known_proposals st) cursor of
        None \<Rightarrow> Ok chain
      | Some p \<Rightarrow>
          if p_height p \<le> st_committed_height st then Ok chain
          else commit_walk n st (qc_proposal_digest (p_justify p)) (chain @ [(cursor, p)]))"

text \<open>The proof of one committed block.\<close>

definition commit_block_proof ::
  "(digest32 \<times> consensus_proposal) list \<Rightarrow> consensus_proposal \<Rightarrow> consensus_proposal \<Rightarrow>
   quorum_certificate \<Rightarrow> usize \<Rightarrow> consensus_proposal \<Rightarrow>
   (consensus_error, committed_block_proof) result" where
  "commit_block_proof chain parent grandchild grandchild_certificate index p =
     try_bind (ok_or (usize_checked_add index 1) ArithmeticOverflow) (\<lambda>child_index.
     try_bind (ok_or (usize_checked_add child_index 1) ArithmeticOverflow) (\<lambda>grandchild_index.
     try_bind (ok_or (commit_chain_ancestor chain parent grandchild child_index)
                 MissingCommittedBlockProof) (\<lambda>child.
     try_bind (ok_or (commit_chain_ancestor chain parent grandchild grandchild_index)
                 MissingCommittedBlockProof) (\<lambda>proof_grandchild.
     try_bind (ok_or (commit_chain_ancestor_certificate chain parent grandchild
                        grandchild_certificate grandchild_index) MissingCommittedBlockProof)
       (\<lambda>proof_certificate.
     Ok \<lparr> cbp_committed = p, cbp_child = child, cbp_grandchild = proof_grandchild,
          cbp_grandchild_certificate = proof_certificate \<rparr>)))))"

text \<open>The loop over the ascending chain; a height that does not follow ends it.\<close>

fun commit_loop ::
  "(digest32 \<times> consensus_proposal) list \<Rightarrow> consensus_proposal \<Rightarrow> consensus_proposal \<Rightarrow>
   quorum_certificate \<Rightarrow> usize \<Rightarrow> (digest32 \<times> consensus_proposal) list \<Rightarrow> consensus_output \<Rightarrow>
   (consensus_error, consensus_output) result" where
  "commit_loop chain parent grandchild gqc index [] co = Ok co"
| "commit_loop chain parent grandchild gqc index ((d, p) # rest) co =
     try_bind (ok_or (checked_add (st_committed_height (co_state co)) 1) ArithmeticOverflow)
       (\<lambda>next_height.
     if p_height p \<noteq> next_height then Ok co
     else
       (case bs_insert d (st_committed (co_state co)) of (new, committed) \<Rightarrow>
         let co = co\<lparr> co_state := (co_state co)\<lparr> st_committed := committed \<rparr> \<rparr> in
         if \<not> new then commit_loop chain parent grandchild gqc (Suc index) rest co
         else
           let co = co\<lparr> co_state := (co_state co)\<lparr> st_committed_height := p_height p \<rparr>,
             co_committed_blocks := co_committed_blocks co @
               [\<lparr> cb_height = p_height p, cb_view = p_view p, cb_digest = d,
                  cb_transactions = p_transactions p \<rparr>] \<rparr> in
           try_bind (commit_block_proof chain parent grandchild gqc index p) (\<lambda>pr.
           commit_loop chain parent grandchild gqc (Suc index) rest
             (co\<lparr> co_committed_proofs := co_committed_proofs co @ [pr] \<rparr>))))"

definition commit_through ::
  "digest32 \<Rightarrow> consensus_proposal \<Rightarrow> consensus_proposal \<Rightarrow> quorum_certificate \<Rightarrow> consensus_output \<Rightarrow>
   (consensus_error, consensus_output) result" where
  "commit_through target parent grandchild grandchild_certificate co =
     (let st = co_state co in
      try_bind (commit_walk (Suc (length (st_known_proposals st))) st target []) (\<lambda>chain.
      let chain = rev chain in
      commit_loop chain parent grandchild grandchild_certificate 0 chain co))"

section \<open>Applying a certificate\<close>

text \<open>What a verified certificate changes before its block is looked up.\<close>

definition note_certificate ::
  "quorum_certificate \<Rightarrow> consensus_state \<Rightarrow> (consensus_error, consensus_state) result" where
  "note_certificate qc st =
     (let st = (if bm_contains_key (st_certificates st) (qc_proposal_digest qc) then st
          else st\<lparr> st_certificates := bm_insert (qc_proposal_digest qc) qc (st_certificates st) \<rparr>);
        st = (if qc_view qc > qc_view (st_high_qc st) then st\<lparr> st_high_qc := qc \<rparr> else st) in
      try_bind (ok_or (checked_add (qc_view qc) 1) ArithmeticOverflow) (\<lambda>next_view.
      Ok (st\<lparr> st_current_view := max (st_current_view st) next_view \<rparr>)))"

definition lock_justify :: "consensus_proposal \<Rightarrow> consensus_state \<Rightarrow> consensus_state" where
  "lock_justify block st =
     (if qc_view (p_justify block) > qc_view (st_locked_qc st)
      then st\<lparr> st_locked_qc := p_justify block \<rparr> else st)"

definition apply_certificate ::
  "chained_hotstuff \<Rightarrow> consensus_verifier \<Rightarrow> quorum_certificate \<Rightarrow> consensus_output \<Rightarrow>
   (consensus_error, consensus_output) result" where
  "apply_certificate hs vf qc co =
     try_bind (verify_certificate hs vf qc) (\<lambda>_.
     if qc_view qc = 0 then Ok co
     else
       try_bind (note_certificate qc (co_state co)) (\<lambda>st.
       case bm_get (st_known_proposals st) (qc_proposal_digest qc) of
         None \<Rightarrow> Ok (co\<lparr> co_state := st \<rparr>)
       | Some block \<Rightarrow>
           if p_view block \<noteq> qc_view qc \<or> p_height block \<noteq> qc_height qc
           then Err CertificateProposalMismatch
           else
             let co = co\<lparr> co_state := lock_justify block st \<rparr> in
             (case bm_get (st_known_proposals (co_state co))
                (qc_proposal_digest (p_justify block)) of
                None \<Rightarrow> Ok co
              | Some parent \<Rightarrow>
                  if checked_add (p_height parent) 1 \<noteq> Some (p_height block) \<or>
                    checked_add (qc_height (p_justify parent)) 1 \<noteq> Some (p_height parent)
                  then Ok co
                  else commit_through (qc_proposal_digest (p_justify parent)) parent block qc co)))"

section \<open>Voting\<close>

fun extends_walk ::
  "nat \<Rightarrow> consensus_state \<Rightarrow> digest32 \<Rightarrow> digest32 \<Rightarrow> (consensus_error, bool) result" where
  "extends_walk 0 st candidate ancestor = Abort"
| "extends_walk (Suc n) st candidate ancestor =
     (if candidate = ancestor then Ok True
      else case bm_get (st_known_proposals st) candidate of
        None \<Rightarrow> Ok False
      | Some p \<Rightarrow>
          if p_height p = 0 then Ok False
          else extends_walk n st (qc_proposal_digest (p_justify p)) ancestor)"

definition extends ::
  "consensus_state \<Rightarrow> digest32 \<Rightarrow> digest32 \<Rightarrow> (consensus_error, bool) result" where
  "extends st candidate ancestor =
     extends_walk (Suc (length (st_known_proposals st))) st candidate ancestor"

definition safe_to_vote ::
  "consensus_state \<Rightarrow> consensus_proposal \<Rightarrow> (consensus_error, bool) result" where
  "safe_to_vote st p =
     (if qc_view (p_justify p) > qc_view (st_locked_qc st) then Ok True
      else extends st (qc_proposal_digest (p_justify p)) (qc_proposal_digest (st_locked_qc st)))"

text \<open>Form a certificate for the digest, apply it and send it.\<close>

definition form_and_apply ::
  "chained_hotstuff \<Rightarrow> consensus_verifier \<Rightarrow> digest32 \<Rightarrow> consensus_output \<Rightarrow>
   (consensus_error, consensus_output) result" where
  "form_and_apply hs vf d co =
     try_bind (try_form_certificate hs (co_state co) d) (\<lambda>formed.
     case formed of
       None \<Rightarrow> Ok co
     | Some qc \<Rightarrow>
         try_bind (apply_certificate hs vf qc co) (\<lambda>co.
         Ok (co\<lparr> co_outbound_messages := co_outbound_messages co @ [MsgCertificate qc] \<rparr>)))"

text \<open>Build and sign this validator's vote for a proposal with the given digest.\<close>

definition sign_vote ::
  "chained_hotstuff \<Rightarrow> consensus_signer \<Rightarrow> consensus_proposal \<Rightarrow> digest32 \<Rightarrow>
   (consensus_error, consensus_vote) result" where
  "sign_vote hs sg p d =
     (let vote = \<lparr> v_chain_id = hs_chain_id hs, v_protocol_version = hs_protocol_version hs,
          v_epoch = hs_epoch hs, v_view = p_view p, v_height = p_height p, v_proposal_digest = d,
          v_validator = sg_validator_id sg, v_signature_scheme = sg_signature_scheme sg,
          v_signature = [] \<rparr> in
      try_bind (encode_vote_payload vote) (\<lambda>payload.
      try_bind (hs_signature_frame hs VOTE_MESSAGE_TYPE (v_signature_scheme vote) payload) (\<lambda>framed.
      try_bind (map_err Authenticator (sg_sign_framed sg framed)) (\<lambda>signature.
      try_bind (validate_signature_length signature) (\<lambda>_.
      Ok (vote\<lparr> v_signature := signature \<rparr>))))))"

definition remember_proposal :: "digest32 \<Rightarrow> consensus_proposal \<Rightarrow> consensus_output \<Rightarrow> consensus_output"
  where
  "remember_proposal d p co =
     co\<lparr> co_state := (co_state co)\<lparr> st_known_proposals :=
       bm_insert d p (st_known_proposals (co_state co)) \<rparr> \<rparr>"

definition record_vote ::
  "consensus_proposal \<Rightarrow> digest32 \<Rightarrow> u64 \<Rightarrow> consensus_vote \<Rightarrow> consensus_output \<Rightarrow> consensus_output" where
  "record_vote p d next_view vote co =
     co\<lparr> co_state := (co_state co)\<lparr> st_last_voted_view := p_view p, st_last_voted_digest := Some d,
           st_current_view := max (st_current_view (co_state co)) next_view \<rparr>,
         co_outbound_messages := co_outbound_messages co @ [MsgVote vote] \<rparr>"

definition process_proposal ::
  "sha_functions \<Rightarrow> chained_hotstuff \<Rightarrow> consensus_signer \<Rightarrow> consensus_verifier \<Rightarrow>
   consensus_proposal \<Rightarrow> consensus_output \<Rightarrow> (consensus_error, consensus_output) result" where
  "process_proposal sha hs sg vf p co =
     try_bind (validate_proposal hs vf p) (\<lambda>_.
     try_bind (proposal_digest sha hs p) (\<lambda>d.
     let st = co_state co in
     case bm_get (st_certificates st) d of
       Some certificate \<Rightarrow>
         try_bind (apply_certificate hs vf (p_justify p) (remember_proposal d p co)) (\<lambda>co.
         apply_certificate hs vf certificate co)
     | None \<Rightarrow>
         if p_view p \<le> st_last_voted_view st then
           if st_last_voted_view st = p_view p \<and> st_last_voted_digest st = Some d then Ok co
           else Err (AlreadyVoted (p_view p)
                  (case st_last_voted_digest st of
                     Some previous \<Rightarrow> previous
                   | None \<Rightarrow> qc_proposal_digest (st_locked_qc st)) d)
         else if p_view p < st_current_view st
         then Err (StaleProposal (st_current_view st) (p_view p))
         else
           try_bind (ensure_bounded_future_view (st_current_view st) (p_view p)) (\<lambda>_.
           try_bind (safe_to_vote st p) (\<lambda>safe.
           if \<not> safe then Err UnsafeProposal
           else
             try_bind (ensure_registered_scheme hs (sg_validator_id sg) (sg_signature_scheme sg))
               (\<lambda>_.
             try_bind (apply_certificate hs vf (p_justify p) (remember_proposal d p co)) (\<lambda>co.
             try_bind (sign_vote hs sg p d) (\<lambda>vote.
             try_bind (ok_or (checked_add (p_view p) 1) ArithmeticOverflow) (\<lambda>next_view.
             form_and_apply hs vf d (record_vote p d next_view vote co)))))))))"

definition process_vote ::
  "chained_hotstuff \<Rightarrow> consensus_verifier \<Rightarrow> consensus_vote \<Rightarrow> consensus_output \<Rightarrow>
   (consensus_error, consensus_output) result" where
  "process_vote hs vf v co =
     try_bind (validate_vote hs vf v) (\<lambda>_.
     try_bind (ensure_bounded_future_view (st_current_view (co_state co)) (v_view v)) (\<lambda>_.
     let key = (v_validator v, v_view v); st = co_state co in
     try_bind (case bm_get (st_observed_votes st) key of
         Some first \<Rightarrow>
           if first \<noteq> v_proposal_digest v
           then Err (Equivocation (v_validator v) (v_view v) first (v_proposal_digest v))
           else Ok st
       | None \<Rightarrow> Ok (st\<lparr> st_observed_votes :=
           bm_insert key (v_proposal_digest v) (st_observed_votes st) \<rparr>)) (\<lambda>st.
     let votes = (case bm_get (st_pending_votes st) (v_proposal_digest v) of
           Some votes \<Rightarrow> votes | None \<Rightarrow> []) in
     if bm_contains_key votes (v_validator v)
     then Ok (co\<lparr> co_state := st\<lparr> st_pending_votes :=
            bm_insert (v_proposal_digest v) votes (st_pending_votes st) \<rparr> \<rparr>)
     else
       form_and_apply hs vf (v_proposal_digest v)
         (co\<lparr> co_state := st\<lparr> st_pending_votes :=
            bm_insert (v_proposal_digest v) (bm_insert (v_validator v) v votes)
              (st_pending_votes st) \<rparr> \<rparr>))))"

definition propose ::
  "chained_hotstuff \<Rightarrow> consensus_state \<Rightarrow> digest32 list \<Rightarrow> consensus_signer \<Rightarrow>
   (consensus_error, consensus_proposal) result" where
  "propose hs st transactions sg =
     try_bind (ensure_transaction_bound hs (length transactions)) (\<lambda>_.
     try_bind (ok_or (leader (hs_validator_set hs) (st_current_view st)) ZeroViewOrHeight)
       (\<lambda>expected.
     if sg_validator_id sg \<noteq> expected
     then Err (InvalidLeader (st_current_view st) expected (sg_validator_id sg))
     else
       try_bind (ensure_registered_scheme hs (sg_validator_id sg) (sg_signature_scheme sg)) (\<lambda>_.
       try_bind (ok_or (checked_add (qc_height (st_high_qc st)) 1) ArithmeticOverflow) (\<lambda>height.
       let proposal = \<lparr> p_chain_id = hs_chain_id hs, p_protocol_version = hs_protocol_version hs,
             p_epoch = hs_epoch hs, p_view = st_current_view st, p_height = height,
             p_leader = sg_validator_id sg, p_justify = st_high_qc st,
             p_transactions = transactions, p_signature_scheme = sg_signature_scheme sg,
             p_signature = [] \<rparr> in
       try_bind (encode_proposal_payload proposal) (\<lambda>payload.
       try_bind (hs_signature_frame hs PROPOSAL_MESSAGE_TYPE (p_signature_scheme proposal) payload)
         (\<lambda>framed.
       try_bind (map_err Authenticator (sg_sign_framed sg framed)) (\<lambda>signature.
       try_bind (validate_signature_length signature) (\<lambda>_.
       Ok (proposal\<lparr> p_signature := signature \<rparr>)))))))))"

section \<open>Pruning and events\<close>

definition prune_state :: "consensus_state \<Rightarrow> consensus_state" where
  "prune_state st =
     (let minimum_height = saturating_sub (st_committed_height st) RETAIN_COMMITTED_HEIGHTS;
        high = qc_proposal_digest (st_high_qc st);
        locked = qc_proposal_digest (st_locked_qc st);
        st = st\<lparr> st_known_proposals := bm_retain (\<lambda>d p.
               p_height p \<ge> minimum_height \<or> d = high \<or> d = locked) (st_known_proposals st) \<rparr>;
        st = st\<lparr> st_certificates := bm_retain (\<lambda>d qc.
               qc_height qc \<ge> minimum_height \<or> d = high \<or> d = locked) (st_certificates st) \<rparr>;
        st = st\<lparr> st_pending_votes := bm_retain (\<lambda>d votes.
               \<not> bm_contains_key (st_certificates st) d \<and>
               (case votes of
                  [] \<Rightarrow> False
                | (_, vote) # _ \<Rightarrow>
                    saturating_add (v_view vote) MAX_FUTURE_VIEW_GAP \<ge> st_current_view st))
               (st_pending_votes st) \<rparr>;
        st = st\<lparr> st_observed_votes := bm_retain (\<lambda>(_, view) _.
               saturating_add view MAX_FUTURE_VIEW_GAP \<ge> st_current_view st)
               (st_observed_votes st) \<rparr> in
      st\<lparr> st_committed := bm_retain (\<lambda>d _. bm_contains_key (st_known_proposals st) d)
            (st_committed st) \<rparr>)"

definition output_of :: "consensus_state \<Rightarrow> consensus_output" where
  "output_of st = \<lparr> co_state = st, co_outbound_messages = [], co_committed_blocks = [],
     co_committed_proofs = [], co_view_advanced = False \<rparr>"

definition process_tick ::
  "chained_hotstuff \<Rightarrow> u64 \<Rightarrow> consensus_output \<Rightarrow> (consensus_error, consensus_output) result" where
  "process_tick hs now co =
     (let st = co_state co in
      if now \<ge> st_view_deadline_unix_millis st then
        try_bind (ok_or (checked_add (st_current_view st) 1) ArithmeticOverflow) (\<lambda>next_view.
        try_bind (ok_or (checked_add now (cp_view_timeout_millis (hs_parameters hs)))
                    ArithmeticOverflow) (\<lambda>deadline.
        Ok (co\<lparr> co_state := st\<lparr> st_current_view := next_view,
              st_view_deadline_unix_millis := deadline \<rparr>, co_view_advanced := True \<rparr>)))
      else Ok co)"

definition on_event ::
  "sha_functions \<Rightarrow> chained_hotstuff \<Rightarrow> consensus_state \<Rightarrow> consensus_event \<Rightarrow> consensus_signer \<Rightarrow>
   consensus_verifier \<Rightarrow> (consensus_error, consensus_output) result" where
  "on_event sha hs st event sg vf =
     try_bind (ensure_registered_scheme hs (sg_validator_id sg) (sg_signature_scheme sg)) (\<lambda>_.
     let co = output_of st in
     try_bind (case event of
         EvProposal p \<Rightarrow> process_proposal sha hs sg vf p co
       | EvVote v \<Rightarrow> process_vote hs vf v co
       | EvCertificate qc \<Rightarrow> apply_certificate hs vf qc co
       | EvTick now \<Rightarrow> process_tick hs now co) (\<lambda>co.
     Ok (co\<lparr> co_state := prune_state (co_state co) \<rparr>)))"

end
