(* ===== verification/HotStuff_Certificates.thy ===== *)
theory HotStuff_Certificates
  imports Chained_HotStuff
begin

text \<open>
  When the checks of \<^verbatim>\<open>src/crates/consensus/src/lib.rs\<close> on votes, certificates and proposals succeed, and
  what two verified certificates have in common. The locale \<open>certificate_scheme\<close> derives the
  accountability of conflicting certificates from the quorum threshold; it is interpreted on the
  quorum certificates here and on the certificates of the other voting components in their theories.
\<close>

section \<open>Adding up the power of votes\<close>

text \<open>
  The loop that certificates of every kind run over their votes: keys strictly ascend, each vote
  passes a check, and its power is added to a 64-bit sum.
\<close>

lemma power_fold_Ok_iff:
  fixes key :: "'v \<Rightarrow> 'k :: linorder" and w r :: u64
  assumes step: "\<And>prev w v r. step (prev, w) v = Ok r \<longleftrightarrow>
      (\<forall>p. prev = Some p \<longrightarrow> p < key v) \<and> P v \<and>
      (\<exists>w' :: u64. unat w' = unat w + pw v \<and> r = (Some (key v), w'))"
  shows "(\<exists>q. try_fold step (prev, w) vs = Ok (q, r)) \<longleftrightarrow>
    key_sorted key vs \<and> (\<forall>p. prev = Some p \<longrightarrow> (\<forall>v \<in> set vs. p < key v)) \<and>
    (\<forall>v \<in> set vs. P v) \<and> unat r = unat w + sum_list (map pw vs)"
proof (induction vs arbitrary: prev w)
  case Nil
  then show ?case by (auto simp: key_sorted_def word_unat_eq_iff)
next
  case (Cons v vs)
  have "(\<exists>q. try_fold step (prev, w) (v # vs) = Ok (q, r)) \<longleftrightarrow>
      (\<forall>p. prev = Some p \<longrightarrow> p < key v) \<and> P v \<and> (\<exists>w' :: u64. unat w' = unat w + pw v \<and>
        (\<exists>q. try_fold step (Some (key v), w') vs = Ok (q, r)))"
    by (auto simp: try_bind_eq_Ok step)
  also have "\<dots> \<longleftrightarrow> (\<forall>p. prev = Some p \<longrightarrow> p < key v) \<and> P v \<and> key_sorted key vs \<and>
      (\<forall>x \<in> set vs. key v < key x) \<and> (\<forall>x \<in> set vs. P x) \<and>
      unat r = unat w + pw v + sum_list (map pw vs)"
  proof -
    have "unat r = unat w + pw v + sum_list (map pw vs) \<longleftrightarrow>
        (\<exists>w' :: u64. unat w' = unat w + pw v \<and> unat r = unat w' + sum_list (map pw vs))"
    proof
      assume eq: "unat r = unat w + pw v + sum_list (map pw vs)"
      then have "unat w + pw v < 2 ^ 64" using unsigned_less [of r, where 'a = nat] by simp
      then have "unat (of_nat (unat w + pw v) :: u64) = unat w + pw v"
        by (simp add: unat_of_nat del: of_nat_add)
      then show "\<exists>w' :: u64. unat w' = unat w + pw v \<and> unat r = unat w' + sum_list (map pw vs)"
        using eq by metis
    qed auto
    then show ?thesis unfolding Cons.IH by auto
  qed
  also have "\<dots> \<longleftrightarrow> key_sorted key (v # vs) \<and>
      (\<forall>p. prev = Some p \<longrightarrow> (\<forall>x \<in> set (v # vs). p < key x)) \<and>
      (\<forall>x \<in> set (v # vs). P x) \<and> unat r = unat w + sum_list (map pw (v # vs))"
    by (auto simp: key_sorted_Cons)
  finally show ?case .
qed

lemma sorted_power_sum:
  assumes "key_sorted key vs"
  shows "sum_list (map (\<lambda>v. f (key v)) vs) = sum f (key ` set vs)"
  using sum_list_distinct_conv_sum_set [OF key_sorted_distinct [OF assms], of f]
  by (simp add: comp_def)

lemma member_power_bound:
  assumes "validator_set_inv s" "A \<subseteq> vs_members s"
  shows "sum (vs_power s) A < 2 ^ 64"
proof -
  have "sum (vs_power s) A \<le> sum (vs_power s) (vs_members s)" using assms by (intro sum_mono2) auto
  also have "\<dots> < 2 ^ 64"
    using sum_vs_power [OF assms(1)] unsigned_less [of "vs_total_voting_power s", where 'a = nat]
    by simp
  finally show ?thesis .
qed

lemma quorum_word_iff:
  "n < 2 ^ 64 \<Longrightarrow> (\<exists>r :: u64. unat r = n \<and> t \<le> r) \<longleftrightarrow> unat t \<le> n"
  by (auto simp: word_le_nat_alt unat_of_nat intro!: exI [of _ "of_nat n"])

section \<open>Guards\<close>

lemma ensure_context_Ok_iff [result_simps]:
  "ensure_context hs c pv e = Ok u \<longleftrightarrow>
     c = hs_chain_id hs \<and> pv = hs_protocol_version hs \<and> e = hs_epoch hs"
  by (auto simp: ensure_context_def)

lemma ensure_transaction_bound_Ok_iff [result_simps]:
  "ensure_transaction_bound hs n = Ok u \<longleftrightarrow> n \<le> unat (cp_max_block_transactions (hs_parameters hs))"
  by (auto simp: ensure_transaction_bound_def)

lemma ensure_bounded_future_view_Ok_iff [result_simps]:
  "ensure_bounded_future_view c r = Ok u \<longleftrightarrow> r \<le> saturating_add c MAX_FUTURE_VIEW_GAP"
  by (auto simp: ensure_bounded_future_view_def Let_def)

lemma ensure_registered_scheme_Ok_iff [result_simps]:
  "ensure_registered_scheme hs vid s = Ok u \<longleftrightarrow>
     (\<exists>info. vs_get (hs_validator_set hs) vid = Some info \<and> vi_signature_scheme info = s)"
  by (auto simp: ensure_registered_scheme_def result_simps)

section \<open>Votes\<close>

text \<open>A valid vote is this chain's, by a registered validator, over exactly its own fields.\<close>

definition vote_signed :: "chained_hotstuff \<Rightarrow> consensus_verifier \<Rightarrow> consensus_vote \<Rightarrow> bool" where
  "vote_signed hs vf v \<longleftrightarrow>
     (\<exists>info payload framed. vs_get (hs_validator_set hs) (v_validator v) = Some info \<and>
        vi_signature_scheme info = v_signature_scheme v \<and> encode_vote_payload v = Ok payload \<and>
        hs_signature_frame hs VOTE_MESSAGE_TYPE (v_signature_scheme v) payload = Ok framed \<and>
        vf (v_validator v) (v_signature_scheme v) (vi_public_key info) framed (v_signature v) = Ok True)"

lemma validate_vote_Ok_iff:
  "validate_vote hs vf v = Ok u \<longleftrightarrow>
     v_chain_id v = hs_chain_id hs \<and> v_protocol_version v = hs_protocol_version hs \<and>
     v_epoch v = hs_epoch hs \<and> v_view v \<noteq> 0 \<and> v_height v \<noteq> 0 \<and>
     v_signature v \<noteq> [] \<and> length (v_signature v) \<le> MAX_SIGNATURE_BYTES \<and> vote_signed hs vf v"
  by (auto simp: validate_vote_def result_simps vote_signed_def split: if_splits)

lemma validate_vote_member:
  assumes "validator_set_inv (hs_validator_set hs)" "validate_vote hs vf v = Ok ()"
  shows "v_validator v \<in> vs_members (hs_validator_set hs)"
  using assms vs_get_Some_iff [OF assms(1)]
  by (auto simp: validate_vote_Ok_iff vote_signed_def vs_members_def intro: rev_image_eqI)

section \<open>Certificates\<close>

definition vote_matches :: "quorum_certificate \<Rightarrow> consensus_vote \<Rightarrow> bool" where
  "vote_matches qc v \<longleftrightarrow> v_view v = qc_view qc \<and> v_height v = qc_height qc \<and>
     v_proposal_digest v = qc_proposal_digest qc"

definition votes_power :: "chained_hotstuff \<Rightarrow> consensus_vote list \<Rightarrow> nat" where
  "votes_power hs vs = sum_list (map (\<lambda>v. vs_power (hs_validator_set hs) (v_validator v)) vs)"

lemma certificate_vote_step_Ok_iff:
  "certificate_vote_step hs vf qc (prev, w) v = Ok r \<longleftrightarrow>
     (\<forall>p. prev = Some p \<longrightarrow> p < v_validator v) \<and> vote_matches qc v \<and>
     validate_vote hs vf v = Ok () \<and>
     (\<exists>w'. unat w' = unat w + vs_power (hs_validator_set hs) (v_validator v) \<and>
       r = (Some (v_validator v), w'))"
proof (cases "vs_get (hs_validator_set hs) (v_validator v)")
  case None
  then have "validate_vote hs vf v \<noteq> Ok ()" by (simp add: validate_vote_Ok_iff vote_signed_def)
  then show ?thesis
    by (auto simp: certificate_vote_step_def result_simps split: if_splits)
next
  case (Some info)
  then have pw: "vs_power (hs_validator_set hs) (v_validator v) = unat (vi_voting_power info)"
    by (simp add: vs_power_def)
  show ?thesis
    using Some
    by (auto simp: certificate_vote_step_def result_simps vote_matches_def pw not_le
        checked_add_Some_iff split: if_splits option.splits)
qed

lemma certificate_fold_Ok_iff:
  "(\<exists>q. try_fold (certificate_vote_step hs vf qc) (prev, w) vs = Ok (q, r)) \<longleftrightarrow>
     key_sorted v_validator vs \<and> (\<forall>p. prev = Some p \<longrightarrow> (\<forall>v \<in> set vs. p < v_validator v)) \<and>
     (\<forall>v \<in> set vs. vote_matches qc v \<and> validate_vote hs vf v = Ok ()) \<and>
     unat r = unat w + votes_power hs vs"
  unfolding votes_power_def
  by (rule power_fold_Ok_iff) (auto simp: certificate_vote_step_Ok_iff)

definition qc_signers :: "quorum_certificate \<Rightarrow> validator_id set" where
  "qc_signers qc = v_validator ` set (qc_votes qc)"

lemma votes_power_sum:
  "key_sorted v_validator vs \<Longrightarrow>
   votes_power hs vs = sum (vs_power (hs_validator_set hs)) (v_validator ` set vs)"
  unfolding votes_power_def by (rule sorted_power_sum)

lemma member_votes_bounds:
  assumes inv: "validator_set_inv (hs_validator_set hs)" and ks: "key_sorted v_validator vs"
    and mem: "v_validator ` set vs \<subseteq> vs_members (hs_validator_set hs)"
  shows "votes_power hs vs < 2 ^ 64" "length vs \<le> length (vs_validators (hs_validator_set hs))"
proof -
  show "votes_power hs vs < 2 ^ 64"
    using member_power_bound [OF inv mem] votes_power_sum [OF ks] by simp
  have "length vs = card (v_validator ` set vs)"
    using key_sorted_distinct [OF ks] distinct_card by fastforce
  also have "\<dots> \<le> card (vs_members (hs_validator_set hs))" using mem by (intro card_mono) auto
  also have "\<dots> \<le> length (vs_validators (hs_validator_set hs))"
    unfolding vs_members_def by (metis card_length image_set length_map)
  finally show "length vs \<le> length (vs_validators (hs_validator_set hs))" .
qed

text \<open>The genesis anchor, and a quorum of valid votes in canonical order.\<close>

definition genesis_anchor :: "chained_hotstuff \<Rightarrow> quorum_certificate \<Rightarrow> bool" where
  "genesis_anchor hs qc \<longleftrightarrow> qc_view qc = 0 \<and> qc_height qc = 0 \<and>
     qc_proposal_digest qc = hs_genesis_block hs \<and> qc_votes qc = []"

definition quorum_voted :: "chained_hotstuff \<Rightarrow> consensus_verifier \<Rightarrow> quorum_certificate \<Rightarrow> bool" where
  "quorum_voted hs vf qc \<longleftrightarrow> qc_view qc \<noteq> 0 \<and> qc_height qc \<noteq> 0 \<and>
     key_sorted v_validator (qc_votes qc) \<and>
     (\<forall>v \<in> set (qc_votes qc). vote_matches qc v \<and> validate_vote hs vf v = Ok ()) \<and>
     unat (quorum_threshold (hs_validator_set hs)) \<le> votes_power hs (qc_votes qc)"

lemma verify_certificate_Ok_iff:
  assumes inv: "validator_set_inv (hs_validator_set hs)"
  shows "verify_certificate hs vf qc = Ok u \<longleftrightarrow>
    qc_chain_id qc = hs_chain_id hs \<and> qc_protocol_version qc = hs_protocol_version hs \<and>
    qc_epoch qc = hs_epoch hs \<and> (genesis_anchor hs qc \<or> quorum_voted hs vf qc)"
proof (cases "qc_view qc = 0 \<or> qc_height qc = 0")
  case True
  then show ?thesis
    by (auto simp: verify_certificate_def result_simps genesis_anchor_def quorum_voted_def)
next
  case False
  let ?vs = "qc_votes qc"
  have fold: "(\<exists>q. try_fold (certificate_vote_step hs vf qc) (None, 0) ?vs = Ok (q, r)) \<longleftrightarrow>
      key_sorted v_validator ?vs \<and> (\<forall>v \<in> set ?vs. vote_matches qc v \<and> validate_vote hs vf v = Ok ()) \<and>
      unat r = votes_power hs ?vs" for r
    unfolding certificate_fold_Ok_iff by simp
  have mem: "v_validator ` set ?vs \<subseteq> vs_members (hs_validator_set hs)"
    if "\<forall>v \<in> set ?vs. vote_matches qc v \<and> validate_vote hs vf v = Ok ()"
    using that validate_vote_member [OF inv] by auto
  have "verify_certificate hs vf qc = Ok u \<longleftrightarrow>
      qc_chain_id qc = hs_chain_id hs \<and> qc_protocol_version qc = hs_protocol_version hs \<and>
      qc_epoch qc = hs_epoch hs \<and> length ?vs \<le> length (vs_validators (hs_validator_set hs)) \<and>
      (\<exists>r. (\<exists>q. try_fold (certificate_vote_step hs vf qc) (None, 0) ?vs = Ok (q, r)) \<and>
        quorum_threshold (hs_validator_set hs) \<le> r)"
    using False by (auto simp: verify_certificate_def result_simps Let_def not_less)
  also have "\<dots> \<longleftrightarrow> qc_chain_id qc = hs_chain_id hs \<and>
      qc_protocol_version qc = hs_protocol_version hs \<and> qc_epoch qc = hs_epoch hs \<and>
      quorum_voted hs vf qc"
  proof -
    show ?thesis
      unfolding fold quorum_voted_def
      using False member_votes_bounds [OF inv _ mem] quorum_word_iff [of "votes_power hs ?vs"] by auto
  qed
  finally show ?thesis using False by (auto simp: genesis_anchor_def)
qed

section \<open>What two certificates share\<close>

locale certificate_scheme = weighted_quorum +
  fixes verified :: "'a \<Rightarrow> 'c \<Rightarrow> bool"
    and signers :: "'c \<Rightarrow> 'b set"
  assumes signers_members: "valid s \<Longrightarrow> verified s c \<Longrightarrow> signers c \<subseteq> members s"
    and signers_quorum: "valid s \<Longrightarrow> verified s c \<Longrightarrow> threshold s \<le> sum (power s) (signers c)"
begin

lemma certificates_overlap:
  assumes "valid s" "verified s c" "verified s d"
  shows "sum (power s) (members s) < 3 * sum (power s) (signers c \<inter> signers d)"
  using assms by (intro quorum_intersection signers_members signers_quorum)

lemma common_correct_signer:
  assumes "valid s" "verified s c" "verified s d"
    and "3 * sum (power s) (F \<inter> members s) \<le> sum (power s) (members s)"
  shows "\<exists>v \<in> signers c \<inter> signers d. v \<notin> F"
  using assms by (intro quorum_correct_member signers_members signers_quorum)

lemma correct_signer:
  assumes "valid s" "verified s c"
    and "3 * sum (power s) (F \<inter> members s) \<le> sum (power s) (members s)"
  shows "\<exists>v \<in> signers c. v \<notin> F"
  using common_correct_signer [OF assms(1,2,2,3)] by blast

end

definition certified :: "chained_hotstuff \<Rightarrow> consensus_verifier \<Rightarrow> quorum_certificate \<Rightarrow> bool" where
  "certified hs vf qc \<longleftrightarrow> verify_certificate hs vf qc = Ok () \<and> qc_view qc \<noteq> 0"

lemma certified_iff:
  "validator_set_inv (hs_validator_set hs) \<Longrightarrow> certified hs vf qc \<longleftrightarrow>
     qc_chain_id qc = hs_chain_id hs \<and> qc_protocol_version qc = hs_protocol_version hs \<and>
     qc_epoch qc = hs_epoch hs \<and> quorum_voted hs vf qc"
  by (auto simp: certified_def verify_certificate_Ok_iff genesis_anchor_def quorum_voted_def)

interpretation hs_certificates: certificate_scheme
  "\<lambda>(hs, vf :: consensus_verifier). validator_set_inv (hs_validator_set hs)"
  "\<lambda>(hs, _). vs_members (hs_validator_set hs)"
  "\<lambda>(hs, _). vs_power (hs_validator_set hs)"
  "\<lambda>(hs, _). unat (quorum_threshold (hs_validator_set hs))"
  "\<lambda>(hs, vf). certified hs vf" qc_signers
proof unfold_locales
  fix s :: "chained_hotstuff \<times> consensus_verifier" and qc
  obtain hs vf where s: "s = (hs, vf)" by (cases s)
  assume "case s of (hs, vf) \<Rightarrow> validator_set_inv (hs_validator_set hs)"
  then have inv: "validator_set_inv (hs_validator_set hs)" by (simp add: s)
  show "finite (case s of (hs, _) \<Rightarrow> vs_members (hs_validator_set hs))" by (simp add: s)
  show "2 * sum (case s of (hs, _) \<Rightarrow> vs_power (hs_validator_set hs))
      (case s of (hs, _) \<Rightarrow> vs_members (hs_validator_set hs)) <
      3 * (case s of (hs, _) \<Rightarrow> unat (quorum_threshold (hs_validator_set hs)))"
    using inv vs_quorum.threshold_two_thirds by (simp add: s)
  assume "(case s of (hs, vf) \<Rightarrow> certified hs vf) qc"
  then have q: "quorum_voted hs vf qc" using inv by (simp add: s certified_iff)
  then show "qc_signers qc \<subseteq> (case s of (hs, _) \<Rightarrow> vs_members (hs_validator_set hs))"
    using validate_vote_member [OF inv] by (auto simp: s qc_signers_def quorum_voted_def)
  show "(case s of (hs, _) \<Rightarrow> unat (quorum_threshold (hs_validator_set hs)))
      \<le> sum (case s of (hs, _) \<Rightarrow> vs_power (hs_validator_set hs)) (qc_signers qc)"
    using q votes_power_sum [of "qc_votes qc" hs] by (simp add: s quorum_voted_def qc_signers_def)
qed

text \<open>The vote a signer has in a certificate.\<close>

lemma signer_vote:
  assumes "validator_set_inv (hs_validator_set hs)" "certified hs vf qc" "a \<in> qc_signers qc"
  obtains v where "v \<in> set (qc_votes qc)" "v_validator v = a" "validate_vote hs vf v = Ok ()"
    "vote_matches qc v"
  using assms by (auto simp: certified_iff quorum_voted_def qc_signers_def)

section \<open>Formed certificates\<close>

definition pending_ok ::
  "chained_hotstuff \<Rightarrow> consensus_verifier \<Rightarrow> digest32 \<Rightarrow> (validator_id, consensus_vote) btree_map \<Rightarrow> bool"
  where
  "pending_ok hs vf d votes \<longleftrightarrow> bm_inv votes \<and>
     (\<forall>(vid, v) \<in> set votes. validate_vote hs vf v = Ok () \<and> v_validator v = vid \<and>
        v_proposal_digest v = d)"

lemma pending_ok_sorted:
  assumes "pending_ok hs vf d votes"
  shows "key_sorted v_validator (map snd votes)"
proof -
  have "map v_validator (map snd votes) = map fst votes"
    using assms by (auto simp: pending_ok_def)
  then show ?thesis using assms unfolding key_sorted_def pending_ok_def bm_inv_def by metis
qed

lemma key_sorted_filter: "key_sorted f xs \<Longrightarrow> key_sorted f (filter P xs)"
  unfolding key_sorted_def sorted_wrt_map by (rule sorted_wrt_filter)

lemma form_fold_Ok_iff:
  assumes "\<forall>v \<in> set vs. v_validator v \<in> vs_members (hs_validator_set hs)"
    "validator_set_inv (hs_validator_set hs)"
  shows "try_fold (form_step hs p) (w, acc) vs = Ok (w', acc') \<longleftrightarrow>
    acc' = acc @ filter (\<lambda>v. v_view v = p_view p \<and> v_height v = p_height p) vs \<and>
    unat w' = unat w +
      votes_power hs (filter (\<lambda>v. v_view v = p_view p \<and> v_height v = p_height p) vs)"
  using assms(1)
proof (induction vs arbitrary: w acc)
  case Nil
  then show ?case by (auto simp: votes_power_def word_unat_eq_iff)
next
  case (Cons v vs)
  let ?m = "v_view v = p_view p \<and> v_height v = p_height p"
  obtain info where info: "vs_get (hs_validator_set hs) (v_validator v) = Some info"
    using Cons.prems vs_get_None_iff [OF assms(2)] by fastforce
  then have pw: "vs_power (hs_validator_set hs) (v_validator v) = unat (vi_voting_power info)"
    by (simp add: vs_power_def)
  show ?case
  proof (cases ?m)
    case True
    let ?w = "w + vi_voting_power info"
    have step: "form_step hs p (w, acc) v = Ok (x, y) \<longleftrightarrow>
        unat w + unat (vi_voting_power info) < 2 ^ 64 \<and> x = ?w \<and> y = acc @ [v]" for x y
      using True info by (auto simp: form_step_def result_simps checked_add_def)
    have "try_fold (form_step hs p) (w, acc) (v # vs) = Ok (w', acc') \<longleftrightarrow>
        unat w + unat (vi_voting_power info) < 2 ^ 64 \<and>
        try_fold (form_step hs p) (?w, acc @ [v]) vs = Ok (w', acc')"
      by (auto simp: try_bind_eq_Ok step)
    then show ?thesis
      using Cons True unsigned_less [of w', where 'a = nat] unat_add_less [of w "vi_voting_power info"]
      by (auto simp: votes_power_def pw)
  next
    case False
    then have "form_step hs p (w, acc) v = Ok (w, acc)" by (auto simp: form_step_def)
    then show ?thesis using Cons False by auto
  qed
qed

text \<open>
  A formed certificate carries exactly the pending votes for the known proposal, and verifies.
\<close>

lemma try_form_certificate_Ok:
  assumes inv: "validator_set_inv (hs_validator_set hs)"
    and pend: "\<And>votes. bm_get (st_pending_votes st) d = Some votes \<Longrightarrow> pending_ok hs vf d votes"
    and known: "\<And>p. bm_get (st_known_proposals st) d = Some p \<Longrightarrow> p_view p \<noteq> 0 \<and> p_height p \<noteq> 0"
    and form: "try_form_certificate hs st d = Ok (Some qc)"
  shows "certified hs vf qc" "qc_proposal_digest qc = d"
    "\<exists>p. bm_get (st_known_proposals st) d = Some p \<and> qc_view qc = p_view p \<and> qc_height qc = p_height p"
    "bm_get (st_certificates st) d = None"
proof -
  from form obtain p votes w matching where
    none: "\<not> bm_contains_key (st_certificates st) d" and
    p: "bm_get (st_known_proposals st) d = Some p" and
    votes: "bm_get (st_pending_votes st) d = Some votes" and
    fold: "try_fold (form_step hs p) (0, []) (map snd votes) = Ok (w, matching)" and
    w: "quorum_threshold (hs_validator_set hs) \<le> w" and
    qc: "qc = \<lparr> qc_chain_id = hs_chain_id hs, qc_protocol_version = hs_protocol_version hs,
      qc_epoch = hs_epoch hs, qc_view = p_view p, qc_height = p_height p, qc_proposal_digest = d,
      qc_votes = matching \<rparr>"
    by (auto simp: try_form_certificate_def result_simps not_less split: if_splits option.splits)
  let ?m = "\<lambda>v. v_view v = p_view p \<and> v_height v = p_height p"
  have ok: "pending_ok hs vf d votes" by (rule pend [OF votes])
  then have all: "\<forall>v \<in> set (map snd votes). validate_vote hs vf v = Ok () \<and> v_proposal_digest v = d"
    by (auto simp: pending_ok_def)
  then have mem: "\<forall>v \<in> set (map snd votes). v_validator v \<in> vs_members (hs_validator_set hs)"
    using validate_vote_member [OF inv] by blast
  have matching: "matching = filter ?m (map snd votes)" "unat w = votes_power hs matching"
    using fold form_fold_Ok_iff [OF mem inv] by auto
  have "key_sorted v_validator matching"
    using pending_ok_sorted [OF ok] unfolding matching(1) by (rule key_sorted_filter)
  then have "quorum_voted hs vf qc"
    using known [OF p] w all matching(2)
    by (auto simp: quorum_voted_def qc vote_matches_def matching(1) word_le_nat_alt)
  then show "certified hs vf qc" by (simp add: certified_iff [OF inv] qc)
  show "qc_proposal_digest qc = d"
    "\<exists>p. bm_get (st_known_proposals st) d = Some p \<and> qc_view qc = p_view p \<and> qc_height qc = p_height p"
    "bm_get (st_certificates st) d = None"
    using p none by (auto simp: qc bm_contains_key_def)
qed

end
