(* ===== verification/HotStuff_Invariants.thy ===== *)
theory HotStuff_Invariants
  imports HotStuff_Certificates
begin

text \<open>
  What the transitions of the chained-HotStuff machine do to its state: the blocks a commit adds,
  the invariant of every reachable state, and the quantities that never decrease.
\<close>

section \<open>Commits\<close>

definition block_of :: "digest32 \<Rightarrow> consensus_proposal \<Rightarrow> committed_block" where
  "block_of d p = \<lparr> cb_height = p_height p, cb_view = p_view p, cb_digest = d,
     cb_transactions = p_transactions p \<rparr>"

text \<open>A transition that only commits: the blocks and proofs it adds, and the new height.\<close>

definition only_commits :: "consensus_output \<Rightarrow> consensus_output \<Rightarrow> bool" where
  "only_commits co co' \<longleftrightarrow>
     (\<exists>c h bs prs. co' = co\<lparr> co_state := (co_state co)\<lparr> st_committed := c, st_committed_height := h \<rparr>,
        co_committed_blocks := co_committed_blocks co @ bs,
        co_committed_proofs := co_committed_proofs co @ prs \<rparr>)"

lemma only_commits_refl: "only_commits co co"
  unfolding only_commits_def
  by (rule exI [of _ "st_committed (co_state co)"], rule exI [of _ "st_committed_height (co_state co)"],
      rule exI [of _ "[]"], rule exI [of _ "[]"]) simp

lemma only_commits_trans: "only_commits co co' \<Longrightarrow> only_commits co' co'' \<Longrightarrow> only_commits co co''"
  unfolding only_commits_def by force

text \<open>One turn of the commit loop, as a function of the entry.\<close>

definition commit_entry ::
  "digest32 \<Rightarrow> consensus_proposal \<Rightarrow> committed_block_proof \<Rightarrow> consensus_output \<Rightarrow> consensus_output" where
  "commit_entry d p pr co =
     co\<lparr> co_state := (co_state co)\<lparr> st_committed := bm_insert d () (st_committed (co_state co)),
           st_committed_height := p_height p \<rparr>,
         co_committed_blocks := co_committed_blocks co @ [block_of d p],
         co_committed_proofs := co_committed_proofs co @ [pr] \<rparr>"

inductive commit_run ::
  "(digest32 \<times> consensus_proposal) list \<Rightarrow> consensus_proposal \<Rightarrow> consensus_proposal \<Rightarrow>
   quorum_certificate \<Rightarrow> nat \<Rightarrow> consensus_output \<Rightarrow> consensus_output \<Rightarrow> bool"
  for chain parent gc gqc where
  stop: "commit_run chain parent gc gqc i co co"
| skip: "i < length chain \<Longrightarrow> bm_contains_key (st_committed (co_state co)) (fst (chain ! i)) \<Longrightarrow>
    commit_run chain parent gc gqc (Suc i)
      (co\<lparr> co_state := (co_state co)\<lparr> st_committed :=
         bm_insert (fst (chain ! i)) () (st_committed (co_state co)) \<rparr> \<rparr>) co' \<Longrightarrow>
    commit_run chain parent gc gqc i co co'"
| commit: "i < length chain \<Longrightarrow> chain ! i = (d, p) \<Longrightarrow>
    \<not> bm_contains_key (st_committed (co_state co)) d \<Longrightarrow>
    unat (p_height p) = Suc (unat (st_committed_height (co_state co))) \<Longrightarrow>
    commit_block_proof chain parent gc gqc i p = Ok pr \<Longrightarrow>
    commit_run chain parent gc gqc (Suc i) (commit_entry d p pr co) co' \<Longrightarrow>
    commit_run chain parent gc gqc i co co'"

lemma commit_loop_run:
  assumes "commit_loop chain parent gc gqc i (drop i chain) co = Ok co'"
  shows "commit_run chain parent gc gqc i co co'"
  using assms
proof (induction "length chain - i" arbitrary: i co)
  case 0
  then show ?case by (auto intro: commit_run.stop)
next
  case (Suc n)
  then have i: "i < length chain" "n = length chain - Suc i" by auto
  obtain d p where dp: "chain ! i = (d, p)" by (cases "chain ! i")
  have drop: "drop i chain = (d, p) # drop (Suc i) chain"
    using Cons_nth_drop_Suc [OF i(1)] dp by simp
  let ?st = "co_state co"
  show ?case
  proof (cases "checked_add (st_committed_height ?st) 1 = Some (p_height p)")
    case False
    then have "co' = co"
      using Suc.prems unfolding drop commit_loop.simps
      by (cases "checked_add (st_committed_height ?st) 1") (simp_all split: if_split_asm)
    then show ?thesis by (simp add: commit_run.stop)
  next
    case height: True
    then have h: "unat (p_height p) = Suc (unat (st_committed_height ?st))"
      by (simp add: checked_add_Some_iff)
    show ?thesis
    proof (cases "bm_contains_key (st_committed ?st) d")
      case True
      let ?co = "co\<lparr> co_state := ?st\<lparr> st_committed := bm_insert d () (st_committed ?st) \<rparr> \<rparr>"
      have "commit_loop chain parent gc gqc (Suc i) (drop (Suc i) chain) ?co = Ok co'"
        using Suc.prems height True unfolding drop commit_loop.simps by (simp add: bs_insert_def)
      from Suc.hyps(1) [OF i(2) this] show ?thesis
        using True dp by (auto intro: commit_run.skip [OF i(1)])
    next
      case False
      then obtain pr where pr: "commit_block_proof chain parent gc gqc i p = Ok pr"
        "commit_loop chain parent gc gqc (Suc i) (drop (Suc i) chain) (commit_entry d p pr co) = Ok co'"
        using Suc.prems height unfolding drop commit_loop.simps
        by (cases "commit_block_proof chain parent gc gqc i p")
          (simp_all add: bs_insert_def Let_def commit_entry_def block_of_def)
      show ?thesis
        by (rule commit_run.commit [OF i(1) dp False h pr(1) Suc.hyps(1) [OF i(2) pr(2)]])
    qed
  qed
qed

lemma commit_run_only_commits: "commit_run chain parent gc gqc i co co' \<Longrightarrow> only_commits co co'"
proof (induction rule: commit_run.induct)
  case (stop i co)
  then show ?case by (rule only_commits_refl)
next
  case (skip i co co')
  have "only_commits co (co\<lparr> co_state := (co_state co)\<lparr> st_committed :=
      bm_insert (fst (chain ! i)) () (st_committed (co_state co)) \<rparr> \<rparr>)"
    unfolding only_commits_def
    by (rule exI [of _ "bm_insert (fst (chain ! i)) () (st_committed (co_state co))"],
        rule exI [of _ "st_committed_height (co_state co)"], rule exI [of _ "[]"],
        rule exI [of _ "[]"]) simp
  then show ?case using skip.IH by (rule only_commits_trans)
next
  case (commit i d p co pr co')
  have "only_commits co (commit_entry d p pr co)"
    unfolding only_commits_def commit_entry_def by blast
  then show ?case using commit.IH by (rule only_commits_trans)
qed

text \<open>
  A commit adds consecutive heights above the committed one, each block an entry of the chain with
  its own proof.
\<close>

definition entry_proved ::
  "(digest32 \<times> consensus_proposal) list \<Rightarrow> consensus_proposal \<Rightarrow> consensus_proposal \<Rightarrow>
   quorum_certificate \<Rightarrow> committed_block \<Rightarrow> committed_block_proof \<Rightarrow> bool" where
  "entry_proved chain parent gc gqc b pr \<longleftrightarrow>
     (\<exists>j d p. j < length chain \<and> chain ! j = (d, p) \<and> b = block_of d p \<and>
        commit_block_proof chain parent gc gqc j p = Ok pr)"

lemma commit_run_blocks:
  assumes "commit_run chain parent gc gqc i co co'"
  shows "\<exists>bs prs. co_committed_blocks co' = co_committed_blocks co @ bs \<and>
    co_committed_proofs co' = co_committed_proofs co @ prs \<and>
    list_all2 (entry_proved chain parent gc gqc) bs prs \<and>
    map (\<lambda>b. unat (cb_height b)) bs =
      [Suc (unat (st_committed_height (co_state co)))..<Suc (unat (st_committed_height (co_state co')))] \<and>
    st_committed_height (co_state co) \<le> st_committed_height (co_state co')"
  using assms
proof (induction rule: commit_run.induct)
  case (stop i co)
  then show ?case by simp
next
  case (skip i co co')
  then show ?case by simp
next
  case (commit i d p co pr co')
  then obtain bs prs where
    bs: "co_committed_blocks co' = co_committed_blocks co @ block_of d p # bs"
      "co_committed_proofs co' = co_committed_proofs co @ pr # prs"
      "list_all2 (entry_proved chain parent gc gqc) bs prs"
      "map (\<lambda>b. unat (cb_height b)) bs =
        [Suc (unat (p_height p))..<Suc (unat (st_committed_height (co_state co')))]"
      "p_height p \<le> st_committed_height (co_state co')"
    by (auto simp: commit_entry_def)
  have "entry_proved chain parent gc gqc (block_of d p) pr"
    using commit.hyps by (auto simp: entry_proved_def)
  moreover have "map (\<lambda>b. unat (cb_height b)) (block_of d p # bs) =
      [Suc (unat (st_committed_height (co_state co)))..<Suc (unat (st_committed_height (co_state co')))]"
    using bs(4,5) commit.hyps(4)
    by (simp add: block_of_def upt_conv_Cons word_le_nat_alt del: upt_Suc)
  moreover have "st_committed_height (co_state co) \<le> st_committed_height (co_state co')"
    using bs(5) commit.hyps(4) by (simp add: word_le_nat_alt)
  ultimately show ?case using bs(1-3) by (intro exI [of _ "block_of d p # bs"] exI [of _ "pr # prs"]) simp
qed

lemma commit_run_committed:
  assumes "commit_run chain parent gc gqc i co co'"
  shows "bm_inv (st_committed (co_state co)) \<Longrightarrow> bm_inv (st_committed (co_state co'))"
    "fst ` set (st_committed (co_state co')) \<subseteq>
      fst ` set (st_committed (co_state co)) \<union> fst ` set chain"
  using assms
proof (induction rule: commit_run.induct)
  case (stop i co)
  { case 1 then show ?case . }
  { case 2 then show ?case by simp }
next
  case (skip i co co')
  { case 1 then show ?case using skip.IH(1) by (simp add: bm_inv_insert) }
  { case 2
    have "fst (chain ! i) \<in> fst ` set chain" using skip.hyps(1) by simp
    then have "insert (fst (chain ! i)) (fst ` set (st_committed (co_state co))) \<union> fst ` set chain =
        fst ` set (st_committed (co_state co)) \<union> fst ` set chain" by blast
    then show ?case using skip.IH(2) by (simp add: set_bm_insert_keys) }
next
  case (commit i d p co pr co')
  { case 1 then show ?case using commit.IH(1) by (simp add: bm_inv_insert commit_entry_def) }
  { case 2
    have "d \<in> fst ` set chain" using commit.hyps(1,2) by (metis fst_conv image_eqI nth_mem)
    then have "insert d (fst ` set (st_committed (co_state co))) \<union> fst ` set chain =
        fst ` set (st_committed (co_state co)) \<union> fst ` set chain" by blast
    then show ?case using commit.IH(2) by (simp add: set_bm_insert_keys commit_entry_def) }
qed

section \<open>The walk behind a commit\<close>

fun linked_down :: "digest32 \<Rightarrow> (digest32 \<times> consensus_proposal) list \<Rightarrow> bool" where
  "linked_down cursor [] \<longleftrightarrow> True"
| "linked_down cursor ((d, p) # rest) \<longleftrightarrow>
     d = cursor \<and> linked_down (qc_proposal_digest (p_justify p)) rest"

lemma commit_walk_Ok:
  assumes "commit_walk n st cursor acc = Ok chain"
  shows "\<exists>new. chain = acc @ new \<and> linked_down cursor new \<and>
    (\<forall>(d, p) \<in> set new. bm_get (st_known_proposals st) d = Some p \<and>
       st_committed_height st < p_height p)"
  using assms
proof (induction n arbitrary: cursor acc)
  case 0
  then show ?case by simp
next
  case (Suc n)
  show ?case
  proof (cases "bm_get (st_known_proposals st) cursor")
    case None
    then show ?thesis using Suc.prems by (intro exI [of _ "[]"]) simp
  next
    case (Some p)
    show ?thesis
    proof (cases "p_height p \<le> st_committed_height st")
      case True
      then show ?thesis using Suc.prems Some by (intro exI [of _ "[]"]) simp
    next
      case False
      then have "commit_walk n st (qc_proposal_digest (p_justify p)) (acc @ [(cursor, p)]) = Ok chain"
        using Suc.prems Some by simp
      from Suc.IH [OF this] obtain new where
        "chain = (acc @ [(cursor, p)]) @ new" "linked_down (qc_proposal_digest (p_justify p)) new"
        "\<forall>(d, p) \<in> set new. bm_get (st_known_proposals st) d = Some p \<and>
          st_committed_height st < p_height p" by blast
      then show ?thesis using Some False by (intro exI [of _ "(cursor, p) # new"]) auto
    qed
  qed
qed

text \<open>Ascending: every entry but the last is named by the next one's certificate.\<close>

lemma linked_down_nth:
  assumes "linked_down cursor new" "Suc i < length new"
  shows "fst (new ! Suc i) = qc_proposal_digest (p_justify (snd (new ! i)))"
  using assms
proof (induction new arbitrary: cursor i)
  case Nil
  then show ?case by simp
next
  case (Cons x new)
  obtain d p where x: "x = (d, p)" by (cases x)
  show ?case
  proof (cases i)
    case 0
    then show ?thesis using Cons.prems x by (cases new) auto
  next
    case (Suc k)
    then show ?thesis using Cons x by auto
  qed
qed

lemma linked_down_hd: "linked_down cursor new \<Longrightarrow> new \<noteq> [] \<Longrightarrow> fst (hd new) = cursor"
  by (cases new) auto

lemma commit_through_run:
  assumes "commit_through target parent gc gqc co = Ok co'"
  shows "\<exists>new. linked_down target new \<and>
    (\<forall>(d, p) \<in> set new. bm_get (st_known_proposals (co_state co)) d = Some p \<and>
       st_committed_height (co_state co) < p_height p) \<and>
    commit_run (rev new) parent gc gqc 0 co co'"
proof -
  let ?st = "co_state co"
  from assms obtain chain where
    walk: "commit_walk (Suc (length (st_known_proposals ?st))) ?st target [] = Ok chain"
    and loop: "commit_loop (rev chain) parent gc gqc 0 (rev chain) co = Ok co'"
    unfolding commit_through_def Let_def try_bind_eq_Ok by blast
  have "commit_run (rev chain) parent gc gqc 0 co co'"
    by (rule commit_loop_run) (simp add: loop)
  then show ?thesis using commit_walk_Ok [OF walk] by auto
qed

section \<open>Applying a certificate\<close>

lemma note_certificate_Ok:
  assumes "note_certificate qc st = Ok st'"
  shows "st' = st\<lparr>
      st_certificates := (if bm_contains_key (st_certificates st) (qc_proposal_digest qc)
        then st_certificates st
        else bm_insert (qc_proposal_digest qc) qc (st_certificates st)),
      st_high_qc := (if qc_view qc > qc_view (st_high_qc st) then qc else st_high_qc st),
      st_current_view := max (st_current_view st) (qc_view qc + 1) \<rparr>"
    "unat (qc_view qc + 1) = Suc (unat (qc_view qc))"
  using assms
  by (auto simp: note_certificate_def Let_def result_simps checked_add_def unat_add_less split: if_splits)

lemma apply_certificate_cases:
  assumes "apply_certificate hs vf qc co = Ok co'"
  obtains (genesis) "verify_certificate hs vf qc = Ok ()" "qc_view qc = 0" "co' = co"
  | (unknown) st where "certified hs vf qc" "note_certificate qc (co_state co) = Ok st"
      "bm_get (st_known_proposals st) (qc_proposal_digest qc) = None" "co' = co\<lparr> co_state := st \<rparr>"
  | (locked) st block where "certified hs vf qc" "note_certificate qc (co_state co) = Ok st"
      "bm_get (st_known_proposals st) (qc_proposal_digest qc) = Some block"
      "p_view block = qc_view qc" "p_height block = qc_height qc"
      "co' = co\<lparr> co_state := lock_justify block st \<rparr>"
  | (committed) st block parent where "certified hs vf qc"
      "note_certificate qc (co_state co) = Ok st"
      "bm_get (st_known_proposals st) (qc_proposal_digest qc) = Some block"
      "p_view block = qc_view qc" "p_height block = qc_height qc"
      "bm_get (st_known_proposals (lock_justify block st)) (qc_proposal_digest (p_justify block)) =
        Some parent"
      "commit_through (qc_proposal_digest (p_justify parent)) parent block qc
        (co\<lparr> co_state := lock_justify block st \<rparr>) = Ok co'"
proof -
  have verified: "verify_certificate hs vf qc = Ok ()"
    using assms by (auto simp: apply_certificate_def result_simps)
  show thesis
  proof (cases "qc_view qc = 0")
    case True
    then show thesis using assms verified genesis by (simp add: apply_certificate_def)
  next
    case False
    then have cert: "certified hs vf qc" using verified by (simp add: certified_def)
    obtain st where st: "note_certificate qc (co_state co) = Ok st"
      using assms verified False by (auto simp: apply_certificate_def result_simps)
    show thesis
    proof (cases "bm_get (st_known_proposals st) (qc_proposal_digest qc)")
      case None
      then show thesis
        using assms verified False st unknown [OF cert st] by (simp add: apply_certificate_def)
    next
      case (Some block)
      have m: "p_view block = qc_view qc" "p_height block = qc_height qc"
        using assms verified False st Some
        by (auto simp: apply_certificate_def split: if_splits)
      show thesis
      proof (cases "bm_get (st_known_proposals (lock_justify block st))
          (qc_proposal_digest (p_justify block))")
        case None
        then show thesis
          using assms verified False st Some m locked [OF cert st Some m]
          by (simp add: apply_certificate_def)
      next
        case parent: (Some parent)
        let ?co = "co\<lparr> co_state := lock_justify block st \<rparr>"
        have "co' = ?co \<or>
            commit_through (qc_proposal_digest (p_justify parent)) parent block qc ?co = Ok co'"
          using assms verified False st Some m parent
          by (auto simp: apply_certificate_def Let_def split: if_split_asm)
        then show thesis using locked [OF cert st Some m] committed [OF cert st Some m parent] by blast
      qed
    qed
  qed
qed

section \<open>The invariant of the state\<close>

definition known_ok ::
  "sha_functions \<Rightarrow> chained_hotstuff \<Rightarrow> consensus_verifier \<Rightarrow>
   (digest32, consensus_proposal) btree_map \<Rightarrow> bool" where
  "known_ok sha hs vf m \<longleftrightarrow> bm_inv m \<and>
     (\<forall>(d, p) \<in> set m. validate_proposal hs vf p = Ok () \<and> proposal_digest sha hs p = Ok d)"

definition certificates_ok ::
  "chained_hotstuff \<Rightarrow> consensus_verifier \<Rightarrow> (digest32, quorum_certificate) btree_map \<Rightarrow> bool" where
  "certificates_ok hs vf m \<longleftrightarrow> bm_inv m \<and>
     (\<forall>(d, qc) \<in> set m. certified hs vf qc \<and> qc_proposal_digest qc = d)"

definition pending_votes_ok ::
  "chained_hotstuff \<Rightarrow> consensus_verifier \<Rightarrow>
   (digest32, (validator_id, consensus_vote) btree_map) btree_map \<Rightarrow> bool" where
  "pending_votes_ok hs vf m \<longleftrightarrow> bm_inv m \<and> (\<forall>(d, votes) \<in> set m. pending_ok hs vf d votes)"

definition observed_ok :: "chained_hotstuff \<Rightarrow> (validator_id \<times> u64, digest32) btree_map \<Rightarrow> bool" where
  "observed_ok hs m \<longleftrightarrow> bm_inv m \<and>
     (\<forall>(k, _) \<in> set m. fst k \<in> vs_members (hs_validator_set hs))"

definition views_ok :: "consensus_state \<Rightarrow> bool" where
  "views_ok st \<longleftrightarrow> qc_view (st_high_qc st) < st_current_view st \<and>
     st_last_voted_view st < st_current_view st \<and>
     (st_last_voted_view st = 0 \<longleftrightarrow> st_last_voted_digest st = None) \<and>
     qc_view (st_locked_qc st) \<le> qc_view (st_high_qc st)"

definition state_inv ::
  "sha_functions \<Rightarrow> chained_hotstuff \<Rightarrow> consensus_verifier \<Rightarrow> consensus_state \<Rightarrow> bool" where
  "state_inv sha hs vf st \<longleftrightarrow> views_ok st \<and>
     verify_certificate hs vf (st_high_qc st) = Ok () \<and>
     verify_certificate hs vf (st_locked_qc st) = Ok () \<and>
     known_ok sha hs vf (st_known_proposals st) \<and> certificates_ok hs vf (st_certificates st) \<and>
     pending_votes_ok hs vf (st_pending_votes st) \<and> observed_ok hs (st_observed_votes st) \<and>
     bm_inv (st_committed st) \<and> fst ` set (st_committed st) \<subseteq> fst ` set (st_known_proposals st)"

text \<open>What never decreases.\<close>

definition progress :: "consensus_state \<Rightarrow> consensus_state \<Rightarrow> bool" where
  "progress st st' \<longleftrightarrow> st_current_view st \<le> st_current_view st' \<and>
     qc_view (st_high_qc st) \<le> qc_view (st_high_qc st') \<and>
     qc_view (st_locked_qc st) \<le> qc_view (st_locked_qc st') \<and>
     st_committed_height st \<le> st_committed_height st' \<and>
     st_last_voted_view st \<le> st_last_voted_view st'"

lemma progress_refl [simp]: "progress st st"
  by (simp add: progress_def)

lemma progress_trans: "progress st st' \<Longrightarrow> progress st' st'' \<Longrightarrow> progress st st''"
  by (auto simp: progress_def)

lemma set_bm_insert_subset: "set (bm_insert k v m) \<subseteq> insert (k, v) (set m)"
  by (induction k v m rule: bm_insert.induct) auto

lemma set_bm_retain: "set (bm_retain P m) = {(k, v) \<in> set m. P k v}"
  by (auto simp: bm_retain_def)

lemma validate_proposal_Ok:
  assumes "validate_proposal hs vf p = Ok ()"
  shows "p_chain_id p = hs_chain_id hs" "p_protocol_version p = hs_protocol_version hs"
    "p_epoch p = hs_epoch hs" "p_view p \<noteq> 0" "p_height p \<noteq> 0"
    "length (p_transactions p) \<le> unat (cp_max_block_transactions (hs_parameters hs))"
    "leader (hs_validator_set hs) (p_view p) = Some (p_leader p)"
    "unat (p_height p) = Suc (unat (qc_height (p_justify p)))"
    "qc_view (p_justify p) < p_view p" "verify_certificate hs vf (p_justify p) = Ok ()"
  using assms
  by (auto simp: validate_proposal_def result_simps checked_add_Some_iff not_le split: if_splits)

lemma known_okD:
  assumes "known_ok sha hs vf m" "bm_get m d = Some p"
  shows "validate_proposal hs vf p = Ok ()" "proposal_digest sha hs p = Ok d"
  using assms bm_get_SomeD by (fastforce simp: known_ok_def)+

lemma known_ok_insert:
  assumes "known_ok sha hs vf m" "validate_proposal hs vf p = Ok ()" "proposal_digest sha hs p = Ok d"
  shows "known_ok sha hs vf (bm_insert d p m)"
  using assms set_bm_insert_subset [of d p m] by (auto simp: known_ok_def bm_inv_insert)

lemma certificates_ok_insert:
  assumes "certificates_ok hs vf m" "certified hs vf qc"
  shows "certificates_ok hs vf (bm_insert (qc_proposal_digest qc) qc m)"
  using assms set_bm_insert_subset [of "qc_proposal_digest qc" qc m]
  by (auto simp: certificates_ok_def bm_inv_insert)

lemma certificates_okD:
  "certificates_ok hs vf m \<Longrightarrow> bm_get m d = Some qc \<Longrightarrow> certified hs vf qc \<and> qc_proposal_digest qc = d"
  using bm_get_SomeD by (fastforce simp: certificates_ok_def)

lemma retain_ok:
  "known_ok sha hs vf km \<Longrightarrow> known_ok sha hs vf (bm_retain P km)"
  "certificates_ok hs vf cm \<Longrightarrow> certificates_ok hs vf (bm_retain Q cm)"
  "pending_votes_ok hs vf pm \<Longrightarrow> pending_votes_ok hs vf (bm_retain R pm)"
  "observed_ok hs om \<Longrightarrow> observed_ok hs (bm_retain S om)"
  by (auto simp: known_ok_def certificates_ok_def pending_votes_ok_def observed_ok_def
      bm_inv_retain set_bm_retain)

lemma note_certificate_inv:
  assumes inv: "state_inv sha hs vf st" and cert: "certified hs vf qc"
    and noted: "note_certificate qc st = Ok st'"
  shows "state_inv sha hs vf st'" "progress st st'" "qc_view qc \<le> qc_view (st_high_qc st')"
    "st_known_proposals st' = st_known_proposals st"
proof -
  note st' = note_certificate_Ok(1) [OF noted]
  have next_view: "qc_view qc < qc_view qc + 1"
    using note_certificate_Ok(2) [OF noted] by (simp add: word_less_nat_alt)
  have "verify_certificate hs vf qc = Ok ()" using cert by (simp add: certified_def)
  then show "state_inv sha hs vf st'"
    using inv cert next_view unfolding st' state_inv_def views_ok_def
    by (auto simp: certificates_ok_insert less_max_iff_disj not_less)
  show "progress st st'" "qc_view qc \<le> qc_view (st_high_qc st')"
    "st_known_proposals st' = st_known_proposals st"
    unfolding st' by (auto simp: progress_def)
qed

lemma lock_justify_inv:
  assumes inv: "state_inv sha hs vf st"
    and block: "bm_get (st_known_proposals st) d = Some block"
    and high: "p_view block \<le> qc_view (st_high_qc st)"
  shows "state_inv sha hs vf (lock_justify block st)" "progress st (lock_justify block st)"
    "st_known_proposals (lock_justify block st) = st_known_proposals st"
proof -
  have "known_ok sha hs vf (st_known_proposals st)" using inv by (simp add: state_inv_def)
  note p = validate_proposal_Ok [OF known_okD(1) [OF this block]]
  show "state_inv sha hs vf (lock_justify block st)" "progress st (lock_justify block st)"
    "st_known_proposals (lock_justify block st) = st_known_proposals st"
    using inv p(9,10) high
    by (auto simp: lock_justify_def state_inv_def views_ok_def progress_def)
qed

lemma commit_through_inv:
  assumes inv: "state_inv sha hs vf (co_state co)"
    and commit: "commit_through target parent gc gqc co = Ok co'"
  shows "state_inv sha hs vf (co_state co')" "progress (co_state co) (co_state co')"
    "only_commits co co'"
proof -
  from commit_through_run [OF commit] obtain new where
    new: "\<forall>(d, p) \<in> set new. bm_get (st_known_proposals (co_state co)) d = Some p \<and>
      st_committed_height (co_state co) < p_height p"
    and run: "commit_run (rev new) parent gc gqc 0 co co'" by blast
  show oc: "only_commits co co'" by (rule commit_run_only_commits [OF run])
  have keys: "fst ` set (rev new) \<subseteq> fst ` set (st_known_proposals (co_state co))"
    using new bm_get_SomeD by force
  have inv': "bm_inv (st_committed (co_state co))"
    "fst ` set (st_committed (co_state co)) \<subseteq> fst ` set (st_known_proposals (co_state co))"
    using inv by (auto simp: state_inv_def)
  have c: "bm_inv (st_committed (co_state co'))" by (rule commit_run_committed(1) [OF run inv'(1)])
  have sub: "fst ` set (st_committed (co_state co')) \<subseteq> fst ` set (st_known_proposals (co_state co))"
    using commit_run_committed(2) [OF run] inv'(2) keys by (meson Un_least order_trans)
  have "st_committed_height (co_state co) \<le> st_committed_height (co_state co')"
    using commit_run_blocks [OF run] by blast
  moreover obtain cs h bs prs where co': "co' = co\<lparr> co_state := (co_state co)\<lparr> st_committed := cs,
      st_committed_height := h \<rparr>, co_committed_blocks := co_committed_blocks co @ bs,
      co_committed_proofs := co_committed_proofs co @ prs \<rparr>"
    using oc unfolding only_commits_def by blast
  ultimately show "state_inv sha hs vf (co_state co')" "progress (co_state co) (co_state co')"
    using inv c sub unfolding co' by (simp_all add: state_inv_def views_ok_def progress_def)
qed

lemma apply_certificate_inv:
  assumes inv: "state_inv sha hs vf (co_state co)"
    and app: "apply_certificate hs vf qc co = Ok co'"
  shows "state_inv sha hs vf (co_state co') \<and> progress (co_state co) (co_state co') \<and>
    st_known_proposals (co_state co') = st_known_proposals (co_state co)"
  using app
proof (cases rule: apply_certificate_cases)
  case genesis
  then show ?thesis using inv by simp
next
  case (unknown st)
  then show ?thesis using note_certificate_inv [OF inv unknown(1,2)] by simp
next
  case (locked st block)
  note n = note_certificate_inv [OF inv locked(1,2)]
  note l = lock_justify_inv [OF n(1) locked(3)]
  show ?thesis using n l locked by (auto intro: progress_trans)
next
  case (committed st block parent)
  note n = note_certificate_inv [OF inv committed(1,2)]
  have hi: "p_view block \<le> qc_view (st_high_qc st)" using n(3) committed(4) by simp
  note l = lock_justify_inv [OF n(1) committed(3) hi]
  have "state_inv sha hs vf (co_state (co\<lparr> co_state := lock_justify block st \<rparr>))" using l(1) by simp
  note c = commit_through_inv [OF this committed(7)]
  have "st_known_proposals (co_state co') = st_known_proposals (lock_justify block st)"
    using c(3) by (auto simp: only_commits_def)
  then show ?thesis using n l c by (auto intro: progress_trans)
qed

section \<open>What a certificate leaves alone\<close>

lemma apply_certificate_frame:
  assumes "apply_certificate hs vf qc co = Ok co'"
  shows "co_outbound_messages co' = co_outbound_messages co \<and> co_view_advanced co' = co_view_advanced co \<and>
    st_last_voted_view (co_state co') = st_last_voted_view (co_state co) \<and>
    st_last_voted_digest (co_state co') = st_last_voted_digest (co_state co) \<and>
    st_known_proposals (co_state co') = st_known_proposals (co_state co) \<and>
    st_pending_votes (co_state co') = st_pending_votes (co_state co) \<and>
    st_observed_votes (co_state co') = st_observed_votes (co_state co)"
  using assms
proof (cases rule: apply_certificate_cases)
  case genesis
  then show ?thesis by simp
next
  case (unknown st)
  then show ?thesis using note_certificate_Ok(1) [OF unknown(2)] by simp
next
  case (locked st block)
  then show ?thesis using note_certificate_Ok(1) [OF locked(2)] by (simp add: lock_justify_def)
next
  case (committed st block parent)
  from commit_through_run [OF committed(7)] obtain new where
    "commit_run (rev new) parent block qc 0 (co\<lparr> co_state := lock_justify block st \<rparr>) co'" by blast
  from commit_run_only_commits [OF this] obtain c h bs prs where
    "co' = co\<lparr> co_state := (lock_justify block st)\<lparr> st_committed := c, st_committed_height := h \<rparr>,
      co_committed_blocks := co_committed_blocks co @ bs,
      co_committed_proofs := co_committed_proofs co @ prs \<rparr>"
    unfolding only_commits_def by auto
  then show ?thesis using note_certificate_Ok(1) [OF committed(2)] by (simp add: lock_justify_def)
qed

lemma form_and_apply_cases:
  assumes "form_and_apply hs vf d co = Ok co'"
  obtains (waiting) "try_form_certificate hs (co_state co) d = Ok None" "co' = co"
  | (formed) qc co1 where "try_form_certificate hs (co_state co) d = Ok (Some qc)"
      "apply_certificate hs vf qc co = Ok co1"
      "co' = co1\<lparr> co_outbound_messages := co_outbound_messages co1 @ [MsgCertificate qc] \<rparr>"
proof -
  obtain r where r: "try_form_certificate hs (co_state co) d = Ok r"
    using assms by (auto simp: form_and_apply_def try_bind_eq_Ok)
  show thesis
  proof (cases r)
    case None
    then have "co' = co" using assms r by (simp add: form_and_apply_def)
    then show thesis using r None waiting by blast
  next
    case (Some qc)
    then have "try_bind (apply_certificate hs vf qc co) (\<lambda>co.
        Ok (co\<lparr> co_outbound_messages := co_outbound_messages co @ [MsgCertificate qc] \<rparr>)) = Ok co'"
      using assms r by (simp add: form_and_apply_def)
    then obtain co1 where co1: "apply_certificate hs vf qc co = Ok co1"
      "Ok (co1\<lparr> co_outbound_messages := co_outbound_messages co1 @ [MsgCertificate qc] \<rparr>) =
        (Ok co' :: (consensus_error, consensus_output) result)"
      unfolding try_bind_eq_Ok by blast
    from co1(2) have
      "co' = co1\<lparr> co_outbound_messages := co_outbound_messages co1 @ [MsgCertificate qc] \<rparr>"
      by (metis result.inject(1))
    then show thesis using r co1(1) unfolding Some by (rule formed [rotated -1])
  qed
qed

lemma form_and_apply_inv:
  assumes inv: "state_inv sha hs vf (co_state co)" and app: "form_and_apply hs vf d co = Ok co'"
  shows "state_inv sha hs vf (co_state co') \<and> progress (co_state co) (co_state co')"
  using app
proof (cases rule: form_and_apply_cases)
  case waiting
  then show ?thesis using inv by simp
next
  case (formed qc co1)
  then show ?thesis using apply_certificate_inv [OF inv formed(2)] by simp
qed

section \<open>Processing votes\<close>

text \<open>The state in which a valid vote has been recorded.\<close>

definition observe_vote :: "consensus_vote \<Rightarrow> consensus_state \<Rightarrow> consensus_state" where
  "observe_vote v st =
     (if bm_contains_key (st_observed_votes st) (v_validator v, v_view v) then st
      else st\<lparr> st_observed_votes :=
        bm_insert (v_validator v, v_view v) (v_proposal_digest v) (st_observed_votes st) \<rparr>)"

definition pending_for :: "consensus_state \<Rightarrow> digest32 \<Rightarrow> (validator_id, consensus_vote) btree_map" where
  "pending_for st d = (case bm_get (st_pending_votes st) d of Some votes \<Rightarrow> votes | None \<Rightarrow> [])"

lemma process_vote_cases:
  assumes "process_vote hs vf v co = Ok co'"
  obtains (repeated) "validate_vote hs vf v = Ok ()"
      "bm_contains_key (pending_for (co_state co) (v_proposal_digest v)) (v_validator v)"
      "co' = co\<lparr> co_state := (observe_vote v (co_state co))\<lparr> st_pending_votes :=
        bm_insert (v_proposal_digest v) (pending_for (co_state co) (v_proposal_digest v))
          (st_pending_votes (co_state co)) \<rparr> \<rparr>"
  | (added) "validate_vote hs vf v = Ok ()"
      "\<not> bm_contains_key (pending_for (co_state co) (v_proposal_digest v)) (v_validator v)"
      "form_and_apply hs vf (v_proposal_digest v)
        (co\<lparr> co_state := (observe_vote v (co_state co))\<lparr> st_pending_votes :=
          bm_insert (v_proposal_digest v)
            (bm_insert (v_validator v) v (pending_for (co_state co) (v_proposal_digest v)))
            (st_pending_votes (co_state co)) \<rparr> \<rparr>) = Ok co'"
proof -
  let ?st = "co_state co" and ?k = "(v_validator v, v_view v)"
  have ok: "validate_vote hs vf v = Ok ()" using assms by (auto simp: process_vote_def try_bind_eq_Ok)
  have obs: "(case bm_get (st_observed_votes ?st) ?k of
      Some first \<Rightarrow> if first \<noteq> v_proposal_digest v
        then Err (Equivocation (v_validator v) (v_view v) first (v_proposal_digest v)) else Ok ?st
    | None \<Rightarrow> Ok (?st\<lparr> st_observed_votes := bm_insert ?k (v_proposal_digest v)
        (st_observed_votes ?st) \<rparr>)) = Ok st \<Longrightarrow> st = observe_vote v ?st" for st
    by (auto simp: observe_vote_def bm_contains_key_def split: option.splits if_splits)
  have pend: "st_pending_votes (observe_vote v ?st) = st_pending_votes ?st"
    by (simp add: observe_vote_def)
  let ?votes = "pending_for ?st (v_proposal_digest v)"
  let ?put = "\<lambda>votes. co\<lparr> co_state := (observe_vote v ?st)\<lparr> st_pending_votes :=
    bm_insert (v_proposal_digest v) votes (st_pending_votes ?st) \<rparr> \<rparr>"
  from assms obtain st where st: "st = observe_vote v ?st"
    and res: "(if bm_contains_key (pending_for st (v_proposal_digest v)) (v_validator v)
      then Ok (co\<lparr> co_state := st\<lparr> st_pending_votes := bm_insert (v_proposal_digest v)
        (pending_for st (v_proposal_digest v)) (st_pending_votes st) \<rparr> \<rparr>)
      else form_and_apply hs vf (v_proposal_digest v) (co\<lparr> co_state := st\<lparr> st_pending_votes :=
        bm_insert (v_proposal_digest v) (bm_insert (v_validator v) v
          (pending_for st (v_proposal_digest v))) (st_pending_votes st) \<rparr> \<rparr>)) = Ok co'"
    unfolding process_vote_def Let_def try_bind_eq_Ok pending_for_def using obs by blast
  have votes: "pending_for st (v_proposal_digest v) = ?votes" by (simp add: st pend pending_for_def)
  show thesis
  proof (cases "bm_contains_key ?votes (v_validator v)")
    case True
    then have "co' = ?put ?votes" using res by (simp add: votes) (simp add: st pend)
    then show thesis using repeated [OF ok True] by simp
  next
    case False
    then have "form_and_apply hs vf (v_proposal_digest v) (?put (bm_insert (v_validator v) v ?votes)) = Ok co'"
      using res by (simp add: votes) (simp add: st pend)
    then show thesis by (rule added [OF ok False])
  qed
qed

lemma pending_votes_ok_get:
  "pending_votes_ok hs vf (st_pending_votes st) \<Longrightarrow> pending_ok hs vf d (pending_for st d)"
  using bm_get_SomeD [of "st_pending_votes st" d]
  by (fastforce simp: pending_votes_ok_def pending_for_def pending_ok_def bm_inv_def split: option.splits)

lemma pending_ok_insert:
  assumes "pending_ok hs vf d votes" "validate_vote hs vf v = Ok ()" "v_proposal_digest v = d"
  shows "pending_ok hs vf d (bm_insert (v_validator v) v votes)"
  using assms set_bm_insert_subset [of "v_validator v" v votes]
  by (auto simp: pending_ok_def bm_inv_insert)

lemma pending_votes_ok_insert:
  "pending_votes_ok hs vf m \<Longrightarrow> pending_ok hs vf d votes \<Longrightarrow> pending_votes_ok hs vf (bm_insert d votes m)"
  using set_bm_insert_subset [of d votes m] by (auto simp: pending_votes_ok_def bm_inv_insert)

lemma observe_vote_ok:
  assumes "observed_ok hs (st_observed_votes st)" "v_validator v \<in> vs_members (hs_validator_set hs)"
  shows "observed_ok hs (st_observed_votes (observe_vote v st))"
  using assms set_bm_insert_subset [of "(v_validator v, v_view v)" "v_proposal_digest v" "st_observed_votes st"]
  by (auto simp: observe_vote_def observed_ok_def bm_inv_insert)

lemma record_pending_inv:
  assumes inv: "state_inv sha hs vf st" and vs: "validator_set_inv (hs_validator_set hs)"
    and v: "validate_vote hs vf v = Ok ()" and votes: "pending_ok hs vf d votes"
  shows "state_inv sha hs vf ((observe_vote v st)\<lparr> st_pending_votes :=
      bm_insert d votes (st_pending_votes st) \<rparr>)"
    "progress st ((observe_vote v st)\<lparr> st_pending_votes := bm_insert d votes (st_pending_votes st) \<rparr>)"
proof -
  have "observed_ok hs (st_observed_votes (observe_vote v st))"
    using inv validate_vote_member [OF vs v] by (intro observe_vote_ok) (simp_all add: state_inv_def)
  moreover have "pending_votes_ok hs vf (bm_insert d votes (st_pending_votes st))"
    using inv votes by (intro pending_votes_ok_insert) (simp_all add: state_inv_def)
  ultimately show "state_inv sha hs vf ((observe_vote v st)\<lparr> st_pending_votes :=
      bm_insert d votes (st_pending_votes st) \<rparr>)"
    using inv by (simp add: state_inv_def views_ok_def observe_vote_def)
  show "progress st ((observe_vote v st)\<lparr> st_pending_votes := bm_insert d votes (st_pending_votes st) \<rparr>)"
    by (simp add: progress_def observe_vote_def)
qed

lemma process_vote_inv:
  assumes inv: "state_inv sha hs vf (co_state co)" and vs: "validator_set_inv (hs_validator_set hs)"
    and step: "process_vote hs vf v co = Ok co'"
  shows "state_inv sha hs vf (co_state co') \<and> progress (co_state co) (co_state co')"
proof -
  have pend: "pending_ok hs vf (v_proposal_digest v) (pending_for (co_state co) (v_proposal_digest v))"
    using inv by (intro pending_votes_ok_get) (simp add: state_inv_def)
  from step show ?thesis
  proof (cases rule: process_vote_cases)
    case repeated
    then show ?thesis using record_pending_inv [OF inv vs repeated(1) pend] by simp
  next
    case added
    have pend': "pending_ok hs vf (v_proposal_digest v)
        (bm_insert (v_validator v) v (pending_for (co_state co) (v_proposal_digest v)))"
      by (rule pending_ok_insert [OF pend added(1) refl])
    note r = record_pending_inv [OF inv vs added(1) pend']
    show ?thesis
      using form_and_apply_inv [OF _ added(3)] r by (auto intro: progress_trans)
  qed
qed

section \<open>Processing proposals\<close>

lemma process_proposal_cases:
  assumes "process_proposal sha hs sg vf p co = Ok co'"
  obtains (certified) d qc co1 where "validate_proposal hs vf p = Ok ()"
      "proposal_digest sha hs p = Ok d" "bm_get (st_certificates (co_state co)) d = Some qc"
      "apply_certificate hs vf (p_justify p) (remember_proposal d p co) = Ok co1"
      "apply_certificate hs vf qc co1 = Ok co'"
  | (repeated) d where "validate_proposal hs vf p = Ok ()" "proposal_digest sha hs p = Ok d"
      "st_last_voted_view (co_state co) = p_view p"
      "st_last_voted_digest (co_state co) = Some d" "co' = co"
  | (voted) d co1 vote next_view where "validate_proposal hs vf p = Ok ()"
      "proposal_digest sha hs p = Ok d" "st_last_voted_view (co_state co) < p_view p"
      "st_current_view (co_state co) \<le> p_view p"
      "p_view p \<le> saturating_add (st_current_view (co_state co)) MAX_FUTURE_VIEW_GAP"
      "safe_to_vote (co_state co) p = Ok True"
      "apply_certificate hs vf (p_justify p) (remember_proposal d p co) = Ok co1"
      "sign_vote hs sg p d = Ok vote" "unat next_view = Suc (unat (p_view p))"
      "form_and_apply hs vf d (record_vote p d next_view vote co1) = Ok co'"
proof -
  let ?st = "co_state co"
  obtain d where d: "validate_proposal hs vf p = Ok ()" "proposal_digest sha hs p = Ok d"
    using assms by (auto simp: process_proposal_def try_bind_eq_Ok)
  show thesis
  proof (cases "bm_get (st_certificates ?st) d")
    case (Some qc)
    then have "try_bind (apply_certificate hs vf (p_justify p) (remember_proposal d p co))
        (apply_certificate hs vf qc) = Ok co'"
      using assms d by (simp add: process_proposal_def Let_def)
    then show thesis using certified [OF d Some] unfolding try_bind_eq_Ok by blast
  next
    case None
    show thesis
    proof (cases "p_view p \<le> st_last_voted_view ?st")
      case True
      then have "st_last_voted_view ?st = p_view p \<and> st_last_voted_digest ?st = Some d \<and> co' = co"
        using assms d None by (auto simp: process_proposal_def Let_def split: if_splits)
      then show thesis using repeated [OF d] by blast
    next
      case False
      from assms d None False obtain co1 vote next_view where
        *: "\<not> p_view p < st_current_view ?st"
        "ensure_bounded_future_view (st_current_view ?st) (p_view p) = Ok ()"
        "safe_to_vote ?st p = Ok True"
        "apply_certificate hs vf (p_justify p) (remember_proposal d p co) = Ok co1"
        "sign_vote hs sg p d = Ok vote" "checked_add (p_view p) 1 = Some next_view"
        "form_and_apply hs vf d (record_vote p d next_view vote co1) = Ok co'"
        by (auto simp: process_proposal_def Let_def try_bind_eq_Ok ok_or_eq_Ok split: if_split_asm)
      then show thesis
        using voted [OF d _ _ _ *(3,4,5) _ *(7)] False
        by (simp add: ensure_bounded_future_view_Ok_iff checked_add_Some_iff not_less not_le)
    qed
  qed
qed

lemma remember_proposal_inv:
  assumes "state_inv sha hs vf (co_state co)" "validate_proposal hs vf p = Ok ()"
    "proposal_digest sha hs p = Ok d"
  shows "state_inv sha hs vf (co_state (remember_proposal d p co))"
    "progress (co_state co) (co_state (remember_proposal d p co))"
proof -
  have "known_ok sha hs vf (bm_insert d p (st_known_proposals (co_state co)))"
    using assms by (intro known_ok_insert) (simp_all add: state_inv_def)
  moreover have "fst ` set (st_committed (co_state co)) \<subseteq>
      fst ` set (bm_insert d p (st_known_proposals (co_state co)))"
    using assms(1) unfolding state_inv_def set_bm_insert_keys by blast
  ultimately show "state_inv sha hs vf (co_state (remember_proposal d p co))"
    using assms(1) by (simp add: state_inv_def views_ok_def remember_proposal_def)
  show "progress (co_state co) (co_state (remember_proposal d p co))"
    by (simp add: remember_proposal_def progress_def)
qed

lemma record_vote_inv:
  assumes inv: "state_inv sha hs vf (co_state co)" and view: "unat next_view = Suc (unat (p_view p))"
    and "st_last_voted_view (co_state co) < p_view p"
  shows "state_inv sha hs vf (co_state (record_vote p d next_view vote co))"
    "progress (co_state co) (co_state (record_vote p d next_view vote co))"
proof -
  have lt: "p_view p < next_view" using view by (simp add: word_less_nat_alt)
  have nz: "p_view p \<noteq> 0" using assms(3) by auto
  have "qc_view (st_high_qc (co_state co)) < max (st_current_view (co_state co)) next_view"
    "p_view p < max (st_current_view (co_state co)) next_view"
    using inv lt by (auto simp: state_inv_def views_ok_def less_max_iff_disj)
  then show "state_inv sha hs vf (co_state (record_vote p d next_view vote co))"
    using inv nz by (simp add: state_inv_def views_ok_def record_vote_def)
  show "progress (co_state co) (co_state (record_vote p d next_view vote co))"
    using assms(3) by (simp add: record_vote_def progress_def)
qed

lemma process_proposal_inv:
  assumes inv: "state_inv sha hs vf (co_state co)"
    and step: "process_proposal sha hs sg vf p co = Ok co'"
  shows "state_inv sha hs vf (co_state co') \<and> progress (co_state co) (co_state co')"
  using step
proof (cases rule: process_proposal_cases)
  case (certified d qc co1)
  note r = remember_proposal_inv [OF inv certified(1,2)]
  note a = apply_certificate_inv [OF r(1) certified(4)]
  note b = apply_certificate_inv [OF conjunct1 [OF a] certified(5)]
  show ?thesis using r a b by (blast intro: progress_trans)
next
  case (repeated d)
  then show ?thesis using inv by simp
next
  case (voted d co1 vote next_view)
  note r = remember_proposal_inv [OF inv voted(1,2)]
  note a = apply_certificate_inv [OF r(1) voted(7)]
  have "st_last_voted_view (co_state co1) = st_last_voted_view (co_state co)"
    using apply_certificate_frame [OF voted(7)] by (simp add: remember_proposal_def)
  then have "st_last_voted_view (co_state co1) < p_view p" using voted(3) by simp
  note v = record_vote_inv [OF conjunct1 [OF a] voted(9) this]
  note f = form_and_apply_inv [OF v(1) voted(10)]
  show ?thesis using r a v f by (blast intro: progress_trans)
qed

section \<open>Ticks, pruning and whole events\<close>

lemma process_tick_Ok:
  assumes "process_tick hs now co = Ok co'"
  shows "co' = co \<or> (\<exists>next_view deadline. unat next_view = Suc (unat (st_current_view (co_state co))) \<and>
    st_view_deadline_unix_millis (co_state co) \<le> now \<and>
    unat deadline = unat now + unat (cp_view_timeout_millis (hs_parameters hs)) \<and>
    co' = co\<lparr> co_state := (co_state co)\<lparr> st_current_view := next_view,
      st_view_deadline_unix_millis := deadline \<rparr>, co_view_advanced := True \<rparr>)"
  using assms
  by (auto simp: process_tick_def Let_def try_bind_eq_Ok ok_or_eq_Ok checked_add_Some_iff
      split: if_split_asm)

lemma process_tick_inv:
  assumes "state_inv sha hs vf (co_state co)" "process_tick hs now co = Ok co'"
  shows "state_inv sha hs vf (co_state co') \<and> progress (co_state co) (co_state co')"
  using process_tick_Ok [OF assms(2)]
proof
  assume "co' = co"
  then show ?thesis using assms(1) by simp
next
  assume "\<exists>next_view deadline. unat next_view = Suc (unat (st_current_view (co_state co))) \<and>
    st_view_deadline_unix_millis (co_state co) \<le> now \<and>
    unat deadline = unat now + unat (cp_view_timeout_millis (hs_parameters hs)) \<and>
    co' = co\<lparr> co_state := (co_state co)\<lparr> st_current_view := next_view,
      st_view_deadline_unix_millis := deadline \<rparr>, co_view_advanced := True \<rparr>"
  then obtain next_view deadline where
    "unat next_view = Suc (unat (st_current_view (co_state co)))"
    and co': "co' = co\<lparr> co_state := (co_state co)\<lparr> st_current_view := next_view,
      st_view_deadline_unix_millis := deadline \<rparr>, co_view_advanced := True \<rparr>" by blast
  then have "st_current_view (co_state co) < next_view" by (simp add: word_less_nat_alt)
  then show ?thesis
    using assms(1) unfolding co'
    by (simp add: state_inv_def views_ok_def progress_def) (meson less_imp_le less_trans)
qed

lemma prune_state_sel [simp]:
  "st_current_view (prune_state st) = st_current_view st"
  "st_view_deadline_unix_millis (prune_state st) = st_view_deadline_unix_millis st"
  "st_last_voted_view (prune_state st) = st_last_voted_view st"
  "st_last_voted_digest (prune_state st) = st_last_voted_digest st"
  "st_high_qc (prune_state st) = st_high_qc st" "st_locked_qc (prune_state st) = st_locked_qc st"
  "st_committed_height (prune_state st) = st_committed_height st"
  by (simp_all add: prune_state_def Let_def)

lemma prune_state_inv:
  assumes "state_inv sha hs vf st"
  shows "state_inv sha hs vf (prune_state st)" "progress st (prune_state st)"
proof -
  have "fst ` set (st_committed (prune_state st)) \<subseteq> fst ` set (st_known_proposals (prune_state st))"
  proof -
    have "st_committed (prune_state st) =
        bm_retain (\<lambda>d _. bm_contains_key (st_known_proposals (prune_state st)) d) (st_committed st)"
      by (simp add: prune_state_def Let_def)
    then show ?thesis by (metis (no_types, lifting) bm_contains_key_iff case_prodD image_subsetI
          mem_Collect_eq prod.collapse set_bm_retain)
  qed
  moreover have "bm_inv (st_committed (prune_state st))"
    "known_ok sha hs vf (st_known_proposals (prune_state st))"
    "certificates_ok hs vf (st_certificates (prune_state st))"
    "pending_votes_ok hs vf (st_pending_votes (prune_state st))"
    "observed_ok hs (st_observed_votes (prune_state st))"
    using assms by (simp_all add: state_inv_def prune_state_def Let_def retain_ok bm_inv_retain)
  ultimately show "state_inv sha hs vf (prune_state st)"
    using assms by (simp add: state_inv_def views_ok_def)
  show "progress st (prune_state st)" by (simp add: progress_def)
qed

lemma on_event_cases:
  assumes "on_event sha hs st event sg vf = Ok out"
  obtains co where "out = co\<lparr> co_state := prune_state (co_state co) \<rparr>"
    "(case event of
        EvProposal p \<Rightarrow> process_proposal sha hs sg vf p (output_of st)
      | EvVote v \<Rightarrow> process_vote hs vf v (output_of st)
      | EvCertificate qc \<Rightarrow> apply_certificate hs vf qc (output_of st)
      | EvTick now \<Rightarrow> process_tick hs now (output_of st)) = Ok co"
proof -
  from assms obtain co where "(case event of
        EvProposal p \<Rightarrow> process_proposal sha hs sg vf p (output_of st)
      | EvVote v \<Rightarrow> process_vote hs vf v (output_of st)
      | EvCertificate qc \<Rightarrow> apply_certificate hs vf qc (output_of st)
      | EvTick now \<Rightarrow> process_tick hs now (output_of st)) = Ok co"
    "Ok (co\<lparr> co_state := prune_state (co_state co) \<rparr>) =
      (Ok out :: (consensus_error, consensus_output) result)"
    unfolding on_event_def Let_def try_bind_eq_Ok by blast
  then show thesis using that by (metis result.inject(1))
qed

lemma output_of_sel [simp]: "co_state (output_of st) = st" "co_outbound_messages (output_of st) = []"
  "co_committed_blocks (output_of st) = []" "co_committed_proofs (output_of st) = []"
  by (simp_all add: output_of_def)

lemma on_event_inv:
  assumes inv: "state_inv sha hs vf st" and vs: "validator_set_inv (hs_validator_set hs)"
    and step: "on_event sha hs st event sg vf = Ok out"
  shows "state_inv sha hs vf (co_state out) \<and> progress st (co_state out)"
  using step
proof (rule on_event_cases)
  fix co assume out: "out = co\<lparr> co_state := prune_state (co_state co) \<rparr>"
    and res: "(case event of
        EvProposal p \<Rightarrow> process_proposal sha hs sg vf p (output_of st)
      | EvVote v \<Rightarrow> process_vote hs vf v (output_of st)
      | EvCertificate qc \<Rightarrow> apply_certificate hs vf qc (output_of st)
      | EvTick now \<Rightarrow> process_tick hs now (output_of st)) = Ok co"
  have inv': "state_inv sha hs vf (co_state (output_of st))" using inv by simp
  have "state_inv sha hs vf (co_state co) \<and> progress st (co_state co)"
  proof (cases event)
    case (EvProposal p)
    then show ?thesis using res process_proposal_inv [OF inv', of sg p co] by simp
  next
    case (EvVote v)
    then show ?thesis using res process_vote_inv [OF inv' vs, of v co] by simp
  next
    case (EvCertificate qc)
    then show ?thesis using res apply_certificate_inv [OF inv', of qc co] by simp
  next
    case (EvTick now)
    then show ?thesis using res process_tick_inv [OF inv', of now co] by simp
  qed
  then show ?thesis using prune_state_inv progress_trans unfolding out by fastforce
qed

lemma genesis_state_inv:
  assumes "validator_set_inv (hs_validator_set hs)"
  shows "state_inv sha hs vf (genesis_state hs now)"
proof -
  have "verify_certificate hs vf (quorum_certificate_genesis (hs_chain_id hs) (hs_protocol_version hs)
      (hs_epoch hs) (hs_genesis_block hs)) = Ok ()"
    by (simp add: verify_certificate_Ok_iff [OF assms] genesis_anchor_def quorum_certificate_genesis_def)
  then show ?thesis
    by (simp add: state_inv_def genesis_state_def Let_def views_ok_def quorum_certificate_genesis_def
        known_ok_def certificates_ok_def pending_votes_ok_def observed_ok_def bm_inv_def)
qed

end
