(* ===== verification/HotStuff_Runs.thy ===== *)
theory HotStuff_Runs
  imports HotStuff_Invariants
begin

text \<open>
  Runs of the chained-HotStuff machine: any sequence of events delivered to one validator, with the
  state persisted after each success and kept after each error. The properties of votes, locks and
  commits hold for every sequence, whoever sent it.
\<close>

section \<open>Runs\<close>

fun run_events ::
  "sha_functions \<Rightarrow> chained_hotstuff \<Rightarrow> consensus_signer \<Rightarrow> consensus_verifier \<Rightarrow> consensus_state \<Rightarrow>
   consensus_event list \<Rightarrow> consensus_output list \<times> consensus_state" where
  "run_events sha hs sg vf st [] = ([], st)"
| "run_events sha hs sg vf st (e # es) =
     (case on_event sha hs st e sg vf of
        Ok out \<Rightarrow> (case run_events sha hs sg vf (co_state out) es of (outs, st') \<Rightarrow> (out # outs, st'))
      | _ \<Rightarrow> run_events sha hs sg vf st es)"

definition votes_of :: "consensus_message list \<Rightarrow> consensus_vote list" where
  "votes_of ms = concat (map (\<lambda>m. case m of MsgVote v \<Rightarrow> [v] | _ \<Rightarrow> []) ms)"

definition run_votes :: "consensus_output list \<Rightarrow> consensus_vote list" where
  "run_votes outs = concat (map (\<lambda>out. votes_of (co_outbound_messages out)) outs)"

definition run_blocks :: "consensus_output list \<Rightarrow> committed_block list" where
  "run_blocks outs = concat (map co_committed_blocks outs)"

lemma votes_of_simps [simp]:
  "votes_of [] = []" "votes_of (xs @ ys) = votes_of xs @ votes_of ys" "votes_of [MsgVote v] = [v]"
  "votes_of [MsgCertificate qc] = []"
  by (simp_all add: votes_of_def)

lemma run_simps [simp]:
  "run_votes [] = []" "run_votes (out # outs) = votes_of (co_outbound_messages out) @ run_votes outs"
  "run_blocks [] = []" "run_blocks (out # outs) = co_committed_blocks out @ run_blocks outs"
  by (simp_all add: run_votes_def run_blocks_def)

text \<open>Induction over a run that keeps only the successful steps.\<close>

lemma run_induct [consumes 1, case_names halt step]:
  assumes "run_events sha hs sg vf st es = (outs, st')"
    and "\<And>st. P st [] st"
    and "\<And>st e out outs st'. on_event sha hs st e sg vf = Ok out \<Longrightarrow> P (co_state out) outs st' \<Longrightarrow>
      P st (out # outs) st'"
  shows "P st outs st'"
  using assms(1)
proof (induction es arbitrary: st outs)
  case Nil
  then show ?case using assms(2) by simp
next
  case (Cons e es)
  show ?case
  proof (cases "on_event sha hs st e sg vf")
    case (Ok out)
    obtain outs' st'' where r: "run_events sha hs sg vf (co_state out) es = (outs', st'')" by fastforce
    then have "outs = out # outs'" "st'' = st'" using Cons.prems Ok by auto
    then show ?thesis using Cons.IH r assms(3) [OF Ok] by blast
  qed (use Cons in simp_all)
qed

lemma run_inv:
  assumes "run_events sha hs sg vf st es = (outs, st')"
    and "validator_set_inv (hs_validator_set hs)" "state_inv sha hs vf st"
  shows "state_inv sha hs vf st' \<and> progress st st'"
  using assms(1,3)
proof (induction rule: run_induct)
  case (halt st)
  then show ?case by simp
next
  case (step st e out outs st')
  then show ?case using on_event_inv [OF step.prems assms(2) step.hyps(1)] by (blast intro: progress_trans)
qed

section \<open>Votes\<close>

text \<open>Messages other than a vote may be sent; \<open>no_vote\<close> says that none was and none is recorded.\<close>

definition no_vote :: "consensus_output \<Rightarrow> consensus_output \<Rightarrow> bool" where
  "no_vote co co' \<longleftrightarrow> votes_of (co_outbound_messages co') = votes_of (co_outbound_messages co) \<and>
     st_last_voted_view (co_state co') = st_last_voted_view (co_state co) \<and>
     st_last_voted_digest (co_state co') = st_last_voted_digest (co_state co)"

lemma no_vote_trans: "no_vote co co' \<Longrightarrow> no_vote co' co'' \<Longrightarrow> no_vote co co''"
  by (simp add: no_vote_def)

lemma apply_certificate_no_vote: "apply_certificate hs vf qc co = Ok co' \<Longrightarrow> no_vote co co'"
  using apply_certificate_frame by (simp add: no_vote_def)

lemma form_and_apply_no_vote:
  assumes "form_and_apply hs vf d co = Ok co'"
  shows "no_vote co co'"
  using assms
proof (cases rule: form_and_apply_cases)
  case waiting
  then show ?thesis by (simp add: no_vote_def)
next
  case (formed qc co1)
  then show ?thesis using apply_certificate_no_vote [OF formed(2)] by (simp add: no_vote_def)
qed

lemma process_vote_no_vote:
  assumes "process_vote hs vf v co = Ok co'"
  shows "no_vote co co'"
  using assms
proof (cases rule: process_vote_cases)
  case repeated
  then show ?thesis by (simp add: no_vote_def observe_vote_def)
next
  case added
  then show ?thesis using form_and_apply_no_vote [OF added(3)] by (simp add: no_vote_def observe_vote_def)
qed

lemma process_tick_no_vote: "process_tick hs now co = Ok co' \<Longrightarrow> no_vote co co'"
  using process_tick_Ok [of hs now co co'] by (auto simp: no_vote_def)

text \<open>The only event that makes a validator vote is a fresh, safe, valid proposal.\<close>

definition casts_vote ::
  "sha_functions \<Rightarrow> chained_hotstuff \<Rightarrow> consensus_signer \<Rightarrow> consensus_verifier \<Rightarrow> consensus_state \<Rightarrow>
   consensus_event \<Rightarrow> consensus_vote \<Rightarrow> bool" where
  "casts_vote sha hs sg vf st event v \<longleftrightarrow>
     (\<exists>p d. event = EvProposal p \<and> validate_proposal hs vf p = Ok () \<and>
        proposal_digest sha hs p = Ok d \<and> sign_vote hs sg p d = Ok v \<and>
        st_last_voted_view st < p_view p \<and> st_current_view st \<le> p_view p \<and>
        safe_to_vote st p = Ok True)"

lemma sign_vote_Ok:
  assumes "sign_vote hs sg p d = Ok v"
  shows "v_view v = p_view p" "v_height v = p_height p" "v_proposal_digest v = d"
    "v_validator v = sg_validator_id sg" "v_signature_scheme v = sg_signature_scheme sg"
    "v_chain_id v = hs_chain_id hs" "v_protocol_version v = hs_protocol_version hs"
    "v_epoch v = hs_epoch hs"
  using assms by (auto simp: sign_vote_def Let_def try_bind_eq_Ok)

lemma process_proposal_votes:
  assumes "process_proposal sha hs sg vf p co = Ok co'"
  shows "no_vote co co' \<or>
    (\<exists>v. casts_vote sha hs sg vf (co_state co) (EvProposal p) v \<and>
      votes_of (co_outbound_messages co') = votes_of (co_outbound_messages co) @ [v] \<and>
      st_last_voted_view (co_state co') = v_view v \<and>
      st_last_voted_digest (co_state co') = Some (v_proposal_digest v))"
  using assms
proof (cases rule: process_proposal_cases)
  case (certified d qc co1)
  have "no_vote co (remember_proposal d p co)" by (simp add: no_vote_def remember_proposal_def)
  then show ?thesis
    using apply_certificate_no_vote [OF certified(4)] apply_certificate_no_vote [OF certified(5)]
    by (blast intro: no_vote_trans)
next
  case (repeated d)
  then show ?thesis by (simp add: no_vote_def)
next
  case (voted d co1 vote next_view)
  have "no_vote co (remember_proposal d p co)" by (simp add: no_vote_def remember_proposal_def)
  with apply_certificate_no_vote [OF voted(7)] have "no_vote co co1" by (blast intro: no_vote_trans)
  moreover note f = form_and_apply_no_vote [OF voted(10)]
  moreover have "casts_vote sha hs sg vf (co_state co) (EvProposal p) vote"
    using voted by (auto simp: casts_vote_def)
  ultimately show ?thesis
    using sign_vote_Ok [OF voted(8)]
    by (intro disjI2 exI [of _ vote]) (simp add: no_vote_def record_vote_def)
qed

lemma on_event_votes:
  assumes "on_event sha hs st event sg vf = Ok out"
  shows "(votes_of (co_outbound_messages out) = [] \<and>
      st_last_voted_view (co_state out) = st_last_voted_view st \<and>
      st_last_voted_digest (co_state out) = st_last_voted_digest st) \<or>
    (\<exists>v. casts_vote sha hs sg vf st event v \<and> votes_of (co_outbound_messages out) = [v] \<and>
      st_last_voted_view (co_state out) = v_view v \<and>
      st_last_voted_digest (co_state out) = Some (v_proposal_digest v))"
  using assms
proof (rule on_event_cases)
  fix co assume out: "out = co\<lparr> co_state := prune_state (co_state co) \<rparr>"
    and res: "(case event of
        EvProposal p \<Rightarrow> process_proposal sha hs sg vf p (output_of st)
      | EvVote v \<Rightarrow> process_vote hs vf v (output_of st)
      | EvCertificate qc \<Rightarrow> apply_certificate hs vf qc (output_of st)
      | EvTick now \<Rightarrow> process_tick hs now (output_of st)) = Ok co"
  show ?thesis
  proof (cases event)
    case (EvProposal p)
    then show ?thesis using res process_proposal_votes [of sha hs sg vf p "output_of st" co]
      by (auto simp: out no_vote_def)
  next
    case (EvVote v)
    then show ?thesis using res process_vote_no_vote [of hs vf v "output_of st" co]
      by (simp add: out no_vote_def)
  next
    case (EvCertificate qc)
    then show ?thesis using res apply_certificate_no_vote [of hs vf qc "output_of st" co]
      by (simp add: out no_vote_def)
  next
    case (EvTick now)
    then show ?thesis using res process_tick_no_vote [of hs now "output_of st" co]
      by (simp add: out no_vote_def)
  qed
qed

lemma casts_vote_view:
  assumes "casts_vote sha hs sg vf st event v"
  shows "st_last_voted_view st < v_view v" "v_validator v = sg_validator_id sg"
  using assms sign_vote_Ok by (auto simp: casts_vote_def)

lemma run_votes_sorted:
  assumes "run_events sha hs sg vf st es = (outs, st')"
  shows "sorted_wrt (<) (st_last_voted_view st # map v_view (run_votes outs)) \<and>
    last (st_last_voted_view st # map v_view (run_votes outs)) = st_last_voted_view st' \<and>
    list_all (\<lambda>v. v_validator v = sg_validator_id sg) (run_votes outs)"
  using assms
proof (induction rule: run_induct)
  case (halt st)
  then show ?case by simp
next
  case (step st e out outs st')
  from on_event_votes [OF step.hyps(1)] show ?case
  proof
    assume "votes_of (co_outbound_messages out) = [] \<and>
      st_last_voted_view (co_state out) = st_last_voted_view st \<and>
      st_last_voted_digest (co_state out) = st_last_voted_digest st"
    then show ?thesis using step.IH by simp
  next
    assume "\<exists>v. casts_vote sha hs sg vf st e v \<and> votes_of (co_outbound_messages out) = [v] \<and>
      st_last_voted_view (co_state out) = v_view v \<and>
      st_last_voted_digest (co_state out) = Some (v_proposal_digest v)"
    then obtain v where v: "casts_vote sha hs sg vf st e v"
      "votes_of (co_outbound_messages out) = [v]" "st_last_voted_view (co_state out) = v_view v"
      by blast
    show ?thesis using step.IH casts_vote_view [OF v(1)] v(2,3) by (auto intro: less_trans)
  qed
qed

section \<open>Commits\<close>

lemma upt_join: "i \<le> j \<Longrightarrow> j \<le> k \<Longrightarrow> [i..<k] = [i..<j] @ [j..<k]"
  using upt_add_eq_append [of i j "k - j"] by simp

text \<open>A transition that appends blocks of consecutive heights from the last committed one.\<close>

definition commits_extend :: "consensus_output \<Rightarrow> consensus_output \<Rightarrow> bool" where
  "commits_extend co co' \<longleftrightarrow>
     (\<exists>bs. co_committed_blocks co' = co_committed_blocks co @ bs \<and>
        map (\<lambda>b. unat (cb_height b)) bs = [Suc (unat (st_committed_height (co_state co)))..<
          Suc (unat (st_committed_height (co_state co')))] \<and>
        st_committed_height (co_state co) \<le> st_committed_height (co_state co'))"

lemma commits_extend_same:
  "co_committed_blocks co' = co_committed_blocks co \<Longrightarrow>
   st_committed_height (co_state co') = st_committed_height (co_state co) \<Longrightarrow> commits_extend co co'"
  by (simp add: commits_extend_def)

lemma commits_extend_trans:
  assumes "commits_extend co co'" "commits_extend co' co''"
  shows "commits_extend co co''"
proof -
  from assms obtain bs bs' where b: "co_committed_blocks co'' = co_committed_blocks co @ bs @ bs'"
    "map (\<lambda>b. unat (cb_height b)) (bs @ bs') =
      [Suc (unat (st_committed_height (co_state co)))..<Suc (unat (st_committed_height (co_state co')))] @
      [Suc (unat (st_committed_height (co_state co')))..<Suc (unat (st_committed_height (co_state co'')))]"
    "st_committed_height (co_state co) \<le> st_committed_height (co_state co')"
    "st_committed_height (co_state co') \<le> st_committed_height (co_state co'')"
    unfolding commits_extend_def by (auto simp del: upt_Suc)
  have "unat (st_committed_height (co_state co)) \<le> unat (st_committed_height (co_state co'))"
    "unat (st_committed_height (co_state co')) \<le> unat (st_committed_height (co_state co''))"
    using b(3,4) by (simp_all add: word_le_nat_alt)
  note join = upt_join [of "Suc (unat (st_committed_height (co_state co)))"
      "Suc (unat (st_committed_height (co_state co')))" "Suc (unat (st_committed_height (co_state co'')))",
      OF Suc_le_mono [THEN iffD2, OF this(1)] Suc_le_mono [THEN iffD2, OF this(2)]]
  show ?thesis unfolding commits_extend_def
    using b by (intro exI [of _ "bs @ bs'"]) (simp add: join del: upt_Suc)
qed

lemma apply_certificate_commits:
  assumes "apply_certificate hs vf qc co = Ok co'"
  shows "commits_extend co co'"
  using assms
proof (cases rule: apply_certificate_cases)
  case genesis
  then show ?thesis by (simp add: commits_extend_same)
next
  case (unknown st)
  then show ?thesis using note_certificate_Ok(1) [OF unknown(2)] by (simp add: commits_extend_same)
next
  case (locked st block)
  then show ?thesis using note_certificate_Ok(1) [OF locked(2)]
    by (simp add: commits_extend_same lock_justify_def)
next
  case (committed st block parent)
  let ?co = "co\<lparr> co_state := lock_justify block st \<rparr>"
  have "commits_extend co ?co" using note_certificate_Ok(1) [OF committed(2)]
    by (simp add: commits_extend_same lock_justify_def)
  moreover from commit_through_run [OF committed(7)] obtain new where
    "commit_run (rev new) parent block qc 0 ?co co'" by blast
  then have "commits_extend ?co co'" unfolding commits_extend_def using commit_run_blocks by meson
  ultimately show ?thesis by (rule commits_extend_trans)
qed

lemma form_and_apply_commits:
  assumes "form_and_apply hs vf d co = Ok co'"
  shows "commits_extend co co'"
  using assms
proof (cases rule: form_and_apply_cases)
  case waiting
  then show ?thesis by (simp add: commits_extend_same)
next
  case (formed qc co1)
  then show ?thesis using apply_certificate_commits [OF formed(2)] by (simp add: commits_extend_def)
qed

lemma process_vote_commits:
  assumes "process_vote hs vf v co = Ok co'"
  shows "commits_extend co co'"
  using assms
proof (cases rule: process_vote_cases)
  case repeated
  then show ?thesis by (simp add: commits_extend_same observe_vote_def)
next
  case added
  show ?thesis
    by (rule commits_extend_trans [OF _ form_and_apply_commits [OF added(3)]])
      (simp add: commits_extend_same observe_vote_def)
qed

lemma process_proposal_commits:
  assumes "process_proposal sha hs sg vf p co = Ok co'"
  shows "commits_extend co co'"
  using assms
proof (cases rule: process_proposal_cases)
  case (certified d qc co1)
  have "commits_extend co (remember_proposal d p co)"
    by (simp add: commits_extend_same remember_proposal_def)
  then show ?thesis
    using apply_certificate_commits [OF certified(4)] apply_certificate_commits [OF certified(5)]
    by (blast intro: commits_extend_trans)
next
  case (repeated d)
  then show ?thesis by (simp add: commits_extend_same)
next
  case (voted d co1 vote next_view)
  have "commits_extend co (remember_proposal d p co)"
    by (simp add: commits_extend_same remember_proposal_def)
  moreover have "commits_extend co1 (record_vote p d next_view vote co1)"
    by (simp add: commits_extend_same record_vote_def)
  ultimately show ?thesis
    using apply_certificate_commits [OF voted(7)] form_and_apply_commits [OF voted(10)]
    by (blast intro: commits_extend_trans)
qed

lemma on_event_commits:
  assumes "on_event sha hs st event sg vf = Ok out"
  shows "map (\<lambda>b. unat (cb_height b)) (co_committed_blocks out) =
      [Suc (unat (st_committed_height st))..<Suc (unat (st_committed_height (co_state out)))] \<and>
    st_committed_height st \<le> st_committed_height (co_state out)"
  using assms
proof (rule on_event_cases)
  fix co assume out: "out = co\<lparr> co_state := prune_state (co_state co) \<rparr>"
    and res: "(case event of
        EvProposal p \<Rightarrow> process_proposal sha hs sg vf p (output_of st)
      | EvVote v \<Rightarrow> process_vote hs vf v (output_of st)
      | EvCertificate qc \<Rightarrow> apply_certificate hs vf qc (output_of st)
      | EvTick now \<Rightarrow> process_tick hs now (output_of st)) = Ok co"
  have "commits_extend (output_of st) co"
  proof (cases event)
    case (EvTick now)
    then show ?thesis using res process_tick_Ok [of hs now "output_of st" co]
      by (auto intro: commits_extend_same)
  qed (use res process_proposal_commits process_vote_commits apply_certificate_commits in auto)
  then show ?thesis by (simp add: out commits_extend_def del: upt_Suc)
qed

lemma run_commits_gapless:
  assumes "run_events sha hs sg vf st es = (outs, st')"
  shows "map (\<lambda>b. unat (cb_height b)) (run_blocks outs) =
      [Suc (unat (st_committed_height st))..<Suc (unat (st_committed_height st'))] \<and>
    st_committed_height st \<le> st_committed_height st'"
  using assms
proof (induction rule: run_induct)
  case (halt st)
  then show ?case by simp
next
  case (step st e out outs st')
  note o = on_event_commits [OF step.hyps(1)]
  have "unat (st_committed_height st) \<le> unat (st_committed_height (co_state out))"
    "unat (st_committed_height (co_state out)) \<le> unat (st_committed_height st')"
    using o step.IH by (simp_all add: word_le_nat_alt)
  then show ?case using o step.IH
      upt_join [of "Suc (unat (st_committed_height st))"
        "Suc (unat (st_committed_height (co_state out)))" "Suc (unat (st_committed_height st'))"]
    by (simp add: word_le_nat_alt del: upt_Suc)
qed

section \<open>The lock rule\<close>

text \<open>
  The ancestry that a validator can see: \<open>reaches st d a\<close> holds when following \<open>justify\<close> links
  through the known proposals leads from \<open>d\<close> to \<open>a\<close>.
\<close>

inductive reaches :: "consensus_state \<Rightarrow> digest32 \<Rightarrow> digest32 \<Rightarrow> bool" for st where
  here: "reaches st d d"
| link: "known_proposal st d = Some p \<Longrightarrow> reaches st (qc_proposal_digest (p_justify p)) a \<Longrightarrow>
    reaches st d a"

lemma extends_walk_sound: "extends_walk n st d a = Ok True \<Longrightarrow> reaches st d a"
proof (induction n arbitrary: d)
  case (Suc n)
  then show ?case
    by (auto simp: known_proposal_def intro: reaches.intros split: if_split_asm option.splits)
qed simp

lemma safe_to_vote_lock:
  "safe_to_vote st p = Ok True \<Longrightarrow> qc_view (st_locked_qc st) < qc_view (p_justify p) \<or>
     reaches st (qc_proposal_digest (p_justify p)) (qc_proposal_digest (st_locked_qc st))"
  by (auto simp: safe_to_vote_def extends_def simp del: extends_walk.simps intro: extends_walk_sound
      split: if_split_asm)

section \<open>Properties of a single validator\<close>

text \<open>
  C1. Whatever events a validator receives, in whatever order and from whomever, the votes it signs
  have strictly increasing views, all above the last view it had voted in, and the persisted
  \<open>last_voted_view\<close> is the view of the last one. So it never signs two votes for one view, and a
  restart from the persisted state does not change that. All are signed in its own name.
\<close>

theorem votes_once_per_view:
  "sorted_wrt (<) (st_last_voted_view st # map v_view (run_votes (fst (run_events sha hs sg vf st es)))) \<and>
   st_last_voted_view (snd (run_events sha hs sg vf st es)) =
     last (st_last_voted_view st # map v_view (run_votes (fst (run_events sha hs sg vf st es)))) \<and>
   list_all (\<lambda>v. v_validator v = sg_validator_id sg) (run_votes (fst (run_events sha hs sg vf st es)))"
  using run_votes_sorted [OF prod.collapse [symmetric]] by metis

text \<open>
  C5. The blocks a validator reports as committed over any run have the consecutive heights that
  follow the committed height it started from, and end at the committed height it persists: no height
  is skipped, repeated or reordered.
\<close>

theorem committed_heights_gapless:
  "map (\<lambda>b. unat (cb_height b)) (run_blocks (fst (run_events sha hs sg vf st es))) =
     [Suc (unat (st_committed_height st))..<
        Suc (unat (st_committed_height (snd (run_events sha hs sg vf st es))))] \<and>
   st_committed_height st \<le> st_committed_height (snd (run_events sha hs sg vf st es))"
  by (rule run_commits_gapless) simp

end
