(* ===== verification/HotStuff_Samples.thy ===== *)
theory HotStuff_Samples
  imports HotStuff_Runs
begin

text \<open>
  A concrete network of four validators with one vote each, used wherever a statement about the
  consensus machine is shown to be satisfiable. The hash function maps a proposal to its view and height. The
  signature of a validator is its public key, and the verifier takes the set of votes that have been
  cast, so that it accepts no other.
\<close>

section \<open>The network\<close>

definition sample_digest :: "u64 \<Rightarrow> u64 \<Rightarrow> digest32" where
  "sample_digest n h =
     Digest32 Sha2_256 (ucast n # u64_to_le_bytes n @ u64_to_le_bytes h @ replicate 15 0)"

definition sample_sha :: sha_functions where
  "sample_sha = \<lparr> sha2_256 = (\<lambda>b. case decode_canonical_frame b of
       Ok f \<Rightarrow> (case frame_field f 6 of
          Some pl \<Rightarrow> (case decode_proposal pl of
             Ok p \<Rightarrow> digest_bytes (sample_digest (p_view p) (p_height p))
           | _ \<Rightarrow> replicate 32 255)
        | None \<Rightarrow> replicate 32 255)
     | _ \<Rightarrow> replicate 32 255), sha3_256 = (\<lambda>_. replicate 32 255) \<rparr>"

definition sample_hs :: chained_hotstuff where
  "sample_hs = \<lparr> hs_chain_id = str ''c'', hs_protocol_version = 1, hs_epoch = 0,
     hs_validator_set = sample_set, hs_parameters = consensus_parameters_genesis,
     hs_resolver = \<lparr> hsr_chain_id = str ''c'', hsr_protocol_version = 1, hsr_schedules =
       [\<lparr> hss_activation_epoch = 0, hss_suite = hash_suite_genesis \<rparr>] \<rparr>,
     hs_genesis_block = sample_digest 0 0 \<rparr>"

definition sample_signer :: "u8 \<Rightarrow> consensus_signer" where
  "sample_signer i = \<lparr> sg_validator_id = sample_id i, sg_signature_scheme = Ed25519,
     sg_sign_framed = (\<lambda>_. Ok [i]) \<rparr>"

definition sample_verifier :: "(consensus_vote \<Rightarrow> bool) \<Rightarrow> consensus_verifier" where
  "sample_verifier cast validator scheme public_key framed signature =
     (case decode_signature_frame framed of
        Ok view \<Rightarrow>
          if sfv_message_type view = VOTE_MESSAGE_TYPE
          then (case decode_vote_payload (sfv_payload view) signature of
                  Ok v \<Rightarrow> Ok (signature = public_key \<and> cast v)
                | _ \<Rightarrow> Ok False)
          else Ok (signature = public_key)
      | _ \<Rightarrow> Ok False)"

definition sample_vote :: "u64 \<Rightarrow> u64 \<Rightarrow> u8 \<Rightarrow> consensus_vote" where
  "sample_vote n h i = \<lparr> v_chain_id = str ''c'', v_protocol_version = 1, v_epoch = 0, v_view = n,
     v_height = h, v_proposal_digest = sample_digest n h, v_validator = sample_id i,
     v_signature_scheme = Ed25519, v_signature = [i] \<rparr>"

definition sample_qc :: "u64 \<Rightarrow> u64 \<Rightarrow> u8 list \<Rightarrow> quorum_certificate" where
  "sample_qc n h is = \<lparr> qc_chain_id = str ''c'', qc_protocol_version = 1, qc_epoch = 0, qc_view = n,
     qc_height = h, qc_proposal_digest = sample_digest n h, qc_votes = map (sample_vote n h) is \<rparr>"

definition sample_proposal :: "u64 \<Rightarrow> u64 \<Rightarrow> u8 \<Rightarrow> quorum_certificate \<Rightarrow> consensus_proposal" where
  "sample_proposal n h l j = \<lparr> p_chain_id = str ''c'', p_protocol_version = 1, p_epoch = 0,
     p_view = n, p_height = h, p_leader = sample_id l, p_justify = j, p_transactions = [],
     p_signature_scheme = Ed25519, p_signature = [l] \<rparr>"

lemma sample_hs_sel [simp]:
  "hs_chain_id sample_hs = str ''c''" "hs_protocol_version sample_hs = 1" "hs_epoch sample_hs = 0"
  "hs_validator_set sample_hs = sample_set" "hs_parameters sample_hs = consensus_parameters_genesis"
  "hs_genesis_block sample_hs = sample_digest 0 0"
  by (simp_all add: sample_hs_def)

lemma sample_signer_sel [simp]:
  "sg_validator_id (sample_signer i) = sample_id i" "sg_signature_scheme (sample_signer i) = Ed25519"
  "sg_sign_framed (sample_signer i) b = Ok [i]"
  by (simp_all add: sample_signer_def)

lemma sample_vote_sel [simp]:
  "v_chain_id (sample_vote n h i) = str ''c''" "v_protocol_version (sample_vote n h i) = 1"
  "v_epoch (sample_vote n h i) = 0" "v_view (sample_vote n h i) = n" "v_height (sample_vote n h i) = h"
  "v_proposal_digest (sample_vote n h i) = sample_digest n h" "v_validator (sample_vote n h i) = sample_id i"
  "v_signature_scheme (sample_vote n h i) = Ed25519" "v_signature (sample_vote n h i) = [i]"
  by (simp_all add: sample_vote_def)

lemma sample_qc_sel [simp]:
  "qc_chain_id (sample_qc n h is) = str ''c''" "qc_protocol_version (sample_qc n h is) = 1"
  "qc_epoch (sample_qc n h is) = 0" "qc_view (sample_qc n h is) = n" "qc_height (sample_qc n h is) = h"
  "qc_proposal_digest (sample_qc n h is) = sample_digest n h"
  "qc_votes (sample_qc n h is) = map (sample_vote n h) is"
  by (simp_all add: sample_qc_def)

lemma sample_proposal_sel [simp]:
  "p_chain_id (sample_proposal n h l j) = str ''c''" "p_protocol_version (sample_proposal n h l j) = 1"
  "p_epoch (sample_proposal n h l j) = 0" "p_view (sample_proposal n h l j) = n"
  "p_height (sample_proposal n h l j) = h" "p_leader (sample_proposal n h l j) = sample_id l"
  "p_justify (sample_proposal n h l j) = j" "p_transactions (sample_proposal n h l j) = []"
  "p_signature_scheme (sample_proposal n h l j) = Ed25519" "p_signature (sample_proposal n h l j) = [l]"
  by (simp_all add: sample_proposal_def)

lemma sample_chain [simp]: "length (str ''c'') = 1" "chain_id_wf (str ''c'')"
  by (simp_all add: str_def chain_id_wf_def)

lemma sample_digest_wf [simp]: "digest32_wf (sample_digest n h)"
  by (simp add: sample_digest_def digest32_wf_def array32_def)

lemma length_sample_id [simp]: "length (sample_id i) = 32"
  by (simp add: sample_id_def)

section \<open>Sizes of the messages\<close>

lemma encode_frame_small:
  assumes "length (cf_fields f) < 2 ^ 16" "frame_size (cf_fields f) \<le> n" "n \<le> 10000"
  shows "\<exists>b. encode_frame f = Ok b \<and> length b \<le> n"
  using assms by (simp add: encode_frame_Ok_iff frame_fits_def MAX_CANONICAL_FRAME_BYTES_def)

lemma encode_digest32_small:
  assumes "digest32_wf d"
  shows "\<exists>b. encode_digest32 d = Ok b \<and> length b \<le> 60"
  using assms unfolding encode_digest32_frame
  by (intro encode_frame_small) (simp_all add: frame_size_def digest32_wf_def array32_def)

lemma encode_sample_vote_payload: "\<exists>b. encode_vote_payload (sample_vote n h i) = Ok b \<and> length b \<le> 300"
proof -
  obtain d where d: "encode_digest32 (sample_digest n h) = Ok d" "length d \<le> 60"
    using encode_digest32_small [OF sample_digest_wf] by blast
  show ?thesis unfolding encode_vote_payload_Ok_iff using d
    by (simp add: encode_frame_small frame_size_def)
qed

lemma encode_sample_vote: "\<exists>b. encode_vote (sample_vote n h i) = Ok b \<and> length b \<le> 400"
proof -
  obtain p where p: "encode_vote_payload (sample_vote n h i) = Ok p" "length p \<le> 300"
    using encode_sample_vote_payload by blast
  show ?thesis unfolding encode_vote_Ok_iff using p
    by (simp add: MAX_SIGNATURE_BYTES_def encode_frame_small frame_size_def)
qed

lemma list_frame_size:
  assumes "list_all (\<lambda>b. length b \<le> m) bs"
  shows "frame_size (cf_fields (list_frame t v hs bs)) \<le> frame_size hs + length bs * (6 + m)"
proof -
  have "sum_list (map (\<lambda>fb. 6 + length (snd fb)) (zip ks bs)) \<le> length bs * (6 + m)" for ks :: "u16 list"
    using assms
  proof (induction bs arbitrary: ks)
    case (Cons b bs)
    then show ?case by (cases ks) (auto simp: add_mono intro: le_trans [OF Cons.IH trans_le_add2])
  qed simp
  then show ?thesis by (simp add: list_frame_def frame_size_def add_mono del: upt_Suc)
qed

lemma list_all2_obtain: "list_all (\<lambda>x. \<exists>y. P x y) xs \<Longrightarrow> \<exists>ys. list_all2 P xs ys"
proof (induction xs)
  case (Cons x xs)
  then obtain y ys where "P x y" "list_all2 P xs ys" by auto
  then show ?case by (intro exI [of _ "y # ys"]) simp
qed (simp add: exI [of _ "[]"])

lemma encode_sample_qc:
  assumes "length is \<le> 4"
  shows "\<exists>b. encode_quorum_certificate (sample_qc n h is) = Ok b \<and> length b \<le> 2000"
proof -
  obtain d where d: "encode_digest32 (sample_digest n h) = Ok d" "length d \<le> 60"
    using encode_digest32_small [OF sample_digest_wf] by blast
  have "list_all (\<lambda>v. \<exists>b. encode_vote v = Ok b \<and> length b \<le> 400) (map (sample_vote n h) is)"
    by (simp add: list_all_iff encode_sample_vote)
  then obtain bs where "list_all2 (\<lambda>v b. encode_vote v = Ok b \<and> length b \<le> 400) (map (sample_vote n h) is) bs"
    using list_all2_obtain [of "\<lambda>v b. encode_vote v = Ok b \<and> length b \<le> 400"] by blast
  then have bs: "list_all2 (\<lambda>v b. encode_vote v = Ok b) (map (sample_vote n h) is) bs"
    "list_all (\<lambda>b. length b \<le> 400) bs" "length bs = length is"
    by (auto simp: list_all2_conv_all_nth list_all_length)
  let ?hs = "certificate_head (sample_qc n h is) d"
  have "frame_size ?hs \<le> 200" using d(2) by (simp add: certificate_head_def frame_size_def)
  moreover have "length bs * 406 \<le> 1624" using bs(3) assms by simp
  ultimately have "frame_size (cf_fields (list_frame 0xD004 1 ?hs bs)) \<le> 2000"
    using list_frame_size [OF bs(2), of "0xD004" 1 ?hs] by simp
  then have "\<exists>b. encode_frame (list_frame 0xD004 1 ?hs bs) = Ok b \<and> length b \<le> 2000"
    using bs(3) assms by (intro encode_frame_small) simp_all
  then show ?thesis unfolding encode_quorum_certificate_Ok_iff
    using d(1) bs(1) assms by (auto simp: MAX_CERTIFICATE_VOTES_def)
qed

text \<open>The genesis certificate is the sample certificate without votes.\<close>

lemma sample_genesis:
  "quorum_certificate_genesis (str ''c'') 1 0 (sample_digest 0 0) = sample_qc 0 0 []"
  by (simp add: quorum_certificate_genesis_def sample_qc_def)

lemma encode_sample_proposal_payload:
  assumes "length is \<le> 4"
  shows "\<exists>b. encode_proposal_payload (sample_proposal n h l (sample_qc k g is)) = Ok b \<and> length b \<le> 2300"
proof -
  obtain j where j: "encode_quorum_certificate (sample_qc k g is) = Ok j" "length j \<le> 2000"
    using encode_sample_qc [OF assms] by blast
  let ?hs = "proposal_head (sample_proposal n h l (sample_qc k g is)) j"
  have "frame_size ?hs \<le> 2300" using j(2) by (simp add: proposal_head_def frame_size_def)
  then have "frame_size (cf_fields (list_frame 0xD001 1 ?hs [])) \<le> 2300"
    using list_frame_size [of 0 "[]" "0xD001" 1 ?hs] by simp
  then have "\<exists>b. encode_frame (list_frame 0xD001 1 ?hs []) = Ok b \<and> length b \<le> 2300"
    by (intro encode_frame_small) simp_all
  then show ?thesis unfolding encode_proposal_payload_Ok_iff using j(1) by auto
qed

lemma encode_sample_proposal:
  assumes "length is \<le> 4"
  shows "\<exists>b. encode_proposal (sample_proposal n h l (sample_qc k g is)) = Ok b \<and> length b \<le> 2400"
proof -
  obtain p where p: "encode_proposal_payload (sample_proposal n h l (sample_qc k g is)) = Ok p"
    "length p \<le> 2300" using encode_sample_proposal_payload [OF assms] by blast
  show ?thesis unfolding encode_proposal_Ok_iff using p
    by (simp add: MAX_SIGNATURE_BYTES_def encode_frame_small frame_size_def)
qed

lemma hs_signature_frame_small:
  assumes "length payload \<le> 3000" "mt \<in> {VOTE_MESSAGE_TYPE, PROPOSAL_MESSAGE_TYPE}"
  shows "\<exists>b. hs_signature_frame sample_hs mt Ed25519 payload = Ok b"
proof -
  have mt: "\<not> str_is_blank mt" "length mt \<le> 100"
    using assms(2) by (auto simp: VOTE_MESSAGE_TYPE_def PROPOSAL_MESSAGE_TYPE_def str_def)
  then have "frame_size (cf_fields (signature_frame \<lparr> sd_chain_id = str ''c'', sd_protocol_version = 1,
      sd_epoch = 0, sd_message_type = mt, sd_signature_scheme_id = Ed25519 \<rparr> payload)) \<le> 4000"
    using assms(1) by (simp add: signature_frame_def frame_size_def)
  from encode_frame_small [OF _ this] show ?thesis
    using mt by (auto simp: hs_signature_frame_def signature_message_type_new_def
        frame_signature_message_eq signature_frame_def)
qed

section \<open>Valid votes, certificates and proposals\<close>

lemma sample_verifier_frame:
  assumes "hs_signature_frame sample_hs mt Ed25519 payload = Ok framed"
    "mt \<in> {VOTE_MESSAGE_TYPE, PROPOSAL_MESSAGE_TYPE}"
  shows "sample_verifier cast a sc k framed sig =
    (if mt = VOTE_MESSAGE_TYPE
     then (case decode_vote_payload payload sig of Ok v \<Rightarrow> Ok (sig = k \<and> cast v) | _ \<Rightarrow> Ok False)
     else Ok (sig = k))"
proof -
  let ?view = "\<lparr> sfv_chain_id = str ''c'', sfv_protocol_version = 1, sfv_epoch = 0,
    sfv_message_type = mt, sfv_signature_scheme_id = Ed25519, sfv_payload = payload \<rparr>"
  have "utf8_valid mt \<and> \<not> str_is_blank mt"
    using assms(2) by (auto simp: VOTE_MESSAGE_TYPE_def PROPOSAL_MESSAGE_TYPE_def str_def)
  then have "decode_signature_frame framed = Ok ?view"
    using assms(1) unfolding decode_signature_frame_Ok_iff
    by (simp add: view_wf_def encode_view_def view_domain_def hs_signature_frame_def result_simps
        signature_message_type_new_def)
  then show ?thesis by (simp add: sample_verifier_def)
qed

lemma sample_vote_wf: "n \<noteq> 0 \<Longrightarrow> h \<noteq> 0 \<Longrightarrow> vote_wf (sample_vote n h i)"
  by (simp add: vote_wf_def array32_def)

lemma sample_vote_fits: "n \<noteq> 0 \<Longrightarrow> h \<noteq> 0 \<Longrightarrow> vote_fits (sample_vote n h i)"
  using encode_sample_vote [of n h i] sample_vote_wf
  by (auto simp: vote_fits_def MAX_ENCODED_VOTE_BYTES_def)

lemma sample_validate_vote [simp]:
  assumes "n \<noteq> 0" "h \<noteq> 0" "i \<in> {1, 2, 3, 4}" "cast (sample_vote n h i)"
  shows "validate_vote sample_hs (sample_verifier cast) (sample_vote n h i) = Ok ()"
proof -
  obtain p where p: "encode_vote_payload (sample_vote n h i) = Ok p" "length p \<le> 300"
    using encode_sample_vote_payload by blast
  then obtain b where b: "hs_signature_frame sample_hs VOTE_MESSAGE_TYPE Ed25519 p = Ok b"
    using hs_signature_frame_small [of p VOTE_MESSAGE_TYPE] by auto
  have "decode_vote_payload p [i] = Ok (sample_vote n h i)"
    using p(1) sample_vote_wf [OF assms(1,2)] by (simp add: decode_vote_payload_Ok_iff)
  then have "vote_signed sample_hs (sample_verifier cast) (sample_vote n h i)"
    using p(1) b sample_set_get [OF assms(3)] assms(4) sample_verifier_frame [OF b]
    by (simp add: vote_signed_def)
  then show ?thesis using assms(1,2) by (simp add: validate_vote_Ok_iff MAX_SIGNATURE_BYTES_def)
qed

lemma encode_vote_payload_inject:
  assumes "encode_vote_payload v = Ok b" "encode_vote_payload w = Ok b"
    "v_signature v = v_signature w"
  shows "v = w"
proof -
  let ?f = "\<lambda>v d. \<lparr> cf_type_id = 0xD002, cf_version = 1, cf_fields =
         [(1, v_chain_id v), (2, u32_to_le_bytes (v_protocol_version v)),
          (3, u64_to_le_bytes (v_epoch v)), (4, u64_to_le_bytes (v_view v)),
          (5, u64_to_le_bytes (v_height v)), (6, d), (7, v_validator v),
          (8, u16_to_le_bytes (signature_scheme_as_u16 (v_signature_scheme v)))] \<rparr>"
  obtain d e where d: "encode_digest32 (v_proposal_digest v) = Ok d" "encode_frame (?f v d) = Ok b"
    and e: "encode_digest32 (v_proposal_digest w) = Ok e" "encode_frame (?f w e) = Ok b"
    using assms(1,2) unfolding encode_vote_payload_Ok_iff by blast
  have "?f v d = ?f w e"
    by (rule encode_frame_inject [OF d(2) e(2)]) (simp_all add: frame_wf_def key_sorted_def)
  then show ?thesis using assms(3) encode_digest32_inject [OF d(1)] e(1)
    by (intro consensus_vote.equality) simp_all
qed

lemma sample_vote_cast:
  assumes "validate_vote sample_hs (sample_verifier cast) v = Ok ()"
  shows "cast v"
proof -
  obtain info payload framed where i: "vs_get sample_set (v_validator v) = Some info"
    "vi_signature_scheme info = v_signature_scheme v" "encode_vote_payload v = Ok payload"
    "hs_signature_frame sample_hs VOTE_MESSAGE_TYPE (v_signature_scheme v) payload = Ok framed"
    "sample_verifier cast (v_validator v) (v_signature_scheme v) (vi_public_key info) framed
       (v_signature v) = Ok True"
    using assms by (auto simp: validate_vote_Ok_iff vote_signed_def)
  have "info \<in> set (map sample_validator [1, 2, 3, 4])"
    using i(1) vs_get_Some_iff [OF sample_set_inv] by (simp add: sample_set_def)
  then have "v_signature_scheme v = Ed25519" using i(2) by auto
  then obtain w where "decode_vote_payload payload (v_signature v) = Ok w" "cast w"
    using i(4,5) sample_verifier_frame [of VOTE_MESSAGE_TYPE payload framed] by (auto split: result.splits)
  then show ?thesis using encode_vote_payload_inject [OF i(3), of w]
    by (simp add: decode_vote_payload_Ok_iff)
qed

definition sample_quorum :: "u8 list \<Rightarrow> bool" where
  "sample_quorum is \<longleftrightarrow> sorted_wrt (<) is \<and> set is \<subseteq> {1, 2, 3, 4} \<and> 3 \<le> length is \<and> length is \<le> 4"

lemma sample_certified:
  assumes "n \<noteq> 0" "h \<noteq> 0" "sample_quorum is" "list_all (\<lambda>i. cast (sample_vote n h i)) is"
  shows "certified sample_hs (sample_verifier cast) (sample_qc n h is)"
proof -
  have "votes_power sample_hs (map (sample_vote n h) is) = length is" if "set is \<subseteq> {1, 2, 3, 4}"
    using that by (induction "is") (auto simp: votes_power_def sample_set_power)
  then show ?thesis
    using assms by (auto simp: certified_iff sample_set_inv quorum_voted_def vote_matches_def
        sample_set_threshold sample_quorum_def list_all_iff key_sorted_def comp_def sorted_wrt_map
        intro!: sample_validate_vote)
qed

lemma sample_verify [simp]:
  "n \<noteq> 0 \<Longrightarrow> h \<noteq> 0 \<Longrightarrow> sample_quorum is \<Longrightarrow> list_all (\<lambda>i. cast (sample_vote n h i)) is \<Longrightarrow>
     verify_certificate sample_hs (sample_verifier cast) (sample_qc n h is) = Ok ()"
  "verify_certificate sample_hs (sample_verifier cast) (sample_qc 0 0 []) = Ok ()"
  using sample_certified by (auto simp: certified_def verify_certificate_Ok_iff sample_set_inv
      genesis_anchor_def)

lemma sample_validate_proposal:
  assumes j: "verify_certificate sample_hs (sample_verifier cast) (sample_qc k g is) = Ok ()"
      "length is \<le> 4"
    and p: "leader sample_set n = Some (sample_id l)" "l \<in> {1, 2, 3, 4}" "k < n"
      "unat h = Suc (unat g)"
  shows "validate_proposal sample_hs (sample_verifier cast) (sample_proposal n h l (sample_qc k g is)) = Ok ()"
proof -
  obtain pl where pl: "encode_proposal_payload (sample_proposal n h l (sample_qc k g is)) = Ok pl"
    "length pl \<le> 2300" using encode_sample_proposal_payload [OF j(2)] by blast
  then obtain b where b: "hs_signature_frame sample_hs PROPOSAL_MESSAGE_TYPE Ed25519 pl = Ok b"
    using hs_signature_frame_small [of pl PROPOSAL_MESSAGE_TYPE] by auto
  have "PROPOSAL_MESSAGE_TYPE \<noteq> VOTE_MESSAGE_TYPE"
    by (simp add: PROPOSAL_MESSAGE_TYPE_def VOTE_MESSAGE_TYPE_def str_def)
  then have "sample_verifier cast (sample_id l) Ed25519 [l] b [l] = Ok True"
    using sample_verifier_frame [OF b] by simp
  moreover have "checked_add g 1 = Some h" using p(4) by (simp add: checked_add_Some_iff)
  moreover have "n \<noteq> 0" "h \<noteq> 0" using p(3,4) by auto
  ultimately show ?thesis using p j pl(1) b sample_set_get [OF p(2)]
    by (simp add: validate_proposal_def result_simps MAX_SIGNATURE_BYTES_def
        ensure_context_def ensure_transaction_bound_def ensure_registered_scheme_def
        validate_signature_length_def not_le)
qed

lemma sample_qc_fits:
  assumes "sample_quorum is \<and> n \<noteq> 0 \<and> h \<noteq> 0 \<or> n = 0 \<and> h = 0 \<and> is = []"
  shows "certificate_fits (sample_qc n h is)"
proof -
  have "length is \<le> 4" using assms by (auto simp: sample_quorum_def)
  then show ?thesis using assms encode_sample_qc [of "is" n h]
    by (auto simp: certificate_fits_def certificate_wf_def certificate_votes_wf_def sample_vote_fits
        key_sorted_def sorted_wrt_map comp_def sample_quorum_def MAX_ENCODED_CERTIFICATE_BYTES_def)
qed

lemma sample_hash:
  assumes "length b \<le> 3000"
  shows "hash_for_purpose sample_sha (hs_resolver sample_hs) 0 HpConsensusMessage b =
    Ok (Digest32 Sha2_256 (case decode_proposal b of
      Ok p \<Rightarrow> digest_bytes (sample_digest (p_view p) (p_height p)) | _ \<Rightarrow> replicate 32 255))"
proof -
  obtain f where f: "frame_hash_input Sha2_256 HpConsensusMessage 1 (str ''c'') b = Ok f"
    using assms encode_frame_small [of "\<lparr> cf_type_id = 0x1001, cf_version = 1, cf_fields =
       [(1, u16_to_le_bytes (hash_algorithm_as_u16 Sha2_256)),
        (2, u16_to_le_bytes (hash_domain_as_u16 (purpose_domain HpConsensusMessage))),
        (3, u16_to_le_bytes 1), (4, str ''c''), (5, u32_to_le_bytes 1), (6, b)] \<rparr>" 4000]
    by (auto simp: frame_hash_input_Ok_iff frame_size_def)
  then show ?thesis using frame_hash_input_decode [OF f]
    by (simp add: hash_for_purpose_def sample_hs_def suite_for_epoch_def hash_suite_genesis_def
        hash_suite_uniform_def builtin_hash_def sample_sha_def key_sorted_def
        split: result.splits)
qed

lemma sample_proposal_digest [simp]:
  assumes "sample_quorum is \<and> k \<noteq> 0 \<and> g \<noteq> 0 \<or> k = 0 \<and> g = 0 \<and> is = []" "n \<noteq> 0" "h \<noteq> 0"
  shows "proposal_digest sample_sha sample_hs (sample_proposal n h l (sample_qc k g is)) =
    Ok (sample_digest n h)"
proof -
  let ?p = "sample_proposal n h l (sample_qc k g is)"
  have "length is \<le> 4" using assms(1) by (auto simp: sample_quorum_def)
  then obtain b where b: "encode_proposal ?p = Ok b" "length b \<le> 2400"
    using encode_sample_proposal by blast
  have "decode_proposal b = Ok ?p"
    unfolding decode_proposal_Ok_iff using b sample_qc_fits [OF assms(1)] assms(2,3)
    by (simp add: proposal_fits_def proposal_wf_def array32_def MAX_ENCODED_PROPOSAL_BYTES_def)
  then show ?thesis using b sample_hash [of b]
    by (simp add: proposal_digest_def sample_digest_def)
qed

lemma sample_sign_vote [simp]:
  "sign_vote sample_hs (sample_signer i) (sample_proposal n h l j) (sample_digest n h) =
     Ok (sample_vote n h i)"
proof -
  obtain p where p: "encode_vote_payload (sample_vote n h i) = Ok p" "length p \<le> 300"
    using encode_sample_vote_payload by blast
  then obtain b where "hs_signature_frame sample_hs VOTE_MESSAGE_TYPE Ed25519 p = Ok b"
    using hs_signature_frame_small [of p VOTE_MESSAGE_TYPE] by auto
  moreover have "encode_vote_payload (sample_vote n h i\<lparr> v_signature := [] \<rparr>) = Ok p"
    using p(1) by (simp add: encode_vote_payload_def)
  ultimately show ?thesis
    by (simp add: sign_vote_def sample_vote_def validate_signature_length_def MAX_SIGNATURE_BYTES_def)
qed

lemma sample_propose:
  assumes "st_high_qc st = sample_qc k g is" "length is \<le> 4" "l \<in> {1, 2, 3, 4}"
    "leader sample_set (st_current_view st) = Some (sample_id l)" "unat h = Suc (unat g)"
  shows "propose sample_hs st [] (sample_signer l) =
    Ok (sample_proposal (st_current_view st) h l (sample_qc k g is))"
proof -
  let ?p = "sample_proposal (st_current_view st) h l (sample_qc k g is)"
  obtain pl where pl: "encode_proposal_payload ?p = Ok pl" "length pl \<le> 2300"
    using encode_sample_proposal_payload [OF assms(2)] by blast
  then obtain b where "hs_signature_frame sample_hs PROPOSAL_MESSAGE_TYPE Ed25519 pl = Ok b"
    using hs_signature_frame_small [of pl PROPOSAL_MESSAGE_TYPE] by auto
  moreover have "checked_add g 1 = Some h" using assms(5) by (simp add: checked_add_Some_iff)
  moreover have "encode_proposal_payload (?p\<lparr> p_signature := [] \<rparr>) = Ok pl"
    using pl(1) by (simp add: encode_proposal_payload_def)
  ultimately show ?thesis using assms sample_set_get [OF assms(3)]
    by (simp add: propose_def ensure_transaction_bound_def ensure_registered_scheme_def
        sample_proposal_def validate_signature_length_def MAX_SIGNATURE_BYTES_def)
qed

lemma sample_registered [simp]:
  "i \<in> {1, 2, 3, 4} \<Longrightarrow> ensure_registered_scheme sample_hs (sample_id i) Ed25519 = Ok ()"
  by (simp add: ensure_registered_scheme_def sample_set_get)

end
