(* ===== verification/HotStuff_Network.thy ===== *)
theory HotStuff_Network
  imports HotStuff_Samples
begin

text \<open>
  Several validators exchanging messages. Every validator runs the code: proposals are the results of
  \<open>propose\<close> on the proposer's own state, votes are outputs of \<open>on_event\<close>, and a certificate can be
  delivered only when each of its votes has been sent. Messages may be delayed or lost.
\<close>

record network =
  nw_states :: "validator_id \<Rightarrow> consensus_state"
  nw_proposals :: "consensus_proposal list"
  nw_votes :: "consensus_vote list"
  nw_committed :: "(validator_id \<times> committed_block) list"

datatype network_action = Proposes validator_id | Receives validator_id consensus_event

definition network_start :: "chained_hotstuff \<Rightarrow> u64 \<Rightarrow> network" where
  "network_start hs now = \<lparr> nw_states = (\<lambda>_. genesis_state hs now), nw_proposals = [], nw_votes = [],
     nw_committed = [] \<rparr>"

definition was_sent :: "network \<Rightarrow> consensus_event \<Rightarrow> bool" where
  "was_sent nw ev = (case ev of
     EvProposal p \<Rightarrow> p \<in> set (nw_proposals nw)
   | EvVote v \<Rightarrow> v \<in> set (nw_votes nw)
   | EvCertificate qc \<Rightarrow> list_all (\<lambda>v. v \<in> set (nw_votes nw)) (qc_votes qc)
   | EvTick _ \<Rightarrow> True)"

definition network_step ::
  "sha_functions \<Rightarrow> chained_hotstuff \<Rightarrow> consensus_verifier \<Rightarrow> (validator_id \<Rightarrow> consensus_signer) \<Rightarrow>
   network_action \<Rightarrow> network \<Rightarrow> network option" where
  "network_step sha hs vf signer act nw = (case act of
     Proposes a \<Rightarrow>
       (case propose hs (nw_states nw a) [] (signer a) of
          Ok p \<Rightarrow> Some (nw\<lparr> nw_proposals := p # nw_proposals nw \<rparr>)
        | _ \<Rightarrow> None)
   | Receives a ev \<Rightarrow>
       (if \<not> was_sent nw ev then None
        else case on_event sha hs (nw_states nw a) ev (signer a) vf of
          Ok out \<Rightarrow> Some (nw\<lparr> nw_states := (nw_states nw)(a := co_state out),
            nw_votes := votes_of (co_outbound_messages out) @ nw_votes nw,
            nw_committed := map (Pair a) (co_committed_blocks out) @ nw_committed nw \<rparr>)
        | _ \<Rightarrow> None))"

fun network_run ::
  "sha_functions \<Rightarrow> chained_hotstuff \<Rightarrow> consensus_verifier \<Rightarrow> (validator_id \<Rightarrow> consensus_signer) \<Rightarrow>
   network_action list \<Rightarrow> network \<Rightarrow> network option" where
  "network_run sha hs vf signer [] nw = Some nw"
| "network_run sha hs vf signer (act # acts) nw =
     Option.bind (network_step sha hs vf signer act nw) (network_run sha hs vf signer acts)"

section \<open>Evaluating sample runs\<close>

lemma sample_digest_inject [simp]: "sample_digest a g = sample_digest b h \<longleftrightarrow> a = b \<and> g = h"
  by (auto simp: sample_digest_def)

lemma sample_digest_less: "(ucast a :: u8) < ucast b \<Longrightarrow> sample_digest a g < sample_digest b h"
  "(ucast b :: u8) < ucast a \<Longrightarrow> \<not> sample_digest a g < sample_digest b h"
  by (auto simp: sample_digest_def less_digest32_def)

lemma sample_leader:
  "leader sample_set 1 = Some (sample_id 1)" "leader sample_set 2 = Some (sample_id 2)"
  "leader sample_set 3 = Some (sample_id 3)" "leader sample_set 5 = Some (sample_id 1)"
  "leader sample_set 8 = Some (sample_id 4)" "leader sample_set 12 = Some (sample_id 4)"
  by (simp_all add: leader_def checked_sub_def sample_set_def)

lemma sample_quorums: "sample_quorum [1, 2, 3]" "sample_quorum [2, 3, 4]"
  by (simp_all add: sample_quorum_def)

lemma prune_small:
  assumes "st_committed_height st \<le> 2" "st_pending_votes st = []" "st_observed_votes st = []"
    "list_all (\<lambda>(d, _). bm_contains_key (st_known_proposals st) d) (st_committed st)"
  shows "prune_state st = st"
proof -
  have "saturating_sub (st_committed_height st) RETAIN_COMMITTED_HEIGHTS = 0"
    using assms(1) by (auto simp: saturating_sub_def RETAIN_COMMITTED_HEIGHTS_def)
  then show ?thesis using assms
    by (simp add: prune_state_def bm_retain_def list_all_iff filter_True case_prod_beta')
qed

lemma form_and_apply_nothing:
  "st_pending_votes (co_state co) = [] \<Longrightarrow> form_and_apply hs vf d co = Ok co"
  by (simp add: form_and_apply_def try_form_certificate_def bm_get_def split: option.splits)

lemmas sample_eval = on_event_def output_of_def process_proposal_def apply_certificate_def
  note_certificate_def lock_justify_def commit_through_def record_vote_def remember_proposal_def process_tick_def prune_small form_and_apply_nothing
  bm_get_def bm_contains_key_def bm_retain_def bs_insert_def ensure_bounded_future_view_def
  safe_to_vote_def extends_def checked_add_def saturating_add_def saturating_sub_def
  MAX_FUTURE_VIEW_GAP_def RETAIN_COMMITTED_HEIGHTS_def commit_block_proof_def
  commit_chain_ancestor_def commit_chain_ancestor_certificate_def usize_checked_add_def
  usize_max_def consensus_parameters_genesis_def sample_leader sample_quorums
  sample_validate_proposal sample_digest_less Let_def max_def word_le_nat_alt word_less_nat_alt

definition conflict_schedule :: "network_action list" where
  "conflict_schedule =
     (let v = sample_id;
        b1 = sample_proposal 1 1 1 (sample_qc 0 0 []);
        c1 = sample_proposal 2 1 2 (sample_qc 0 0 []);
        b2 = sample_proposal 3 2 3 (sample_qc 1 1 [1, 2, 3]);
        b3 = sample_proposal 5 3 1 (sample_qc 3 2 [1, 2, 3]);
        c2 = sample_proposal 8 2 4 (sample_qc 2 1 [2, 3, 4]);
        c3 = sample_proposal 12 3 4 (sample_qc 8 2 [2, 3, 4]);
        to = (\<lambda>ids p. map (\<lambda>i. Receives (v i) (EvProposal p)) ids);
        qc = (\<lambda>i c. [Receives (v i) (EvCertificate c)]);
        ticks = (\<lambda>i ts. map (\<lambda>t. Receives (v i) (EvTick t)) ts) in
      [Proposes (v 1)] @ to [1, 2, 3] b1 @
      [Proposes (v 2)] @ to [2, 3, 4] c1 @
      qc 3 (sample_qc 1 1 [1, 2, 3]) @ [Proposes (v 3)] @ to [1, 2, 3] b2 @
      qc 1 (sample_qc 3 2 [1, 2, 3]) @ ticks 1 [10000] @ [Proposes (v 1)] @ to [1, 2, 3] b3 @
      qc 1 (sample_qc 5 3 [1, 2, 3]) @
      qc 4 (sample_qc 2 1 [2, 3, 4]) @ ticks 4 [10000, 20000, 30000, 40000, 50000] @
      [Proposes (v 4)] @ to [2, 3, 4] c2 @
      qc 4 (sample_qc 8 2 [2, 3, 4]) @ ticks 4 [60000, 70000, 80000] @
      [Proposes (v 4)] @ to [2, 3, 4] c3 @
      qc 4 (sample_qc 12 3 [2, 3, 4]))"

lemma hd_sample_id [simp]: "hd (sample_id i) = i"
  by (simp add: sample_id_def)

lemma sample_propose_next:
  assumes "st_high_qc st = sample_qc k g is" "length is \<le> 4" "l \<in> {1, 2, 3, 4}"
    "leader sample_set (st_current_view st) = Some (sample_id l)" "unat g + 1 < 2 ^ 64"
  shows "propose sample_hs st [] (sample_signer l) =
    Ok (sample_proposal (st_current_view st) (g + 1) l (sample_qc k g is))"
  using assms(5) by (intro sample_propose [OF assms(1-4)]) (simp add: unat_add_less)


text \<open>
  C10. Four honest validators with equal power, messages delayed but never forged, can commit different
  blocks at one height: \<open>apply_certificate\<close> commits on three blocks of consecutive heights and does
  not ask for consecutive views. Blocks 1, 3 and 5 form a chain that validator 1 commits, while
  validators 2 and 3 are locked on block 1 only. Block 2, certified at view 2, is newer than that lock,
  so they also vote for the chain 2, 8, 12, which validator 4 commits. Every proposal is the result of
  \<open>propose\<close> and every vote in every certificate is an output of \<open>on_event\<close> in this run.
\<close>

theorem agreement_without_consecutive_views:
  "\<exists>nw. network_run sample_sha sample_hs (sample_verifier (\<lambda>_. True)) (\<lambda>a. sample_signer (hd a)) conflict_schedule
       (network_start sample_hs 0) = Some nw \<and>
     (\<exists>x y. (sample_id 1, x) \<in> set (nw_committed nw) \<and> (sample_id 4, y) \<in> set (nw_committed nw) \<and>
        cb_height x = cb_height y \<and> cb_digest x \<noteq> cb_digest y)"
  unfolding conflict_schedule_def genesis_state_def network_start_def
  by (simp add: sample_eval sample_genesis network_step_def sample_propose_next was_sent_def)

end
