(* ===== verification/Commit_Proof.thy ===== *)
theory Commit_Proof
  imports HotStuff_Invariants
begin

text \<open>
  The self-contained commit witness of \<^verbatim>\<open>src/crates/consensus/src/commit_proof.rs\<close>: its codec, the
  verification a third party runs, exactly what a verified witness establishes, and that the witnesses
  the state machine emits are the three-chains it committed on.
\<close>

section \<open>Codec and verification\<close>

definition COMMITTED_BLOCK_PROOF_TYPE_ID :: u16 where
  "COMMITTED_BLOCK_PROOF_TYPE_ID = 0xD017"

definition MAX_ENCODED_COMMITTED_BLOCK_PROOF_BYTES :: usize where
  "MAX_ENCODED_COMMITTED_BLOCK_PROOF_BYTES = MAX_CANONICAL_FRAME_BYTES"

definition ensure_proof_bound :: "usize \<Rightarrow> (consensus_error, unit) result" where
  "ensure_proof_bound actual =
     (if actual > MAX_ENCODED_COMMITTED_BLOCK_PROOF_BYTES
      then Err (EncodedFrameTooLarge (str ''committed_block_proof'') actual
             MAX_ENCODED_COMMITTED_BLOCK_PROOF_BYTES)
      else Ok ())"

definition encode_committed_block_proof ::
  "committed_block_proof \<Rightarrow> (consensus_error, bytes) result" where
  "encode_committed_block_proof pr =
     try_bind (encode_proposal (cbp_committed pr)) (\<lambda>b1.
     try_bind (map_err CeCanonicalEncoding (field_bytes 1 b1
                 (cs_new COMMITTED_BLOCK_PROOF_TYPE_ID CONSENSUS_ENCODING_VERSION))) (\<lambda>c.
     try_bind (encode_proposal (cbp_child pr)) (\<lambda>b2.
     try_bind (map_err CeCanonicalEncoding (field_bytes 2 b2 c)) (\<lambda>c.
     try_bind (encode_proposal (cbp_grandchild pr)) (\<lambda>b3.
     try_bind (map_err CeCanonicalEncoding (field_bytes 3 b3 c)) (\<lambda>c.
     try_bind (encode_quorum_certificate (cbp_grandchild_certificate pr)) (\<lambda>b4.
     try_bind (map_err CeCanonicalEncoding (field_bytes 4 b4 c)) (\<lambda>c.
     try_bind (map_err CeCanonicalEncoding (finish c)) (\<lambda>b.
     try_bind (ensure_proof_bound (length b)) (\<lambda>_. Ok b))))))))))"

definition decode_committed_block_proof ::
  "bytes \<Rightarrow> (consensus_error, committed_block_proof) result" where
  "decode_committed_block_proof input =
     try_bind (ensure_proof_bound (length input)) (\<lambda>_.
     try_bind (map_err CeCanonicalDecoding
       (decode_closed_frame COMMITTED_BLOCK_PROOF_TYPE_ID CONSENSUS_ENCODING_VERSION [1, 2, 3, 4]
          input)) (\<lambda>frame.
     try_bind (try_bind (map_err CeCanonicalDecoding (required_field frame 1)) decode_proposal)
       (\<lambda>committed.
     try_bind (try_bind (map_err CeCanonicalDecoding (required_field frame 2)) decode_proposal)
       (\<lambda>child.
     try_bind (try_bind (map_err CeCanonicalDecoding (required_field frame 3)) decode_proposal)
       (\<lambda>grandchild.
     try_bind (try_bind (map_err CeCanonicalDecoding (required_field frame 4))
                 decode_quorum_certificate) (\<lambda>certificate.
     let pr = \<lparr> cbp_committed = committed, cbp_child = child, cbp_grandchild = grandchild,
           cbp_grandchild_certificate = certificate \<rparr> in
     try_bind (encode_committed_block_proof pr) (\<lambda>b.
     if b \<noteq> input then Err NonCanonicalCommittedBlockProof else Ok pr)))))))"

definition verify_committed_block_proof ::
  "sha_functions \<Rightarrow> chained_hotstuff \<Rightarrow> committed_block \<Rightarrow> committed_block_proof \<Rightarrow>
   consensus_verifier \<Rightarrow> (consensus_error, unit) result" where
  "verify_committed_block_proof sha hs expected pr vf =
     (let committed = cbp_committed pr; child = cbp_child pr; grandchild = cbp_grandchild pr;
        certificate = cbp_grandchild_certificate pr in
      try_bind (validate_proposal hs vf committed) (\<lambda>_.
      try_bind (validate_proposal hs vf child) (\<lambda>_.
      try_bind (validate_proposal hs vf grandchild) (\<lambda>_.
      try_bind (verify_certificate hs vf certificate) (\<lambda>_.
      try_bind (proposal_digest sha hs committed) (\<lambda>committed_digest.
      try_bind (proposal_digest sha hs child) (\<lambda>child_digest.
      try_bind (proposal_digest sha hs grandchild) (\<lambda>grandchild_digest.
      if qc_proposal_digest (p_justify child) \<noteq> committed_digest \<or>
         qc_view (p_justify child) \<noteq> p_view committed \<or>
         qc_height (p_justify child) \<noteq> p_height committed
      then Err (CommittedBlockProofChainMismatch (str ''child does not directly justify committed''))
      else if qc_proposal_digest (p_justify grandchild) \<noteq> child_digest \<or>
         qc_view (p_justify grandchild) \<noteq> p_view child \<or>
         qc_height (p_justify grandchild) \<noteq> p_height child
      then Err (CommittedBlockProofChainMismatch (str ''grandchild does not directly justify child''))
      else if qc_proposal_digest certificate \<noteq> grandchild_digest \<or>
         qc_view certificate \<noteq> p_view grandchild \<or> qc_height certificate \<noteq> p_height grandchild
      then Err (CommittedBlockProofChainMismatch
             (str ''grandchild_certificate does not certify grandchild''))
      else if cb_height expected \<noteq> p_height committed \<or> cb_view expected \<noteq> p_view committed \<or>
         cb_digest expected \<noteq> committed_digest \<or>
         cb_transactions expected \<noteq> p_transactions committed
      then Err CommittedBlockProofIdentityMismatch
      else Ok ()))))))))"

section \<open>The codec is exact\<close>

lemma ensure_proof_bound_Ok_iff [result_simps]:
  "ensure_proof_bound n = Ok u \<longleftrightarrow> n \<le> MAX_ENCODED_COMMITTED_BLOCK_PROOF_BYTES"
  by (auto simp: ensure_proof_bound_def)

lemma encode_committed_block_proof_Ok_iff:
  "encode_committed_block_proof pr = Ok b \<longleftrightarrow>
     (\<exists>b1 b2 b3 b4. encode_proposal (cbp_committed pr) = Ok b1 \<and> encode_proposal (cbp_child pr) = Ok b2 \<and>
        encode_proposal (cbp_grandchild pr) = Ok b3 \<and>
        encode_quorum_certificate (cbp_grandchild_certificate pr) = Ok b4 \<and>
        encode_frame \<lparr> cf_type_id = 0xD017, cf_version = 1,
          cf_fields = [(1, b1), (2, b2), (3, b3), (4, b4)] \<rparr> = Ok b)"
proof -
  have "length b \<le> MAX_CANONICAL_FRAME_BYTES" if "encode_frame f = Ok b" for f
    using that by (simp add: encode_frame_Ok_iff frame_fits_def)
  then show ?thesis
    by (auto simp: encode_committed_block_proof_def result_simps encode_simps consensus_ids
        COMMITTED_BLOCK_PROOF_TYPE_ID_def MAX_ENCODED_COMMITTED_BLOCK_PROOF_BYTES_def)
qed

definition committed_block_proof_fits :: "committed_block_proof \<Rightarrow> bool" where
  "committed_block_proof_fits pr \<longleftrightarrow> proposal_fits (cbp_committed pr) \<and> proposal_fits (cbp_child pr) \<and>
     proposal_fits (cbp_grandchild pr) \<and> certificate_fits (cbp_grandchild_certificate pr)"

lemma decode_committed_block_proof_Ok_iff:
  "decode_committed_block_proof b = Ok pr \<longleftrightarrow>
     committed_block_proof_fits pr \<and> encode_committed_block_proof pr = Ok b"
proof -
  have size: "length b \<le> MAX_CANONICAL_FRAME_BYTES" if "encode_frame f = Ok b" for f
    using that by (simp add: encode_frame_Ok_iff frame_fits_def)
  show ?thesis
    unfolding decode_committed_block_proof_def consensus_ids COMMITTED_BLOCK_PROOF_TYPE_ID_def
    by (cases pr, subst try_bind_eq_Ok, subst decode_closed_iff)
      (auto simp: result_simps codec_simps encode_committed_block_proof_Ok_iff
        decode_proposal_Ok_iff decode_quorum_certificate_Ok_iff committed_block_proof_fits_def
        MAX_ENCODED_COMMITTED_BLOCK_PROOF_BYTES_def Let_def size split: if_splits)
qed

interpretation commit_proof_codec: strict_codec encode_committed_block_proof
  decode_committed_block_proof committed_block_proof_fits
  by unfold_locales (auto simp: decode_committed_block_proof_Ok_iff)

section \<open>What a verified proof establishes\<close>

text \<open>\<open>directly_certifies\<close>: the certificate is for exactly this proposal.\<close>

definition directly_certifies ::
  "sha_functions \<Rightarrow> chained_hotstuff \<Rightarrow> quorum_certificate \<Rightarrow> consensus_proposal \<Rightarrow> bool" where
  "directly_certifies sha hs qc p \<longleftrightarrow> proposal_digest sha hs p = Ok (qc_proposal_digest qc) \<and>
     qc_view qc = p_view p \<and> qc_height qc = p_height p"

lemma verify_committed_block_proof_Ok_iff:
  "verify_committed_block_proof sha hs expected pr vf = Ok u \<longleftrightarrow>
     validate_proposal hs vf (cbp_committed pr) = Ok () \<and>
     validate_proposal hs vf (cbp_child pr) = Ok () \<and>
     validate_proposal hs vf (cbp_grandchild pr) = Ok () \<and>
     verify_certificate hs vf (cbp_grandchild_certificate pr) = Ok () \<and>
     directly_certifies sha hs (p_justify (cbp_child pr)) (cbp_committed pr) \<and>
     directly_certifies sha hs (p_justify (cbp_grandchild pr)) (cbp_child pr) \<and>
     directly_certifies sha hs (cbp_grandchild_certificate pr) (cbp_grandchild pr) \<and>
     expected = block_of (qc_proposal_digest (p_justify (cbp_child pr))) (cbp_committed pr)"
  by (cases expected)
    (auto simp: verify_committed_block_proof_def Let_def try_bind_eq_Ok directly_certifies_def
      block_of_def split: if_split_asm)

section \<open>Emitted proofs\<close>

text \<open>
  No certificate for the digest of a proposal in \<open>P\<close> names another view or height. \<open>HotStuff_Agreement\<close>
  derives this for the proposals of a network with few faulty validators.
\<close>

definition certificates_match ::
  "sha_functions \<Rightarrow> chained_hotstuff \<Rightarrow> consensus_verifier \<Rightarrow> consensus_proposal set \<Rightarrow> bool" where
  "certificates_match sha hs vf P \<longleftrightarrow>
     (\<forall>qc. \<forall>p \<in> P. verify_certificate hs vf qc = Ok () \<longrightarrow>
        proposal_digest sha hs p = Ok (qc_proposal_digest qc) \<longrightarrow> directly_certifies sha hs qc p)"

text \<open>The ascending chain a commit walks, followed by its two certified descendants.\<close>

definition commit_line ::
  "(digest32 \<times> consensus_proposal) list \<Rightarrow> consensus_proposal \<Rightarrow> consensus_proposal \<Rightarrow>
   consensus_proposal list" where
  "commit_line chain parent gc = map snd chain @ [parent, gc]"

lemma commit_block_proof_Ok:
  assumes "commit_block_proof chain parent gc gqc j p = Ok pr" "j < length chain"
  shows "cbp_committed pr = p" "cbp_child pr = commit_line chain parent gc ! Suc j"
    "cbp_grandchild pr = commit_line chain parent gc ! Suc (Suc j)"
    "cbp_grandchild_certificate pr = (if Suc j = length chain then gqc
       else p_justify (commit_line chain parent gc ! Suc (Suc (Suc j))))"
  using assms
  by (auto simp: commit_block_proof_def result_simps commit_chain_ancestor_def commit_line_def
      commit_chain_ancestor_certificate_def usize_checked_add_def nth_append less_Suc_eq
      split: if_split_asm)

text \<open>What the walk and the triggering certificate say about the line.\<close>

definition line_linked ::
  "sha_functions \<Rightarrow> chained_hotstuff \<Rightarrow> consensus_verifier \<Rightarrow> consensus_proposal list \<Rightarrow> bool" where
  "line_linked sha hs vf ps \<longleftrightarrow> (\<forall>p \<in> set ps. validate_proposal hs vf p = Ok ()) \<and>
     (\<forall>i. Suc i < length ps \<longrightarrow>
        proposal_digest sha hs (ps ! i) = Ok (qc_proposal_digest (p_justify (ps ! Suc i))))"

lemma line_linked_certifies:
  assumes "certificates_match sha hs vf P" "line_linked sha hs vf ps" "Suc i < length ps" "set ps \<subseteq> P"
  shows "directly_certifies sha hs (p_justify (ps ! Suc i)) (ps ! i)"
proof -
  have "validate_proposal hs vf (ps ! i) = Ok ()" "validate_proposal hs vf (ps ! Suc i) = Ok ()"
    using assms(2,3) by (simp_all add: line_linked_def)
  moreover have "ps ! i \<in> P" using assms(3,4) by auto
  ultimately show ?thesis using assms validate_proposal_Ok(10) [of hs vf "ps ! Suc i"]
    by (simp add: certificates_match_def line_linked_def)
qed

lemma linked_down_last:
  "linked_down cursor new \<Longrightarrow> new \<noteq> [] \<Longrightarrow> fst (rev new ! (length new - 1)) = cursor"
  using linked_down_hd [of cursor new] by (simp add: rev_nth hd_conv_nth)

lemma commit_line_linked:
  assumes new: "linked_down (qc_proposal_digest (p_justify parent)) new"
    and known: "\<forall>(d, p) \<in> set new. validate_proposal hs vf p = Ok () \<and> proposal_digest sha hs p = Ok d"
    and parent: "validate_proposal hs vf parent = Ok ()"
      "proposal_digest sha hs parent = Ok (qc_proposal_digest (p_justify gc))"
    and gc: "validate_proposal hs vf gc = Ok ()"
  shows "line_linked sha hs vf (commit_line (rev new) parent gc)"
proof -
  let ?ps = "commit_line (rev new) parent gc" and ?n = "length new"
  have dig: "proposal_digest sha hs (snd (rev new ! i)) = Ok (fst (rev new ! i))" if "i < ?n" for i
  proof -
    have "rev new ! i \<in> set new" using that by (metis length_rev nth_mem set_rev)
    then show ?thesis using known by (auto simp: case_prod_beta)
  qed
  have inner: "fst (rev new ! i) = qc_proposal_digest (p_justify (snd (rev new ! Suc i)))"
    if "Suc i < ?n" for i
    using linked_down_nth [OF new, of "?n - Suc (Suc i)"] that by (simp add: rev_nth Suc_diff_Suc)
  have "proposal_digest sha hs (?ps ! i) = Ok (qc_proposal_digest (p_justify (?ps ! Suc i)))"
    if i: "Suc i < length ?ps" for i
  proof -
    consider "Suc i < ?n" | "Suc i = ?n" | "i = ?n" using i by (force simp: commit_line_def)
    then show ?thesis
    proof cases
      case 1
      then show ?thesis using dig [of i] inner [of i] by (simp add: commit_line_def nth_append)
    next
      case 2
      then have "i = ?n - 1" "new \<noteq> []" by auto
      then show ?thesis using dig [of i] linked_down_last [OF new] 2
        by (simp add: commit_line_def nth_append)
    next
      case 3
      then show ?thesis using parent(2) by (simp add: commit_line_def nth_append)
    qed
  qed
  moreover have "\<forall>p \<in> set ?ps. validate_proposal hs vf p = Ok ()"
    using known parent(1) gc by (auto simp: commit_line_def)
  ultimately show ?thesis by (simp add: line_linked_def)
qed

lemma entry_verifies:
  assumes cm: "certificates_match sha hs vf P"
    and line: "line_linked sha hs vf (commit_line chain parent gc)" "set (commit_line chain parent gc) \<subseteq> P"
    and gqc: "verify_certificate hs vf gqc = Ok ()" "directly_certifies sha hs gqc gc"
    and keys: "\<forall>(d, p) \<in> set chain. proposal_digest sha hs p = Ok d"
    and entry: "entry_proved chain parent gc gqc b pr"
  shows "verify_committed_block_proof sha hs b pr vf = Ok ()"
proof -
  let ?ps = "commit_line chain parent gc"
  from entry obtain j d p where j: "j < length chain" "chain ! j = (d, p)" "b = block_of d p"
    and pr: "commit_block_proof chain parent gc gqc j p = Ok pr" by (auto simp: entry_proved_def)
  note made = commit_block_proof_Ok [OF pr j(1)]
  have len: "length ?ps = length chain + 2" by (simp add: commit_line_def)
  have p: "?ps ! j = p" using j by (simp add: commit_line_def nth_append)
  have val: "validate_proposal hs vf (?ps ! i) = Ok ()" if "i < length chain + 2" for i
    using line(1) that len by (simp add: line_linked_def)
  have cert: "directly_certifies sha hs (p_justify (?ps ! Suc i)) (?ps ! i)" if "i < Suc (length chain)" for i
    using line_linked_certifies [OF cm line(1) _ line(2)] that len by simp
  have d: "proposal_digest sha hs p = Ok d" using bspec [OF keys nth_mem [OF j(1)]] j(2) by simp
  have last: "verify_certificate hs vf (cbp_grandchild_certificate pr) = Ok () \<and>
      directly_certifies sha hs (cbp_grandchild_certificate pr) (cbp_grandchild pr)"
  proof (cases "Suc j = length chain")
    case True
    then have "?ps ! Suc (Suc j) = gc" by (simp add: commit_line_def nth_append)
    then show ?thesis using gqc made True by simp
  next
    case False
    then have "Suc (Suc j) < Suc (length chain)" using j(1) by simp
    then have "directly_certifies sha hs (p_justify (?ps ! Suc (Suc (Suc j)))) (?ps ! Suc (Suc j))"
      "verify_certificate hs vf (p_justify (?ps ! Suc (Suc (Suc j)))) = Ok ()"
      by (auto intro: cert validate_proposal_Ok(10) [OF val])
    then show ?thesis using False unfolding made(3,4) by presburger
  qed
  have "directly_certifies sha hs (p_justify (?ps ! Suc j)) p" using cert [of j] p j(1) by simp
  moreover from this have "d = qc_proposal_digest (p_justify (?ps ! Suc j))"
    using d by (simp add: directly_certifies_def)
  moreover have "directly_certifies sha hs (p_justify (?ps ! Suc (Suc j))) (?ps ! Suc j)"
    using cert j(1) by simp
  moreover have "validate_proposal hs vf p = Ok ()" using val [of j] p j(1) by simp
  moreover have "validate_proposal hs vf (?ps ! Suc j) = Ok ()"
    "validate_proposal hs vf (?ps ! Suc (Suc j)) = Ok ()" using val j(1) by simp_all
  ultimately show ?thesis
    unfolding verify_committed_block_proof_Ok_iff using last j(3) unfolding made(1-3) by blast
qed

definition proofs_verify ::
  "sha_functions \<Rightarrow> chained_hotstuff \<Rightarrow> consensus_verifier \<Rightarrow> consensus_output \<Rightarrow> bool" where
  "proofs_verify sha hs vf co \<longleftrightarrow> list_all2 (\<lambda>b pr. verify_committed_block_proof sha hs b pr vf = Ok ())
     (co_committed_blocks co) (co_committed_proofs co)"

lemma proofs_verify_quiet:
  "proofs_verify sha hs vf co \<Longrightarrow> co_committed_blocks co' = co_committed_blocks co \<Longrightarrow>
   co_committed_proofs co' = co_committed_proofs co \<Longrightarrow> proofs_verify sha hs vf co'"
  by (simp add: proofs_verify_def)

lemma commit_through_proofs:
  assumes cm: "certificates_match sha hs vf P" and ok: "known_ok sha hs vf (st_known_proposals (co_state co))"
    and P: "snd ` set (st_known_proposals (co_state co)) \<subseteq> P"
    and block: "bm_get (st_known_proposals (co_state co)) (qc_proposal_digest qc) = Some block"
    and parent: "bm_get (st_known_proposals (co_state co)) (qc_proposal_digest (p_justify block)) = Some parent"
    and qc: "verify_certificate hs vf qc = Ok ()"
    and run: "commit_through (qc_proposal_digest (p_justify parent)) parent block qc co = Ok co'"
    and proofs: "proofs_verify sha hs vf co"
  shows "proofs_verify sha hs vf co'"
proof -
  from commit_through_run [OF run] obtain new where
    new: "linked_down (qc_proposal_digest (p_justify parent)) new"
    "\<forall>(d, p) \<in> set new. bm_get (st_known_proposals (co_state co)) d = Some p \<and>
      st_committed_height (co_state co) < p_height p"
    and cr: "commit_run (rev new) parent block qc 0 co co'" by blast
  have known: "\<forall>(d, p) \<in> set new. validate_proposal hs vf p = Ok () \<and> proposal_digest sha hs p = Ok d"
    using new(2) known_okD [OF ok] by fastforce
  note b = known_okD [OF ok block] and pa = known_okD [OF ok parent]
  have line: "line_linked sha hs vf (commit_line (rev new) parent block)"
    by (rule commit_line_linked [OF new(1) known pa b(1)])
  have inP: "p \<in> P" if "bm_get (st_known_proposals (co_state co)) d = Some p" for d p
    using P bm_get_SomeD [OF that] by force
  then have within: "set (commit_line (rev new) parent block) \<subseteq> P"
    using new(2) block parent by (fastforce simp: commit_line_def)
  have "directly_certifies sha hs qc block" using cm qc b inP [OF block] by (simp add: certificates_match_def)
  moreover have "\<forall>(d, p) \<in> set (rev new). proposal_digest sha hs p = Ok d" using known by auto
  ultimately have ver: "verify_committed_block_proof sha hs x pr vf = Ok ()"
    if "entry_proved (rev new) parent block qc x pr" for x pr
    using entry_verifies [OF cm line within qc _ _ that] by blast
  from commit_run_blocks [OF cr] obtain bs prs where
    "co_committed_blocks co' = co_committed_blocks co @ bs"
    "co_committed_proofs co' = co_committed_proofs co @ prs"
    "list_all2 (entry_proved (rev new) parent block qc) bs prs" by blast
  then show ?thesis using proofs list_all2_mono [of "entry_proved (rev new) parent block qc" bs prs] ver
    by (simp add: proofs_verify_def list_all2_appendI)
qed

lemma apply_certificate_proofs:
  assumes cm: "certificates_match sha hs vf P" and inv: "state_inv sha hs vf (co_state co)"
    and P: "snd ` set (st_known_proposals (co_state co)) \<subseteq> P"
    and app: "apply_certificate hs vf qc co = Ok co'" and proofs: "proofs_verify sha hs vf co"
  shows "proofs_verify sha hs vf co'"
  using app
proof (cases rule: apply_certificate_cases)
  case (committed st block parent)
  let ?co = "co\<lparr> co_state := lock_justify block st \<rparr>"
  have known: "st_known_proposals (co_state ?co) = st_known_proposals (co_state co)"
    "st_known_proposals st = st_known_proposals (co_state co)"
    using note_certificate_Ok(1) [OF committed(2)] by (simp_all add: lock_justify_def)
  show ?thesis
  proof (rule commit_through_proofs [OF cm _ _ _ _ _ committed(7)])
    show "known_ok sha hs vf (st_known_proposals (co_state ?co))"
      using inv known by (simp add: state_inv_def)
    show "snd ` set (st_known_proposals (co_state ?co)) \<subseteq> P" using P known by simp
    show "bm_get (st_known_proposals (co_state ?co)) (qc_proposal_digest qc) = Some block"
      using committed(3) known by simp
    show "bm_get (st_known_proposals (co_state ?co)) (qc_proposal_digest (p_justify block)) = Some parent"
      using committed(6) by simp
    show "verify_certificate hs vf qc = Ok ()" using committed(1) by (simp add: certified_def)
    show "proofs_verify sha hs vf ?co" using proofs by (simp add: proofs_verify_def)
  qed
qed (use proofs in \<open>simp_all add: proofs_verify_def\<close>)

lemma form_and_apply_proofs:
  assumes cm: "certificates_match sha hs vf P" and inv: "state_inv sha hs vf (co_state co)"
    and P: "snd ` set (st_known_proposals (co_state co)) \<subseteq> P"
    and app: "form_and_apply hs vf d co = Ok co'" and proofs: "proofs_verify sha hs vf co"
  shows "proofs_verify sha hs vf co'"
  using app
proof (cases rule: form_and_apply_cases)
  case waiting
  then show ?thesis using proofs by simp
next
  case (formed qc co1)
  then show ?thesis using apply_certificate_proofs [OF cm inv P formed(2) proofs]
    by (simp add: proofs_verify_def)
qed

lemma process_vote_proofs:
  assumes cm: "certificates_match sha hs vf P" and vs: "validator_set_inv (hs_validator_set hs)"
    and inv: "state_inv sha hs vf (co_state co)"
    and P: "snd ` set (st_known_proposals (co_state co)) \<subseteq> P"
    and step: "process_vote hs vf v co = Ok co'" and proofs: "proofs_verify sha hs vf co"
  shows "proofs_verify sha hs vf co'"
  using step
proof (cases rule: process_vote_cases)
  case repeated
  then show ?thesis using proofs by (simp add: proofs_verify_def)
next
  case added
  have pend: "pending_ok hs vf (v_proposal_digest v) (pending_for (co_state co) (v_proposal_digest v))"
    using inv by (intro pending_votes_ok_get) (simp add: state_inv_def)
  note r = record_pending_inv(1) [OF inv vs added(1) pending_ok_insert [OF pend added(1) refl]]
  show ?thesis
    by (rule form_and_apply_proofs [OF cm _ _ added(3)])
      (use r P proofs in \<open>simp_all add: proofs_verify_def observe_vote_def\<close>)
qed

lemma remember_proposal_within:
  assumes "snd ` set (st_known_proposals (co_state co)) \<subseteq> P" "p \<in> P"
  shows "snd ` set (st_known_proposals (co_state (remember_proposal d p co))) \<subseteq> P"
proof -
  have "snd ` set (bm_insert d p (st_known_proposals (co_state co))) \<subseteq>
      snd ` insert (d, p) (set (st_known_proposals (co_state co)))"
    by (rule image_mono [OF set_bm_insert_subset])
  also have "\<dots> \<subseteq> P" using assms by simp
  finally show ?thesis by (simp add: remember_proposal_def)
qed

lemma process_proposal_proofs:
  assumes cm: "certificates_match sha hs vf P" and inv: "state_inv sha hs vf (co_state co)"
    and P: "snd ` set (st_known_proposals (co_state co)) \<subseteq> P"
    and step: "process_proposal sha hs sg vf p co = Ok co'" and proofs: "proofs_verify sha hs vf co"
    and p: "p \<in> P"
  shows "proofs_verify sha hs vf co'"
  using step
proof (cases rule: process_proposal_cases)
  case (certified d qc co1)
  note r = remember_proposal_inv(1) [OF inv certified(1,2)]
  have k: "snd ` set (st_known_proposals (co_state (remember_proposal d p co))) \<subseteq> P"
    by (rule remember_proposal_within [OF P p])
  have "proofs_verify sha hs vf (remember_proposal d p co)"
    using proofs by (simp add: proofs_verify_def remember_proposal_def)
  note a = apply_certificate_proofs [OF cm r k certified(4) this]
  have "snd ` set (st_known_proposals (co_state co1)) \<subseteq> P"
    using k apply_certificate_frame [OF certified(4)] by simp
  then show ?thesis
    using apply_certificate_proofs [OF cm conjunct1 [OF apply_certificate_inv [OF r certified(4)]] _
        certified(5) a] by blast
next
  case (repeated d)
  then show ?thesis using proofs by simp
next
  case (voted d co1 vote next_view)
  note r = remember_proposal_inv(1) [OF inv voted(1,2)]
  have k: "snd ` set (st_known_proposals (co_state (remember_proposal d p co))) \<subseteq> P"
    by (rule remember_proposal_within [OF P p])
  have "proofs_verify sha hs vf (remember_proposal d p co)"
    using proofs by (simp add: proofs_verify_def remember_proposal_def)
  then have a: "proofs_verify sha hs vf co1" by (rule apply_certificate_proofs [OF cm r k voted(7)])
  have "st_last_voted_view (co_state co1) < p_view p"
    using apply_certificate_frame [OF voted(7)] voted(3) by (simp add: remember_proposal_def)
  note v = record_vote_inv(1) [OF conjunct1 [OF apply_certificate_inv [OF r voted(7)]] voted(9) this]
  have "snd ` set (st_known_proposals (co_state (record_vote p d next_view vote co1))) \<subseteq> P"
    using k apply_certificate_frame [OF voted(7)] by (simp add: record_vote_def)
  then show ?thesis using form_and_apply_proofs [OF cm v _ voted(10)] a
    by (simp add: proofs_verify_def record_vote_def)
qed

lemma on_event_proofs:
  assumes cm: "certificates_match sha hs vf P" and vs: "validator_set_inv (hs_validator_set hs)"
    and inv: "state_inv sha hs vf st" and P: "snd ` set (st_known_proposals st) \<subseteq> P"
    and received: "\<And>p. event = EvProposal p \<Longrightarrow> p \<in> P"
    and step: "on_event sha hs st event sg vf = Ok out"
  shows "proofs_verify sha hs vf out"
  using step
proof (rule on_event_cases)
  fix co assume out: "out = co\<lparr> co_state := prune_state (co_state co) \<rparr>"
    and res: "(case event of
        EvProposal p \<Rightarrow> process_proposal sha hs sg vf p (output_of st)
      | EvVote v \<Rightarrow> process_vote hs vf v (output_of st)
      | EvCertificate qc \<Rightarrow> apply_certificate hs vf qc (output_of st)
      | EvTick now \<Rightarrow> process_tick hs now (output_of st)) = Ok co"
  have o: "state_inv sha hs vf (co_state (output_of st))" "proofs_verify sha hs vf (output_of st)"
    "snd ` set (st_known_proposals (co_state (output_of st))) \<subseteq> P"
    using inv P by (simp_all add: proofs_verify_def)
  have "proofs_verify sha hs vf co"
  proof (cases event)
    case (EvTick now)
    then show ?thesis using res process_tick_Ok [of hs now "output_of st" co]
      by (auto simp: proofs_verify_def)
  qed (use res received process_proposal_proofs [OF cm o(1,3) _ o(2)]
      process_vote_proofs [OF cm vs o(1,3) _ o(2)] apply_certificate_proofs [OF cm o(1,3) _ o(2)] in auto)
  then show ?thesis by (simp add: out proofs_verify_def)
qed

section \<open>Correctness of the codec\<close>

text \<open>
  C21. The commit-proof decoder accepts exactly the encodings of proofs whose three proposals and
  certificate are themselves accepted by their bounded decoders, and returns the proof that was
  encoded. No byte string has two readings and no proof two accepted encodings.
\<close>

theorem commit_proof_codec_exact:
  "decode_committed_block_proof b = Ok pr \<longleftrightarrow>
     encode_committed_block_proof pr = Ok b \<and>
     (\<exists>b1 b2 b3 b4. decode_proposal b1 = Ok (cbp_committed pr) \<and> decode_proposal b2 = Ok (cbp_child pr) \<and>
        decode_proposal b3 = Ok (cbp_grandchild pr) \<and>
        decode_quorum_certificate b4 = Ok (cbp_grandchild_certificate pr))"
  by (auto simp: decode_committed_block_proof_Ok_iff committed_block_proof_fits_def
      decode_proposal_Ok_iff decode_quorum_certificate_Ok_iff encode_committed_block_proof_Ok_iff)

end
