(* ===== verification/HotStuff_Agreement.thy ===== *)
theory HotStuff_Agreement
  imports HotStuff_Runs Commit_Proof
begin

text \<open>
  When the vote and lock rules give agreement. Two verified commit proofs for one height prove the
  same block if each chain has consecutive views, less than a third of the power is faulty, valid
  votes of correct validators were cast by them, digests do not collide, and a correct validator
  votes for a proposal only when it knows the certified parent. The code checks neither the
  consecutive views nor the last condition.
\<close>

section \<open>Traces\<close>

text \<open>The successful steps of a run: state before, event, output.\<close>

fun run_trace ::
  "sha_functions \<Rightarrow> chained_hotstuff \<Rightarrow> consensus_signer \<Rightarrow> consensus_verifier \<Rightarrow> consensus_state \<Rightarrow>
   consensus_event list \<Rightarrow> (consensus_state \<times> consensus_event \<times> consensus_output) list" where
  "run_trace sha hs sg vf st [] = []"
| "run_trace sha hs sg vf st (e # es) =
     (case on_event sha hs st e sg vf of
        Ok out \<Rightarrow> (st, e, out) # run_trace sha hs sg vf (co_state out) es
      | _ \<Rightarrow> run_trace sha hs sg vf st es)"

definition step_votes :: "consensus_state \<times> consensus_event \<times> consensus_output \<Rightarrow> consensus_vote list" where
  "step_votes s = votes_of (co_outbound_messages (snd (snd s)))"

lemma run_trace_votes:
  "run_votes (fst (run_events sha hs sg vf st es)) =
     concat (map step_votes (run_trace sha hs sg vf st es))"
  by (induction es arbitrary: st)
    (auto simp: step_votes_def case_prod_beta split: result.splits)

lemma on_event_known:
  assumes "on_event sha hs st event sg vf = Ok out"
  shows "snd ` set (st_known_proposals (co_state out)) \<subseteq>
    snd ` set (st_known_proposals st) \<union> {p. event = EvProposal p}"
proof -
  have insert: "snd ` set (bm_insert d p m) \<subseteq> insert p (snd ` set m)"
    for d :: digest32 and p :: consensus_proposal and m
    using set_bm_insert_subset [of d p m] by auto
  have form: "st_known_proposals (co_state co') = st_known_proposals (co_state co)"
    if "form_and_apply hs vf d co = Ok co'" for d co co'
    using that
  proof (cases rule: form_and_apply_cases)
    case (formed qc co1)
    then show ?thesis using apply_certificate_frame [OF formed(2)] by simp
  qed simp
  from assms obtain co where out: "out = co\<lparr> co_state := prune_state (co_state co) \<rparr>"
    and res: "(case event of
        EvProposal p \<Rightarrow> process_proposal sha hs sg vf p (output_of st)
      | EvVote v \<Rightarrow> process_vote hs vf v (output_of st)
      | EvCertificate qc \<Rightarrow> apply_certificate hs vf qc (output_of st)
      | EvTick now \<Rightarrow> process_tick hs now (output_of st)) = Ok co"
    by (rule on_event_cases)
  have "snd ` set (st_known_proposals (co_state co)) \<subseteq>
      snd ` set (st_known_proposals st) \<union> {p. event = EvProposal p}"
  proof (cases event)
    case (EvProposal p)
    then have "process_proposal sha hs sg vf p (output_of st) = Ok co" using res by simp
    then show ?thesis
    proof (cases rule: process_proposal_cases)
      case (certified d qc co1)
      then show ?thesis using apply_certificate_frame [OF certified(4)]
          apply_certificate_frame [OF certified(5)] insert EvProposal
        by (auto simp: remember_proposal_def)
    next
      case (voted d co1 vote next_view)
      then show ?thesis using apply_certificate_frame [OF voted(7)] form [OF voted(10)] insert EvProposal
        by (auto simp: remember_proposal_def record_vote_def)
    qed (use EvProposal in auto)
  next
    case (EvVote v)
    then have "process_vote hs vf v (output_of st) = Ok co" using res by simp
    then show ?thesis
    proof (cases rule: process_vote_cases)
      case added
      then show ?thesis using form [OF added(3)] by (auto simp: observe_vote_def)
    qed (auto simp: observe_vote_def)
  next
    case (EvCertificate qc)
    then show ?thesis using res apply_certificate_frame [of hs vf qc "output_of st" co] by auto
  next
    case (EvTick now)
    then show ?thesis using res process_tick_Ok [of hs now "output_of st" co] by auto
  qed
  moreover have "set (st_known_proposals (prune_state (co_state co))) \<subseteq> set (st_known_proposals (co_state co))"
    by (auto simp: prune_state_def Let_def set_bm_retain)
  ultimately show ?thesis unfolding out by auto
qed

definition trace_ok ::
  "sha_functions \<Rightarrow> chained_hotstuff \<Rightarrow> consensus_signer \<Rightarrow> consensus_verifier \<Rightarrow> consensus_proposal set \<Rightarrow>
   consensus_state \<times> consensus_event \<times> consensus_output \<Rightarrow> bool" where
  "trace_ok sha hs sg vf P = (\<lambda>(st, e, out). on_event sha hs st e sg vf = Ok out \<and>
     state_inv sha hs vf st \<and> snd ` set (st_known_proposals st) \<subseteq> P \<and> (\<forall>p. e = EvProposal p \<longrightarrow> p \<in> P))"

lemma run_trace_ok:
  assumes "validator_set_inv (hs_validator_set hs)" "state_inv sha hs vf st"
    "snd ` set (st_known_proposals st) \<subseteq> P" "\<And>p. EvProposal p \<in> set es \<Longrightarrow> p \<in> P"
  shows "list_all (trace_ok sha hs sg vf P) (run_trace sha hs sg vf st es) \<and>
    sorted_wrt (\<lambda>s s'. progress (co_state (snd (snd s))) (fst s')) (run_trace sha hs sg vf st es) \<and>
    list_all (\<lambda>s. progress st (fst s)) (run_trace sha hs sg vf st es)"
  using assms(2-4)
proof (induction es arbitrary: st)
  case (Cons e es)
  show ?case
  proof (cases "on_event sha hs st e sg vf")
    case (Ok out)
    note i = on_event_inv [OF Cons.prems(1) assms(1) Ok]
    have "{p. e = EvProposal p} \<subseteq> P" using Cons.prems(3) by auto
    then have "snd ` set (st_known_proposals (co_state out)) \<subseteq> P"
      using on_event_known [OF Ok] Cons.prems(2) by (meson Un_least order_trans)
    moreover have "\<And>p. EvProposal p \<in> set es \<Longrightarrow> p \<in> P" using Cons.prems(3) by simp
    ultimately have IH: "list_all (trace_ok sha hs sg vf P) (run_trace sha hs sg vf (co_state out) es) \<and>
      sorted_wrt (\<lambda>s s'. progress (co_state (snd (snd s))) (fst s')) (run_trace sha hs sg vf (co_state out) es) \<and>
      list_all (\<lambda>s. progress (co_state out) (fst s)) (run_trace sha hs sg vf (co_state out) es)"
      by (rule Cons.IH [OF conjunct1 [OF i]])
    moreover have "list_all (\<lambda>s. progress st (fst s)) (run_trace sha hs sg vf (co_state out) es)"
      using IH i unfolding list_all_iff by (blast intro: progress_trans)
    moreover have "trace_ok sha hs sg vf P (st, e, out)"
      using Ok Cons.prems by (simp add: trace_ok_def)
    ultimately show ?thesis using Ok by (simp add: list_all_iff)
  qed (use Cons in simp_all)
qed simp

text \<open>Two votes of one run: the earlier one was cast first, and nothing it set was undone.\<close>

lemma trace_votes_ordered:
  assumes ok: "list_all (trace_ok sha hs sg vf P) tr"
    and sorted: "sorted_wrt (\<lambda>s s'. progress (co_state (snd (snd s))) (fst s')) tr"
    and v: "v \<in> set (step_votes s)" "s \<in> set tr" and w: "w \<in> set (step_votes s')" "s' \<in> set tr"
    and less: "v_view v < v_view w"
  shows "progress (co_state (snd (snd s))) (fst s')"
proof -
  have view: "step_votes t = [u] \<and> st_last_voted_view (fst t) < v_view u \<and>
      st_last_voted_view (co_state (snd (snd t))) = v_view u"
    if t: "t \<in> set tr" "u \<in> set (step_votes t)" for t u
  proof -
    obtain st e out where t': "t = (st, e, out)" by (cases t)
    have "on_event sha hs st e sg vf = Ok out" using ok t(1) by (auto simp: t' list_all_iff trace_ok_def)
    from on_event_votes [OF this] show ?thesis
      using t(2) casts_vote_view(1) by (auto simp: t' step_votes_def)
  qed
  obtain i j where ij: "i < length tr" "tr ! i = s" "j < length tr" "tr ! j = s'"
    using v(2) w(2) by (auto simp: in_set_conv_nth)
  have "\<not> j < i"
  proof
    assume "j < i"
    then have "progress (co_state (snd (snd s'))) (fst s)"
      using sorted_wrt_nth_less [OF sorted] ij by blast
    then show False using view [OF v(2,1)] view [OF w(2,1)] less by (auto simp: progress_def)
  qed
  moreover have "i \<noteq> j" using ij view [OF v(2,1)] view [OF w(2,1)] less v w by auto
  ultimately show ?thesis using sorted_wrt_nth_less [OF sorted] ij by (metis linorder_neqE_nat)
qed

section \<open>Locking\<close>

lemma apply_certificate_locks:
  assumes inv: "state_inv sha hs vf (co_state co)"
    and app: "apply_certificate hs vf qc co = Ok co'" and "qc_view qc \<noteq> 0"
    and known: "bm_get (st_known_proposals (co_state co)) (qc_proposal_digest qc) = Some block"
  shows "qc_view (p_justify block) \<le> qc_view (st_locked_qc (co_state co')) \<and> p_view block = qc_view qc"
  using app
proof (cases rule: apply_certificate_cases)
  case genesis
  then show ?thesis using assms(3) by simp
next
  case (unknown st)
  then show ?thesis using known note_certificate_Ok(1) [OF unknown(2)] by simp
next
  case (locked st b)
  then have "b = block" using known note_certificate_Ok(1) [OF locked(2)] by simp
  then show ?thesis using locked by (auto simp: lock_justify_def)
next
  case (committed st b parent)
  then have b: "b = block" using known note_certificate_Ok(1) [OF committed(2)] by simp
  note n = note_certificate_inv [OF inv committed(1,2)]
  have hi: "p_view b \<le> qc_view (st_high_qc st)" using n(3) committed(4) by simp
  have "state_inv sha hs vf (co_state (co\<lparr> co_state := lock_justify b st \<rparr>))"
    using lock_justify_inv [OF n(1) committed(3) hi] by simp
  moreover have "qc_view (p_justify b) \<le> qc_view (st_locked_qc (lock_justify b st))"
    by (simp add: lock_justify_def not_less)
  ultimately show ?thesis using commit_through_inv(2) [OF _ committed(7)] b committed(4)
    by (fastforce simp: progress_def)
qed

lemma vote_locks:
  assumes inv: "state_inv sha hs vf st"
    and step: "on_event sha hs st (EvProposal p) sg vf = Ok out"
    and votes: "votes_of (co_outbound_messages out) \<noteq> []" and view: "qc_view (p_justify p) \<noteq> 0"
    and known: "known_proposal st (qc_proposal_digest (p_justify p)) = Some block"
  shows "qc_view (p_justify block) \<le> qc_view (st_locked_qc (co_state out))"
proof -
  from step obtain co where out: "out = co\<lparr> co_state := prune_state (co_state co) \<rparr>"
    and res: "process_proposal sha hs sg vf p (output_of st) = Ok co"
    by (rule on_event_cases) simp
  from res show ?thesis
  proof (cases rule: process_proposal_cases)
    case (certified d qc co1)
    then have "no_vote (output_of st) co"
      using apply_certificate_frame [OF certified(4)] apply_certificate_frame [OF certified(5)]
      by (simp add: no_vote_def remember_proposal_def)
    then show ?thesis using votes by (simp add: out no_vote_def)
  next
    case (repeated d)
    then show ?thesis using votes by (simp add: out)
  next
    case (voted d co1 vote next_view)
    let ?co = "remember_proposal d p (output_of st)"
    have r: "state_inv sha hs vf (co_state ?co)" using remember_proposal_inv(1) [OF _ voted(1,2)] inv by simp
    have "bm_inv (st_known_proposals st)" using inv by (simp add: state_inv_def known_ok_def)
    then have "bm_get (st_known_proposals (co_state ?co)) (qc_proposal_digest (p_justify p)) =
        Some (if qc_proposal_digest (p_justify p) = d then p else block)"
      using known by (simp add: remember_proposal_def known_proposal_def bm.get_insert)
    then obtain b where
      b: "bm_get (st_known_proposals (co_state ?co)) (qc_proposal_digest (p_justify p)) = Some b"
        "b = p \<or> b = block" by (metis (full_types))
    note l = apply_certificate_locks [OF r voted(7) view b(1)]
    then have "b = block" using b(2) validate_proposal_Ok(9) [OF voted(1)] by auto
    moreover have "st_last_voted_view (co_state co1) < p_view p"
      using apply_certificate_frame [OF voted(7)] voted(3) by (simp add: remember_proposal_def)
    note v = record_vote_inv [OF conjunct1 [OF apply_certificate_inv [OF r voted(7)]] voted(9) this]
    note f = form_and_apply_inv [OF v(1) voted(10)]
    moreover have "progress (co_state co1) (co_state co)"
      using progress_trans [OF v(2) conjunct2 [OF f]] .
    ultimately show ?thesis using l by (auto simp: out progress_def intro: order_trans)
  qed
qed

section \<open>The network\<close>

text \<open>A correct validator: its signer, the time it started and the events it has received.\<close>

record correct_node =
  cn_signer :: consensus_signer
  cn_start :: u64
  cn_events :: "consensus_event list"

definition node_trace ::
  "sha_functions \<Rightarrow> chained_hotstuff \<Rightarrow> consensus_verifier \<Rightarrow> correct_node \<Rightarrow>
   (consensus_state \<times> consensus_event \<times> consensus_output) list" where
  "node_trace sha hs vf n = run_trace sha hs (cn_signer n) vf (genesis_state hs (cn_start n)) (cn_events n)"

text \<open>At most a third of the voting power is faulty.\<close>

definition few_faults :: "chained_hotstuff \<Rightarrow> validator_id set \<Rightarrow> bool" where
  "few_faults hs F \<longleftrightarrow>
     3 * sum (vs_power (hs_validator_set hs)) (F \<inter> vs_members (hs_validator_set hs)) \<le>
       sum (vs_power (hs_validator_set hs)) (vs_members (hs_validator_set hs))"

text \<open>Signatures are unforgeable: a vote of a correct validator in a valid certificate was cast by it.\<close>

definition votes_genuine ::
  "sha_functions \<Rightarrow> chained_hotstuff \<Rightarrow> consensus_verifier \<Rightarrow> validator_id set \<Rightarrow>
   (validator_id \<Rightarrow> correct_node) \<Rightarrow> bool" where
  "votes_genuine sha hs vf F node \<longleftrightarrow>
     (\<forall>qc v. certified hs vf qc \<longrightarrow> v \<in> set (qc_votes qc) \<longrightarrow> v_validator v \<notin> F \<longrightarrow>
        (\<exists>s \<in> set (node_trace sha hs vf (node (v_validator v))). \<exists>w \<in> set (step_votes s).
           v_view w = v_view v \<and> v_height w = v_height v \<and>
           v_proposal_digest w = v_proposal_digest v))"

text \<open>
  \<open>P\<close> is the set of proposals in the network. Their digests differ from each other and from the
  genesis digest, and correct validators received no other proposals.
\<close>

definition digests_distinct ::
  "sha_functions \<Rightarrow> chained_hotstuff \<Rightarrow> consensus_proposal set \<Rightarrow> bool" where
  "digests_distinct sha hs P \<longleftrightarrow>
     (\<forall>p \<in> P. \<forall>q \<in> P. \<forall>d. proposal_digest sha hs p = Ok d \<longrightarrow> proposal_digest sha hs q = Ok d \<longrightarrow> p = q) \<and>
     (\<forall>p \<in> P. proposal_digest sha hs p \<noteq> Ok (hs_genesis_block hs))"

definition received_from ::
  "validator_id set \<Rightarrow> (validator_id \<Rightarrow> correct_node) \<Rightarrow> consensus_proposal set \<Rightarrow> bool" where
  "received_from F node P \<longleftrightarrow> (\<forall>a p. a \<notin> F \<longrightarrow> EvProposal p \<in> set (cn_events (node a)) \<longrightarrow> p \<in> P)"

text \<open>Correct validators vote only for proposals whose certified parent they know.\<close>

definition parents_known ::
  "sha_functions \<Rightarrow> chained_hotstuff \<Rightarrow> consensus_verifier \<Rightarrow> validator_id set \<Rightarrow>
   (validator_id \<Rightarrow> correct_node) \<Rightarrow> bool" where
  "parents_known sha hs vf F node \<longleftrightarrow>
     (\<forall>a st p out. a \<notin> F \<longrightarrow> (st, EvProposal p, out) \<in> set (node_trace sha hs vf (node a)) \<longrightarrow>
        votes_of (co_outbound_messages out) \<noteq> [] \<longrightarrow>
        qc_view (p_justify p) = 0 \<or> known_proposal st (qc_proposal_digest (p_justify p)) \<noteq> None)"

text \<open>
  What is asked of every network: few faults, unforgeable signatures, no colliding digests. Agreement
  also needs the certified parents to be known.
\<close>

definition authentic_network ::
  "sha_functions \<Rightarrow> chained_hotstuff \<Rightarrow> consensus_verifier \<Rightarrow> validator_id set \<Rightarrow>
   (validator_id \<Rightarrow> correct_node) \<Rightarrow> consensus_proposal set \<Rightarrow> bool" where
  "authentic_network sha hs vf F node P \<longleftrightarrow> validator_set_inv (hs_validator_set hs) \<and> few_faults hs F \<and>
     votes_genuine sha hs vf F node \<and> digests_distinct sha hs P \<and> received_from F node P"

definition sound_network ::
  "sha_functions \<Rightarrow> chained_hotstuff \<Rightarrow> consensus_verifier \<Rightarrow> validator_id set \<Rightarrow>
   (validator_id \<Rightarrow> correct_node) \<Rightarrow> consensus_proposal set \<Rightarrow> bool" where
  "sound_network sha hs vf F node P \<longleftrightarrow> authentic_network sha hs vf F node P \<and>
     parents_known sha hs vf F node"

lemma node_trace_ok:
  assumes "authentic_network sha hs vf F node P" "a \<notin> F"
  shows "list_all (trace_ok sha hs (cn_signer (node a)) vf P) (node_trace sha hs vf (node a))"
    "sorted_wrt (\<lambda>s s'. progress (co_state (snd (snd s))) (fst s')) (node_trace sha hs vf (node a))"
  using assms run_trace_ok [of hs sha vf "genesis_state hs (cn_start (node a))" P "cn_events (node a)"]
    genesis_state_inv [of hs sha vf]
  by (auto simp: authentic_network_def node_trace_def received_from_def genesis_state_def Let_def)

text \<open>The step in which a correct signer of a certificate voted for it.\<close>

definition voted_in ::
  "sha_functions \<Rightarrow> chained_hotstuff \<Rightarrow> consensus_verifier \<Rightarrow> correct_node \<Rightarrow> quorum_certificate \<Rightarrow>
   consensus_proposal \<Rightarrow> consensus_state \<Rightarrow> consensus_output \<Rightarrow> consensus_vote \<Rightarrow> bool" where
  "voted_in sha hs vf n qc p st out v \<longleftrightarrow> (st, EvProposal p, out) \<in> set (node_trace sha hs vf n) \<and>
     step_votes (st, EvProposal p, out) = [v] \<and> casts_vote sha hs (cn_signer n) vf st (EvProposal p) v \<and>
     validate_proposal hs vf p = Ok () \<and> directly_certifies sha hs qc p \<and> v_view v = qc_view qc \<and>
     v_proposal_digest v = qc_proposal_digest qc"

lemma correct_signer_voted:
  assumes net: "authentic_network sha hs vf F node P" and qc: "certified hs vf qc"
    and a: "a \<in> qc_signers qc" "a \<notin> F"
  obtains p st out v where "voted_in sha hs vf (node a) qc p st out v" "p \<in> P"
proof -
  have inv: "validator_set_inv (hs_validator_set hs)" using net by (simp add: authentic_network_def)
  obtain u where u: "u \<in> set (qc_votes qc)" "v_validator u = a" "vote_matches qc u"
    using signer_vote [OF inv qc a(1)] by metis
  have "votes_genuine sha hs vf F node" using net by (simp add: authentic_network_def)
  then obtain s w where s: "s \<in> set (node_trace sha hs vf (node a))" "w \<in> set (step_votes s)"
    "v_view w = v_view u" "v_height w = v_height u" "v_proposal_digest w = v_proposal_digest u"
    using qc u(1,2) a(2) unfolding votes_genuine_def by blast
  obtain st e out where s': "s = (st, e, out)" by (cases s)
  have ok: "trace_ok sha hs (cn_signer (node a)) vf P (st, e, out)"
    using node_trace_ok(1) [OF net a(2)] s(1) by (simp add: s' list_all_iff)
  then have "on_event sha hs st e (cn_signer (node a)) vf = Ok out" by (simp add: trace_ok_def)
  from on_event_votes [OF this] have c: "casts_vote sha hs (cn_signer (node a)) vf st e w"
    "step_votes s = [w]" using s(2) by (auto simp: s' step_votes_def)
  then obtain p where p: "e = EvProposal p" "validate_proposal hs vf p = Ok ()"
    "proposal_digest sha hs p = Ok (v_proposal_digest w)" "v_view w = p_view p" "v_height w = p_height p"
    using sign_vote_Ok by (fastforce simp: casts_vote_def)
  have "directly_certifies sha hs qc p"
    using p u(3) s(3-5) by (simp add: directly_certifies_def vote_matches_def)
  then have "voted_in sha hs vf (node a) qc p st out w"
    using s c p u(3) by (simp add: voted_in_def s' vote_matches_def)
  moreover have "p \<in> P" using ok p(1) by (simp add: trace_ok_def)
  ultimately show thesis using that by blast
qed

section \<open>Certificates of a sound network\<close>

lemma authentic_networkD:
  assumes "authentic_network sha hs vf F node P"
  shows "validator_set_inv (hs_validator_set hs)" "few_faults hs F" "digests_distinct sha hs P"
  using assms by (simp_all add: authentic_network_def)

lemma sound_networkD:
  assumes "sound_network sha hs vf F node P"
  shows "validator_set_inv (hs_validator_set hs)" "few_faults hs F" "digests_distinct sha hs P"
    "parents_known sha hs vf F node" "authentic_network sha hs vf F node P"
  using assms authentic_networkD by (auto simp: sound_network_def)

lemma common_voter:
  assumes "authentic_network sha hs vf F node P" "certified hs vf qc" "certified hs vf qc'"
  obtains a where "a \<in> qc_signers qc" "a \<in> qc_signers qc'" "a \<notin> F"
  using hs_certificates.common_correct_signer [of "(hs, vf)" qc qc' F] authentic_networkD(1,2) [OF assms(1)]
    assms(2,3) by (auto simp: few_faults_def)

lemma certified_proposal:
  assumes net: "authentic_network sha hs vf F node P" and qc: "certified hs vf qc"
  obtains p where "p \<in> P" "validate_proposal hs vf p = Ok ()" "directly_certifies sha hs qc p"
proof -
  obtain a where a: "a \<in> qc_signers qc" "a \<notin> F" using common_voter [OF net qc qc] .
  then obtain p st out v where "voted_in sha hs vf (node a) qc p st out v" "p \<in> P"
    using correct_signer_voted [OF net qc] by metis
  then show thesis using that by (simp add: voted_in_def)
qed

lemma same_digest:
  assumes "digests_distinct sha hs P" "p \<in> P" "q \<in> P" "proposal_digest sha hs p = Ok d"
    "proposal_digest sha hs q = Ok d"
  shows "p = q"
  using assms by (simp add: digests_distinct_def)

lemma certificate_matches:
  assumes net: "authentic_network sha hs vf F node P" and qc: "certified hs vf qc"
    and p: "p \<in> P" "proposal_digest sha hs p = Ok (qc_proposal_digest qc)"
  shows "directly_certifies sha hs qc p"
proof -
  obtain q where q: "q \<in> P" "directly_certifies sha hs qc q" using certified_proposal [OF net qc] .
  then have "p = q" using same_digest [OF authentic_networkD(3) [OF net] p(1) q(1) p(2)]
    by (simp add: directly_certifies_def)
  then show ?thesis using q by simp
qed

lemma authentic_certificates_match:
  assumes net: "authentic_network sha hs vf F node P"
  shows "certificates_match sha hs vf P"
  unfolding certificates_match_def
proof (intro allI ballI impI)
  fix qc p assume p: "p \<in> P" and qc: "verify_certificate hs vf qc = Ok ()"
    and d: "proposal_digest sha hs p = Ok (qc_proposal_digest qc)"
  have "qc_view qc \<noteq> 0"
  proof
    assume "qc_view qc = 0"
    then have "qc_proposal_digest qc = hs_genesis_block hs"
      using qc by (auto simp: verify_certificate_Ok_iff [OF authentic_networkD(1) [OF net]]
          genesis_anchor_def quorum_voted_def)
    then show False using authentic_networkD(3) [OF net] p d by (simp add: digests_distinct_def)
  qed
  then show "directly_certifies sha hs qc p"
    using certificate_matches [OF net _ p d] qc by (simp add: certified_def)
qed

lemma certificate_unique:
  assumes net: "authentic_network sha hs vf F node P" and qc: "certified hs vf qc" "certified hs vf qc'"
    and view: "qc_view qc = qc_view qc'"
  shows "qc_proposal_digest qc = qc_proposal_digest qc'"
proof -
  obtain a where a: "a \<in> qc_signers qc" "a \<in> qc_signers qc'" "a \<notin> F" using common_voter [OF net qc] .
  obtain p st out v where v: "voted_in sha hs vf (node a) qc p st out v"
    using correct_signer_voted [OF net qc(1) a(1,3)] .
  obtain q st' out' w where w: "voted_in sha hs vf (node a) qc' q st' out' w"
    using correct_signer_voted [OF net qc(2) a(2,3)] .
  let ?tr = "node_trace sha hs vf (node a)"
  obtain outs end_st where run: "run_events sha hs (cn_signer (node a)) vf
      (genesis_state hs (cn_start (node a))) (cn_events (node a)) = (outs, end_st)" by fastforce
  have vs: "run_votes outs = concat (map step_votes ?tr)"
    using run_trace_votes [of sha hs "cn_signer (node a)" vf] run by (metis fst_conv node_trace_def)
  have "u \<in> set (concat (map step_votes ?tr))" if "s \<in> set ?tr" "step_votes s = [u]" for s u
    using that by (auto intro!: bexI [of _ s])
  then have "v \<in> set (concat (map step_votes ?tr))" "w \<in> set (concat (map step_votes ?tr))"
    using v w by (simp_all only: voted_in_def) blast+
  moreover have "distinct (map v_view (concat (map step_votes ?tr)))"
    using run_votes_sorted [OF run] by (simp add: vs [symmetric] strict_sorted_iff del: map_concat)
  ultimately have "v = w" using v w view by (auto simp: voted_in_def distinct_map inj_on_def)
  then show ?thesis using v w by (simp add: voted_in_def)
qed

section \<open>Ancestry\<close>

inductive descends ::
  "sha_functions \<Rightarrow> chained_hotstuff \<Rightarrow> consensus_proposal set \<Rightarrow> digest32 \<Rightarrow> digest32 \<Rightarrow> bool"
  for sha hs P where
  self: "descends sha hs P d d"
| link: "p \<in> P \<Longrightarrow> proposal_digest sha hs p = Ok d \<Longrightarrow>
    descends sha hs P (qc_proposal_digest (p_justify p)) b \<Longrightarrow> descends sha hs P d b"

lemma descends_trans:
  "descends sha hs P a b \<Longrightarrow> descends sha hs P b c \<Longrightarrow> descends sha hs P a c"
  by (induction rule: descends.induct) (auto intro: descends.intros)

lemma reaches_descends:
  assumes "reaches st d a" "known_ok sha hs vf (st_known_proposals st)"
    "snd ` set (st_known_proposals st) \<subseteq> P"
  shows "descends sha hs P d a"
  using assms
proof (induction rule: reaches.induct)
  case (here d)
  show ?case by (rule descends.self)
next
  case (link d p a)
  then have "bm_get (st_known_proposals st) d = Some p" by (simp add: known_proposal_def)
  then have "p \<in> P" "proposal_digest sha hs p = Ok d"
    using link.prems bm_get_SomeD [of "st_known_proposals st" d p] known_okD(2) by force+
  then show ?case using link by (blast intro: descends.link)
qed

text \<open>Heights grow along ancestry, so two blocks of one height are not ancestors of each other.\<close>

lemma descends_genesis:
  assumes "descends sha hs P (hs_genesis_block hs) b" "digests_distinct sha hs P"
  shows "b = hs_genesis_block hs"
  using assms(1) by (cases rule: descends.cases) (use assms(2) in \<open>auto simp: digests_distinct_def\<close>)

text \<open>The certificate a valid proposal carries is the genesis anchor or a quorum certificate.\<close>

lemma justify_cases:
  assumes "validator_set_inv (hs_validator_set hs)" "validate_proposal hs vf p = Ok ()"
  obtains (genesis) "qc_view (p_justify p) = 0" "qc_proposal_digest (p_justify p) = hs_genesis_block hs"
  | (certified) "certified hs vf (p_justify p)" "qc_view (p_justify p) \<noteq> 0"
  using validate_proposal_Ok(10) [OF assms(2)]
  by (auto simp: verify_certificate_Ok_iff [OF assms(1)] genesis_anchor_def certified_iff [OF assms(1)]
      quorum_voted_def)

lemma descends_height:
  assumes net: "sound_network sha hs vf F node P"
    and d: "descends sha hs P d b" and q: "q \<in> P" "proposal_digest sha hs q = Ok b"
    and p: "p \<in> P" "validate_proposal hs vf p = Ok ()" "proposal_digest sha hs p = Ok d"
  shows "d = b \<or> p_height q < p_height p"
  using d q p
proof (induction arbitrary: p rule: descends.induct)
  case (self d)
  then show ?case by simp
next
  case (link p' d b)
  note distinct = sound_networkD(3) [OF net]
  have p': "p' = p"
    using same_digest [OF distinct link.hyps(1) link.prems(3) link.hyps(2) link.prems(5)] .
  have "unat (p_height p) = Suc (unat (qc_height (p_justify p)))"
    using validate_proposal_Ok(8) [OF link.prems(4)] .
  then have less: "qc_height (p_justify p) < p_height p" by (simp add: word_less_nat_alt)
  from sound_networkD(1) [OF net] link.prems(4) show ?case
  proof (cases rule: justify_cases)
    case genesis
    then have "b = hs_genesis_block hs" using descends_genesis [OF _ distinct] link.hyps(3) p' by simp
    then show ?thesis using link.prems(1,2) distinct by (auto simp: digests_distinct_def)
  next
    case certified
    obtain r where r: "r \<in> P" "validate_proposal hs vf r = Ok ()"
      "directly_certifies sha hs (p_justify p) r" using certified_proposal [OF sound_networkD(5) [OF net] certified(1)] .
    then have r': "proposal_digest sha hs r = Ok (qc_proposal_digest (p_justify p'))"
      "p_height r = qc_height (p_justify p)" by (simp_all add: directly_certifies_def p')
    from link.IH [OF link.prems(1,2) r(1,2) r'(1)] show ?thesis
    proof
      assume "qc_proposal_digest (p_justify p') = b"
      then have "r = q" using same_digest [OF distinct r(1) link.prems(1)] r'(1) link.prems(2) by simp
      then show ?thesis using less r'(2) by simp
    qed (use less r'(2) in auto)
  qed
qed

section \<open>Agreement\<close>

definition consecutive_views :: "committed_block_proof \<Rightarrow> bool" where
  "consecutive_views pr \<longleftrightarrow>
     unat (p_view (cbp_child pr)) = Suc (unat (p_view (cbp_committed pr))) \<and>
     unat (p_view (cbp_grandchild pr)) = Suc (unat (p_view (cbp_child pr)))"

definition proof_within :: "consensus_proposal set \<Rightarrow> committed_block_proof \<Rightarrow> bool" where
  "proof_within P pr \<longleftrightarrow> cbp_committed pr \<in> P \<and> cbp_child pr \<in> P \<and> cbp_grandchild pr \<in> P"

text \<open>
  A correct validator that voted for the grandchild has locked the committed block, so a later vote
  of it extends that block or answers a newer certificate.
\<close>

lemma later_vote_choice:
  assumes net: "sound_network sha hs vf F node P"
    and gc: "certified hs vf gqc" "directly_certifies sha hs gqc g" "g \<in> P"
    and c: "p_justify g = jc" "certified hs vf jc" "directly_certifies sha hs jc ch" "ch \<in> P"
    and qc: "certified hs vf qc" "qc_view gqc < qc_view qc"
  obtains p lock where "p \<in> P" "validate_proposal hs vf p = Ok ()" "directly_certifies sha hs qc p"
    "qc_view (p_justify ch) \<le> qc_view lock" "verify_certificate hs vf lock = Ok ()"
    "qc_view lock < qc_view qc"
    "qc_view lock < qc_view (p_justify p) \<or>
      descends sha hs P (qc_proposal_digest (p_justify p)) (qc_proposal_digest lock)"
proof -
  note distinct = sound_networkD(3) [OF net]
  obtain a where a: "a \<in> qc_signers gqc" "a \<in> qc_signers qc" "a \<notin> F"
    using common_voter [OF sound_networkD(5) [OF net] gc(1) qc(1)] .
  obtain g' st out v where v: "voted_in sha hs vf (node a) gqc g' st out v" "g' \<in> P"
    using correct_signer_voted [OF sound_networkD(5) [OF net] gc(1) a(1,3)] .
  obtain p st' out' w where w: "voted_in sha hs vf (node a) qc p st' out' w" "p \<in> P"
    using correct_signer_voted [OF sound_networkD(5) [OF net] qc(1) a(2,3)] .
  let ?tr = "node_trace sha hs vf (node a)"
  have g: "g' = g" using same_digest [OF distinct v(2) gc(3)] v(1) gc(2)
    by (simp add: voted_in_def directly_certifies_def)
  note ok = node_trace_ok [OF sound_networkD(5) [OF net] a(3)]
  have tr: "(st, EvProposal g, out) \<in> set ?tr" "(st', EvProposal p, out') \<in> set ?tr"
    using v w by (simp_all add: voted_in_def g)
  have t: "trace_ok sha hs (cn_signer (node a)) vf P (st, EvProposal g, out)"
    "trace_ok sha hs (cn_signer (node a)) vf P (st', EvProposal p, out')"
    using ok(1) tr by (simp_all add: list_all_iff)
  have "progress (co_state out) st'"
    using trace_votes_ordered [OF ok _ tr(1) _ tr(2), of v w] v w qc(2) by (simp add: voted_in_def g)
  moreover have "qc_view (p_justify ch) \<le> qc_view (st_locked_qc (co_state out))"
  proof (rule vote_locks)
    show "state_inv sha hs vf st" "on_event sha hs st (EvProposal g) (cn_signer (node a)) vf = Ok out"
      using t(1) by (simp_all add: trace_ok_def)
    show votes: "votes_of (co_outbound_messages out) \<noteq> []"
      using v(1) by (simp add: voted_in_def step_votes_def)
    show view: "qc_view (p_justify g) \<noteq> 0" using c by (simp add: certified_def)
    have "known_proposal st (qc_proposal_digest (p_justify g)) \<noteq> None"
      using sound_networkD(4) [OF net] tr(1) votes view a(3) unfolding parents_known_def by blast
    then obtain b where b: "bm_get (st_known_proposals st) (qc_proposal_digest (p_justify g)) = Some b"
      by (auto simp: known_proposal_def)
    have "b \<in> P" using bm_get_SomeD [OF b] t(1) by (force simp: trace_ok_def)
    moreover have "proposal_digest sha hs b = Ok (qc_proposal_digest jc)"
      using known_okD(2) [of sha hs vf, OF _ b] t(1) c(1) by (simp add: trace_ok_def state_inv_def)
    ultimately have "b = ch" using same_digest [OF distinct _ c(4)] c(3) by (simp add: directly_certifies_def)
    then show "known_proposal st (qc_proposal_digest (p_justify g)) = Some ch"
      using b by (simp add: known_proposal_def)
  qed
  ultimately have lock: "qc_view (p_justify ch) \<le> qc_view (st_locked_qc st')"
    by (auto simp: progress_def)
  have inv: "state_inv sha hs vf st'" "snd ` set (st_known_proposals st') \<subseteq> P"
    using t(2) by (simp_all add: trace_ok_def)
  have cast: "safe_to_vote st' p = Ok True" "st_current_view st' \<le> p_view p"
    using w(1) by (auto simp: voted_in_def casts_vote_def)
  have "qc_view (st_locked_qc st') < p_view p"
    using inv(1) cast(2) by (auto simp: state_inv_def views_ok_def)
  moreover have "qc_view (st_locked_qc st') < qc_view (p_justify p) \<or>
      descends sha hs P (qc_proposal_digest (p_justify p)) (qc_proposal_digest (st_locked_qc st'))"
    using safe_to_vote_lock [OF cast(1)] reaches_descends [OF _ _ inv(2)] inv(1)
    unfolding state_inv_def by blast
  ultimately show thesis
    using that [of p "st_locked_qc st'"] w lock inv(1)
    by (simp add: voted_in_def directly_certifies_def state_inv_def)
qed

lemma committed_ancestor:
  assumes net: "sound_network sha hs vf F node P"
    and ver: "verify_committed_block_proof sha hs x pr vf = Ok ()"
    and within: "proof_within P pr" "consecutive_views pr"
    and qc: "certified hs vf qc" "cb_view x \<le> qc_view qc"
  shows "descends sha hs P (qc_proposal_digest qc) (cb_digest x)"
  using qc
proof (induction "unat (qc_view qc)" arbitrary: qc rule: less_induct)
  case less
  note inv = sound_networkD(1) [OF net]
  let ?b = "cbp_committed pr" and ?c = "cbp_child pr" and ?g = "cbp_grandchild pr"
    and ?gqc = "cbp_grandchild_certificate pr"
  have P: "?b \<in> P" "?c \<in> P" "?g \<in> P" using within(1) by (simp_all add: proof_within_def)
  have val: "validate_proposal hs vf ?b = Ok ()" "validate_proposal hs vf ?c = Ok ()"
    "validate_proposal hs vf ?g = Ok ()" "verify_certificate hs vf ?gqc = Ok ()"
    and dir: "directly_certifies sha hs (p_justify ?c) ?b" "directly_certifies sha hs (p_justify ?g) ?c"
      "directly_certifies sha hs ?gqc ?g"
    and x: "x = block_of (qc_proposal_digest (p_justify ?c)) ?b"
    using ver by (simp_all add: verify_committed_block_proof_Ok_iff)
  have dig: "proposal_digest sha hs ?b = Ok (cb_digest x)" "cb_view x = p_view ?b"
    using dir(1) by (simp_all add: x block_of_def directly_certifies_def)
  have cert: "certified hs vf (p_justify ?c)" "certified hs vf (p_justify ?g)" "certified hs vf ?gqc"
    using val dir validate_proposal_Ok(4,10) [OF val(2)] validate_proposal_Ok(4,10) [OF val(3)]
      validate_proposal_Ok(4) [OF val(1)]
    by (simp_all add: certified_def directly_certifies_def)
  have step_c: "descends sha hs P (qc_proposal_digest (p_justify ?g)) (cb_digest x)"
    using descends.link [OF P(2) _ descends.self] dir(1,2) by (simp add: directly_certifies_def x block_of_def)
  have step_g: "descends sha hs P (qc_proposal_digest ?gqc) (cb_digest x)"
    using descends.link [OF P(3) _ step_c] dir(3) by (simp add: directly_certifies_def)
  have views: "unat (qc_view (p_justify ?g)) = Suc (unat (qc_view (p_justify ?c)))"
    "unat (qc_view ?gqc) = Suc (Suc (unat (qc_view (p_justify ?c))))" "qc_view (p_justify ?c) = cb_view x"
    using within(2) dir dig(2) by (simp_all add: consecutive_views_def directly_certifies_def)
  consider "qc_view qc = qc_view (p_justify ?c)" | "qc_view qc = qc_view (p_justify ?g)"
    | "qc_view qc = qc_view ?gqc" | "qc_view ?gqc < qc_view qc"
    using less.prems(2) views unfolding word_le_nat_alt word_less_nat_alt word_unat_eq_iff
    by (metis Suc_lessI le_neq_implies_less)
  then show ?case
  proof cases
    case 1
    then show ?thesis using certificate_unique [OF sound_networkD(5) [OF net] less.prems(1) cert(1) 1] descends.self
      by (simp add: x block_of_def)
  next
    case 2
    then show ?thesis using certificate_unique [OF sound_networkD(5) [OF net] less.prems(1) cert(2) 2] step_c by simp
  next
    case 3
    then show ?thesis using certificate_unique [OF sound_networkD(5) [OF net] less.prems(1) cert(3) 3] step_g by simp
  next
    case 4
    obtain p lock where p: "p \<in> P" "validate_proposal hs vf p = Ok ()" "directly_certifies sha hs qc p"
      and lock: "qc_view (p_justify ?c) \<le> qc_view lock" "verify_certificate hs vf lock = Ok ()"
        "qc_view lock < qc_view qc"
        "qc_view lock < qc_view (p_justify p) \<or>
          descends sha hs P (qc_proposal_digest (p_justify p)) (qc_proposal_digest lock)"
      using later_vote_choice [OF net cert(3) dir(3) P(3) refl cert(2) dir(2) P(2) less.prems(1) 4] .
    have nz: "cb_view x \<noteq> 0" using cert(1) views(3) by (simp add: certified_def)
    have old: "descends sha hs P (qc_proposal_digest q) (cb_digest x)"
      if "verify_certificate hs vf q = Ok ()" "cb_view x \<le> qc_view q" "qc_view q < qc_view qc" for q
    proof (rule less.hyps)
      have "qc_view q \<noteq> 0" using nz that(2) by auto
      then show "certified hs vf q" using that(1) by (simp add: certified_def)
    qed (use that in \<open>simp_all add: word_less_nat_alt\<close>)
    have pv: "qc_view (p_justify p) < qc_view qc"
      using validate_proposal_Ok(9) [OF p(2)] p(3) by (simp add: directly_certifies_def)
    have "descends sha hs P (qc_proposal_digest (p_justify p)) (cb_digest x)"
      using lock(4)
    proof
      assume "qc_view lock < qc_view (p_justify p)"
      then show ?thesis using old [OF validate_proposal_Ok(10) [OF p(2)] _ pv] lock(1) views(3) by simp
    next
      assume "descends sha hs P (qc_proposal_digest (p_justify p)) (qc_proposal_digest lock)"
      then show ?thesis using old [OF lock(2) _ lock(3)] lock(1) views(3) descends_trans by auto
    qed
    then show ?thesis using descends.link [OF p(1)] p(3) by (simp add: directly_certifies_def)
  qed
qed

text \<open>
  C2. Two verified commit proofs for the same height prove the same block, provided their chains have
  consecutive views, the network is sound (at most a third of the power faulty, votes of correct
  validators genuine, no digest collisions, correct validators vote only when they know the certified
  parent), and the proposals in the proofs are proposals of the network.
\<close>

theorem committed_blocks_agree:
  assumes net: "sound_network sha hs vf F node P"
    and x: "verify_committed_block_proof sha hs x pr vf = Ok ()" "proof_within P pr" "consecutive_views pr"
    and y: "verify_committed_block_proof sha hs y pr' vf = Ok ()" "proof_within P pr'"
      "consecutive_views pr'"
    and height: "cb_height x = cb_height y"
  shows "x = y"
proof -
  have half: "x = y"
    if x: "verify_committed_block_proof sha hs x pr vf = Ok ()" "proof_within P pr" "consecutive_views pr"
      and y: "verify_committed_block_proof sha hs y pr' vf = Ok ()" "proof_within P pr'"
      and height: "cb_height x = cb_height y" and view: "cb_view x \<le> cb_view y" for x y pr pr'
  proof -
    let ?b = "cbp_committed pr" and ?c = "cbp_committed pr'" and ?j = "p_justify (cbp_child pr')"
    have p: "?b \<in> P" "proposal_digest sha hs ?b = Ok (cb_digest x)" "cb_height x = p_height ?b"
      "x = block_of (cb_digest x) ?b"
      using x by (simp_all add: proof_within_def verify_committed_block_proof_Ok_iff block_of_def
          directly_certifies_def)
    have q: "?c \<in> P" "validate_proposal hs vf ?c = Ok ()" "proposal_digest sha hs ?c = Ok (cb_digest y)"
      "cb_height y = p_height ?c" "y = block_of (cb_digest y) ?c" "cb_view y = qc_view ?j"
      "cb_digest y = qc_proposal_digest ?j"
      using y by (simp_all add: proof_within_def verify_committed_block_proof_Ok_iff block_of_def
          directly_certifies_def)
    have "validate_proposal hs vf (cbp_child pr') = Ok ()" "p_view ?c \<noteq> 0" "qc_view ?j = p_view ?c"
      using y validate_proposal_Ok(4) [OF q(2)]
      by (simp_all add: verify_committed_block_proof_Ok_iff directly_certifies_def)
    then have "certified hs vf ?j" using validate_proposal_Ok(10) by (simp add: certified_def)
    then have "descends sha hs P (cb_digest y) (cb_digest x)"
      using committed_ancestor [OF net x, of ?j] view q(6,7) by simp
    from descends_height [OF net this p(1,2) q(1,2,3)] have "cb_digest y = cb_digest x"
      using height p(3) q(4) by simp
    moreover from this have "?b = ?c"
      using same_digest [OF sound_networkD(3) [OF net] p(1) q(1)] p(2) q(3) by simp
    ultimately show ?thesis using p(4) q(5) by metis
  qed
  show ?thesis using half [OF x y(1,2) height] half [OF y x(1,2) height [symmetric]]
    by (metis linorder_linear)
qed

end
