(* ===== verification/HotStuff_Witnesses.thy ===== *)
theory HotStuff_Witnesses
  imports HotStuff_Network HotStuff_Agreement
begin

text \<open>
  Concrete instances of the statements about the consensus machine, on the four-validator network:
  three proposals at views 1, 2 and 3, each extending the one before, delivered to everyone.
\<close>

section \<open>A chain of three blocks\<close>

definition chain_proposal :: "nat \<Rightarrow> consensus_proposal" where
  "chain_proposal k = [sample_proposal 1 1 1 (sample_qc 0 0 []),
     sample_proposal 2 2 2 (sample_qc 1 1 [1, 2, 3]),
     sample_proposal 3 3 3 (sample_qc 2 2 [1, 2, 3])] ! k"

definition chain_cast :: "consensus_vote \<Rightarrow> bool" where
  "chain_cast v \<longleftrightarrow> v_view v \<in> {1, 2, 3} \<and> v_height v = v_view v \<and>
     v_proposal_digest v = sample_digest (v_view v) (v_height v)"

definition chain_node :: "u8 \<Rightarrow> correct_node" where
  "chain_node i = \<lparr> cn_signer = sample_signer i, cn_start = 0,
     cn_events = (if i \<in> {1, 2, 3, 4} then map (\<lambda>k. EvProposal (chain_proposal k)) [0, 1, 2] else []) \<rparr>"

definition chain_proof :: "u8 list \<Rightarrow> committed_block_proof" where
  "chain_proof is = \<lparr> cbp_committed = chain_proposal 0, cbp_child = chain_proposal 1,
     cbp_grandchild = chain_proposal 2, cbp_grandchild_certificate = sample_qc 3 3 is \<rparr>"

abbreviation chain_verifier :: consensus_verifier where
  "chain_verifier \<equiv> sample_verifier chain_cast"

lemma chain_votes_cast [simp]: "n \<in> {1, 2, 3} \<Longrightarrow> chain_cast (sample_vote n n i)"
  by (auto simp: chain_cast_def)

lemma chain_trace:
  assumes "i \<in> {1, 2, 3, 4}"
  shows "map step_votes (node_trace sample_sha sample_hs chain_verifier (chain_node i)) =
      [[sample_vote 1 1 i], [sample_vote 2 2 i], [sample_vote 3 3 i]]"
    "list_all (\<lambda>(st, e, out). \<forall>p. e = EvProposal p \<longrightarrow> qc_view (p_justify p) = 0 \<or>
        known_proposal st (qc_proposal_digest (p_justify p)) \<noteq> None)
      (node_trace sample_sha sample_hs chain_verifier (chain_node i))"
  using assms unfolding node_trace_def chain_node_def genesis_state_def chain_proposal_def
  by (simp_all add: sample_eval sample_genesis step_votes_def known_proposal_def)

lemma chain_validate:
  "validate_proposal sample_hs chain_verifier (chain_proposal 0) = Ok ()"
  "validate_proposal sample_hs chain_verifier (chain_proposal 1) = Ok ()"
  "validate_proposal sample_hs chain_verifier (chain_proposal 2) = Ok ()"
  unfolding chain_proposal_def
  by (simp_all add: sample_validate_proposal sample_leader sample_quorums)

lemma chain_digest:
  "proposal_digest sample_sha sample_hs (chain_proposal 0) = Ok (sample_digest 1 1)"
  "proposal_digest sample_sha sample_hs (chain_proposal 1) = Ok (sample_digest 2 2)"
  "proposal_digest sample_sha sample_hs (chain_proposal 2) = Ok (sample_digest 3 3)"
  unfolding chain_proposal_def by (simp_all add: sample_quorums)

lemma chain_vote:
  assumes "certified sample_hs chain_verifier qc" "v \<in> set (qc_votes qc)"
  obtains i n where "i \<in> {1, 2, 3, 4}" "n \<in> {1, 2, 3}" "v_validator v = sample_id i"
    "v_view v = n" "v_height v = n" "v_proposal_digest v = sample_digest n n"
proof -
  have valid: "validate_vote sample_hs chain_verifier v = Ok ()"
    using assms by (simp add: certified_iff sample_set_inv quorum_voted_def)
  have "v_validator v \<in> vs_members sample_set"
    using validate_vote_member [OF _ valid] sample_set_inv by simp
  then obtain i where "i \<in> {1, 2, 3, 4}" "v_validator v = sample_id i" by (auto simp: sample_set_members)
  then show thesis using that [of i "v_view v"] sample_vote_cast [OF valid] by (simp add: chain_cast_def)
qed

lemma chain_sound:
  "sound_network sample_sha sample_hs chain_verifier {} (\<lambda>a. chain_node (hd a))
     {chain_proposal 0, chain_proposal 1, chain_proposal 2}"
proof -
  let ?node = "\<lambda>a. chain_node (hd a)"
  have genuine: "votes_genuine sample_sha sample_hs chain_verifier {} ?node"
    unfolding votes_genuine_def
  proof (intro allI impI)
    fix qc v assume "certified sample_hs chain_verifier qc" "v \<in> set (qc_votes qc)"
    then obtain i n where v: "i \<in> {1, 2, 3, 4}" "n \<in> {1, 2, 3}" "v_validator v = sample_id i"
      "v_view v = n" "v_height v = n" "v_proposal_digest v = sample_digest n n" by (rule chain_vote)
    let ?tr = "node_trace sample_sha sample_hs chain_verifier (chain_node i)"
    have "[sample_vote n n i] \<in> set (map step_votes ?tr)" using chain_trace(1) [OF v(1)] v(2) by auto
    then obtain s where "s \<in> set ?tr" "step_votes s = [sample_vote n n i]" by auto
    then show "\<exists>s \<in> set (node_trace sample_sha sample_hs chain_verifier (?node (v_validator v))).
        \<exists>w \<in> set (step_votes s). v_view w = v_view v \<and> v_height w = v_height v \<and>
          v_proposal_digest w = v_proposal_digest v"
      using v by (auto intro!: bexI [of _ s])
  qed
  moreover have "digests_distinct sample_sha sample_hs {chain_proposal 0, chain_proposal 1, chain_proposal 2}"
    using chain_digest by (auto simp: digests_distinct_def)
  moreover have "received_from {} ?node {chain_proposal 0, chain_proposal 1, chain_proposal 2}"
    by (auto simp: received_from_def chain_node_def)
  moreover have "parents_known sample_sha sample_hs chain_verifier {} ?node"
    unfolding parents_known_def
  proof (intro allI impI)
    fix a st p out
    assume s: "(st, EvProposal p, out) \<in> set (node_trace sample_sha sample_hs chain_verifier (?node a))"
    then have "hd a \<in> {1, 2, 3, 4}"
      by (rule contrapos_pp) (simp add: node_trace_def chain_node_def)
    from chain_trace(2) [OF this] s
    show "qc_view (p_justify p) = 0 \<or> known_proposal st (qc_proposal_digest (p_justify p)) \<noteq> None"
      by (auto simp: list_all_iff)
  qed
  ultimately show ?thesis by (simp add: sound_network_def authentic_network_def few_faults_def sample_set_inv)
qed

lemma chain_authentic:
  "authentic_network sample_sha sample_hs chain_verifier {} (\<lambda>a. chain_node (hd a))
     {chain_proposal 0, chain_proposal 1, chain_proposal 2}"
  using sound_networkD(5) [OF chain_sound] .

lemma chain_proof_verifies:
  assumes "sample_quorum is"
  shows "verify_committed_block_proof sample_sha sample_hs (block_of (sample_digest 1 1) (chain_proposal 0))
    (chain_proof is) chain_verifier = Ok ()"
proof -
  have "verify_certificate sample_hs chain_verifier (sample_qc 3 3 is) = Ok ()"
    using assms by (simp add: list_all_iff)
  then show ?thesis unfolding verify_committed_block_proof_Ok_iff
    using chain_validate chain_digest
    by (simp add: chain_proof_def directly_certifies_def) (simp add: chain_proposal_def)
qed

theorem committed_blocks_agree_witness:
  "\<exists>x y pr pr'. pr \<noteq> pr' \<and>
     verify_committed_block_proof sample_sha sample_hs x pr chain_verifier = Ok () \<and>
     verify_committed_block_proof sample_sha sample_hs y pr' chain_verifier = Ok () \<and> x = y"
proof -
  let ?x = "block_of (sample_digest 1 1) (chain_proposal 0)"
  have within: "proof_within {chain_proposal 0, chain_proposal 1, chain_proposal 2} (chain_proof is)"
    "consecutive_views (chain_proof is)" for "is"
    by (simp_all add: proof_within_def chain_proof_def consecutive_views_def chain_proposal_def)
  note v = chain_proof_verifies [OF sample_quorums(1)] chain_proof_verifies [OF sample_quorums(2)]
  have "?x = ?x" by (rule committed_blocks_agree [OF chain_sound v(1) within v(2) within refl])
  moreover have "chain_proof [1, 2, 3] \<noteq> chain_proof [2, 3, 4]"
    by (simp add: chain_proof_def sample_qc_def sample_vote_def)
  ultimately show ?thesis using v by blast
qed

end
