(* ===== verification/HotStuff_Returns.thy ===== *)
theory HotStuff_Returns
  imports HotStuff_Agreement
begin

text \<open>
  The event handler of the chained-HotStuff machine returns. Its only loops without a bound of their
  own are the walks along justify links; they end because a certificate names the height of the
  proposal it certifies, one below the proposal it justifies. For the same reason a commit cannot
  fail once the certificate that triggers it has been accepted.
\<close>

section \<open>Computations that return\<close>

definition returns :: "('e, 'a) result \<Rightarrow> bool" where
  "returns r \<longleftrightarrow> r \<noteq> Abort"

named_theorems returns_intros

lemma returns_simps [simp]:
  "returns (Ok x)" "returns (Err e)" "\<not> returns Abort" "returns (map_err f r) = returns r"
  "returns (ok_or m e)"
  by (simp_all add: returns_def result_simps)

lemma returns_bind [returns_intros]:
  "returns m \<Longrightarrow> (\<And>x. m = Ok x \<Longrightarrow> returns (f x)) \<Longrightarrow> returns (try_bind m f)"
  by (cases m) auto

lemma returns_if [returns_intros]:
  "(c \<Longrightarrow> returns a) \<Longrightarrow> (\<not> c \<Longrightarrow> returns b) \<Longrightarrow> returns (if c then a else b)"
  by simp

lemma returns_option [returns_intros]:
  "(m = None \<Longrightarrow> returns a) \<Longrightarrow> (\<And>x. m = Some x \<Longrightarrow> returns (f x)) \<Longrightarrow>
   returns (case m of None \<Rightarrow> a | Some x \<Rightarrow> f x)"
  by (cases m) auto

lemma returns_prod [returns_intros]:
  "(\<And>a b. x = (a, b) \<Longrightarrow> returns (f a b)) \<Longrightarrow> returns (case x of (a, b) \<Rightarrow> f a b)"
  by (cases x) auto

lemma returns_fold [returns_intros]:
  "(\<And>s x. x \<in> set xs \<Longrightarrow> returns (f s x)) \<Longrightarrow> returns (try_fold f s xs)"
  by (induction xs arbitrary: s) (auto intro!: returns_bind)

text \<open>Encoders, frames and hashes.\<close>

lemma field_returns [simp]:
  "returns (cs_insert i b c)" "returns (field_bytes i b c)" "returns (field_str i b c)"
  "returns (field_u16 i x c)" "returns (field_u32 i y c)" "returns (field_u64 i z c)" "returns (finish c)"
  by (simp_all add: cs_insert_def field_bytes_def field_str_def field_u16_def field_u32_def field_u64_def
      returns_def finish_neq_Abort)

lemma put_items_returns [returns_intros]:
  "(\<And>x. x \<in> set xs \<Longrightarrow> returns (enc x)) \<Longrightarrow> returns (put_items e w enc base xs c)"
  by (auto simp: put_items_def put_item_def in_set_enumerate_eq intro!: returns_intros)

lemma message_returns [simp]:
  "returns (encode_digest32 d)" "returns (validate_signature_length s)" "returns (encode_vote_payload v)"
  "returns (encode_vote v)" "returns (encode_quorum_certificate qc)" "returns (encode_proposal_payload p)"
  "returns (encode_proposal p)"
proof -
  show d: "returns (encode_digest32 d)" for d by (auto simp: encode_digest32_def intro!: returns_intros)
  show s: "returns (validate_signature_length s)" for s by (simp add: validate_signature_length_def)
  show vp: "returns (encode_vote_payload v)" for v
    by (auto simp: encode_vote_payload_def d intro!: returns_intros)
  show v: "returns (encode_vote v)" for v by (auto simp: encode_vote_def s vp intro!: returns_intros)
  show qc: "returns (encode_quorum_certificate qc)" for qc
    by (auto simp: encode_quorum_certificate_def d v intro!: returns_intros)
  show pp: "returns (encode_proposal_payload p)" for p
    by (auto simp: encode_proposal_payload_def d qc Let_def intro!: returns_intros)
  show "returns (encode_proposal p)" by (auto simp: encode_proposal_def s pp intro!: returns_intros)
qed

lemma hash_returns [simp]: "returns (hash_unframed_bytes sha a b)"
  by (cases a) simp_all

lemma digest_returns [simp]: "returns (proposal_digest sha hs p)"
  by (auto simp: proposal_digest_def hash_for_purpose_def suite_for_epoch_def builtin_hash_def
      frame_hash_input_def intro!: returns_intros)

lemma guard_returns [simp]:
  "returns (ensure_context hs c pv e)" "returns (ensure_transaction_bound hs n)"
  "returns (ensure_bounded_future_view x y)" "returns (ensure_registered_scheme hs a s)"
  "returns (hs_signature_frame hs mt s b)"
  by (auto simp: ensure_context_def ensure_transaction_bound_def ensure_bounded_future_view_def Let_def
      ensure_registered_scheme_def hs_signature_frame_def signature_message_type_new_def
      frame_signature_message_def intro!: returns_intros)

section \<open>Verification returns when the verifier does\<close>

text \<open>The signer and the verifier of the node are external; they are asked to return.\<close>

definition authenticators_return :: "consensus_signer \<Rightarrow> consensus_verifier \<Rightarrow> bool" where
  "authenticators_return sg vf \<longleftrightarrow> (\<forall>m. returns (sg_sign_framed sg m)) \<and>
     (\<forall>a s k m x. returns (vf a s k m x))"

lemma verification_returns:
  assumes "authenticators_return sg vf"
  shows "returns (validate_vote hs vf v)" "returns (verify_certificate hs vf qc)"
    "returns (validate_proposal hs vf p)" "returns (sign_vote hs sg p d)"
proof -
  have vf: "returns (vf a s k m x)" for a s k m x using assms by (simp add: authenticators_return_def)
  show v: "returns (validate_vote hs vf v)" for v
    by (auto simp: validate_vote_def vf intro!: returns_intros)
  show qc: "returns (verify_certificate hs vf qc)" for qc
    by (auto simp: verify_certificate_def certificate_vote_step_def v Let_def intro!: returns_intros)
  show "returns (validate_proposal hs vf p)"
    by (auto simp: validate_proposal_def vf qc intro!: returns_intros)
  have "returns (sg_sign_framed sg m)" for m using assms by (simp add: authenticators_return_def)
  then show "returns (sign_vote hs sg p d)"
    by (auto simp: sign_vote_def Let_def intro!: returns_intros)
qed

lemma try_form_certificate_returns [simp]: "returns (try_form_certificate hs st d)"
  by (auto simp: try_form_certificate_def form_step_def intro!: returns_intros)

section \<open>Walks end\<close>

text \<open>
  Known proposals from \<open>P\<close>, each valid and filed under its digest, where no certificate for a proposal
  of \<open>P\<close> names another height.
\<close>

definition walkable ::
  "sha_functions \<Rightarrow> chained_hotstuff \<Rightarrow> consensus_verifier \<Rightarrow> consensus_proposal set \<Rightarrow>
   (digest32, consensus_proposal) btree_map \<Rightarrow> bool" where
  "walkable sha hs vf P m \<longleftrightarrow> certificates_match sha hs vf P \<and> known_ok sha hs vf m \<and> snd ` set m \<subseteq> P"

lemma walkable_link:
  assumes w: "walkable sha hs vf P m" and p: "bm_get m d = Some p"
    and q: "bm_get m (qc_proposal_digest (p_justify p)) = Some q"
  shows "unat (p_height p) = Suc (unat (p_height q))"
proof -
  have ok: "known_ok sha hs vf m" and cm: "certificates_match sha hs vf P"
    using w by (simp_all add: walkable_def)
  have "q \<in> P" using w bm_get_SomeD [OF q] by (force simp: walkable_def)
  then have "directly_certifies sha hs (p_justify p) q"
    using cm known_okD(2) [OF ok q] validate_proposal_Ok(10) [OF known_okD(1) [OF ok p]]
    by (simp add: certificates_match_def)
  then show ?thesis using validate_proposal_Ok(8) [OF known_okD(1) [OF ok p]]
    by (simp add: directly_certifies_def)
qed

text \<open>
  The number of known proposals that are not above the block of a digest. It drops along every
  \<open>justify\<close> link, so the fuel of the walks is never used up.
\<close>

definition walk_rank :: "(digest32, consensus_proposal) btree_map \<Rightarrow> digest32 \<Rightarrow> nat" where
  "walk_rank m d = (case bm_get m d of
     None \<Rightarrow> 0 | Some p \<Rightarrow> card {x \<in> set m. p_height (snd x) \<le> p_height p})"

lemma walk_rank_bound: "walk_rank m d \<le> length m"
proof -
  have "card {x \<in> set m. p_height (snd x) \<le> p_height p} \<le> length m" for p :: consensus_proposal
    by (rule order_trans [OF card_mono card_length]) auto
  then show ?thesis by (simp add: walk_rank_def split: option.split)
qed

lemma walk_rank_link:
  assumes w: "walkable sha hs vf P m" and p: "bm_get m d = Some p"
  shows "walk_rank m (qc_proposal_digest (p_justify p)) < walk_rank m d"
proof -
  let ?K = "\<lambda>h. {x \<in> set m. p_height (snd x) \<le> h}"
  have mem: "(d, p) \<in> ?K (p_height p)" using bm_get_SomeD [OF p] by simp
  show ?thesis
  proof (cases "bm_get m (qc_proposal_digest (p_justify p))")
    case None
    have "0 < card (?K (p_height p))" using mem by (auto simp: card_gt_0_iff)
    then show ?thesis using None p by (simp add: walk_rank_def)
  next
    case (Some q)
    have less: "p_height q < p_height p" using walkable_link [OF w p Some] by (simp add: word_less_nat_alt)
    then have "?K (p_height q) \<subset> ?K (p_height p)" using mem by force
    then show ?thesis using p Some by (simp add: walk_rank_def psubset_card_mono)
  qed
qed

lemma extends_walk_Ok:
  assumes "walkable sha hs vf P (st_known_proposals st)"
  shows "walk_rank (st_known_proposals st) d < n \<Longrightarrow> \<exists>b. extends_walk n st d a = Ok b"
proof (induction n arbitrary: d)
  case (Suc n)
  show ?case
  proof (cases "bm_get (st_known_proposals st) d")
    case (Some p)
    then show ?thesis using Suc walk_rank_link [OF assms Some] by auto
  qed auto
qed simp

lemma commit_walk_returns:
  assumes "walkable sha hs vf P (st_known_proposals st)"
  shows "walk_rank (st_known_proposals st) d < n \<Longrightarrow> \<exists>new. commit_walk n st d chain = Ok new"
proof (induction n arbitrary: d chain)
  case (Suc n)
  show ?case
  proof (cases "bm_get (st_known_proposals st) d")
    case (Some p)
    then show ?thesis using Suc walk_rank_link [OF assms Some] by simp
  qed simp
qed simp

lemma walks_end:
  assumes "walkable sha hs vf P (st_known_proposals st)"
  shows "\<exists>b. extends st c a = Ok b" "\<exists>b. safe_to_vote st p = Ok b"
    "\<exists>chain. commit_walk (Suc (length (st_known_proposals st))) st c [] = Ok chain"
proof -
  have rank: "walk_rank (st_known_proposals st) d < Suc (length (st_known_proposals st))" for d
    using walk_rank_bound [of "st_known_proposals st" d] by simp
  show ext: "\<exists>b. extends st c a = Ok b" for c a
    unfolding extends_def by (rule extends_walk_Ok [OF assms rank])
  show "\<exists>b. safe_to_vote st p = Ok b" using ext by (auto simp: safe_to_vote_def)
  show "\<exists>chain. commit_walk (Suc (length (st_known_proposals st))) st c [] = Ok chain"
    by (rule commit_walk_returns [OF assms rank])
qed

section \<open>Every event returns\<close>

lemma commit_loop_returns [simp]: "returns (commit_loop chain parent gc gqc i rest co)"
proof (induction rest arbitrary: i co)
  case (Cons x rest)
  have "returns (commit_block_proof chain parent gc gqc i p)" for p
    unfolding commit_block_proof_def by (intro returns_bind) simp_all
  moreover obtain d p where "x = (d, p)" by (cases x)
  ultimately show ?case
    unfolding \<open>x = (d, p)\<close> commit_loop.simps Let_def
    by (intro returns_bind returns_if returns_prod Cons.IH) simp_all
qed simp

lemma apply_certificate_returns:
  assumes ret: "authenticators_return sg vf" and w: "walkable sha hs vf P (st_known_proposals (co_state co))"
  shows "returns (apply_certificate hs vf qc co)"
proof -
  have through: "returns (commit_through d parent block qc (co\<lparr> co_state := lock_justify block st \<rparr>))"
    if "note_certificate qc (co_state co) = Ok st" for st d parent block
  proof -
    have "st_known_proposals (lock_justify block st) = st_known_proposals (co_state co)"
      using note_certificate_Ok(1) [OF that] by (simp add: lock_justify_def)
    then have "walkable sha hs vf P (st_known_proposals (lock_justify block st))" using w by simp
    from walks_end(3) [OF this, of d] show ?thesis
      by (auto simp: commit_through_def Let_def simp del: commit_walk.simps)
  qed
  have "returns (note_certificate qc st)" for st
    unfolding note_certificate_def Let_def by (intro returns_bind) simp_all
  then show ?thesis
    unfolding apply_certificate_def Let_def
    by (intro returns_bind returns_if returns_option through verification_returns [OF ret] returns_simps)
qed

lemma form_and_apply_returns:
  assumes "authenticators_return sg vf" "walkable sha hs vf P (st_known_proposals (co_state co))"
  shows "returns (form_and_apply hs vf d co)"
  by (auto simp: form_and_apply_def apply_certificate_returns [OF assms] intro!: returns_intros)

lemma remember_proposal_walkable:
  assumes "walkable sha hs vf P (st_known_proposals (co_state co))" "validate_proposal hs vf p = Ok ()"
    "proposal_digest sha hs p = Ok d" "p \<in> P"
  shows "walkable sha hs vf P (st_known_proposals (co_state (remember_proposal d p co)))"
  using assms remember_proposal_within [OF _ assms(4), of co d] known_ok_insert [OF _ assms(2,3)]
  by (simp add: walkable_def remember_proposal_def)

lemma process_proposal_returns:
  assumes ret: "authenticators_return sg vf"
    and w: "walkable sha hs vf P (st_known_proposals (co_state co))" and p: "p \<in> P"
  shows "returns (process_proposal sha hs sg vf p co)"
proof -
  have app: "returns (try_bind (apply_certificate hs vf qc (remember_proposal d p co)) f)"
    if d: "validate_proposal hs vf p = Ok ()" "proposal_digest sha hs p = Ok d"
      and f: "\<And>co1. walkable sha hs vf P (st_known_proposals (co_state co1)) \<Longrightarrow> returns (f co1)"
    for d qc and f :: "consensus_output \<Rightarrow> (consensus_error, consensus_output) result"
  proof (rule returns_bind)
    note r = remember_proposal_walkable [OF w d p]
    show "returns (apply_certificate hs vf qc (remember_proposal d p co))"
      by (rule apply_certificate_returns [OF ret r])
    show "returns (f co1)" if "apply_certificate hs vf qc (remember_proposal d p co) = Ok co1" for co1
      using f apply_certificate_frame [OF that] r by simp
  qed
  have "returns (safe_to_vote (co_state co) p)" using walks_end(2) [OF w, of p] by auto
  moreover have "returns (form_and_apply hs vf d (record_vote p d n v co1))"
    if "walkable sha hs vf P (st_known_proposals (co_state co1))" for d n v co1
    using form_and_apply_returns [OF ret, of sha hs P "record_vote p d n v co1"] that
    by (simp add: record_vote_def)
  ultimately have "returns (try_bind (sign_vote hs sg p d) (\<lambda>vote.
      try_bind (ok_or (checked_add (p_view p) 1) ArithmeticOverflow) (\<lambda>next_view.
      form_and_apply hs vf d (record_vote p d next_view vote co1))))"
    and safe: "returns (safe_to_vote (co_state co) p)"
    if "walkable sha hs vf P (st_known_proposals (co_state co1))" for d co1
    using that by (simp_all add: returns_bind verification_returns [OF ret])
  note tail = app [OF _ _ this(1)] app [OF _ _ apply_certificate_returns [OF ret]] safe [OF w]
  show ?thesis
    unfolding process_proposal_def Let_def
    by (intro returns_bind returns_if returns_option tail verification_returns [OF ret] guard_returns
        digest_returns) (simp_all add: old.unit.exhaust)
qed

lemma process_vote_returns:
  assumes ret: "authenticators_return sg vf"
    and w: "walkable sha hs vf P (st_known_proposals (co_state co))"
  shows "returns (process_vote hs vf v co)"
proof -
  have "returns (form_and_apply hs vf d (co\<lparr> co_state := st\<lparr> st_pending_votes := m \<rparr> \<rparr>))"
    if "st_known_proposals st = st_known_proposals (co_state co)" for d st m
    using that w by (intro form_and_apply_returns [OF ret, of sha hs P]) simp
  then show ?thesis
    unfolding process_vote_def Let_def
    by (intro returns_bind returns_if returns_option verification_returns [OF ret] guard_returns)
      (auto split: if_splits option.splits)
qed

lemma on_event_returns:
  assumes ret: "authenticators_return sg vf" and w: "walkable sha hs vf P (st_known_proposals st)"
    and received: "\<And>p. event = EvProposal p \<Longrightarrow> p \<in> P"
  shows "returns (on_event sha hs st event sg vf)"
proof -
  have w': "walkable sha hs vf P (st_known_proposals (co_state (output_of st)))" using w by simp
  have "returns (process_tick hs now co)" for now co
    by (auto simp: process_tick_def Let_def intro!: returns_intros)
  then have "returns (case event of
        EvProposal p \<Rightarrow> process_proposal sha hs sg vf p (output_of st)
      | EvVote v \<Rightarrow> process_vote hs vf v (output_of st)
      | EvCertificate qc \<Rightarrow> apply_certificate hs vf qc (output_of st)
      | EvTick now \<Rightarrow> process_tick hs now (output_of st))"
    using received process_proposal_returns [OF ret w'] process_vote_returns [OF ret w']
      apply_certificate_returns [OF ret w'] by (cases event) auto
  then show ?thesis unfolding on_event_def Let_def by (intro returns_intros) auto
qed

section \<open>Accepted certificates are applied\<close>

lemma commit_block_proof_succeeds:
  assumes "j < length chain" "length chain + 2 \<le> usize_max"
  shows "\<exists>pr. commit_block_proof chain parent gc gqc j p = Ok pr"
  using assms
  by (auto simp: commit_block_proof_def commit_chain_ancestor_def commit_chain_ancestor_certificate_def
      usize_checked_add_def)

lemma commit_loop_succeeds:
  assumes len: "length chain + 2 \<le> usize_max"
  shows "i + length rest = length chain \<Longrightarrow>
    sorted_wrt (\<lambda>x y. p_height (snd x) < p_height (snd y)) rest \<Longrightarrow>
    \<forall>x \<in> set rest. st_committed_height (co_state co) < p_height (snd x) \<Longrightarrow>
    \<exists>co'. commit_loop chain parent gc gqc i rest co = Ok co'"
proof (induction rest arbitrary: i co)
  case (Cons x rest)
  obtain d p where x: "x = (d, p)" by (cases x)
  have "st_committed_height (co_state co) < p_height p" using Cons.prems(3) x by simp
  then obtain h where h: "checked_add (st_committed_height (co_state co)) 1 = Some h"
    using unsigned_less [of "p_height p", where 'a = nat] by (auto simp: checked_add_def word_less_nat_alt)
  obtain pr where pr: "commit_block_proof chain parent gc gqc i p = Ok pr"
    using commit_block_proof_succeeds [OF _ len, of i parent gc gqc p] Cons.prems(1) by auto
  have next_co: "\<exists>co'. commit_loop chain parent gc gqc (Suc i) rest co1 = Ok co'"
    if "st_committed_height (co_state co1) \<in> {st_committed_height (co_state co), p_height p}" for co1
    using that Cons.prems x by (intro Cons.IH) auto
  show ?case
    unfolding x commit_loop.simps h Let_def
    by (auto simp: pr bs_insert_def intro!: next_co)
qed simp

lemma line_height:
  assumes "certificates_match sha hs vf P" "line_linked sha hs vf ps" "set ps \<subseteq> P"
  shows "i < length ps \<Longrightarrow> unat (p_height (ps ! i)) = unat (p_height (ps ! 0)) + i"
proof (induction i)
  case (Suc i)
  have "validate_proposal hs vf (ps ! Suc i) = Ok ()" using assms(2) Suc.prems by (simp add: line_linked_def)
  then show ?case using validate_proposal_Ok(8) Suc line_linked_certifies [OF assms(1,2) Suc.prems assms(3)]
    by (simp add: directly_certifies_def)
qed simp

lemma commit_through_succeeds:
  assumes w: "walkable sha hs vf P (st_known_proposals (co_state co))"
    and block: "bm_get (st_known_proposals (co_state co)) d = Some block"
    and parent: "bm_get (st_known_proposals (co_state co)) (qc_proposal_digest (p_justify block)) = Some parent"
  shows "\<exists>co'. commit_through (qc_proposal_digest (p_justify parent)) parent block qc co = Ok co'"
proof -
  let ?st = "co_state co" and ?t = "qc_proposal_digest (p_justify parent)"
  have cm: "certificates_match sha hs vf P" and ok: "known_ok sha hs vf (st_known_proposals ?st)"
    and P: "snd ` set (st_known_proposals ?st) \<subseteq> P" using w by (simp_all add: walkable_def)
  obtain new where walk: "commit_walk (Suc (length (st_known_proposals ?st))) ?st ?t [] = Ok new"
    using walks_end(3) [OF w] by blast
  from commit_walk_Ok [OF walk] have new: "linked_down ?t new" "\<forall>(d, p) \<in> set new.
      bm_get (st_known_proposals ?st) d = Some p \<and> st_committed_height ?st < p_height p" by auto
  let ?ps = "commit_line (rev new) parent block"
  have line: "line_linked sha hs vf ?ps"
    using new(2) known_okD [OF ok]
    by (intro commit_line_linked [OF new(1) _ known_okD [OF ok parent] known_okD(1) [OF ok block]]) fastforce
  have "p \<in> P" if "bm_get (st_known_proposals ?st) d = Some p" for d p
    using P bm_get_SomeD [OF that] by force
  then have within: "set ?ps \<subseteq> P" using new(2) block parent by (fastforce simp: commit_line_def)
  note height = line_height [OF cm line within]
  have "?ps ! 0 \<in> set ?ps" by (rule nth_mem) (simp add: commit_line_def)
  then have "p_height (?ps ! 0) \<noteq> 0" using validate_proposal_Ok(5) line unfolding line_linked_def by blast
  then have "length new + 2 \<le> usize_max"
    using height [of "Suc (length new)"] unsigned_less [of "p_height (?ps ! Suc (length new))", where 'a = nat]
    by (simp add: commit_line_def usize_max_def unat_gt_0 [symmetric])
  moreover have "sorted_wrt (\<lambda>x y. p_height (snd x) < p_height (snd y)) (rev new)"
    unfolding sorted_wrt_iff_nth_less
  proof (intro allI impI)
    fix i j assume "i < j" "j < length (rev new)"
    then show "p_height (snd (rev new ! i)) < p_height (snd (rev new ! j))"
      using height [of i] height [of j] by (simp add: word_less_nat_alt commit_line_def nth_append)
  qed
  moreover have "\<forall>x \<in> set (rev new). st_committed_height ?st < p_height (snd x)" using new(2) by auto
  ultimately show ?thesis
    using walk commit_loop_succeeds [of "rev new" 0 "rev new" co parent block qc]
    by (simp add: commit_through_def Let_def del: commit_walk.simps)
qed

lemma apply_certificate_succeeds:
  assumes w: "walkable sha hs vf P (st_known_proposals (co_state co))"
    and qc: "verify_certificate hs vf qc = Ok ()" and view: "unat (qc_view qc) + 1 < 2 ^ 64"
  shows "\<exists>co'. apply_certificate hs vf qc co = Ok co'"
proof -
  obtain n where "checked_add (qc_view qc) 1 = Some n"
    using view by (auto simp: checked_add_def)
  then obtain st where st: "note_certificate qc (co_state co) = Ok st"
    by (auto simp: note_certificate_def Let_def)
  have known: "st_known_proposals (lock_justify b st) = st_known_proposals (co_state co)"
    "st_known_proposals st = st_known_proposals (co_state co)" for b
    using note_certificate_Ok(1) [OF st] by (simp_all add: lock_justify_def)
  have match: "p_view block = qc_view qc \<and> p_height block = qc_height qc"
    if b: "bm_get (st_known_proposals (co_state co)) (qc_proposal_digest qc) = Some block" for block
  proof -
    have "block \<in> P" using w bm_get_SomeD [OF b] by (force simp: walkable_def)
    then show ?thesis using w qc known_okD(2) [OF _ b, of sha hs vf]
      by (auto simp: walkable_def certificates_match_def directly_certifies_def)
  qed
  have "\<exists>co'. commit_through (qc_proposal_digest (p_justify parent)) parent block qc
      (co\<lparr> co_state := lock_justify block st \<rparr>) = Ok co'"
    if "bm_get (st_known_proposals (co_state co)) (qc_proposal_digest qc) = Some block"
      "bm_get (st_known_proposals (co_state co)) (qc_proposal_digest (p_justify block)) = Some parent"
    for block parent
    using that w by (intro commit_through_succeeds [where d = "qc_proposal_digest qc"]) (simp_all add: known)
  then show ?thesis
    using qc st match by (auto simp: apply_certificate_def Let_def known split: option.split)
qed

lemma apply_certificate_stores:
  assumes app: "apply_certificate hs vf qc co = Ok co'" and "qc_view qc \<noteq> 0"
    and none: "bm_get (st_certificates (co_state co)) (qc_proposal_digest qc) = None"
  shows "st_certificates (co_state co') =
    bm_insert (qc_proposal_digest qc) qc (st_certificates (co_state co))"
proof -
  have noted: "st_certificates (lock_justify b st) = st_certificates st \<and>
      st_certificates st = bm_insert (qc_proposal_digest qc) qc (st_certificates (co_state co))"
    if "note_certificate qc (co_state co) = Ok st" for st b
    using note_certificate_Ok(1) [OF that] none by (simp add: lock_justify_def bm_contains_key_def)
  from app show ?thesis
  proof (cases rule: apply_certificate_cases)
    case (committed st block parent)
    from commit_through_run [OF committed(7)] obtain new where
      "commit_run (rev new) parent block qc 0 (co\<lparr> co_state := lock_justify block st \<rparr>) co'" by blast
    from commit_run_only_commits [OF this] show ?thesis
      using noted [OF committed(2)] by (auto simp: only_commits_def)
  qed (use assms(2) noted in simp_all)
qed

section \<open>Votes and quorums\<close>

text \<open>The pending votes that count for a proposal, and the certificate they make.\<close>

definition matching_votes ::
  "consensus_proposal \<Rightarrow> (validator_id, consensus_vote) btree_map \<Rightarrow> consensus_vote list" where
  "matching_votes p pending = filter (\<lambda>v. v_view v = p_view p \<and> v_height v = p_height p) (map snd pending)"

definition certificate_for ::
  "chained_hotstuff \<Rightarrow> digest32 \<Rightarrow> consensus_proposal \<Rightarrow> consensus_vote list \<Rightarrow> quorum_certificate" where
  "certificate_for hs d p votes =
     \<lparr> qc_chain_id = hs_chain_id hs, qc_protocol_version = hs_protocol_version hs,
       qc_epoch = hs_epoch hs, qc_view = p_view p, qc_height = p_height p, qc_proposal_digest = d,
       qc_votes = votes \<rparr>"

text \<open>The state in which a first vote of its validator for its proposal has been recorded.\<close>

definition vote_recorded :: "consensus_vote \<Rightarrow> consensus_state \<Rightarrow> consensus_state" where
  "vote_recorded v st = (observe_vote v st)\<lparr> st_pending_votes :=
     bm_insert (v_proposal_digest v)
       (bm_insert (v_validator v) v (pending_for st (v_proposal_digest v))) (st_pending_votes st) \<rparr>"

lemma vote_recorded_sel [simp]:
  "st_known_proposals (vote_recorded v st) = st_known_proposals st"
  "st_certificates (vote_recorded v st) = st_certificates st"
  by (simp_all add: vote_recorded_def observe_vote_def)

lemma vote_recorded_inv:
  assumes "state_inv sha hs vf st" "validator_set_inv (hs_validator_set hs)" "validate_vote hs vf v = Ok ()"
  shows "state_inv sha hs vf (vote_recorded v st)"
proof -
  have "pending_ok hs vf (v_proposal_digest v) (pending_for st (v_proposal_digest v))"
    using assms(1) by (intro pending_votes_ok_get) (simp add: state_inv_def)
  then show ?thesis
    unfolding vote_recorded_def
    by (intro record_pending_inv(1) [OF assms] pending_ok_insert [OF _ assms(3) refl])
qed

lemma process_vote_fresh:
  assumes "validate_vote hs vf v = Ok ()" "ensure_bounded_future_view (st_current_view st) (v_view v) = Ok ()"
    "bm_get (st_observed_votes st) (v_validator v, v_view v) \<in> {None, Some (v_proposal_digest v)}"
    "bm_get (pending_for st (v_proposal_digest v)) (v_validator v) = None"
  shows "process_vote hs vf v (output_of st) =
    form_and_apply hs vf (v_proposal_digest v) (output_of (vote_recorded v st))"
  using assms
  by (auto simp: process_vote_def Let_def output_of_def vote_recorded_def observe_vote_def pending_for_def
      bm_contains_key_def)

lemma try_form_certificate_quorum:
  assumes inv: "validator_set_inv (hs_validator_set hs)" and st: "state_inv sha hs vf st"
    and none: "bm_get (st_certificates st) d = None" and p: "bm_get (st_known_proposals st) d = Some p"
    and pend: "bm_get (st_pending_votes st) d = Some pending"
  shows "try_form_certificate hs st d =
      Ok (if unat (quorum_threshold (hs_validator_set hs)) \<le> votes_power hs (matching_votes p pending)
          then Some (certificate_for hs d p (matching_votes p pending)) else None)"
    "verify_certificate hs vf (certificate_for hs d p (matching_votes p pending)) = Ok () \<longleftrightarrow>
      unat (quorum_threshold (hs_validator_set hs)) \<le> votes_power hs (matching_votes p pending)"
proof -
  let ?m = "matching_votes p pending"
  have ok: "pending_ok hs vf d pending"
    using st pend bm_get_SomeD [OF pend] by (auto simp: state_inv_def pending_votes_ok_def)
  then have all: "\<forall>v \<in> set (map snd pending). validate_vote hs vf v = Ok () \<and> v_proposal_digest v = d"
    by (auto simp: pending_ok_def)
  then have mem: "\<forall>v \<in> set (map snd pending). v_validator v \<in> vs_members (hs_validator_set hs)"
    using validate_vote_member [OF inv] by blast
  have sorted: "key_sorted v_validator ?m"
    using pending_ok_sorted [OF ok] unfolding matching_votes_def by (rule key_sorted_filter)
  have bound: "votes_power hs ?m < 2 ^ 64"
    using member_votes_bounds [OF inv sorted] mem by (auto simp: matching_votes_def)
  have fold: "try_fold (form_step hs p) (0, []) (map snd pending) = Ok (of_nat (votes_power hs ?m), ?m)"
    using form_fold_Ok_iff [OF mem inv] bound by (simp add: unat_of_nat matching_votes_def)
  have "(of_nat (votes_power hs ?m) :: u64) < quorum_threshold (hs_validator_set hs) \<longleftrightarrow>
      \<not> unat (quorum_threshold (hs_validator_set hs)) \<le> votes_power hs ?m"
    using bound by (simp add: word_less_nat_alt unat_of_nat not_le)
  then show "try_form_certificate hs st d =
      Ok (if unat (quorum_threshold (hs_validator_set hs)) \<le> votes_power hs ?m
          then Some (certificate_for hs d p ?m) else None)"
    using none p pend fold by (simp add: try_form_certificate_def bm_contains_key_def certificate_for_def)
  have "known_ok sha hs vf (st_known_proposals st)" using st by (simp add: state_inv_def)
  note v = validate_proposal_Ok(4,5) [OF known_okD(1) [OF this p]]
  show "verify_certificate hs vf (certificate_for hs d p ?m) = Ok () \<longleftrightarrow>
      unat (quorum_threshold (hs_validator_set hs)) \<le> votes_power hs ?m"
    using v all sorted
    by (auto simp: verify_certificate_Ok_iff [OF inv] genesis_anchor_def quorum_voted_def vote_matches_def
        certificate_for_def matching_votes_def)
qed

section \<open>Runs in an authentic network\<close>

lemma run_within:
  assumes vs: "validator_set_inv (hs_validator_set hs)" and cm: "certificates_match sha hs vf P"
  shows "run_events sha hs sg vf st es = (outs, st') \<Longrightarrow> state_inv sha hs vf st \<Longrightarrow>
    snd ` set (st_known_proposals st) \<subseteq> P \<Longrightarrow> \<forall>p. EvProposal p \<in> set es \<longrightarrow> p \<in> P \<Longrightarrow>
    state_inv sha hs vf st' \<and> walkable sha hs vf P (st_known_proposals st') \<and>
    list_all (proofs_verify sha hs vf) outs"
proof (induction es arbitrary: st outs)
  case Nil
  then show ?case using cm by (simp add: walkable_def state_inv_def)
next
  case (Cons e es)
  show ?case
  proof (cases "on_event sha hs st e sg vf")
    case (Ok out)
    obtain outs' st'' where r: "run_events sha hs sg vf (co_state out) es = (outs', st'')" by fastforce
    then have o: "outs = out # outs'" "st'' = st'" using Cons.prems(1) Ok by auto
    have e: "\<And>p. e = EvProposal p \<Longrightarrow> p \<in> P" using Cons.prems(4) by auto
    then have "snd ` set (st_known_proposals (co_state out)) \<subseteq> P"
      using on_event_known [OF Ok] Cons.prems(3) by blast
    then show ?thesis
      using Cons.IH r o Cons.prems(4) on_event_inv [OF Cons.prems(2) vs Ok]
        on_event_proofs [OF cm vs Cons.prems(2,3) e Ok] by auto
  qed (use Cons in auto)
qed

lemma genesis_run_within:
  assumes net: "authentic_network sha hs vf F node P"
    and run: "run_events sha hs sg vf (genesis_state hs now) es = (outs, st)"
    and received: "\<forall>p. EvProposal p \<in> set es \<longrightarrow> p \<in> P"
  shows "validator_set_inv (hs_validator_set hs)" "state_inv sha hs vf st"
    "walkable sha hs vf P (st_known_proposals st)" "list_all (proofs_verify sha hs vf) outs"
proof -
  show vs: "validator_set_inv (hs_validator_set hs)" using net by (simp add: authentic_network_def)
  have "snd ` set (st_known_proposals (genesis_state hs now)) \<subseteq> P" by (simp add: genesis_state_def Let_def)
  then show "state_inv sha hs vf st" "walkable sha hs vf P (st_known_proposals st)"
    "list_all (proofs_verify sha hs vf) outs"
    using run_within [OF vs authentic_certificates_match [OF net] run] genesis_state_inv vs received by auto
qed

end
