(* ===== verification/HotStuff_Properties.thy ===== *)
theory HotStuff_Properties
  imports HotStuff_Witnesses HotStuff_Returns
begin

text \<open>
  What the chained-HotStuff machine guarantees for every run from its genesis state, each with an
  instance on the sample network.
\<close>

section \<open>Runs from genesis\<close>

lemma genesis_run_inv:
  assumes "validator_set_new e vs = Ok (hs_validator_set hs)"
    "run_events sha hs sg vf (genesis_state hs now) es = (outs, st)"
  shows "state_inv sha hs vf st" "progress (genesis_state hs now) st"
  using run_inv [OF assms(2)] genesis_state_inv assms(1) by (auto simp: validator_set_new_Ok_iff)

text \<open>
  C3. From the genesis state, whatever events arrive, the persisted state stays consistent: the high
  and locked certificates verify, every known proposal is valid and filed under its own digest, every
  stored certificate verifies and is filed under the digest it certifies, every pending vote is a
  valid vote of the validator it is filed under, only known proposals are marked committed, and the
  views are ordered: locked below or at high, high and last-voted below current.
\<close>

theorem reachable_state_consistent:
  assumes "validator_set_new e vs = Ok (hs_validator_set hs)"
    and "run_events sha hs sg vf (genesis_state hs now) es = (outs, st)"
  shows "state_inv sha hs vf st"
  using genesis_run_inv(1) [OF assms] .

theorem reachable_state_consistent_witness:
  "\<exists>outs st. run_events sample_sha sample_hs (sample_signer 1) chain_verifier (genesis_state sample_hs 0)
     (cn_events (chain_node 1)) = (outs, st) \<and> length outs = 3 \<and>
     state_inv sample_sha sample_hs chain_verifier st"
proof -
  obtain outs st where r: "run_events sample_sha sample_hs (sample_signer 1) chain_verifier
      (genesis_state sample_hs 0) (cn_events (chain_node 1)) = (outs, st)" by fastforce
  have "length (run_trace sample_sha sample_hs (sample_signer 1) chain_verifier
      (genesis_state sample_hs 0) (cn_events (chain_node 1))) = 3"
    using arg_cong [OF chain_trace(1) [of 1], of length]
    by (simp add: node_trace_def) (simp add: chain_node_def)
  moreover have "length (fst (run_events sha hs sg vf s es)) = length (run_trace sha hs sg vf s es)"
    for sha hs sg vf s es
    by (induction es arbitrary: s) (auto simp: case_prod_beta split: result.splits)
  ultimately have "length outs = 3" using r by (metis fst_conv)
  moreover have "state_inv sample_sha sample_hs chain_verifier st"
    using reachable_state_consistent [OF _ r] sample_set_new by simp
  ultimately show ?thesis using r by blast
qed

text \<open>
  C7. In every state reached from genesis, every event is handled to an answer, a new state or an error:
  the walks along \<open>justify\<close> links that the handler runs, on this state and on the states between its
  steps, all end, and on this state within one step more than the number of known proposals. Asked are
  that the external signer and verifier return, that at most a third of the power is faulty, that valid
  votes of the others were cast by them, and that the proposals received have distinct digests.
\<close>

theorem every_event_returns:
  assumes "authentic_network sha hs vf F node P"
    and "run_events sha hs sg vf (genesis_state hs now) es = (outs, st)"
    and "\<forall>p. EvProposal p \<in> set (event # es) \<longrightarrow> p \<in> P"
    and "authenticators_return sg vf"
  shows "on_event sha hs st event sg vf \<noteq> Abort \<and>
    (\<exists>b. extends st c a = Ok b) \<and> (\<exists>b. safe_to_vote st p = Ok b) \<and>
    (\<exists>chain. commit_walk (Suc (length (st_known_proposals st))) st c [] = Ok chain \<and>
       length chain \<le> length (st_known_proposals st))"
proof -
  have w: "walkable sha hs vf P (st_known_proposals st)"
    by (rule genesis_run_within(3) [OF assms(1,2)]) (use assms(3) in simp)
  have "returns (on_event sha hs st event sg vf)"
    by (rule on_event_returns [OF assms(4) w]) (use assms(3) in simp)
  moreover have len: "length chain < n + length acc" if "commit_walk n st c acc = Ok chain" for n c acc chain
    using that by (induction n arbitrary: c acc) (fastforce split: option.splits if_splits)+
  moreover obtain chain where chain:
    "commit_walk (Suc (length (st_known_proposals st))) st c [] = Ok chain" using walks_end(3) [OF w] by blast
  moreover have "length chain \<le> length (st_known_proposals st)" using len [OF chain] by simp
  ultimately show ?thesis using walks_end(1,2) [OF w] chain unfolding returns_def by blast
qed

lemma chain_run_received:
  "\<forall>p. EvProposal p \<in> set (cn_events (chain_node 1)) \<longrightarrow>
     p \<in> {chain_proposal 0, chain_proposal 1, chain_proposal 2}"
  by (auto simp: chain_node_def)

theorem every_event_returns_witness:
  "\<exists>outs st. run_events sample_sha sample_hs (sample_signer 1) chain_verifier (genesis_state sample_hs 0)
     (cn_events (chain_node 1)) = (outs, st) \<and>
     on_event sample_sha sample_hs st (EvCertificate (sample_qc 3 3 [1, 2, 3])) (sample_signer 1)
       chain_verifier \<noteq> Abort \<and>
     (\<exists>b. extends st (sample_digest 3 3) (sample_digest 0 0) = Ok b)"
proof -
  obtain outs st where r: "run_events sample_sha sample_hs (sample_signer 1) chain_verifier
      (genesis_state sample_hs 0) (cn_events (chain_node 1)) = (outs, st)" by fastforce
  have "authenticators_return (sample_signer 1) chain_verifier"
    by (simp add: authenticators_return_def sample_verifier_def split: result.split)
  moreover have "\<forall>p. EvProposal p \<in> set (EvCertificate (sample_qc 3 3 [1, 2, 3]) # cn_events (chain_node 1)) \<longrightarrow>
      p \<in> {chain_proposal 0, chain_proposal 1, chain_proposal 2}"
    using chain_run_received by simp
  ultimately show ?thesis using every_event_returns [OF chain_authentic r] r by blast
qed

text \<open>
  C4. The blocks and the commit proofs that one event produces correspond one to one, and every proof
  passes the public verification for its block, in a network where at most a third of the power is
  faulty, valid votes of the others were cast by them, and the proposals have distinct digests.
\<close>

theorem emitted_proofs_verify:
  assumes "authentic_network sha hs vf F node P"
    and "run_events sha hs sg vf (genesis_state hs now) es = (outs, st)"
    and "\<forall>p. EvProposal p \<in> set es \<longrightarrow> p \<in> P"
  shows "list_all (\<lambda>out. list_all2 (\<lambda>b pr. verify_committed_block_proof sha hs b pr vf = Ok ())
      (co_committed_blocks out) (co_committed_proofs out)) outs"
  using genesis_run_within(4) [OF assms] by (simp add: proofs_verify_def [abs_def])

lemma chain_commits:
  "run_blocks (fst (run_events sample_sha sample_hs (sample_signer 1) chain_verifier
     (genesis_state sample_hs 0) (cn_events (chain_node 1) @ [EvCertificate (sample_qc 3 3 [1, 2, 3])]))) =
   [block_of (sample_digest 1 1) (chain_proposal 0)]"
  unfolding genesis_state_def chain_node_def chain_proposal_def
  by (simp add: sample_eval sample_genesis block_of_def)

theorem emitted_proofs_verify_witness:
  "\<exists>outs st. run_events sample_sha sample_hs (sample_signer 1) chain_verifier (genesis_state sample_hs 0)
     (cn_events (chain_node 1) @ [EvCertificate (sample_qc 3 3 [1, 2, 3])]) = (outs, st) \<and>
     run_blocks outs \<noteq> [] \<and>
     list_all (\<lambda>out. list_all2 (\<lambda>b pr.
         verify_committed_block_proof sample_sha sample_hs b pr chain_verifier = Ok ())
       (co_committed_blocks out) (co_committed_proofs out)) outs"
proof -
  obtain outs st where r: "run_events sample_sha sample_hs (sample_signer 1) chain_verifier
      (genesis_state sample_hs 0) (cn_events (chain_node 1) @ [EvCertificate (sample_qc 3 3 [1, 2, 3])]) =
      (outs, st)" by fastforce
  show ?thesis using emitted_proofs_verify [OF chain_authentic r] chain_run_received r chain_commits
    by simp
qed

text \<open>
  C6. A vote is signed only for a valid proposal of a fresh view that respects the lock: either the
  proposal is justified by a certificate newer than the locked one, or following \<open>justify\<close> links
  through known proposals leads from its parent to the locked block. One event yields at most one vote.
\<close>

theorem votes_respect_lock:
  assumes "on_event sha hs st event sg vf = Ok out"
  shows "votes_of (co_outbound_messages out) = [] \<or>
    (\<exists>p d v. event = EvProposal p \<and> votes_of (co_outbound_messages out) = [v] \<and>
       validate_proposal hs vf p = Ok () \<and> proposal_digest sha hs p = Ok d \<and>
       v_proposal_digest v = d \<and> v_view v = p_view p \<and> v_height v = p_height p \<and>
       v_validator v = sg_validator_id sg \<and>
       st_last_voted_view st < p_view p \<and> st_current_view st \<le> p_view p \<and>
       (qc_view (st_locked_qc st) < qc_view (p_justify p) \<or>
        reaches st (qc_proposal_digest (p_justify p)) (qc_proposal_digest (st_locked_qc st))))"
  using on_event_votes [OF assms] sign_vote_Ok safe_to_vote_lock
  unfolding casts_vote_def by metis

theorem votes_respect_lock_witness:
  "\<exists>out. on_event sample_sha sample_hs (genesis_state sample_hs 0) (EvProposal (chain_proposal 0))
       (sample_signer 2) chain_verifier = Ok out \<and>
     votes_of (co_outbound_messages out) = [sample_vote 1 1 2] \<and>
     reaches (genesis_state sample_hs 0) (sample_digest 0 0) (sample_digest 0 0)"
proof -
  have "\<exists>out. on_event sample_sha sample_hs (genesis_state sample_hs 0) (EvProposal (chain_proposal 0))
      (sample_signer 2) chain_verifier = Ok out \<and>
      votes_of (co_outbound_messages out) = [sample_vote 1 1 2]"
    unfolding genesis_state_def chain_proposal_def by (simp add: sample_eval sample_genesis)
  then obtain out where out: "on_event sample_sha sample_hs (genesis_state sample_hs 0)
      (EvProposal (chain_proposal 0)) (sample_signer 2) chain_verifier = Ok out"
    "votes_of (co_outbound_messages out) = [sample_vote 1 1 2]" by blast
  have "qc_view (st_locked_qc (genesis_state sample_hs 0)) = 0"
    "qc_view (p_justify (chain_proposal 0)) = 0"
    "qc_proposal_digest (p_justify (chain_proposal 0)) = sample_digest 0 0"
    "qc_proposal_digest (st_locked_qc (genesis_state sample_hs 0)) = sample_digest 0 0"
    by (simp_all add: genesis_state_def chain_proposal_def sample_genesis Let_def)
  then show ?thesis using votes_respect_lock [OF out(1)] out by auto
qed

text \<open>
  C9. If two verified certificates of one view certify different proposals, then more than a third of
  the voting power is held by validators that appear in both, each with a valid signed vote for either
  proposal: conflicting certificates convict their common signers.
\<close>

theorem conflicting_certificates_accountable:
  assumes "validator_set_new e vs = Ok (hs_validator_set hs)"
    and "verify_certificate hs vf qc = Ok ()" "verify_certificate hs vf qc' = Ok ()"
    and "qc_view qc = qc_view qc'" "qc_view qc \<noteq> 0" "qc_proposal_digest qc \<noteq> qc_proposal_digest qc'"
  shows "\<exists>A \<subseteq> vs_members (hs_validator_set hs).
    unat (vs_total_voting_power (hs_validator_set hs)) < 3 * sum (vs_power (hs_validator_set hs)) A \<and>
    (\<forall>a \<in> A. \<exists>v w. v \<in> set (qc_votes qc) \<and> w \<in> set (qc_votes qc') \<and>
       v_validator v = a \<and> v_validator w = a \<and> v_view v = v_view w \<and>
       v_proposal_digest v \<noteq> v_proposal_digest w \<and>
       validate_vote hs vf v = Ok () \<and> validate_vote hs vf w = Ok ())"
proof (intro exI [of _ "qc_signers qc \<inter> qc_signers qc'"] conjI ballI)
  let ?A = "qc_signers qc \<inter> qc_signers qc'"
  have inv: "validator_set_inv (hs_validator_set hs)" using assms(1) by (simp add: validator_set_new_Ok_iff)
  have c: "certified hs vf qc" "certified hs vf qc'" using assms by (simp_all add: certified_def)
  show "?A \<subseteq> vs_members (hs_validator_set hs)"
    using hs_certificates.signers_members [of "(hs, vf)" qc] inv c by auto
  show "unat (vs_total_voting_power (hs_validator_set hs)) < 3 * sum (vs_power (hs_validator_set hs)) ?A"
    using hs_certificates.certificates_overlap [of "(hs, vf)" qc qc'] inv c sum_vs_power [OF inv] by simp
  fix a assume "a \<in> ?A"
  then obtain v w where "v \<in> set (qc_votes qc)" "v_validator v = a" "validate_vote hs vf v = Ok ()"
    "vote_matches qc v" "w \<in> set (qc_votes qc')" "v_validator w = a" "validate_vote hs vf w = Ok ()"
    "vote_matches qc' w" by (metis IntD1 IntD2 signer_vote [OF inv c(1)] signer_vote [OF inv c(2)])
  from this(1-3,5-7) this(4,8) assms(4,6)
  show "\<exists>v w. v \<in> set (qc_votes qc) \<and> w \<in> set (qc_votes qc') \<and>
       v_validator v = a \<and> v_validator w = a \<and> v_view v = v_view w \<and>
       v_proposal_digest v \<noteq> v_proposal_digest w \<and>
       validate_vote hs vf v = Ok () \<and> validate_vote hs vf w = Ok ()"
    by (intro exI [of _ v] exI [of _ w]) (simp add: vote_matches_def)
qed

theorem conflicting_certificates_accountable_witness:
  "\<exists>A \<subseteq> vs_members sample_set. unat (vs_total_voting_power sample_set) < 3 * sum (vs_power sample_set) A \<and>
     (\<forall>a \<in> A. \<exists>v w. v \<in> set (qc_votes (sample_qc 1 1 [1, 2, 3])) \<and>
        w \<in> set (qc_votes (sample_qc 1 2 [2, 3, 4])) \<and> v_validator v = a \<and> v_validator w = a \<and>
        v_view v = v_view w \<and> v_proposal_digest v \<noteq> v_proposal_digest w \<and>
        validate_vote sample_hs (sample_verifier (\<lambda>_. True)) v = Ok () \<and>
        validate_vote sample_hs (sample_verifier (\<lambda>_. True)) w = Ok ())"
proof -
  let ?vf = "sample_verifier (\<lambda>_. True)" and ?qc = "sample_qc 1 1 [1, 2, 3]" and ?qc' = "sample_qc 1 2 [2, 3, 4]"
  have vs: "validator_set_new 0 (map sample_validator [1, 2, 3, 4]) = Ok (hs_validator_set sample_hs)"
    and qc: "verify_certificate sample_hs ?vf ?qc = Ok ()" "verify_certificate sample_hs ?vf ?qc' = Ok ()"
    using sample_set_new by (simp_all add: sample_quorums)
  have "qc_view ?qc = qc_view ?qc'" "qc_view ?qc \<noteq> 0" "qc_proposal_digest ?qc \<noteq> qc_proposal_digest ?qc'"
    by simp_all
  from conflicting_certificates_accountable [OF vs qc this] show ?thesis by (simp only: sample_hs_sel)
qed

lemma vote_event:
  assumes "ensure_registered_scheme hs (sg_validator_id sg) (sg_signature_scheme sg) = Ok ()"
    and "validate_vote hs vf v = Ok ()" "ensure_bounded_future_view (st_current_view st) (v_view v) = Ok ()"
    "bm_get (st_observed_votes st) (v_validator v, v_view v) \<in> {None, Some (v_proposal_digest v)}"
    "bm_get (pending_for st (v_proposal_digest v)) (v_validator v) = None"
  shows "on_event sha hs st (EvVote v) sg vf =
    try_bind (form_and_apply hs vf (v_proposal_digest v) (output_of (vote_recorded v st)))
      (\<lambda>co. Ok (co\<lparr> co_state := prune_state (co_state co) \<rparr>))"
  using assms by (simp add: on_event_def process_vote_fresh)

text \<open>
  C8. A valid first vote of a validator for a known, not yet certified proposal, within the view window
  and not contradicting an observed vote, is counted with the pending votes that match the proposal's
  view and height; the node's own signer is registered and the proposal's view is not the last one.
  If the votes reach the quorum threshold, a certificate with exactly those votes, in validator order,
  is formed; it verifies, is applied and stored without error, and is sent. Below the threshold the
  vote is recorded and nothing is sent.
  This is for every state reached from genesis in a network where at most a third of the power is
  faulty, valid votes of the others were cast by them, and the proposals have distinct digests.
\<close>

theorem quorum_forms_certificate:
  assumes "authentic_network sha hs vf F node P"
    and "run_events sha hs sg vf (genesis_state hs now) es = (outs, st)"
    and "\<forall>p. EvProposal p \<in> set es \<longrightarrow> p \<in> P"
    and "ensure_registered_scheme hs (sg_validator_id sg) (sg_signature_scheme sg) = Ok ()"
    and "validate_vote hs vf v = Ok ()" "ensure_bounded_future_view (st_current_view st) (v_view v) = Ok ()"
    and "bm_get (st_observed_votes st) (v_validator v, v_view v) \<in> {None, Some (v_proposal_digest v)}"
    and "bm_get (pending_for st (v_proposal_digest v)) (v_validator v) = None"
    and "known_proposal st (v_proposal_digest v) = Some p"
    and "bm_get (st_certificates st) (v_proposal_digest v) = None" "unat (p_view p) + 1 < 2 ^ 64"
  shows "let d = v_proposal_digest v; recorded = vote_recorded v st;
      votes = matching_votes p (bm_insert (v_validator v) v (pending_for st d));
      qc = certificate_for hs d p votes
    in if unat (quorum_threshold (hs_validator_set hs)) \<le> votes_power hs votes
       then verify_certificate hs vf qc = Ok () \<and>
         (\<exists>co. apply_certificate hs vf qc (output_of recorded) = Ok co \<and>
            st_certificates (co_state co) = bm_insert d qc (st_certificates st) \<and>
            on_event sha hs st (EvVote v) sg vf =
              Ok (co\<lparr> co_state := prune_state (co_state co), co_outbound_messages := [MsgCertificate qc] \<rparr>))
       else on_event sha hs st (EvVote v) sg vf = Ok (output_of (prune_state recorded))"
proof -
  let ?d = "v_proposal_digest v" and ?r = "vote_recorded v st"
  let ?pending = "bm_insert (v_validator v) v (pending_for st ?d)"
  let ?qc = "certificate_for hs ?d p (matching_votes p ?pending)"
  note g = genesis_run_within [OF assms(1-3)]
  note r = vote_recorded_inv [OF g(2,1) assms(5)]
  have none: "bm_get (st_certificates ?r) ?d = None" and p: "bm_get (st_known_proposals ?r) ?d = Some p"
    using assms(9,10) by (simp_all add: known_proposal_def)
  have "bm_inv (st_pending_votes st)" using g(2) by (simp add: state_inv_def pending_votes_ok_def)
  then have "bm_get (st_pending_votes ?r) ?d = Some ?pending" by (simp add: vote_recorded_def bm.get_insert)
  note f = try_form_certificate_quorum [OF g(1) r none p this]
  note e = vote_event [OF assms(4-8), of sha]
  show ?thesis
  proof (cases "unat (quorum_threshold (hs_validator_set hs)) \<le> votes_power hs (matching_votes p ?pending)")
    case True
    then have v: "verify_certificate hs vf ?qc = Ok ()" using f(2) by simp
    have "known_ok sha hs vf (st_known_proposals ?r)" using r by (simp add: state_inv_def)
    then have "p_view p \<noteq> 0" by (rule validate_proposal_Ok(4) [OF known_okD(1) [OF _ p]])
    moreover obtain co where co: "apply_certificate hs vf ?qc (output_of ?r) = Ok co"
      using apply_certificate_succeeds [OF _ v, of sha P "output_of ?r"] g(3) assms(11)
      by (auto simp: certificate_for_def)
    ultimately have "st_certificates (co_state co) = bm_insert ?d ?qc (st_certificates st)"
      using apply_certificate_stores [OF co] none by (simp add: certificate_for_def)
    moreover have "co_outbound_messages co = []" using apply_certificate_frame [OF co] by (simp add: output_of_def)
    ultimately show ?thesis using True v co f(1) by (simp add: e form_and_apply_def)
  next
    case False
    then show ?thesis using f(1) by (simp add: e form_and_apply_def) (simp add: output_of_def)
  qed
qed

lemma sample_vote_run:
  "\<exists>outs st. run_events sample_sha sample_hs (sample_signer 1) chain_verifier (genesis_state sample_hs 0)
       [EvProposal (chain_proposal 0), EvVote (sample_vote 1 1 3), EvVote (sample_vote 1 1 2)] = (outs, st) \<and>
     bm_get (st_certificates st) (sample_digest 1 1) = None \<and> st_current_view st = 2 \<and>
     known_proposal st (sample_digest 1 1) = Some (chain_proposal 0) \<and>
     bm_get (st_observed_votes st) (sample_id 4, 1) = None \<and>
     pending_for st (sample_digest 1 1) =
       [(sample_id 2, sample_vote 1 1 2), (sample_id 3, sample_vote 1 1 3)]"
  unfolding genesis_state_def chain_proposal_def
  by (simp add: sample_eval sample_genesis process_vote_def known_proposal_def form_and_apply_def
      try_form_certificate_def form_step_def sample_set_get sample_set_threshold prune_state_def
      pending_for_def)

theorem quorum_forms_certificate_witness:
  "\<exists>outs st out. run_events sample_sha sample_hs (sample_signer 1) chain_verifier (genesis_state sample_hs 0)
       [EvProposal (chain_proposal 0), EvVote (sample_vote 1 1 3), EvVote (sample_vote 1 1 2)] = (outs, st) \<and>
     on_event sample_sha sample_hs st (EvVote (sample_vote 1 1 4)) (sample_signer 1) chain_verifier = Ok out \<and>
     co_outbound_messages out = [MsgCertificate (sample_qc 1 1 [2, 3, 4])] \<and>
     verify_certificate sample_hs chain_verifier (sample_qc 1 1 [2, 3, 4]) = Ok ()"
proof -
  obtain outs st where r: "run_events sample_sha sample_hs (sample_signer 1) chain_verifier
      (genesis_state sample_hs 0) [EvProposal (chain_proposal 0), EvVote (sample_vote 1 1 3),
        EvVote (sample_vote 1 1 2)] = (outs, st)"
    and st: "bm_get (st_certificates st) (sample_digest 1 1) = None" "st_current_view st = 2"
      "known_proposal st (sample_digest 1 1) = Some (chain_proposal 0)"
      "bm_get (st_observed_votes st) (sample_id 4, 1) = None"
      "pending_for st (sample_digest 1 1) =
        [(sample_id 2, sample_vote 1 1 2), (sample_id 3, sample_vote 1 1 3)]"
    using sample_vote_run by blast
  have qc: "certificate_for sample_hs (sample_digest 1 1) (chain_proposal 0)
      [sample_vote 1 1 2, sample_vote 1 1 3, sample_vote 1 1 4] = sample_qc 1 1 [2, 3, 4]"
    by (simp add: certificate_for_def sample_qc_def chain_proposal_def)
  have votes: "matching_votes (chain_proposal 0) (bm_insert (sample_id 4) (sample_vote 1 1 4)
      (pending_for st (sample_digest 1 1))) = [sample_vote 1 1 2, sample_vote 1 1 3, sample_vote 1 1 4]"
    by (simp add: st(5) matching_votes_def chain_proposal_def)
  have "votes_power sample_hs [sample_vote 1 1 2, sample_vote 1 1 3, sample_vote 1 1 4] = 3"
    by (simp add: votes_power_def sample_set_power)
  moreover have "ensure_registered_scheme sample_hs (sample_id 1) Ed25519 = Ok ()"
    "ensure_bounded_future_view 2 1 = Ok ()" "bm_get [(sample_id 2, x), (sample_id 3, y)] (sample_id 4) = None"
    for x y :: consensus_vote
    by (simp_all add: sample_eval)
  ultimately show ?thesis
    using quorum_forms_certificate [OF chain_authentic r, of "sample_vote 1 1 4" "chain_proposal 0"] r st qc votes
    by (force simp: Let_def sample_set_threshold chain_proposal_def)
qed

end
