(* ===== verification/Item_Frames.thy ===== *)
theory Item_Frames
  imports Indexed_Lists
begin

text \<open>
  The reading side of the list frames of \<open>Indexed_Lists\<close>: the loop by which the decoders of the
  typed ABI, the fast certificates, the locked-object sets and the bond registry read one item per
  field, and the facts that a frame with the head fields and the items of a list is the list frame
  itself. The encoders that cast the field number instead of converting it share \<open>put_items_cast\<close>.
\<close>

section \<open>Loops\<close>

text \<open>Item \<open>index\<close> is read from field \<open>index + base\<close>.\<close>

definition take_items ::
  "'e \<Rightarrow> (canonical_decoding_error \<Rightarrow> 'e) \<Rightarrow> (bytes \<Rightarrow> ('e, 'a) result) \<Rightarrow> usize \<Rightarrow> usize \<Rightarrow>
   canonical_frame \<Rightarrow> ('e, 'a list) result" where
  "take_items too_many wrap dec base n frame =
     try_map (\<lambda>index.
       try_bind (ok_or (u16_try_from (index + base)) too_many) (\<lambda>field_id.
       try_bind (map_err wrap (required_field frame field_id)) dec)) [0..<n]"

text \<open>The encoder loop whose field number is the cast \<open>(index + base) as u16\<close>.\<close>

definition put_items_cast ::
  "(canonical_encoding_error \<Rightarrow> 'e) \<Rightarrow> ('a \<Rightarrow> ('e, bytes) result) \<Rightarrow> usize \<Rightarrow> 'a list \<Rightarrow>
   canonical_struct \<Rightarrow> ('e, canonical_struct) result" where
  "put_items_cast wrap enc base xs c =
     try_fold (\<lambda>c (index, x).
       try_bind (enc x) (\<lambda>b. map_err wrap (field_bytes (of_nat (index + base)) b c))) c
       (enumerate 0 xs)"

text \<open>
  Decoders that check the field numbers first collect them in a vector and then read each.
\<close>

definition item_field_ids :: "'e \<Rightarrow> usize \<Rightarrow> usize \<Rightarrow> ('e, u16 list) result" where
  "item_field_ids too_many base n =
     try_map (\<lambda>index. ok_or (u16_try_from (index + base)) too_many) [0..<n]"

definition take_fields ::
  "(canonical_decoding_error \<Rightarrow> 'e) \<Rightarrow> (bytes \<Rightarrow> ('e, 'a) result) \<Rightarrow> u16 list \<Rightarrow>
   canonical_frame \<Rightarrow> ('e, 'a list) result" where
  "take_fields wrap dec ids frame =
     try_map (\<lambda>field_id. try_bind (map_err wrap (required_field frame field_id)) dec) ids"

lemma item_field_ids_Ok:
  "n + base \<le> 2 ^ 16 \<Longrightarrow> item_field_ids e base n = Ok (map of_nat [base..<base + n])"
  by (auto simp: item_field_ids_def try_map_upt result_simps u16_try_from_def add.commute
      simp del: upt_Suc)

lemma try_map_comp: "try_map f (map g xs) = try_map (\<lambda>x. f (g x)) xs"
  by (induction xs) auto

lemma take_fields_items:
  assumes "n + base \<le> 2 ^ 16"
  shows "take_fields w dec (map of_nat [base..<base + n]) f = take_items e w dec base n f"
proof -
  have "map of_nat [base..<base + n] = map (\<lambda>i. of_nat (i + base) :: u16) [0..<n]"
    unfolding map_add_upt [of base n, symmetric] add.commute [of base n]
    by (simp add: comp_def del: of_nat_add)
  moreover have "try_map (\<lambda>i. try_bind (map_err w (required_field f (of_nat (i + base)))) dec) xs =
      try_map (\<lambda>i. try_bind (ok_or (u16_try_from (i + base)) e)
        (\<lambda>k. try_bind (map_err w (required_field f k)) dec)) xs"
    if "set xs \<subseteq> {0..<n}" for xs
    using that assms by (induction xs) (auto simp: u16_try_from_def simp del: of_nat_add)
  ultimately show ?thesis
    by (simp add: take_fields_def take_items_def try_map_comp del: of_nat_add)
qed

lemma take_items_length: "take_items e w dec base n f = Ok xs \<Longrightarrow> length xs = n"
  by (auto simp: take_items_def try_map_eq_Ok dest: list_all2_lengthD)

lemma take_items_Ok_iff:
  assumes "n + base \<le> 2 ^ 16"
  shows "take_items e w dec base n f = Ok xs \<longleftrightarrow> length xs = n \<and>
    (\<forall>i < n. \<exists>b. frame_field f (of_nat (i + base)) = Some b \<and> dec b = Ok (xs ! i))"
proof -
  have "u16_try_from (i + base) = Some (of_nat (i + base))" if "i < n" for i
    using that assms by (simp add: u16_try_from_def)
  then show ?thesis
    by (auto simp: take_items_def try_map_upt result_simps simp del: of_nat_add)
qed

lemma put_items_cast_eq:
  assumes "length xs + base \<le> 2 ^ 16"
  shows "put_items_cast wrap enc base xs c = put_items e wrap enc base xs c"
proof -
  have "try_fold (\<lambda>c (index, x).
        try_bind (enc x) (\<lambda>b. map_err wrap (field_bytes (of_nat (index + base)) b c))) c
        (enumerate k xs) = try_fold (put_item e wrap enc base) c (enumerate k xs)"
    if "k + length xs + base \<le> 2 ^ 16" for k c
    using that
  proof (induction xs arbitrary: k c)
    case (Cons x xs)
    have "try_bind (enc x) (\<lambda>b. map_err wrap (field_bytes (of_nat (k + base)) b c)) =
        put_item e wrap enc base c (k, x)"
      using Cons.prems by (simp add: put_item_def u16_try_from_def)
    then show ?case using Cons by (simp del: of_nat_add cong: try_bind_cong)
  qed simp
  then show ?thesis using assms by (simp add: put_items_cast_def put_items_def)
qed

text \<open>The decoders that first check the numbers of all fields and then read the items.\<close>

definition take_allowed_items ::
  "'e \<Rightarrow> (canonical_decoding_error \<Rightarrow> 'e) \<Rightarrow> (bytes \<Rightarrow> ('e, 'a) result) \<Rightarrow> u16 list \<Rightarrow> usize \<Rightarrow> usize \<Rightarrow>
   canonical_frame \<Rightarrow> ('e, 'a list) result" where
  "take_allowed_items too_many wrap dec ids base n frame =
     try_bind (item_field_ids too_many base n) (\<lambda>item_ids.
     try_bind (map_err wrap (require_only_fields frame (ids @ item_ids))) (\<lambda>_.
     take_fields wrap dec item_ids frame))"

lemma take_allowed_items_Ok_iff:
  assumes "n + base \<le> 2 ^ 16" "1 \<le> base" "ids = map of_nat [1..<base]"
  shows "take_allowed_items e w dec ids base n f = Ok ys \<longleftrightarrow>
    fst ` set (cf_fields f) \<subseteq> set (map of_nat [1..<base + n]) \<and>
    take_items e w dec base n f = Ok ys"
proof -
  have "ids @ map of_nat [base..<base + n] = map of_nat [1..<base + n]"
    using assms upt_add_eq_append [of 1 base n] by simp
  then show ?thesis
    using assms(1)
    by (simp add: take_allowed_items_def item_field_ids_Ok take_fields_items [where e = e]
        result_simps flip: set_append)
qed

section \<open>A frame with the fields of a list is its list frame\<close>

lemma list_frame_eqI:
  assumes f: "frame_wf f" "cf_type_id f = t" "cf_version f = v" and hs: "list_head hs (length bs)"
    and only: "fst ` set (cf_fields f) \<subseteq> set (map of_nat [1..<Suc (length hs + length bs)])"
    and head: "\<forall>(k, x) \<in> set hs. frame_field f k = Some x"
    and items: "\<And>i. i < length bs \<Longrightarrow> frame_field f (of_nat (i + Suc (length hs))) = Some (bs ! i)"
  shows "f = list_frame t v hs bs"
proof -
  define ids :: "u16 list" where "ids = map of_nat [1..<Suc (length hs + length bs)]"
  let ?g = "list_frame t v hs bs"
  have keys: "map fst (cf_fields ?g) = ids" unfolding ids_def by (rule list_frame_keys [OF hs])
  have only: "fst ` set (cf_fields f) \<subseteq> set ids" unfolding ids_def by (rule only)
  have sorted: "sorted_wrt (<) ids"
    using list_frame_wf [OF hs, of t v] keys by (simp add: frame_wf_def key_sorted_def)
  have same: "frame_field f k = Some x \<and> frame_field ?g k = Some x"
    if kx: "(k, x) \<in> set (cf_fields ?g)" for k x
  proof -
    from kx consider "(k, x) \<in> set hs"
      | i where "i < length bs" "k = of_nat (i + Suc (length hs))" "x = bs ! i"
      by (auto simp: list_frame_def set_zip add.commute simp del: upt_Suc of_nat_Suc of_nat_add)
    then have "frame_field f k = Some x" using head items by cases auto
    then show ?thesis using list_frame_lookup [OF hs kx] by simp
  qed
  have defined: "frame_field ?g k = frame_field f k \<and> frame_field f k \<noteq> None" if "k \<in> set ids" for k
  proof -
    from that obtain x where "(k, x) \<in> set (cf_fields ?g)" unfolding keys [symmetric] by auto
    from same [OF this] show ?thesis by simp
  qed
  have "cf_fields f = map (\<lambda>i. (i, the (frame_field f i))) ids"
    using f(1) only sorted defined by (intro frame_fields_determined) auto
  also have "\<dots> = map (\<lambda>i. (i, the (frame_field ?g i))) ids"
    using defined by (intro map_cong) auto
  also have "\<dots> = cf_fields ?g"
    using list_frame_wf [OF hs] sorted defined keys
    by (intro frame_fields_determined [symmetric]) (auto simp flip: set_map)
  finally show ?thesis using f(2,3) by (cases f) (simp add: list_frame_def)
qed

lemma frame_keys_of_count:
  assumes "frame_wf f" "length (cf_fields f) \<le> length ids" "distinct ids"
    and "\<And>i. i \<in> set ids \<Longrightarrow> frame_field f i \<noteq> None"
  shows "fst ` set (cf_fields f) \<subseteq> set ids"
proof -
  have sub: "set ids \<subseteq> fst ` set (cf_fields f)"
    using assms(1,4) by (auto simp: frame_field_eq map_of_eq_None_iff)
  have "card (fst ` set (cf_fields f)) \<le> length (cf_fields f)"
    using card_length [of "map fst (cf_fields f)"] by simp
  then have "card (fst ` set (cf_fields f)) \<le> card (set ids)"
    using assms(2,3) by (simp add: distinct_card)
  with sub have "set ids = fst ` set (cf_fields f)"
    by (intro card_seteq) auto
  then show ?thesis by simp
qed

definition has_fields :: "canonical_frame \<Rightarrow> (u16 \<times> bytes) list \<Rightarrow> bool" where
  "has_fields f hs \<longleftrightarrow> list_all (\<lambda>(k, x). frame_field f k = Some x) hs"

text \<open>Both ways a decoder bounds the fields: by their numbers and by their count.\<close>

lemma take_list_frame_iff:
  assumes hs: "list_head hs (length xs)"
  shows "frame_wf f \<and> cf_type_id f = t \<and> cf_version f = v \<and> has_fields f hs \<and>
      fst ` set (cf_fields f) \<subseteq> set (map of_nat [1..<Suc (length hs) + length xs]) \<and>
      take_items e w dec (Suc (length hs)) (length xs) f = Ok xs \<longleftrightarrow>
    (\<exists>bs. list_all2 (\<lambda>x b. dec b = Ok x) xs bs \<and> f = list_frame t v hs bs)" (is "?L \<longleftrightarrow> ?R")
proof -
  have items: "take_items e w dec (Suc (length hs)) (length xs) f = Ok xs \<longleftrightarrow>
      (\<forall>i < length xs. \<exists>b. frame_field f (of_nat (i + Suc (length hs))) = Some b \<and>
        dec b = Ok (xs ! i))" for f
    using hs by (subst take_items_Ok_iff) (auto simp: list_head_def)
  show ?thesis
  proof
    assume L: ?L
    define bs where "bs = map (\<lambda>i. the (frame_field f (of_nat (i + Suc (length hs))))) [0..<length xs]"
    have at: "frame_field f (of_nat (i + Suc (length hs))) = Some (bs ! i) \<and> dec (bs ! i) = Ok (xs ! i)"
      if "i < length xs" for i
      using L that unfolding items bs_def by fastforce
    have len: "length bs = length xs" by (simp add: bs_def)
    have "f = list_frame t v hs bs"
      using L hs at len by (intro list_frame_eqI) (auto simp: has_fields_def list_all_iff simp del: upt_Suc)
    then show ?R using at len by (auto simp: list_all2_conv_all_nth intro!: exI [of _ bs])
  next
    assume ?R
    then obtain bs where bs: "list_all2 (\<lambda>x b. dec b = Ok x) xs bs" "f = list_frame t v hs bs" by auto
    then have len: "length bs = length xs" by (simp add: list_all2_lengthD)
    with hs have h: "list_head hs (length bs)" by simp
    have "distinct (map fst hs)"
      using list_frame_wf [OF h, of t v]
      by (auto simp: frame_wf_def key_sorted_def list_frame_def sorted_wrt_append strict_sorted_iff
          simp del: upt_Suc)
    then have "has_fields f hs"
      using h bs(2) by (auto simp: has_fields_def list_all_iff intro!: list_frame_head map_of_is_SomeI)
    moreover have "fst ` set (cf_fields f) = set (map of_nat [1..<Suc (length hs + length xs)])"
      using list_frame_keys [OF h, of t v] bs(2) len by (metis image_set)
    moreover have "\<forall>i < length xs. \<exists>b. frame_field f (of_nat (i + Suc (length hs))) = Some b \<and>
        dec b = Ok (xs ! i)"
      using bs list_frame_item [OF h, of _ t v] by (auto simp: list_all2_conv_all_nth simp del: of_nat_add)
    ultimately show ?L unfolding items using list_frame_wf [OF h] bs(2) by (simp del: upt_Suc)
  qed
qed

lemma take_list_frame_count_iff:
  assumes hs: "list_head hs (length xs)"
  shows "frame_wf f \<and> cf_type_id f = t \<and> cf_version f = v \<and> has_fields f hs \<and>
      length (cf_fields f) = length hs + length xs \<and>
      take_items e w dec (Suc (length hs)) (length xs) f = Ok xs \<longleftrightarrow>
    (\<exists>bs. list_all2 (\<lambda>x b. dec b = Ok x) xs bs \<and> f = list_frame t v hs bs)" (is "?L \<longleftrightarrow> ?R")
proof
  let ?is = "map of_nat [Suc (length hs)..<Suc (length hs) + length xs] :: u16 list"
  define ids :: "u16 list" where "ids = map of_nat [1..<Suc (length hs + length xs)]"
  assume L: ?L
  have ids: "ids = map fst hs @ ?is"
    using hs upt_add_eq_append [of 1 "Suc (length hs)" "length xs"]
    by (simp add: ids_def list_head_def del: upt_Suc)
  have item: "frame_field f (of_nat (j + Suc (length hs))) \<noteq> None" if "j < length xs" for j
    using L hs that by (auto simp: take_items_Ok_iff list_head_def simp del: of_nat_add)
  have "frame_field f i \<noteq> None" if "i \<in> set ?is" for i
  proof -
    from that obtain j where j: "Suc (length hs) \<le> j" "j < Suc (length hs) + length xs" "i = of_nat j"
      by (auto simp del: upt_Suc)
    with item [of "j - Suc (length hs)"] show ?thesis by (simp del: of_nat_add)
  qed
  then have "frame_field f i \<noteq> None" if "i \<in> set ids" for i
    using L that unfolding ids by (auto simp: has_fields_def list_all_iff)
  moreover have "distinct ids"
    using list_frame_keys [of hs "replicate (length xs) []" t v]
      list_frame_wf [of hs "replicate (length xs) []" t v] hs
    by (simp add: ids_def frame_wf_def key_sorted_def strict_sorted_iff del: upt_Suc)
  moreover have "length ids = length hs + length xs" by (simp add: ids_def del: upt_Suc)
  ultimately have "fst ` set (cf_fields f) \<subseteq> set ids"
    using L by (intro frame_keys_of_count) auto
  then have "fst ` set (cf_fields f) \<subseteq> set (map of_nat [1..<Suc (length hs + length xs)])"
    unfolding ids_def .
  then show ?R using L take_list_frame_iff [OF hs, of f t v e w dec] by auto
next
  assume R: ?R
  then have "length (cf_fields f) = length hs + length xs" by (auto simp: list_all2_lengthD)
  then show ?L using R take_list_frame_iff [OF hs, of f t v e w dec] by auto
qed

text \<open>What the items decode to, in terms of their encodings.\<close>

lemma list_all2_decode_encode:
  assumes "\<And>x b. dec b = Ok x \<longleftrightarrow> P x \<and> enc x = Ok b"
  shows "list_all2 (\<lambda>x b. dec b = Ok x) xs bs \<longleftrightarrow>
    list_all P xs \<and> list_all2 (\<lambda>x b. enc x = Ok b) xs bs"
  unfolding assms by (auto simp: list_all2_conv_all_nth list_all_length)

section \<open>Decoders that compare the re-encoding\<close>

text \<open>
  A decoder that re-encodes its result accepts only encodings; what is left to show is that it reads
  the fields the encoder wrote. Optional fields may be absent.
\<close>

lemma decode_closed_written:
  assumes "encode_frame \<lparr> cf_type_id = t, cf_version = v, cf_fields = fs \<rparr> = Ok b"
    "set (map fst fs) \<subseteq> set ids" "sorted_wrt (<) (map fst fs)"
  shows "decode_closed_frame t v ids b = Ok \<lparr> cf_type_id = t, cf_version = v, cf_fields = fs \<rparr>"
  using assms unfolding decode_closed_frame_Ok_iff
  by (auto simp: frame_wf_def key_sorted_def simp flip: set_map)

lemma decode_closed_encoded:
  assumes "encode_frame \<lparr> cf_type_id = t, cf_version = v, cf_fields = fs \<rparr> = Ok b"
    "map fst fs = ids" "sorted_wrt (<) ids"
  shows "decode_closed_frame t v ids b = Ok \<lparr> cf_type_id = t, cf_version = v, cf_fields = fs \<rparr>"
  using assms by (intro decode_closed_written) auto

end
