(* ===== verification/Typed_Abi.thy ===== *)
theory Typed_Abi
  imports Objects Item_Frames
begin

text \<open>
  The file \<^verbatim>\<open>src/crates/abi/src/lib.rs\<close>: access manifests, nominal type tags, the registry of
  constructor declarations, the projection of a type argument out of an object body, entrypoint
  signatures with their codecs, and the single-pass verification of the inputs of a call.
\<close>

section \<open>Data\<close>

definition ACCESS_ENTRY_TYPE_ID :: u16 where
  "ACCESS_ENTRY_TYPE_ID = 0x5001"

definition ACCESS_MANIFEST_TYPE_ID :: u16 where
  "ACCESS_MANIFEST_TYPE_ID = 0x5002"

definition TYPE_ARG_TYPE_ID :: u16 where
  "TYPE_ARG_TYPE_ID = 0x5101"

definition TYPE_TAG_TYPE_ID :: u16 where
  "TYPE_TAG_TYPE_ID = 0x5102"

definition PROJECTION_STEP_TYPE_ID :: u16 where
  "PROJECTION_STEP_TYPE_ID = 0x5103"

definition CONSTRUCTOR_DECLARATION_TYPE_ID :: u16 where
  "CONSTRUCTOR_DECLARATION_TYPE_ID = 0x5104"

definition PARAM_DECLARATION_TYPE_ID :: u16 where
  "PARAM_DECLARATION_TYPE_ID = 0x5105"

definition ENTRYPOINT_SIGNATURE_TYPE_ID :: u16 where
  "ENTRYPOINT_SIGNATURE_TYPE_ID = 0x5106"

definition AB_ENCODING_VERSION :: u16 where
  "AB_ENCODING_VERSION = 1"

definition MAX_CONSTRUCTORS :: usize where
  "MAX_CONSTRUCTORS = 32"

definition MAX_PARAMS :: usize where
  "MAX_PARAMS = 8"

definition MAX_PROJECTION_DEPTH :: usize where
  "MAX_PROJECTION_DEPTH = 4"

definition MAX_ENTRYPOINT_BYTES :: usize where
  "MAX_ENTRYPOINT_BYTES = 256"

lemmas abi_ids [encode_simps] = ACCESS_ENTRY_TYPE_ID_def ACCESS_MANIFEST_TYPE_ID_def
  TYPE_ARG_TYPE_ID_def TYPE_TAG_TYPE_ID_def PROJECTION_STEP_TYPE_ID_def
  CONSTRUCTOR_DECLARATION_TYPE_ID_def PARAM_DECLARATION_TYPE_ID_def
  ENTRYPOINT_SIGNATURE_TYPE_ID_def AB_ENCODING_VERSION_def

lemmas abi_bounds = MAX_CONSTRUCTORS_def MAX_PARAMS_def MAX_PROJECTION_DEPTH_def
  MAX_ENTRYPOINT_BYTES_def

type_synonym constructor_id = u16

datatype type_arg = TaAssetId bytes

fun type_arg_tag :: "type_arg \<Rightarrow> u16" where
  "type_arg_tag (TaAssetId _) = 1"

record type_tag =
  tt_constructor :: constructor_id
  tt_type_arg :: "type_arg option"

datatype type_arity = FixedArity | VariableArity

record projection_step =
  ps_expected_type_id :: u16
  ps_expected_version :: u16
  ps_field_id :: u16

record constructor_declaration =
  cd_id :: constructor_id
  cd_body_type_id :: u16
  cd_body_version :: u16
  cd_schema_version :: u32
  cd_arity :: type_arity
  cd_projection :: "projection_step list"

datatype abi_error =
    AbCanonicalEncoding canonical_encoding_error
  | AbCanonicalDecoding canonical_decoding_error
  | AbObject object_error
  | ManifestTooLarge usize
  | NonCanonicalManifestLayout usize usize
  | DuplicateObjectId object_id
  | UnknownTypeArgTag u16
  | InvalidTypeArgLength usize
  | UnknownTypeArityTag u16
  | EmptyProjectionForVariableArity constructor_id
  | UnexpectedProjectionForFixedArity constructor_id
  | ProjectionTooDeep usize
  | ProjectionTypeMismatch u16 u16
  | ProjectionVersionMismatch u16 u16
  | ProjectionLength usize usize
  | ZeroConstructorId
  | ZeroBodyTypeId constructor_id
  | ZeroProjectionTypeId constructor_id
  | ZeroProjectionFieldId constructor_id
  | ProjectionFirstStepMismatch constructor_id u16 u16 u16 u16
  | DuplicateConstructorId constructor_id
  | DuplicateBodyTypeId u16 constructor_id
  | RegistryFull usize
  | UnknownConstructor constructor_id
  | EmptyEntrypointName
  | EntrypointNameTooLong usize
  | TooManyParams usize
  | ParamSchemaVersionMismatch constructor_id u32 u32
  | ArityMismatch usize usize
  | AccessModeMismatch usize access_mode access_mode
  | ObjectSchemaVersionMismatch usize u32 u32
  | TypeIdentityMismatch usize type_tag digest32
  | TypeVariableMismatch usize type_arg type_arg
  | AbHashing hashing_error

record access_entry =
  ae_object_ref :: object_ref
  ae_mode :: access_mode

record access_manifest =
  am_entries :: "access_entry list"

definition access_manifest_new :: access_manifest where
  "access_manifest_new = \<lparr> am_entries = [] \<rparr>"

definition access_manifest_push :: "access_manifest \<Rightarrow> access_entry \<Rightarrow> access_manifest" where
  "access_manifest_push manifest entry = manifest \<lparr> am_entries := am_entries manifest @ [entry] \<rparr>"

section \<open>Access manifests\<close>

definition encode_access_entry :: "access_entry \<Rightarrow> (abi_error, bytes) result" where
  "encode_access_entry entry =
     try_bind (map_err AbObject (encode_object_ref (ae_object_ref entry))) (\<lambda>b.
     try_bind (map_err AbCanonicalEncoding
       (field_bytes 1 b (cs_new ACCESS_ENTRY_TYPE_ID AB_ENCODING_VERSION))) (\<lambda>c.
     try_bind (map_err AbObject (encode_access_mode (ae_mode entry))) (\<lambda>b.
     map_err AbCanonicalEncoding (try_bind (field_bytes 2 b c) finish))))"

definition decode_access_entry :: "bytes \<Rightarrow> (abi_error, access_entry) result" where
  "decode_access_entry input =
     try_bind (map_err AbCanonicalDecoding
       (decode_closed_frame ACCESS_ENTRY_TYPE_ID AB_ENCODING_VERSION [1, 2] input)) (\<lambda>frame.
     try_bind (map_err AbCanonicalDecoding (required_field frame 1)) (\<lambda>b.
     try_bind (map_err AbObject (decode_object_ref b)) (\<lambda>object_ref.
     try_bind (map_err AbCanonicalDecoding (required_field frame 2)) (\<lambda>b.
     try_bind (map_err AbObject (decode_access_mode b)) (\<lambda>mode.
     Ok \<lparr> ae_object_ref = object_ref, ae_mode = mode \<rparr>)))))"

definition MAX_ENTRIES :: usize where
  "MAX_ENTRIES = 65534"

definition encode_access_manifest :: "access_manifest \<Rightarrow> (abi_error, bytes) result" where
  "encode_access_manifest manifest =
     (if length (am_entries manifest) > MAX_ENTRIES
      then Err (ManifestTooLarge (length (am_entries manifest)))
      else
        try_bind (map_err AbCanonicalEncoding (field_u32 1 (of_nat (length (am_entries manifest)))
          (cs_new ACCESS_MANIFEST_TYPE_ID AB_ENCODING_VERSION))) (\<lambda>c.
        try_bind (put_items_cast AbCanonicalEncoding encode_access_entry 2 (am_entries manifest) c)
          (\<lambda>c. map_err AbCanonicalEncoding (finish c))))"

text \<open>\<open>ids.windows(2).find(|pair| pair[0] == pair[1])\<close>, and \<open>window[0]\<close> of what it finds.\<close>

definition first_duplicate :: "object_id list \<Rightarrow> object_id option" where
  "first_duplicate ids = map_option fst (find (\<lambda>(x, y). x = y) (windows2 ids))"

definition decode_access_manifest :: "bytes \<Rightarrow> usize \<Rightarrow> (abi_error, access_manifest) result" where
  "decode_access_manifest input max_entries =
     try_bind (map_err AbCanonicalDecoding (decode_canonical_frame input)) (\<lambda>frame.
     try_bind (map_err AbCanonicalDecoding (require_type frame ACCESS_MANIFEST_TYPE_ID)) (\<lambda>_.
     try_bind (map_err AbCanonicalDecoding (require_version frame AB_ENCODING_VERSION)) (\<lambda>_.
     try_bind (map_err AbCanonicalDecoding (required_u32 frame 1)) (\<lambda>declared.
     let declared_count = unat declared in
     if declared_count > max_entries then Err (ManifestTooLarge declared_count)
     else
       try_bind (ok_or (usize_checked_add declared_count 1) (ManifestTooLarge usize_max))
         (\<lambda>expected_field_count.
       if length (cf_fields frame) \<noteq> expected_field_count
       then Err (NonCanonicalManifestLayout declared_count (length (cf_fields frame)))
       else
         try_bind (take_items (ManifestTooLarge declared_count) AbCanonicalDecoding
           decode_access_entry 2 declared_count frame) (\<lambda>entries.
         case first_duplicate (sort (map (\<lambda>entry. or_id (ae_object_ref entry)) entries)) of
           Some object_id \<Rightarrow> Err (DuplicateObjectId object_id)
         | None \<Rightarrow> Ok \<lparr> am_entries = entries \<rparr>))))))"

section \<open>Type arguments and tags\<close>

definition encode_type_arg :: "type_arg \<Rightarrow> (abi_error, bytes) result" where
  "encode_type_arg arg = map_err AbCanonicalEncoding (
     try_bind (field_u16 1 (type_arg_tag arg) (cs_new TYPE_ARG_TYPE_ID AB_ENCODING_VERSION)) (\<lambda>c.
     try_bind (case arg of TaAssetId bs \<Rightarrow> field_bytes 2 bs c) finish))"

definition decode_type_arg :: "bytes \<Rightarrow> (abi_error, type_arg) result" where
  "decode_type_arg input =
     try_bind (map_err AbCanonicalDecoding (decode_canonical_frame input)) (\<lambda>frame.
     try_bind (map_err AbCanonicalDecoding (require_type frame TYPE_ARG_TYPE_ID)) (\<lambda>_.
     try_bind (map_err AbCanonicalDecoding (require_version frame AB_ENCODING_VERSION)) (\<lambda>_.
     try_bind (map_err AbCanonicalDecoding (required_u16 frame 1)) (\<lambda>tag.
     if tag = 1 then
       try_bind (map_err AbCanonicalDecoding (require_only_fields frame [1, 2])) (\<lambda>_.
       try_bind (map_err AbCanonicalDecoding (required_field frame 2)) (\<lambda>bs.
       if length bs \<noteq> 32 then Err (InvalidTypeArgLength (length bs)) else Ok (TaAssetId bs)))
     else Err (UnknownTypeArgTag tag)))))"

definition encode_type_tag :: "type_tag \<Rightarrow> (abi_error, bytes) result" where
  "encode_type_tag tag =
     try_bind (map_err AbCanonicalEncoding
       (field_u16 1 (tt_constructor tag) (cs_new TYPE_TAG_TYPE_ID AB_ENCODING_VERSION))) (\<lambda>c.
     try_bind (case tt_type_arg tag of
         Some arg \<Rightarrow>
           try_bind (encode_type_arg arg) (\<lambda>b. map_err AbCanonicalEncoding (field_bytes 2 b c))
       | None \<Rightarrow> Ok c) (\<lambda>c.
     map_err AbCanonicalEncoding (finish c)))"

definition decode_type_tag :: "bytes \<Rightarrow> (abi_error, type_tag) result" where
  "decode_type_tag input =
     try_bind (map_err AbCanonicalDecoding
       (decode_closed_frame TYPE_TAG_TYPE_ID AB_ENCODING_VERSION [1, 2] input)) (\<lambda>frame.
     try_bind (map_err AbCanonicalDecoding (required_u16 frame 1)) (\<lambda>constructor.
     try_bind (case frame_field frame 2 of
         Some bs \<Rightarrow> try_bind (decode_type_arg bs) (\<lambda>arg. Ok (Some arg))
       | None \<Rightarrow> Ok None) (\<lambda>type_arg.
     Ok \<lparr> tt_constructor = constructor, tt_type_arg = type_arg \<rparr>)))"

section \<open>Constructor declarations\<close>

definition encode_projection_step :: "projection_step \<Rightarrow> (abi_error, bytes) result" where
  "encode_projection_step s = map_err AbCanonicalEncoding (
     try_bind (field_u16 1 (ps_expected_type_id s)
       (cs_new PROJECTION_STEP_TYPE_ID AB_ENCODING_VERSION)) (\<lambda>c.
     try_bind (field_u16 2 (ps_expected_version s) c) (\<lambda>c.
     try_bind (field_u16 3 (ps_field_id s) c) finish)))"

definition decode_projection_step :: "bytes \<Rightarrow> (abi_error, projection_step) result" where
  "decode_projection_step input =
     try_bind (map_err AbCanonicalDecoding
       (decode_closed_frame PROJECTION_STEP_TYPE_ID AB_ENCODING_VERSION [1, 2, 3] input)) (\<lambda>frame.
     map_err AbCanonicalDecoding (
       try_bind (required_u16 frame 1) (\<lambda>type_id.
       try_bind (required_u16 frame 2) (\<lambda>version.
       try_bind (required_u16 frame 3) (\<lambda>field_id.
       Ok \<lparr> ps_expected_type_id = type_id, ps_expected_version = version,
            ps_field_id = field_id \<rparr>)))))"

fun projection_steps_check ::
  "constructor_id \<Rightarrow> projection_step list \<Rightarrow> (abi_error, unit) result" where
  "projection_steps_check cid [] = Ok ()"
| "projection_steps_check cid (s # ss) =
     (if ps_expected_type_id s = 0 then Err (ZeroProjectionTypeId cid)
      else if ps_field_id s = 0 then Err (ZeroProjectionFieldId cid)
      else projection_steps_check cid ss)"

definition constructor_declaration_validate ::
  "constructor_declaration \<Rightarrow> (abi_error, unit) result" where
  "constructor_declaration_validate d =
     (if cd_id d = 0 then Err ZeroConstructorId
      else if cd_body_type_id d = 0 then Err (ZeroBodyTypeId (cd_id d))
      else case cd_arity d of
        FixedArity \<Rightarrow>
          if cd_projection d \<noteq> [] then Err (UnexpectedProjectionForFixedArity (cd_id d)) else Ok ()
      | VariableArity \<Rightarrow>
          (case cd_projection d of
             [] \<Rightarrow> Err (EmptyProjectionForVariableArity (cd_id d))
           | first # _ \<Rightarrow>
               if length (cd_projection d) > MAX_PROJECTION_DEPTH
               then Err (ProjectionTooDeep (length (cd_projection d)))
               else if ps_expected_type_id first \<noteq> cd_body_type_id d \<or>
                       ps_expected_version first \<noteq> cd_body_version d
               then Err (ProjectionFirstStepMismatch (cd_id d) (cd_body_type_id d)
                      (cd_body_version d) (ps_expected_type_id first) (ps_expected_version first))
               else projection_steps_check (cd_id d) (cd_projection d)))"

fun arity_tag :: "type_arity \<Rightarrow> u16" where
  "arity_tag FixedArity = 0"
| "arity_tag VariableArity = 1"

definition encode_constructor_declaration ::
  "constructor_declaration \<Rightarrow> (abi_error, bytes) result" where
  "encode_constructor_declaration d =
     (let n = length (cd_projection d) in
      if n > MAX_PROJECTION_DEPTH then Err (ProjectionTooDeep n)
      else
        try_bind (map_err AbCanonicalEncoding (
          try_bind (field_u16 1 (cd_id d)
            (cs_new CONSTRUCTOR_DECLARATION_TYPE_ID AB_ENCODING_VERSION)) (\<lambda>c.
          try_bind (field_u16 2 (cd_body_type_id d) c) (\<lambda>c.
          try_bind (field_u16 3 (cd_body_version d) c) (\<lambda>c.
          try_bind (field_u32 4 (cd_schema_version d) c) (\<lambda>c.
          field_u16 5 (arity_tag (cd_arity d)) c)))))) (\<lambda>c.
        try_bind (ok_or (u32_try_from n) (ProjectionTooDeep n)) (\<lambda>count.
        try_bind (map_err AbCanonicalEncoding (field_u32 6 count c)) (\<lambda>c.
        try_bind (put_items (ProjectionTooDeep n) AbCanonicalEncoding encode_projection_step 7
          (cd_projection d) c) (\<lambda>c.
        map_err AbCanonicalEncoding (finish c))))))"

definition arity_of_tag :: "u16 \<Rightarrow> (abi_error, type_arity) result" where
  "arity_of_tag tag =
     (if tag = 0 then Ok FixedArity else if tag = 1 then Ok VariableArity
      else Err (UnknownTypeArityTag tag))"

definition decode_constructor_declaration ::
  "bytes \<Rightarrow> (abi_error, constructor_declaration) result" where
  "decode_constructor_declaration input =
     try_bind (map_err AbCanonicalDecoding (decode_canonical_frame input)) (\<lambda>frame.
     try_bind (map_err AbCanonicalDecoding (require_type frame CONSTRUCTOR_DECLARATION_TYPE_ID)) (\<lambda>_.
     try_bind (map_err AbCanonicalDecoding (require_version frame AB_ENCODING_VERSION)) (\<lambda>_.
     try_bind (map_err AbCanonicalDecoding (required_u16 frame 1)) (\<lambda>cid.
     try_bind (map_err AbCanonicalDecoding (required_u16 frame 2)) (\<lambda>body_type_id.
     try_bind (map_err AbCanonicalDecoding (required_u16 frame 3)) (\<lambda>body_version.
     try_bind (map_err AbCanonicalDecoding (required_u32 frame 4)) (\<lambda>schema_version.
     try_bind (map_err AbCanonicalDecoding (required_u16 frame 5)) (\<lambda>tag.
     try_bind (arity_of_tag tag) (\<lambda>arity.
     try_bind (map_err AbCanonicalDecoding (required_u32 frame 6)) (\<lambda>declared.
     let n = unat declared in
     if n > MAX_PROJECTION_DEPTH then Err (ProjectionTooDeep n)
     else
       try_bind (take_allowed_items (ProjectionTooDeep n) AbCanonicalDecoding
         decode_projection_step [1, 2, 3, 4, 5, 6] 7 n frame) (\<lambda>projection.
       let declaration = \<lparr> cd_id = cid, cd_body_type_id = body_type_id,
         cd_body_version = body_version, cd_schema_version = schema_version, cd_arity = arity,
         cd_projection = projection \<rparr> in
       try_bind (constructor_declaration_validate declaration) (\<lambda>_. Ok declaration))))))))))))"

section \<open>The constructor registry\<close>

record constructor_registry =
  cr_by_id :: "(constructor_id, constructor_declaration) btree_map"
  cr_body_type_ids :: "(u16, constructor_id) btree_map"

definition constructor_registry_new :: constructor_registry where
  "constructor_registry_new = \<lparr> cr_by_id = [], cr_body_type_ids = [] \<rparr>"

definition registry_register ::
  "constructor_declaration \<Rightarrow> constructor_registry \<Rightarrow> (abi_error, constructor_registry) result" where
  "registry_register d r =
     try_bind (constructor_declaration_validate d) (\<lambda>_.
     if bm_contains_key (cr_by_id r) (cd_id d) then Err (DuplicateConstructorId (cd_id d))
     else case bm_get (cr_body_type_ids r) (cd_body_type_id d) of
       Some existing \<Rightarrow> Err (DuplicateBodyTypeId (cd_body_type_id d) existing)
     | None \<Rightarrow>
         if length (cr_by_id r) \<ge> MAX_CONSTRUCTORS then Err (RegistryFull (length (cr_by_id r)))
         else Ok \<lparr> cr_by_id = bm_insert (cd_id d) d (cr_by_id r),
                   cr_body_type_ids = bm_insert (cd_body_type_id d) (cd_id d) (cr_body_type_ids r) \<rparr>)"

definition registry_get ::
  "constructor_registry \<Rightarrow> constructor_id \<Rightarrow> constructor_declaration option" where
  "registry_get r cid = bm_get (cr_by_id r) cid"

definition registry_get_by_body_type ::
  "constructor_registry \<Rightarrow> u16 \<Rightarrow> constructor_declaration option" where
  "registry_get_by_body_type r body_type_id =
     (case bm_get (cr_body_type_ids r) body_type_id of
        None \<Rightarrow> None | Some cid \<Rightarrow> bm_get (cr_by_id r) cid)"

definition registry_iter :: "constructor_registry \<Rightarrow> constructor_declaration list" where
  "registry_iter r = map snd (cr_by_id r)"

section \<open>Projection of the type argument\<close>

text \<open>The loop over the projection steps; the last frame may hold nothing but its field.\<close>

fun project_steps :: "projection_step list \<Rightarrow> bytes \<Rightarrow> (abi_error, bytes) result" where
  "project_steps [] current = Ok current"
| "project_steps (s # ss) current =
     try_bind (map_err AbCanonicalDecoding (decode_canonical_frame current)) (\<lambda>frame.
     if cf_type_id frame \<noteq> ps_expected_type_id s
     then Err (ProjectionTypeMismatch (ps_expected_type_id s) (cf_type_id frame))
     else if cf_version frame \<noteq> ps_expected_version s
     then Err (ProjectionVersionMismatch (ps_expected_version s) (cf_version frame))
     else
       try_bind (if ss = []
         then map_err AbCanonicalDecoding (require_only_fields frame [ps_field_id s]) else Ok ())
         (\<lambda>_.
       try_bind (map_err AbCanonicalDecoding (required_field frame (ps_field_id s)))
         (\<lambda>bs. project_steps ss bs)))"

definition project_type_arg ::
  "constructor_declaration \<Rightarrow> bytes \<Rightarrow> (abi_error, type_arg option) result" where
  "project_type_arg d body =
     (case cd_arity d of
        FixedArity \<Rightarrow>
          try_bind (map_err AbCanonicalDecoding (decode_canonical_frame body)) (\<lambda>frame.
          if cf_type_id frame \<noteq> cd_body_type_id d
          then Err (ProjectionTypeMismatch (cd_body_type_id d) (cf_type_id frame))
          else if cf_version frame \<noteq> cd_body_version d
          then Err (ProjectionVersionMismatch (cd_body_version d) (cf_version frame))
          else Ok None)
      | VariableArity \<Rightarrow>
          try_bind (project_steps (cd_projection d) body) (\<lambda>bs.
          if length bs \<noteq> 32 then Err (ProjectionLength 32 (length bs))
          else Ok (Some (TaAssetId bs))))"

definition derive_type_id ::
  "sha_functions \<Rightarrow> hash_suite_resolver \<Rightarrow> epoch \<Rightarrow> type_tag \<Rightarrow> (abi_error, digest32) result" where
  "derive_type_id sha resolver e tag =
     try_bind (encode_type_tag tag) (\<lambda>payload.
     map_err AbHashing (hash_type_identity sha resolver e payload))"

definition verify_type_id ::
  "sha_functions \<Rightarrow> hash_suite_resolver \<Rightarrow> digest32 \<Rightarrow> epoch \<Rightarrow> type_tag \<Rightarrow> (abi_error, bool) result" where
  "verify_type_id sha resolver digest e tag =
     try_bind (encode_type_tag tag) (\<lambda>payload.
     map_err AbHashing (verify_type_identity_digest sha resolver digest e payload))"

section \<open>Entrypoint signatures\<close>

record param_declaration =
  pd_mode :: access_mode
  pd_constructor :: constructor_id
  pd_schema_version :: u32

record entrypoint_signature =
  es_entrypoint :: bytes
  es_params :: "param_declaration list"

definition encode_param_declaration :: "param_declaration \<Rightarrow> (abi_error, bytes) result" where
  "encode_param_declaration d =
     (if pd_constructor d = 0 then Err ZeroConstructorId
      else
        try_bind (map_err AbObject (encode_access_mode (pd_mode d))) (\<lambda>b.
        map_err AbCanonicalEncoding (
          try_bind (field_bytes 1 b (cs_new PARAM_DECLARATION_TYPE_ID AB_ENCODING_VERSION)) (\<lambda>c.
          try_bind (field_u16 2 (pd_constructor d) c) (\<lambda>c.
          try_bind (field_u32 3 (pd_schema_version d) c) finish)))))"

definition decode_param_declaration :: "bytes \<Rightarrow> (abi_error, param_declaration) result" where
  "decode_param_declaration input =
     try_bind (map_err AbCanonicalDecoding
       (decode_closed_frame PARAM_DECLARATION_TYPE_ID AB_ENCODING_VERSION [1, 2, 3] input)) (\<lambda>frame.
     try_bind (map_err AbCanonicalDecoding (required_field frame 1)) (\<lambda>b.
     try_bind (map_err AbObject (decode_access_mode b)) (\<lambda>mode.
     try_bind (map_err AbCanonicalDecoding (required_u16 frame 2)) (\<lambda>constructor.
     if constructor = 0 then Err ZeroConstructorId
     else
       try_bind (map_err AbCanonicalDecoding (required_u32 frame 3)) (\<lambda>schema_version.
       Ok \<lparr> pd_mode = mode, pd_constructor = constructor, pd_schema_version = schema_version \<rparr>)))))"

definition entrypoint_signature_new ::
  "bytes \<Rightarrow> param_declaration list \<Rightarrow> (abi_error, entrypoint_signature) result" where
  "entrypoint_signature_new entrypoint params =
     (if entrypoint = [] then Err EmptyEntrypointName
      else if length entrypoint > MAX_ENTRYPOINT_BYTES
      then Err (EntrypointNameTooLong (length entrypoint))
      else if length params > MAX_PARAMS then Err (TooManyParams (length params))
      else Ok \<lparr> es_entrypoint = entrypoint, es_params = params \<rparr>)"

definition encode_entrypoint_signature :: "entrypoint_signature \<Rightarrow> (abi_error, bytes) result" where
  "encode_entrypoint_signature signature =
     (let n = length (es_params signature) in
      if n > MAX_PARAMS then Err (TooManyParams n)
      else
        try_bind (map_err AbCanonicalEncoding (field_str 1 (es_entrypoint signature)
          (cs_new ENTRYPOINT_SIGNATURE_TYPE_ID AB_ENCODING_VERSION))) (\<lambda>c.
        try_bind (ok_or (u32_try_from n) (TooManyParams n)) (\<lambda>count.
        try_bind (map_err AbCanonicalEncoding (field_u32 2 count c)) (\<lambda>c.
        try_bind (put_items (TooManyParams n) AbCanonicalEncoding encode_param_declaration 3
          (es_params signature) c) (\<lambda>c.
        map_err AbCanonicalEncoding (finish c))))))"

definition decode_entrypoint_signature :: "bytes \<Rightarrow> (abi_error, entrypoint_signature) result" where
  "decode_entrypoint_signature input =
     try_bind (map_err AbCanonicalDecoding (decode_canonical_frame input)) (\<lambda>frame.
     try_bind (map_err AbCanonicalDecoding (require_type frame ENTRYPOINT_SIGNATURE_TYPE_ID)) (\<lambda>_.
     try_bind (map_err AbCanonicalDecoding (require_version frame AB_ENCODING_VERSION)) (\<lambda>_.
     try_bind (map_err AbCanonicalDecoding (required_str frame 1)) (\<lambda>entrypoint.
     try_bind (map_err AbCanonicalDecoding (required_u32 frame 2)) (\<lambda>declared.
     let n = unat declared in
     if n > MAX_PARAMS then Err (TooManyParams n)
     else
       try_bind (take_allowed_items (TooManyParams n) AbCanonicalDecoding decode_param_declaration
         [1, 2] 3 n frame) (\<lambda>params.
       entrypoint_signature_new entrypoint params))))))"

section \<open>Verification of the inputs of a call\<close>

record resolved_input =
  ri_mode :: access_mode
  ri_object :: object

record typed_input =
  ti_declaration :: param_declaration
  ti_object :: object
  ti_type_tag :: type_tag

text \<open>One round of the loop: the shared type argument and the bindings so far.\<close>

definition verify_input ::
  "constructor_registry \<Rightarrow> sha_functions \<Rightarrow> hash_suite_resolver \<Rightarrow> epoch \<Rightarrow>
   type_arg option \<times> typed_input list \<Rightarrow> nat \<times> param_declaration \<times> resolved_input \<Rightarrow>
   (abi_error, type_arg option \<times> typed_input list) result" where
  "verify_input registry sha resolver e st ix =
     (case (st, ix) of ((shared_type_arg, bindings), index, declaration, input) \<Rightarrow>
       if ri_mode input \<noteq> pd_mode declaration
       then Err (AccessModeMismatch index (pd_mode declaration) (ri_mode input))
       else
         try_bind (ok_or (registry_get registry (pd_constructor declaration))
           (UnknownConstructor (pd_constructor declaration))) (\<lambda>constructor_decl.
         if cd_schema_version constructor_decl \<noteq> pd_schema_version declaration
         then Err (ParamSchemaVersionMismatch (pd_constructor declaration)
           (cd_schema_version constructor_decl) (pd_schema_version declaration))
         else if ob_schema_version (ri_object input) \<noteq> pd_schema_version declaration
         then Err (ObjectSchemaVersionMismatch index (pd_schema_version declaration)
           (ob_schema_version (ri_object input)))
         else
           try_bind (project_type_arg constructor_decl (ob_data (ri_object input))) (\<lambda>type_arg.
           let type_tag = \<lparr> tt_constructor = pd_constructor declaration, tt_type_arg = type_arg \<rparr> in
           try_bind (verify_type_id sha resolver (ob_type_hash (ri_object input)) e type_tag)
             (\<lambda>verified.
           if \<not> verified
           then Err (TypeIdentityMismatch index type_tag (ob_type_hash (ri_object input)))
           else
             try_bind (case type_arg of
                 None \<Rightarrow> Ok shared_type_arg
               | Some arg \<Rightarrow> (case shared_type_arg of
                     None \<Rightarrow> Ok (Some arg)
                   | Some existing \<Rightarrow>
                       if existing = arg then Ok shared_type_arg
                       else Err (TypeVariableMismatch index existing arg))) (\<lambda>shared_type_arg.
             Ok (shared_type_arg, bindings @ [\<lparr> ti_declaration = declaration,
               ti_object = ri_object input, ti_type_tag = type_tag \<rparr>]))))))"

definition verify_entrypoint_inputs ::
  "entrypoint_signature \<Rightarrow> constructor_registry \<Rightarrow> sha_functions \<Rightarrow> hash_suite_resolver \<Rightarrow> epoch \<Rightarrow>
   resolved_input list \<Rightarrow> (abi_error, typed_input list) result" where
  "verify_entrypoint_inputs signature registry sha resolver e inputs =
     (if length inputs \<noteq> length (es_params signature)
      then Err (ArityMismatch (length (es_params signature)) (length inputs))
      else
        try_bind (try_fold (verify_input registry sha resolver e) (None, [])
          (enumerate 0 (zip (es_params signature) inputs))) (\<lambda>st. Ok (snd st)))"

section \<open>The codecs are exact\<close>

lemma encode_access_entry_Ok_iff:
  "encode_access_entry x = Ok b \<longleftrightarrow>
     (\<exists>rb mb. encode_object_ref (ae_object_ref x) = Ok rb \<and> encode_access_mode (ae_mode x) = Ok mb \<and>
       encode_frame \<lparr> cf_type_id = 0x5001, cf_version = 1, cf_fields = [(1, rb), (2, mb)] \<rparr> = Ok b)"
  by (auto simp: encode_access_entry_def encode_simps result_simps)

lemma decode_access_entry_Ok_iff:
  "decode_access_entry b = Ok x \<longleftrightarrow> object_ref_wf (ae_object_ref x) \<and> encode_access_entry x = Ok b"
  unfolding decode_access_entry_def encode_access_entry_Ok_iff abi_ids
  by (cases x) (subst decode_closed_iff; auto simp: result_simps codec_simps
      decode_object_ref_Ok_iff decode_access_mode_Ok_iff)

lemma encode_projection_step_Ok_iff:
  "encode_projection_step s = Ok b \<longleftrightarrow>
     encode_frame \<lparr> cf_type_id = 0x5103, cf_version = 1, cf_fields =
       [(1, u16_to_le_bytes (ps_expected_type_id s)), (2, u16_to_le_bytes (ps_expected_version s)),
        (3, u16_to_le_bytes (ps_field_id s))] \<rparr> = Ok b"
  by (simp add: encode_projection_step_def encode_simps result_simps)

lemma decode_projection_step_Ok_iff:
  "decode_projection_step b = Ok s \<longleftrightarrow> encode_projection_step s = Ok b"
  unfolding decode_projection_step_def encode_projection_step_Ok_iff abi_ids
  by (cases s) (subst decode_closed_iff; auto simp: result_simps codec_simps)

lemma encode_param_declaration_Ok_iff:
  "encode_param_declaration d = Ok b \<longleftrightarrow> pd_constructor d \<noteq> 0 \<and>
     (\<exists>mb. encode_access_mode (pd_mode d) = Ok mb \<and>
       encode_frame \<lparr> cf_type_id = 0x5105, cf_version = 1, cf_fields =
         [(1, mb), (2, u16_to_le_bytes (pd_constructor d)),
          (3, u32_to_le_bytes (pd_schema_version d))] \<rparr> = Ok b)"
  by (auto simp: encode_param_declaration_def encode_simps result_simps)

lemma decode_param_declaration_Ok_iff:
  "decode_param_declaration b = Ok d \<longleftrightarrow> encode_param_declaration d = Ok b"
  unfolding decode_param_declaration_def encode_param_declaration_Ok_iff abi_ids
  by (cases d) (subst decode_closed_iff; auto simp: result_simps codec_simps
      decode_access_mode_Ok_iff)

fun type_arg_wf :: "type_arg \<Rightarrow> bool" where
  "type_arg_wf (TaAssetId bs) = array32 bs"

lemma encode_type_arg_Ok_iff:
  "encode_type_arg (TaAssetId bs) = Ok b \<longleftrightarrow>
     encode_frame \<lparr> cf_type_id = 0x5101, cf_version = 1, cf_fields =
       [(1, u16_to_le_bytes 1), (2, bs)] \<rparr> = Ok b"
  by (simp add: encode_type_arg_def encode_simps result_simps)

lemma decode_type_arg_closed:
  "decode_type_arg b = Ok (TaAssetId bs) \<longleftrightarrow>
     (\<exists>f. decode_closed_frame 0x5101 1 [1, 2] b = Ok f \<and>
       frame_field f 1 = Some (u16_to_le_bytes 1) \<and> frame_field f 2 = Some bs \<and> length bs = 32)"
  by (auto simp: decode_type_arg_def decode_closed_frame_def result_simps abi_ids split: if_splits)

lemma decode_type_arg_Ok_iff: "decode_type_arg b = Ok a \<longleftrightarrow> type_arg_wf a \<and> encode_type_arg a = Ok b"
  by (cases a; simp add: decode_type_arg_closed encode_type_arg_Ok_iff; subst closed_frame_ex_iff)
    (auto simp: codec_simps array32_def)

lemma encode_type_tag_Ok_iff:
  "encode_type_tag tag = Ok b \<longleftrightarrow>
     (case tt_type_arg tag of
        None \<Rightarrow> encode_frame \<lparr> cf_type_id = 0x5102, cf_version = 1, cf_fields =
          [(1, u16_to_le_bytes (tt_constructor tag))] \<rparr> = Ok b
      | Some arg \<Rightarrow> \<exists>ab. encode_type_arg arg = Ok ab \<and>
          encode_frame \<lparr> cf_type_id = 0x5102, cf_version = 1, cf_fields =
            [(1, u16_to_le_bytes (tt_constructor tag)), (2, ab)] \<rparr> = Ok b)"
  by (auto simp: encode_type_tag_def encode_simps result_simps split: option.splits)

definition type_tag_wf :: "type_tag \<Rightarrow> bool" where
  "type_tag_wf tag \<longleftrightarrow> (\<forall>arg. tt_type_arg tag = Some arg \<longrightarrow> type_arg_wf arg)"

text \<open>The optional field: present and absent are two closed schemas.\<close>

lemma decode_closed_optional:
  "decode_closed_frame t v [1, 2] b = Ok f \<and> frame_field f 2 = None \<longleftrightarrow>
     decode_closed_frame t v [1] b = Ok f"
  by (auto simp: decode_closed_frame_Ok_iff frame_field_eq map_of_eq_None_iff)

lemma decode_type_tag_closed:
  "decode_type_tag b = Ok tag \<longleftrightarrow>
     (case tt_type_arg tag of
        None \<Rightarrow> \<exists>f. decode_closed_frame 0x5102 1 [1] b = Ok f \<and>
          frame_field f 1 = Some (u16_to_le_bytes (tt_constructor tag))
      | Some arg \<Rightarrow> \<exists>f. decode_closed_frame 0x5102 1 [1, 2] b = Ok f \<and>
          frame_field f 1 = Some (u16_to_le_bytes (tt_constructor tag)) \<and>
          (\<exists>ab. frame_field f 2 = Some ab \<and> decode_type_arg ab = Ok arg))"
  unfolding decode_closed_optional [symmetric]
  by (cases tag) (auto simp: decode_type_tag_def result_simps abi_ids split: option.splits)

lemma decode_type_tag_Ok_iff:
  "decode_type_tag b = Ok tag \<longleftrightarrow> type_tag_wf tag \<and> encode_type_tag tag = Ok b"
  unfolding decode_type_tag_closed encode_type_tag_Ok_iff
  by (cases "tt_type_arg tag"; simp; subst closed_frame_ex_iff)
    (auto simp: codec_simps decode_type_arg_Ok_iff type_tag_wf_def)

interpretation type_tag_codec: strict_codec encode_type_tag decode_type_tag type_tag_wf
  by unfold_locales (auto simp: decode_type_tag_Ok_iff)

subsection \<open>Manifests\<close>

definition manifest_head :: "access_manifest \<Rightarrow> (u16 \<times> bytes) list" where
  "manifest_head m = [(1, u32_to_le_bytes (of_nat (length (am_entries m))))]"

lemma manifest_list_head: "n \<le> MAX_ENTRIES \<Longrightarrow> list_head (manifest_head m) n"
  by (simp add: list_head_def manifest_head_def MAX_ENTRIES_def upt_rec)

lemma encode_access_manifest_Ok_iff:
  "encode_access_manifest m = Ok b \<longleftrightarrow> length (am_entries m) \<le> MAX_ENTRIES \<and>
     (\<exists>bs. list_all2 (\<lambda>x b. encode_access_entry x = Ok b) (am_entries m) bs \<and>
       encode_frame (list_frame 0x5002 1 (manifest_head m) bs) = Ok b)"
proof (cases "length (am_entries m) \<le> MAX_ENTRIES")
  case True
  have items: "put_items_cast AbCanonicalEncoding encode_access_entry 2 (am_entries m) c =
      put_items (ManifestTooLarge 0) AbCanonicalEncoding encode_access_entry 2 (am_entries m) c" for c
    using True by (intro put_items_cast_eq) (simp add: MAX_ENTRIES_def)
  have "encode_access_manifest m =
      try_bind (put_items (ManifestTooLarge 0) AbCanonicalEncoding encode_access_entry 2
        (am_entries m) \<lparr> cs_type_id = 0x5002, cs_version = 1, cs_fields = manifest_head m \<rparr>)
        (\<lambda>c. map_err AbCanonicalEncoding (finish c))"
    using True unfolding encode_access_manifest_def items
    by (simp add: encode_simps manifest_head_def)
  then show ?thesis
    using True put_list_frame_Ok_iff [OF manifest_list_head [OF True, of m], of 2]
    by (simp add: manifest_head_def)
next
  case False
  then show ?thesis by (simp add: encode_access_manifest_def)
qed

lemma first_duplicate_None_iff: "first_duplicate (sort xs) = None \<longleftrightarrow> distinct xs"
proof -
  have "find (\<lambda>(x, y). x = y) (windows2 ys) = None \<longleftrightarrow> distinct ys" if "sorted ys" for ys :: "bytes list"
    using that
  proof (induction ys rule: windows2.induct)
    case (1 x y r)
    then have "x \<noteq> y \<Longrightarrow> x \<notin> set (y # r)" by fastforce
    then show ?case using 1 by (cases "x = y") auto
  qed auto
  from this [of "sort xs"] show ?thesis by (simp add: first_duplicate_def)
qed

lemma case_option_Err_eq_Ok:
  "(case r of Some x \<Rightarrow> Err (g x) | None \<Rightarrow> k) = Ok m \<longleftrightarrow> r = None \<and> k = Ok m"
  by (cases r) auto

definition access_manifest_wf :: "usize \<Rightarrow> access_manifest \<Rightarrow> bool" where
  "access_manifest_wf max_entries m \<longleftrightarrow> length (am_entries m) \<le> max_entries \<and>
     list_all (\<lambda>x. object_ref_wf (ae_object_ref x)) (am_entries m) \<and>
     distinct (map (\<lambda>x. or_id (ae_object_ref x)) (am_entries m))"

lemma decode_access_manifest_count:
  "decode_access_manifest b max_entries = Ok m \<longleftrightarrow>
     length (am_entries m) \<le> max_entries \<and>
     distinct (map (\<lambda>x. or_id (ae_object_ref x)) (am_entries m)) \<and>
     length (am_entries m) < 2 ^ 32 \<and>
     (\<exists>f. encode_frame f = Ok b \<and> frame_wf f \<and> cf_type_id f = 0x5002 \<and> cf_version f = 1 \<and>
        has_fields f (manifest_head m) \<and>
        length (cf_fields f) = length (manifest_head m) + length (am_entries m) \<and>
        take_items (ManifestTooLarge (length (am_entries m))) AbCanonicalDecoding
          decode_access_entry (Suc (length (manifest_head m))) (length (am_entries m)) f =
          Ok (am_entries m))" (is "?L \<longleftrightarrow> ?R")
proof
  assume ?L
  then obtain f w where f: "encode_frame f = Ok b" "frame_wf f" "cf_type_id f = 0x5002"
      "cf_version f = 1" "frame_field f 1 = Some (u32_to_le_bytes w)" "unat w \<le> max_entries"
      "Suc (unat w) = length (cf_fields f)"
      "take_items (ManifestTooLarge (unat w)) AbCanonicalDecoding decode_access_entry 2 (unat w) f =
        Ok (am_entries m)"
      "distinct (map (\<lambda>entry. or_id (ae_object_ref entry)) (am_entries m))"
    by (auto simp: decode_access_manifest_def result_simps Let_def abi_ids usize_checked_add_def
        decode_canonical_frame_Ok_iff case_option_Err_eq_Ok first_duplicate_None_iff not_less split: if_splits)
  have n: "length (am_entries m) = unat w" using f(8) by (rule take_items_length)
  then have w: "w = of_nat (length (am_entries m))" by simp
  show ?R
    using f unsigned_less [of w, where 'a = nat] unfolding n [symmetric]
    by (auto simp: manifest_head_def has_fields_def w simp flip: numeral_2_eq_2
        intro!: exI [of _ f])
next
  assume R: ?R
  then have "unat (of_nat (length (am_entries m)) :: u32) = length (am_entries m)"
    by (simp add: unat_of_nat)
  moreover have "usize_checked_add (length (am_entries m)) 1 = Some (Suc (length (am_entries m)))"
    using R by (simp add: usize_checked_add_def usize_max_def)
  moreover from R obtain f where f: "decode_canonical_frame b = Ok f" "cf_type_id f = 0x5002"
      "cf_version f = 1" "required_u32 f 1 = Ok (of_nat (length (am_entries m)))"
      "length (cf_fields f) = Suc (length (am_entries m))"
      "take_items (ManifestTooLarge (length (am_entries m))) AbCanonicalDecoding
          decode_access_entry 2 (length (am_entries m)) f = Ok (am_entries m)"
    by (auto simp: result_simps decode_canonical_frame_Ok_iff manifest_head_def has_fields_def
        numeral_2_eq_2)
  ultimately show ?L
    using R first_duplicate_None_iff [of "map (\<lambda>x. or_id (ae_object_ref x)) (am_entries m)"]
    by (simp add: decode_access_manifest_def Let_def abi_ids require_type_def require_version_def)
qed

lemma decode_access_manifest_Ok_iff:
  "decode_access_manifest b max_entries = Ok m \<longleftrightarrow>
     access_manifest_wf max_entries m \<and> encode_access_manifest m = Ok b"
proof (cases "length (am_entries m) \<le> MAX_ENTRIES")
  case True
  then show ?thesis
    unfolding decode_access_manifest_count encode_access_manifest_Ok_iff
      take_list_frame_count_iff [OF manifest_list_head [OF True, of m]]
    by (auto simp: access_manifest_wf_def MAX_ENTRIES_def
        list_all2_decode_encode [of decode_access_entry, OF decode_access_entry_Ok_iff])
next
  case False
  then have "encode_frame f \<noteq> Ok b"
    if "length (cf_fields f) = length (manifest_head m) + length (am_entries m)" for f
    using that by (simp add: encode_frame_Ok_iff frame_fits_def manifest_head_def MAX_ENTRIES_def)
  then show ?thesis
    using False unfolding decode_access_manifest_count encode_access_manifest_Ok_iff by blast
qed

subsection \<open>Constructor declarations\<close>

definition declaration_ok :: "constructor_declaration \<Rightarrow> bool" where
  "declaration_ok d \<longleftrightarrow> cd_id d \<noteq> 0 \<and> cd_body_type_id d \<noteq> 0 \<and>
     (case cd_arity d of
        FixedArity \<Rightarrow> cd_projection d = []
      | VariableArity \<Rightarrow> cd_projection d \<noteq> [] \<and> length (cd_projection d) \<le> MAX_PROJECTION_DEPTH \<and>
          ps_expected_type_id (hd (cd_projection d)) = cd_body_type_id d \<and>
          ps_expected_version (hd (cd_projection d)) = cd_body_version d \<and>
          list_all (\<lambda>s. ps_expected_type_id s \<noteq> 0 \<and> ps_field_id s \<noteq> 0) (cd_projection d))"

lemma projection_steps_check_Ok_iff:
  "projection_steps_check cid ss = Ok u \<longleftrightarrow>
     list_all (\<lambda>s. ps_expected_type_id s \<noteq> 0 \<and> ps_field_id s \<noteq> 0) ss"
  by (induction cid ss rule: projection_steps_check.induct) auto

lemma projection_steps_check_neq_Abort: "projection_steps_check cid ss \<noteq> Abort"
  by (induction cid ss rule: projection_steps_check.induct) auto

lemma constructor_declaration_validate_Ok_iff [result_simps]:
  "constructor_declaration_validate d = Ok u \<longleftrightarrow> declaration_ok d"
  by (auto simp: constructor_declaration_validate_def declaration_ok_def projection_steps_check_Ok_iff
      split: type_arity.splits list.splits)

lemma constructor_declaration_validate_neq_Abort: "constructor_declaration_validate d \<noteq> Abort"
  by (auto simp: constructor_declaration_validate_def projection_steps_check_neq_Abort
      split: type_arity.splits list.splits)

lemma arity_of_tag_Ok_iff [result_simps]: "arity_of_tag t = Ok a \<longleftrightarrow> t = arity_tag a"
  by (cases a) (auto simp: arity_of_tag_def)

definition declaration_head :: "constructor_declaration \<Rightarrow> (u16 \<times> bytes) list" where
  "declaration_head d =
     [(1, u16_to_le_bytes (cd_id d)), (2, u16_to_le_bytes (cd_body_type_id d)),
      (3, u16_to_le_bytes (cd_body_version d)), (4, u32_to_le_bytes (cd_schema_version d)),
      (5, u16_to_le_bytes (arity_tag (cd_arity d))),
      (6, u32_to_le_bytes (of_nat (length (cd_projection d))))]"

lemma length_declaration_head [simp]: "length (declaration_head d) = 6"
  by (simp add: declaration_head_def)

lemma declaration_list_head: "n \<le> MAX_PROJECTION_DEPTH \<Longrightarrow> list_head (declaration_head d) n"
  by (simp add: list_head_def declaration_head_def MAX_PROJECTION_DEPTH_def upt_rec)

lemma encode_constructor_declaration_Ok_iff:
  "encode_constructor_declaration d = Ok b \<longleftrightarrow> length (cd_projection d) \<le> MAX_PROJECTION_DEPTH \<and>
     (\<exists>bs. list_all2 (\<lambda>x b. encode_projection_step x = Ok b) (cd_projection d) bs \<and>
       encode_frame (list_frame 0x5104 1 (declaration_head d) bs) = Ok b)"
proof (cases "length (cd_projection d) \<le> MAX_PROJECTION_DEPTH")
  case True
  then have "u32_try_from (length (cd_projection d)) = Some (of_nat (length (cd_projection d)))"
    by (simp add: u32_try_from_def MAX_PROJECTION_DEPTH_def)
  then have "encode_constructor_declaration d =
      try_bind (put_items (ProjectionTooDeep (length (cd_projection d))) AbCanonicalEncoding
        encode_projection_step 7 (cd_projection d)
        \<lparr> cs_type_id = 0x5104, cs_version = 1, cs_fields = declaration_head d \<rparr>)
        (\<lambda>c. map_err AbCanonicalEncoding (finish c))"
    using True by (simp add: encode_constructor_declaration_def encode_simps declaration_head_def Let_def)
  then show ?thesis
    using True put_list_frame_Ok_iff [OF declaration_list_head [OF True, of d], of 7]
    by (simp add: declaration_head_def)
next
  case False
  then show ?thesis by (simp add: encode_constructor_declaration_def Let_def)
qed

lemma declaration_items_Ok_iff:
  "n \<le> MAX_PROJECTION_DEPTH \<Longrightarrow>
   take_allowed_items e w dec [1, 2, 3, 4, 5, 6] 7 n f = Ok ys \<longleftrightarrow>
     fst ` set (cf_fields f) \<subseteq> set (map of_nat [1..<7 + n]) \<and> take_items e w dec 7 n f = Ok ys"
  by (rule take_allowed_items_Ok_iff) (simp_all add: upt_rec MAX_PROJECTION_DEPTH_def)

lemma decode_constructor_declaration_frame:
  "decode_constructor_declaration b = Ok d \<longleftrightarrow> declaration_ok d \<and>
     length (cd_projection d) \<le> MAX_PROJECTION_DEPTH \<and>
     (\<exists>f. encode_frame f = Ok b \<and> frame_wf f \<and> cf_type_id f = 0x5104 \<and> cf_version f = 1 \<and>
        has_fields f (declaration_head d) \<and>
        fst ` set (cf_fields f) \<subseteq>
          set (map of_nat [1..<Suc (length (declaration_head d)) + length (cd_projection d)]) \<and>
        take_items (ProjectionTooDeep (length (cd_projection d))) AbCanonicalDecoding decode_projection_step
          (Suc (length (declaration_head d))) (length (cd_projection d)) f = Ok (cd_projection d))"
    (is "?L \<longleftrightarrow> ?R")
proof
  assume ?L
  then obtain f w where f: "encode_frame f = Ok b" "frame_wf f" "cf_type_id f = 0x5104"
      "cf_version f = 1" "unat w \<le> MAX_PROJECTION_DEPTH"
      "frame_field f 1 = Some (u16_to_le_bytes (cd_id d))"
      "frame_field f 2 = Some (u16_to_le_bytes (cd_body_type_id d))"
      "frame_field f 3 = Some (u16_to_le_bytes (cd_body_version d))"
      "frame_field f 4 = Some (u32_to_le_bytes (cd_schema_version d))"
      "frame_field f 5 = Some (u16_to_le_bytes (arity_tag (cd_arity d)))"
      "frame_field f 6 = Some (u32_to_le_bytes w)"
      "fst ` set (cf_fields f) \<subseteq> set (map of_nat [1..<7 + unat w])"
      "take_items (ProjectionTooDeep (unat w)) AbCanonicalDecoding decode_projection_step 7 (unat w) f =
        Ok (cd_projection d)" "declaration_ok d"
    by (auto simp: decode_constructor_declaration_def Let_def abi_ids result_simps not_less
        decode_canonical_frame_Ok_iff declaration_items_Ok_iff cong: conj_cong)
  have n: "length (cd_projection d) = unat w" using f(13) by (rule take_items_length)
  then have w: "w = of_nat (length (cd_projection d))" by simp
  show ?R
    using f n unfolding n [symmetric]
    by (intro conjI exI [of _ f])
      (simp_all add: w del: upt_Suc, simp add: declaration_head_def has_fields_def)
next
  assume R: ?R
  then have n: "unat (of_nat (length (cd_projection d)) :: u32) = length (cd_projection d)"
    by (simp add: unat_of_nat MAX_PROJECTION_DEPTH_def)
  from R obtain f where f: "decode_canonical_frame b = Ok f" "cf_type_id f = 0x5104"
      "cf_version f = 1" "has_fields f (declaration_head d)"
      "take_allowed_items (ProjectionTooDeep (length (cd_projection d))) AbCanonicalDecoding
        decode_projection_step [1, 2, 3, 4, 5, 6] 7 (length (cd_projection d)) f =
        Ok (cd_projection d)"
    by (auto simp: declaration_items_Ok_iff decode_canonical_frame_Ok_iff simp del: set_map)
  from f(4) have "required_u16 f 1 = Ok (cd_id d)" "required_u16 f 2 = Ok (cd_body_type_id d)"
      "required_u16 f 3 = Ok (cd_body_version d)" "required_u32 f 4 = Ok (cd_schema_version d)"
      "required_u16 f 5 = Ok (arity_tag (cd_arity d))"
      "required_u32 f 6 = Ok (of_nat (length (cd_projection d)))"
    by (simp_all add: result_simps has_fields_def declaration_head_def)
  moreover have "arity_of_tag (arity_tag (cd_arity d)) = Ok (cd_arity d)"
    "constructor_declaration_validate d = Ok ()"
    using R by (simp_all add: result_simps)
  ultimately show ?L
    using R f n
    by (cases d) (simp add: decode_constructor_declaration_def Let_def abi_ids require_type_def
        require_version_def)
qed

lemma decode_constructor_declaration_Ok_iff:
  "decode_constructor_declaration b = Ok d \<longleftrightarrow>
     declaration_ok d \<and> encode_constructor_declaration d = Ok b"
proof (cases "length (cd_projection d) \<le> MAX_PROJECTION_DEPTH")
  case True
  then show ?thesis
    unfolding decode_constructor_declaration_frame encode_constructor_declaration_Ok_iff
      take_list_frame_iff [OF declaration_list_head [OF True, of d]]
    by (auto simp: decode_projection_step_Ok_iff)
next
  case False
  then show ?thesis
    by (simp add: decode_constructor_declaration_frame encode_constructor_declaration_Ok_iff)
qed

interpretation declaration_codec: strict_codec encode_constructor_declaration
  decode_constructor_declaration declaration_ok
  by unfold_locales (auto simp: decode_constructor_declaration_Ok_iff)

subsection \<open>Entrypoint signatures\<close>

definition signature_wf :: "entrypoint_signature \<Rightarrow> bool" where
  "signature_wf s \<longleftrightarrow> utf8_valid (es_entrypoint s) \<and> es_entrypoint s \<noteq> [] \<and>
     length (es_entrypoint s) \<le> MAX_ENTRYPOINT_BYTES"

definition signature_head :: "entrypoint_signature \<Rightarrow> (u16 \<times> bytes) list" where
  "signature_head s =
     [(1, es_entrypoint s), (2, u32_to_le_bytes (of_nat (length (es_params s))))]"

lemma length_signature_head [simp]: "length (signature_head s) = 2"
  by (simp add: signature_head_def)

lemma signature_list_head: "n \<le> MAX_PARAMS \<Longrightarrow> list_head (signature_head s) n"
  by (simp add: list_head_def signature_head_def MAX_PARAMS_def upt_rec)

lemma signature_items_Ok_iff:
  "n \<le> MAX_PARAMS \<Longrightarrow>
   take_allowed_items e w dec [1, 2] 3 n f = Ok ys \<longleftrightarrow>
     fst ` set (cf_fields f) \<subseteq> set (map of_nat [1..<3 + n]) \<and> take_items e w dec 3 n f = Ok ys"
  by (rule take_allowed_items_Ok_iff) (simp_all add: upt_rec MAX_PARAMS_def)

lemma encode_entrypoint_signature_Ok_iff:
  "encode_entrypoint_signature s = Ok b \<longleftrightarrow> length (es_params s) \<le> MAX_PARAMS \<and>
     (\<exists>bs. list_all2 (\<lambda>x b. encode_param_declaration x = Ok b) (es_params s) bs \<and>
       encode_frame (list_frame 0x5106 1 (signature_head s) bs) = Ok b)"
proof (cases "length (es_params s) \<le> MAX_PARAMS")
  case True
  then have "u32_try_from (length (es_params s)) = Some (of_nat (length (es_params s)))"
    by (simp add: u32_try_from_def MAX_PARAMS_def)
  then have "encode_entrypoint_signature s =
      try_bind (put_items (TooManyParams (length (es_params s))) AbCanonicalEncoding
        encode_param_declaration 3 (es_params s)
        \<lparr> cs_type_id = 0x5106, cs_version = 1, cs_fields = signature_head s \<rparr>)
        (\<lambda>c. map_err AbCanonicalEncoding (finish c))"
    using True by (simp add: encode_entrypoint_signature_def encode_simps signature_head_def Let_def)
  then show ?thesis
    using True put_list_frame_Ok_iff [OF signature_list_head [OF True, of s], of 3]
    by (simp add: signature_head_def)
next
  case False
  then show ?thesis by (simp add: encode_entrypoint_signature_def Let_def)
qed

lemma entrypoint_signature_new_Ok_iff [result_simps]:
  "entrypoint_signature_new name ps = Ok s \<longleftrightarrow> name \<noteq> [] \<and> length name \<le> MAX_ENTRYPOINT_BYTES \<and>
     length ps \<le> MAX_PARAMS \<and> s = \<lparr> es_entrypoint = name, es_params = ps \<rparr>"
  by (auto simp: entrypoint_signature_new_def)

lemma decode_entrypoint_signature_frame:
  "decode_entrypoint_signature b = Ok s \<longleftrightarrow> signature_wf s \<and> length (es_params s) \<le> MAX_PARAMS \<and>
     (\<exists>f. encode_frame f = Ok b \<and> frame_wf f \<and> cf_type_id f = 0x5106 \<and> cf_version f = 1 \<and>
        has_fields f (signature_head s) \<and>
        fst ` set (cf_fields f) \<subseteq>
          set (map of_nat [1..<Suc (length (signature_head s)) + length (es_params s)]) \<and>
        take_items (TooManyParams (length (es_params s))) AbCanonicalDecoding decode_param_declaration
          (Suc (length (signature_head s))) (length (es_params s)) f = Ok (es_params s))"
    (is "?L \<longleftrightarrow> ?R")
proof
  assume ?L
  then obtain f w where f: "encode_frame f = Ok b" "frame_wf f" "cf_type_id f = 0x5106"
      "cf_version f = 1" "unat w \<le> MAX_PARAMS" "signature_wf s"
      "frame_field f 1 = Some (es_entrypoint s)" "frame_field f 2 = Some (u32_to_le_bytes w)"
      "fst ` set (cf_fields f) \<subseteq> set (map of_nat [1..<3 + unat w])"
      "take_items (TooManyParams (unat w)) AbCanonicalDecoding decode_param_declaration 3 (unat w) f =
        Ok (es_params s)"
    by (auto simp: decode_entrypoint_signature_def Let_def abi_ids result_simps not_less
        decode_canonical_frame_Ok_iff signature_items_Ok_iff signature_wf_def cong: conj_cong)
  have n: "length (es_params s) = unat w" using f(10) by (rule take_items_length)
  then have w: "w = of_nat (length (es_params s))" by simp
  show ?R
    using f n unfolding n [symmetric]
    by (intro conjI exI [of _ f])
      (simp_all add: w del: upt_Suc, simp add: signature_head_def has_fields_def)
next
  assume R: ?R
  then have n: "unat (of_nat (length (es_params s)) :: u32) = length (es_params s)"
    by (simp add: unat_of_nat MAX_PARAMS_def)
  from R obtain f where f: "decode_canonical_frame b = Ok f" "cf_type_id f = 0x5106"
      "cf_version f = 1" "has_fields f (signature_head s)"
      "take_allowed_items (TooManyParams (length (es_params s))) AbCanonicalDecoding
        decode_param_declaration [1, 2] 3 (length (es_params s)) f = Ok (es_params s)"
    by (auto simp: signature_items_Ok_iff decode_canonical_frame_Ok_iff simp del: set_map)
  moreover from f(4) R have "required_str f 1 = Ok (es_entrypoint s)"
      "required_u32 f 2 = Ok (of_nat (length (es_params s)))"
    by (simp_all add: result_simps has_fields_def signature_head_def signature_wf_def)
  moreover have "entrypoint_signature_new (es_entrypoint s) (es_params s) = Ok s"
    using R by (simp add: result_simps signature_wf_def)
  ultimately show ?L
    using R n by (simp add: decode_entrypoint_signature_def Let_def abi_ids require_type_def
        require_version_def)
qed

lemma decode_entrypoint_signature_Ok_iff:
  "decode_entrypoint_signature b = Ok s \<longleftrightarrow>
     signature_wf s \<and> encode_entrypoint_signature s = Ok b"
proof (cases "length (es_params s) \<le> MAX_PARAMS")
  case True
  then show ?thesis
    unfolding decode_entrypoint_signature_frame encode_entrypoint_signature_Ok_iff
      take_list_frame_iff [OF signature_list_head [OF True, of s]]
    by (auto simp: decode_param_declaration_Ok_iff)
next
  case False
  then show ?thesis
    by (simp add: decode_entrypoint_signature_frame encode_entrypoint_signature_Ok_iff)
qed

interpretation signature_codec: strict_codec encode_entrypoint_signature
  decode_entrypoint_signature signature_wf
  by unfold_locales (auto simp: decode_entrypoint_signature_Ok_iff)

section \<open>The registry\<close>

text \<open>
  The two maps of a registry describe one set of valid declarations, at most \<open>MAX_CONSTRUCTORS\<close> of
  them, no two with the same identifier or the same body type.
\<close>

definition registry_inv :: "constructor_registry \<Rightarrow> bool" where
  "registry_inv r \<longleftrightarrow> bm_inv (cr_by_id r) \<and> bm_inv (cr_body_type_ids r) \<and>
     length (cr_by_id r) \<le> MAX_CONSTRUCTORS \<and>
     (\<forall>cid d. bm_get (cr_by_id r) cid = Some d \<longrightarrow> cd_id d = cid \<and> declaration_ok d) \<and>
     (\<forall>t cid. bm_get (cr_body_type_ids r) t = Some cid \<longleftrightarrow>
        (\<exists>d. bm_get (cr_by_id r) cid = Some d \<and> cd_body_type_id d = t))"

lemma registry_inv_new: "registry_inv constructor_registry_new"
  by (simp add: registry_inv_def constructor_registry_new_def bm_inv_def bm_get_def)

lemma registry_register_Ok_iff:
  "registry_register d r = Ok r' \<longleftrightarrow> declaration_ok d \<and> bm_get (cr_by_id r) (cd_id d) = None \<and>
     bm_get (cr_body_type_ids r) (cd_body_type_id d) = None \<and> length (cr_by_id r) < MAX_CONSTRUCTORS \<and>
     r' = \<lparr> cr_by_id = bm_insert (cd_id d) d (cr_by_id r),
            cr_body_type_ids = bm_insert (cd_body_type_id d) (cd_id d) (cr_body_type_ids r) \<rparr>"
  by (auto simp: registry_register_def result_simps bm_contains_key_def not_le split: option.splits)

lemma registry_inv_register:
  assumes inv: "registry_inv r" and reg: "registry_register d r = Ok r'"
  shows "registry_inv r'"
proof -
  have "cd_body_type_id d' \<noteq> cd_body_type_id d" if "bm_get (cr_by_id r) cid = Some d'" for cid d'
    using inv reg that unfolding registry_inv_def registry_register_Ok_iff
    by (metis option.distinct(1))
  then show ?thesis
    using assms
    by (auto simp: registry_inv_def registry_register_Ok_iff bm_inv_insert bm.get_insert
        length_bm_insert bm_contains_key_def)
qed

text \<open>What a registry holds after a sequence of registrations.\<close>

definition registry_of :: "constructor_declaration list \<Rightarrow> constructor_registry" where
  "registry_of ds = \<lparr> cr_by_id = map (\<lambda>d. (cd_id d, d)) (sort_key cd_id ds),
     cr_body_type_ids = map (\<lambda>d. (cd_body_type_id d, cd_id d)) (sort_key cd_body_type_id ds) \<rparr>"

definition declarations_ok :: "constructor_declaration list \<Rightarrow> bool" where
  "declarations_ok ds \<longleftrightarrow> length ds \<le> MAX_CONSTRUCTORS \<and> list_all declaration_ok ds \<and>
     distinct (map cd_id ds) \<and> distinct (map cd_body_type_id ds)"

lemma sorted_entries:
  fixes f :: "'a \<Rightarrow> 'k :: linorder"
  assumes "distinct (map f xs)"
  shows "bm_inv (map (\<lambda>x. (f x, g x)) (sort_key f xs))"
    and "bm_get (map (\<lambda>x. (f x, g x)) (sort_key f xs)) k = Some v \<longleftrightarrow> (\<exists>x \<in> set xs. f x = k \<and> g x = v)"
proof -
  have d: "distinct (map f (sort_key f xs))" using assms by (simp add: distinct_map)
  then show inv: "bm_inv (map (\<lambda>x. (f x, g x)) (sort_key f xs))"
    by (simp add: bm_inv_def comp_def strict_sorted_iff)
  show "bm_get (map (\<lambda>x. (f x, g x)) (sort_key f xs)) k = Some v \<longleftrightarrow> (\<exists>x \<in> set xs. f x = k \<and> g x = v)"
    using bm.get_iff_entries [OF inv] by auto
qed

lemma sorted_entries_insert:
  fixes f :: "'a \<Rightarrow> 'k :: linorder"
  assumes "distinct (map f (xs @ [x]))"
  shows "bm_insert (f x) (g x) (map (\<lambda>x. (f x, g x)) (sort_key f xs)) =
    map (\<lambda>x. (f x, g x)) (sort_key f (xs @ [x]))"
proof -
  have d: "distinct (map f xs)" using assms by simp
  note old = sorted_entries [OF d, of g] and new = sorted_entries [OF assms, of g]
  show ?thesis
  proof (rule bm.entries_ext [OF bm_inv_insert [OF old(1)] new(1)])
    fix k
    have "bm_get (bm_insert (f x) (g x) (map (\<lambda>x. (f x, g x)) (sort_key f xs))) k = Some v \<longleftrightarrow>
        bm_get (map (\<lambda>x. (f x, g x)) (sort_key f (xs @ [x]))) k = Some v" for v
      unfolding bm.get_insert [OF old(1)] new(2) using assms old(2) [of k v] by (auto simp: image_iff)
    then show "bm_get (bm_insert (f x) (g x) (map (\<lambda>x. (f x, g x)) (sort_key f xs))) k =
        bm_get (map (\<lambda>x. (f x, g x)) (sort_key f (xs @ [x]))) k"
      by (metis option.exhaust)
  qed
qed

lemma registry_of_inv: "declarations_ok ds \<Longrightarrow> registry_inv (registry_of ds)"
  by (auto simp: registry_inv_def registry_of_def declarations_ok_def sorted_entries list_all_iff)

lemma register_registry_of:
  assumes "declarations_ok ds"
  shows "registry_register d (registry_of ds) = Ok r \<longleftrightarrow>
    declarations_ok (ds @ [d]) \<and> r = registry_of (ds @ [d])"
proof -
  have ok: "distinct (map cd_id ds)" "distinct (map cd_body_type_id ds)"
    using assms by (auto simp: declarations_ok_def)
  have fresh: "bm_get (cr_by_id (registry_of ds)) k = None \<longleftrightarrow> k \<notin> cd_id ` set ds"
    "bm_get (cr_body_type_ids (registry_of ds)) t = None \<longleftrightarrow> t \<notin> cd_body_type_id ` set ds" for k t
    by (simp_all add: registry_of_def bm_get_def map_of_eq_None_iff image_image)
  have "registry_of (ds @ [d]) = \<lparr> cr_by_id = bm_insert (cd_id d) d (cr_by_id (registry_of ds)),
      cr_body_type_ids =
        bm_insert (cd_body_type_id d) (cd_id d) (cr_body_type_ids (registry_of ds)) \<rparr>"
    if "declarations_ok (ds @ [d])"
    using that sorted_entries_insert [of cd_id ds d "\<lambda>d. d"]
      sorted_entries_insert [of cd_body_type_id ds d cd_id]
    by (simp add: registry_of_def declarations_ok_def)
  moreover have "declarations_ok (ds @ [d]) \<longleftrightarrow> declaration_ok d \<and> cd_id d \<notin> cd_id ` set ds \<and>
      cd_body_type_id d \<notin> cd_body_type_id ` set ds \<and> length ds < MAX_CONSTRUCTORS"
    using assms by (auto simp: declarations_ok_def)
  moreover have "length (cr_by_id (registry_of ds)) = length ds" by (simp add: registry_of_def)
  ultimately show ?thesis by (auto simp: registry_register_Ok_iff fresh)
qed

definition register_all :: "constructor_declaration list \<Rightarrow> (abi_error, constructor_registry) result" where
  "register_all ds = try_fold (\<lambda>r d. registry_register d r) constructor_registry_new ds"

lemma register_all_Ok_iff: "register_all ds = Ok r \<longleftrightarrow> declarations_ok ds \<and> r = registry_of ds"
proof (induction ds arbitrary: r rule: rev_induct)
  case Nil
  then show ?case
    by (auto simp: register_all_def declarations_ok_def registry_of_def constructor_registry_new_def)
next
  case (snoc d ds)
  have "declarations_ok (ds @ [d]) \<Longrightarrow> declarations_ok ds" by (simp add: declarations_ok_def)
  then show ?case
    using snoc register_registry_of [of ds d r]
    by (auto simp: register_all_def try_fold_append result_simps)
qed

lemma registry_of_lookup:
  assumes "declarations_ok ds"
  shows "registry_get (registry_of ds) cid = Some d \<longleftrightarrow> d \<in> set ds \<and> cd_id d = cid"
    and "registry_get_by_body_type (registry_of ds) t = Some d \<longleftrightarrow> d \<in> set ds \<and> cd_body_type_id d = t"
proof -
  have ok: "distinct (map cd_id ds)" "distinct (map cd_body_type_id ds)"
    using assms by (auto simp: declarations_ok_def)
  have "inj_on cd_id (set ds)" using ok(1) by (simp add: distinct_map)
  then have inj: "x \<in> set ds \<Longrightarrow> y \<in> set ds \<Longrightarrow> cd_id x = cd_id y \<Longrightarrow> x = y" for x y
    by (simp add: inj_on_def)
  show get: "registry_get (registry_of ds) cid = Some d \<longleftrightarrow> d \<in> set ds \<and> cd_id d = cid" for cid d
    using sorted_entries(2) [OF ok(1), of "\<lambda>d. d" cid d] by (auto simp: registry_of_def registry_get_def)
  have "bm_get (cr_body_type_ids (registry_of ds)) t = Some cid \<longleftrightarrow>
      (\<exists>x \<in> set ds. cd_body_type_id x = t \<and> cd_id x = cid)" for cid
    using sorted_entries(2) [OF ok(2), of cd_id t cid] by (simp add: registry_of_def)
  then show "registry_get_by_body_type (registry_of ds) t = Some d \<longleftrightarrow>
      d \<in> set ds \<and> cd_body_type_id d = t"
    using get [unfolded registry_get_def] inj unfolding registry_get_by_body_type_def
    by (cases "bm_get (cr_body_type_ids (registry_of ds)) t") fastforce+
qed

lemma declarations_ok_mset: "mset ds = mset ds' \<Longrightarrow> declarations_ok ds = declarations_ok ds'"
  using mset_eq_length [of ds ds'] mset_eq_setD [of ds ds']
    mset_eq_imp_distinct_iff [of "map cd_id ds" "map cd_id ds'"]
    mset_eq_imp_distinct_iff [of "map cd_body_type_id ds" "map cd_body_type_id ds'"]
  by (simp add: declarations_ok_def list_all_iff)

lemma sort_key_mset_eq:
  fixes f :: "'a \<Rightarrow> 'k :: linorder"
  assumes "mset xs = mset ys" "distinct (map f xs)"
  shows "sort_key f xs = sort_key f ys"
proof -
  have set: "set xs = set ys" using assms(1) by (rule mset_eq_setD)
  have "mset (map f ys) = mset (map f xs)" using assms(1) by simp
  then have d: "distinct (map f ys)" using assms(2) mset_eq_imp_distinct_iff by blast
  have "inj_on f (set (sort_key f xs) \<union> set (sort_key f ys))"
    using assms(2) set by (simp add: distinct_map)
  moreover have "distinct (map f (sort_key f xs))" "distinct (map f (sort_key f ys))"
    using assms(2) d by (simp_all add: distinct_map)
  ultimately show ?thesis
    using set by (intro map_sorted_distinct_set_unique) simp_all
qed

lemma registry_of_mset:
  assumes "mset ds = mset ds'" "declarations_ok ds"
  shows "registry_of ds = registry_of ds'"
proof -
  have "sort_key cd_id ds = sort_key cd_id ds'"
    "sort_key cd_body_type_id ds = sort_key cd_body_type_id ds'"
    using assms by (auto simp: declarations_ok_def intro: sort_key_mset_eq)
  then show ?thesis by (simp add: registry_of_def)
qed

text \<open>
  C18. Registering a list of constructor declarations implements one finite map: it succeeds exactly
  when every declaration is valid, no two share an identifier or a body type and there are at most
  32; the registry then finds each declaration by its identifier and by its body type and nothing
  else, iterates them in identifier order, and is the same registry whatever order they were
  registered in.
\<close>

theorem registry_refines_declarations:
  assumes "register_all ds = Ok r"
  shows "declarations_ok ds \<and> registry_iter r = sort_key cd_id ds \<and>
    (\<forall>cid d. registry_get r cid = Some d \<longleftrightarrow> d \<in> set ds \<and> cd_id d = cid) \<and>
    (\<forall>t d. registry_get_by_body_type r t = Some d \<longleftrightarrow> d \<in> set ds \<and> cd_body_type_id d = t) \<and>
    (\<forall>ds'. register_all ds' = Ok r \<longleftrightarrow> mset ds' = mset ds)"
proof -
  have ok: "declarations_ok ds" and r: "r = registry_of ds"
    using assms by (auto simp: register_all_Ok_iff)
  have iter: "registry_iter (registry_of xs) = sort_key cd_id xs" for xs
    by (simp add: registry_iter_def registry_of_def comp_def)
  have "register_all ds' = Ok r \<longleftrightarrow> mset ds' = mset ds" for ds'
  proof
    assume "register_all ds' = Ok r"
    then have "registry_of ds' = registry_of ds" using r by (simp add: register_all_Ok_iff)
    then have "sort_key cd_id ds' = sort_key cd_id ds" using iter [of ds'] iter [of ds] by simp
    then have "mset (sort_key cd_id ds') = mset (sort_key cd_id ds)" by simp
    then show "mset ds' = mset ds" by simp
  next
    assume eq: "mset ds' = mset ds"
    then have "declarations_ok ds'" using declarations_ok_mset [OF eq] ok by simp
    then show "register_all ds' = Ok r"
      using registry_of_mset [OF eq] r by (simp add: register_all_Ok_iff)
  qed
  then show ?thesis using ok r iter registry_of_lookup [OF ok] by simp
qed

theorem registry_refines_declarations_witness:
  "\<exists>r. register_all [\<lparr> cd_id = 9, cd_body_type_id = 3, cd_body_version = 1, cd_schema_version = 1,
        cd_arity = FixedArity, cd_projection = [] \<rparr>,
      \<lparr> cd_id = 4, cd_body_type_id = 7, cd_body_version = 1, cd_schema_version = 1,
        cd_arity = FixedArity, cd_projection = [] \<rparr>] = Ok r \<and>
    map cd_id (registry_iter r) = [4, 9] \<and> map_option cd_id (registry_get_by_body_type r 3) = Some 9"
proof -
  let ?a = "\<lparr> cd_id = 9, cd_body_type_id = 3, cd_body_version = 1, cd_schema_version = 1,
    cd_arity = FixedArity, cd_projection = [] \<rparr> :: constructor_declaration"
  let ?b = "\<lparr> cd_id = 4, cd_body_type_id = 7, cd_body_version = 1, cd_schema_version = 1,
    cd_arity = FixedArity, cd_projection = [] \<rparr> :: constructor_declaration"
  have all: "register_all [?a, ?b] = Ok (registry_of [?a, ?b])"
    by (simp add: register_all_Ok_iff declarations_ok_def declaration_ok_def MAX_CONSTRUCTORS_def)
  note facts = registry_refines_declarations [OF all]
  have "registry_get_by_body_type (registry_of [?a, ?b]) 3 = Some ?a" using facts by simp
  moreover have "registry_iter (registry_of [?a, ?b]) = sort_key cd_id [?a, ?b]"
    using facts by blast
  ultimately show ?thesis using all by (intro exI [of _ "registry_of [?a, ?b]"]) simp
qed

section \<open>Verification\<close>

definition input_typed ::
  "constructor_registry \<Rightarrow> sha_functions \<Rightarrow> hash_suite_resolver \<Rightarrow> epoch \<Rightarrow>
   param_declaration \<times> resolved_input \<Rightarrow> typed_input \<Rightarrow> bool" where
  "input_typed registry sha resolver e di b =
     (case di of (d, i) \<Rightarrow>
       ti_declaration b = d \<and> ti_object b = ri_object i \<and> ri_mode i = pd_mode d \<and>
       tt_constructor (ti_type_tag b) = pd_constructor d \<and>
       ob_schema_version (ri_object i) = pd_schema_version d \<and>
       (\<exists>c. registry_get registry (pd_constructor d) = Some c \<and>
          cd_schema_version c = pd_schema_version d \<and>
          project_type_arg c (ob_data (ri_object i)) = Ok (tt_type_arg (ti_type_tag b))) \<and>
       verify_type_id sha resolver (ob_type_hash (ri_object i)) e (ti_type_tag b) = Ok True)"

fun unify :: "type_arg option \<Rightarrow> type_arg option list \<Rightarrow> type_arg option option" where
  "unify shared [] = Some shared"
| "unify shared (None # args) = unify shared args"
| "unify shared (Some a # args) = (if shared = None \<or> shared = Some a then unify (Some a) args else None)"

lemma unify_defined_iff:
  "unify shared args \<noteq> None \<longleftrightarrow>
     (\<exists>a. (shared = None \<or> shared = Some a) \<and> list_all (\<lambda>x. x = None \<or> x = Some a) args)"
  by (induction shared args rule: unify.induct) auto

lemma unify_step:
  "(case ta of None \<Rightarrow> Ok shared
    | Some arg \<Rightarrow> (case shared of None \<Rightarrow> Ok (Some arg)
        | Some existing \<Rightarrow> if existing = arg then Ok shared else Err (err existing arg))) = Ok shared' \<longleftrightarrow>
   unify shared [ta] = Some shared'"
  by (auto split: option.splits)

lemma verify_input_Ok_iff:
  "verify_input registry sha resolver e (shared, bs) (k, di) = Ok st \<longleftrightarrow>
     (\<exists>b shared'. input_typed registry sha resolver e di b \<and>
        unify shared [tt_type_arg (ti_type_tag b)] = Some shared' \<and> st = (shared', bs @ [b]))"
    (is "?L \<longleftrightarrow> ?R")
proof -
  obtain d i where di: "di = (d, i)" by (cases di)
  let ?tag = "\<lambda>ta. \<lparr> tt_constructor = pd_constructor d, tt_type_arg = ta \<rparr>"
  have "?L \<longleftrightarrow> ri_mode i = pd_mode d \<and> ob_schema_version (ri_object i) = pd_schema_version d \<and>
    (\<exists>c ta shared'. registry_get registry (pd_constructor d) = Some c \<and>
      cd_schema_version c = pd_schema_version d \<and>
      project_type_arg c (ob_data (ri_object i)) = Ok ta \<and>
      verify_type_id sha resolver (ob_type_hash (ri_object i)) e (?tag ta) = Ok True \<and>
      unify shared [ta] = Some shared' \<and> st = (shared', bs @ [\<lparr> ti_declaration = d,
        ti_object = ri_object i, ti_type_tag = ?tag ta \<rparr>]))"
    unfolding di verify_input_def by (auto simp: result_simps Let_def unify_step)
  also have "\<dots> \<longleftrightarrow> ?R"
  proof
    assume ?R
    then obtain b shared' where b: "input_typed registry sha resolver e (d, i) b"
      "unify shared [tt_type_arg (ti_type_tag b)] = Some shared'" "st = (shared', bs @ [b])"
      unfolding di by blast
    obtain ta where "b = \<lparr> ti_declaration = d, ti_object = ri_object i, ti_type_tag = ?tag ta \<rparr>"
      using b(1) by (cases b, cases "ti_type_tag b") (auto simp: input_typed_def)
    then show "ri_mode i = pd_mode d \<and> ob_schema_version (ri_object i) = pd_schema_version d \<and>
      (\<exists>c ta shared'. registry_get registry (pd_constructor d) = Some c \<and>
        cd_schema_version c = pd_schema_version d \<and>
        project_type_arg c (ob_data (ri_object i)) = Ok ta \<and>
        verify_type_id sha resolver (ob_type_hash (ri_object i)) e (?tag ta) = Ok True \<and>
        unify shared [ta] = Some shared' \<and> st = (shared', bs @ [\<lparr> ti_declaration = d,
          ti_object = ri_object i, ti_type_tag = ?tag ta \<rparr>]))"
      using b by (auto simp: input_typed_def)
  qed (auto simp: di input_typed_def)
  finally show ?thesis .
qed

lemma verify_inputs_fold_Ok_iff:
  "try_fold (verify_input registry sha resolver e) (shared, bs) (enumerate k dis) = Ok st \<longleftrightarrow>
     (\<exists>bs' shared'. list_all2 (input_typed registry sha resolver e) dis bs' \<and>
        unify shared (map (\<lambda>b. tt_type_arg (ti_type_tag b)) bs') = Some shared' \<and>
        st = (shared', bs @ bs'))"
proof (induction dis arbitrary: shared bs k st)
  case Nil
  then show ?case by auto
next
  case (Cons di dis)
  have first: "unify shared (x # xs) = Some r \<longleftrightarrow>
      (\<exists>s. unify shared [x] = Some s \<and> unify s xs = Some r)" for shared x xs r
    by (cases x) auto
  let ?arg = "\<lambda>b. tt_type_arg (ti_type_tag b)"
  show ?case (is "?L \<longleftrightarrow> ?R")
  proof
    assume ?L
    then obtain b s bs' shared' where "input_typed registry sha resolver e di b"
      "unify shared [?arg b] = Some s" "list_all2 (input_typed registry sha resolver e) dis bs'"
      "unify s (map ?arg bs') = Some shared'" "st = (shared', bs @ b # bs')"
      by (auto simp: try_bind_eq_Ok verify_input_Ok_iff Cons.IH simp del: unify.simps)
    moreover from this have "unify shared (?arg b # map ?arg bs') = Some shared'"
      by (subst first) blast
    ultimately show ?R
      by (intro exI [of _ "b # bs'"] exI [of _ shared']) (simp del: unify.simps)
  next
    assume ?R
    then obtain b bs' shared' where "input_typed registry sha resolver e di b"
      "list_all2 (input_typed registry sha resolver e) dis bs'"
      "unify shared (?arg b # map ?arg bs') = Some shared'" "st = (shared', bs @ b # bs')"
      by (auto simp: list_all2_Cons1 simp del: unify.simps)
    moreover from this(3) obtain s where "unify shared [?arg b] = Some s"
      "unify s (map ?arg bs') = Some shared'" by (subst (asm) first) blast
    moreover from calculation
    have "verify_input registry sha resolver e (shared, bs) (k, di) = Ok (s, bs @ [b])"
      unfolding verify_input_Ok_iff by blast
    ultimately show ?L by (simp add: Cons.IH del: unify.simps)
  qed
qed

lemma verify_entrypoint_inputs_Ok_iff:
  "verify_entrypoint_inputs signature registry sha resolver e inputs = Ok bs \<longleftrightarrow>
     length inputs = length (es_params signature) \<and>
     list_all2 (input_typed registry sha resolver e) (zip (es_params signature) inputs) bs \<and>
     (\<exists>a. list_all (\<lambda>b. tt_type_arg (ti_type_tag b) = None \<or> tt_type_arg (ti_type_tag b) = Some a) bs)"
  using unify_defined_iff [of None "map (\<lambda>b. tt_type_arg (ti_type_tag b)) bs"]
  by (auto simp: verify_entrypoint_inputs_def result_simps verify_inputs_fold_Ok_iff list.pred_map comp_def)

text \<open>
  C16. The pre-execution check of a call accepts exactly the well-typed calls: one input per
  parameter, each with the declared access mode, with the schema version that parameter, constructor
  and object agree on, with a body from which the registered constructor projects a type argument,
  and with a type digest that verifies against the constructor and that argument; and one type
  argument serves all inputs that have one. The bindings it returns are these parameters, objects
  and type tags in declaration order.
\<close>

theorem typed_inputs_exact:
  "verify_entrypoint_inputs signature registry sha resolver e inputs = Ok bs \<longleftrightarrow>
     length inputs = length (es_params signature) \<and> length bs = length inputs \<and>
     list_all (\<lambda>(d, i, b).
       ti_declaration b = d \<and> ti_object b = ri_object i \<and> ri_mode i = pd_mode d \<and>
       tt_constructor (ti_type_tag b) = pd_constructor d \<and>
       ob_schema_version (ri_object i) = pd_schema_version d \<and>
       (\<exists>c. registry_get registry (pd_constructor d) = Some c \<and>
          cd_schema_version c = pd_schema_version d \<and>
          project_type_arg c (ob_data (ri_object i)) = Ok (tt_type_arg (ti_type_tag b))) \<and>
       verify_type_id sha resolver (ob_type_hash (ri_object i)) e (ti_type_tag b) = Ok True)
       (zip (es_params signature) (zip inputs bs)) \<and>
     (\<exists>a. list_all (\<lambda>b. tt_type_arg (ti_type_tag b) \<in> {None, Some a}) bs)"
  by (auto simp: verify_entrypoint_inputs_Ok_iff list_all2_conv_all_nth list_all_length input_typed_def)

text \<open>
  C39. The wire formats of the ABI are exact. A manifest decodes from precisely the encoding of a
  manifest with at most the allowed entries, 32-byte object identifiers and digests, and no object
  twice; a constructor declaration from precisely the encoding of a valid one; an entrypoint
  signature from precisely the encoding of one with a non-empty UTF-8 name of at most 256 bytes.
\<close>

theorem abi_codecs_exact:
  "(decode_access_manifest b max_entries = Ok m \<longleftrightarrow> encode_access_manifest m = Ok b \<and>
      length (am_entries m) \<le> max_entries \<and>
      list_all (\<lambda>x. object_ref_wf (ae_object_ref x)) (am_entries m) \<and>
      distinct (map (\<lambda>x. or_id (ae_object_ref x)) (am_entries m))) \<and>
   (decode_constructor_declaration b = Ok d \<longleftrightarrow>
      encode_constructor_declaration d = Ok b \<and> constructor_declaration_validate d = Ok ()) \<and>
   (decode_entrypoint_signature b = Ok s \<longleftrightarrow> encode_entrypoint_signature s = Ok b \<and>
      utf8_valid (es_entrypoint s) \<and> es_entrypoint s \<noteq> [] \<and> length (es_entrypoint s) \<le> 256)"
  by (auto simp: decode_access_manifest_Ok_iff access_manifest_wf_def
      decode_constructor_declaration_Ok_iff constructor_declaration_validate_Ok_iff
      decode_entrypoint_signature_Ok_iff signature_wf_def MAX_ENTRYPOINT_BYTES_def)

end
