(* ===== verification/Standard_Assets.thy ===== *)
theory Standard_Assets
  imports Typed_Abi
begin

text \<open>
  The crate \<^verbatim>\<open>src/crates/standard-assets\<close>: asset identifiers and their derivation, the canonical
  bodies of definitions, coins, mint capabilities and treasury caps, the call arguments, and the
  constructor declarations that give these bodies their nominal types.
\<close>

section \<open>Data\<close>

definition SA_IDENTIFIER_LEN :: usize where
  "SA_IDENTIFIER_LEN = 32"

definition SA_ENCODING_VERSION :: u16 where
  "SA_ENCODING_VERSION = 1"

definition ASSET_ID_TYPE_ID :: u16 where
  "ASSET_ID_TYPE_ID = 0x7001"

definition ASSET_ID_DERIVATION_INPUT_TYPE_ID :: u16 where
  "ASSET_ID_DERIVATION_INPUT_TYPE_ID = 0x7100"

definition STANDARD_ASSET_DEFINITION_V1_TYPE_ID :: u16 where
  "STANDARD_ASSET_DEFINITION_V1_TYPE_ID = 0x7101"

definition STANDARD_ASSET_COIN_V1_TYPE_ID :: u16 where
  "STANDARD_ASSET_COIN_V1_TYPE_ID = 0x7102"

definition STANDARD_ASSET_MINT_CAPABILITY_V1_TYPE_ID :: u16 where
  "STANDARD_ASSET_MINT_CAPABILITY_V1_TYPE_ID = 0x7103"

definition STANDARD_ASSET_TRANSFER_ARGS_V1_TYPE_ID :: u16 where
  "STANDARD_ASSET_TRANSFER_ARGS_V1_TYPE_ID = 0x7104"

definition STANDARD_ASSET_SPLIT_ARGS_V1_TYPE_ID :: u16 where
  "STANDARD_ASSET_SPLIT_ARGS_V1_TYPE_ID = 0x7105"

definition STANDARD_ASSET_MINT_ARGS_V1_TYPE_ID :: u16 where
  "STANDARD_ASSET_MINT_ARGS_V1_TYPE_ID = 0x7106"

definition STANDARD_ASSET_TREASURY_CAP_V1_TYPE_ID :: u16 where
  "STANDARD_ASSET_TREASURY_CAP_V1_TYPE_ID = 0x7107"

definition STANDARD_ASSET_SCHEMA_VERSION_V1 :: u32 where
  "STANDARD_ASSET_SCHEMA_VERSION_V1 = 1"

lemmas asset_ids [encode_simps] = SA_IDENTIFIER_LEN_def SA_ENCODING_VERSION_def ASSET_ID_TYPE_ID_def
  ASSET_ID_DERIVATION_INPUT_TYPE_ID_def STANDARD_ASSET_DEFINITION_V1_TYPE_ID_def
  STANDARD_ASSET_COIN_V1_TYPE_ID_def STANDARD_ASSET_MINT_CAPABILITY_V1_TYPE_ID_def
  STANDARD_ASSET_TRANSFER_ARGS_V1_TYPE_ID_def STANDARD_ASSET_SPLIT_ARGS_V1_TYPE_ID_def
  STANDARD_ASSET_MINT_ARGS_V1_TYPE_ID_def STANDARD_ASSET_TREASURY_CAP_V1_TYPE_ID_def

type_synonym asset_id = bytes
type_synonym asset_creation_seed = bytes

datatype standard_asset_error =
    InvalidAssetIdLength usize
  | SaInvalidAddressLength usize
  | InvalidCreationSeedLength usize
  | ZeroCreationSeed
  | ZeroCoinAmount
  | ZeroMaxSupply
  | TotalSupplyExceedsMaxSupply u64 u64
  | UnknownHashAlgorithm type_error
  | AssetIdMismatch asset_id asset_id
  | DerivationAlgorithmMismatch hash_algorithm_id hash_algorithm_id
  | ProtocolVersionMismatch protocol_version protocol_version
  | SaHashing hashing_error
  | SaCanonicalEncoding canonical_encoding_error
  | SaCanonicalDecoding canonical_decoding_error
  | SaAbi abi_error

definition asset_id_try_from_slice :: "bytes \<Rightarrow> (standard_asset_error, asset_id) result" where
  "asset_id_try_from_slice bs =
     (if length bs \<noteq> SA_IDENTIFIER_LEN then Err (InvalidAssetIdLength (length bs)) else Ok bs)"

definition asset_creation_seed_new :: "bytes \<Rightarrow> (standard_asset_error, asset_creation_seed) result"
  where
  "asset_creation_seed_new bs =
     (if bs = replicate SA_IDENTIFIER_LEN 0 then Err ZeroCreationSeed else Ok bs)"

definition asset_creation_seed_try_from_slice ::
  "bytes \<Rightarrow> (standard_asset_error, asset_creation_seed) result" where
  "asset_creation_seed_try_from_slice bs =
     (if length bs \<noteq> SA_IDENTIFIER_LEN then Err (InvalidCreationSeedLength (length bs))
      else asset_creation_seed_new bs)"

definition decode_address_field :: "bytes \<Rightarrow> (standard_asset_error, address) result" where
  "decode_address_field bs =
     (if length bs \<noteq> SA_IDENTIFIER_LEN then Err (SaInvalidAddressLength (length bs)) else Ok bs)"

record standard_asset_definition_v1 =
  sd_asset_id :: asset_id
  sd_creation_authority :: address
  sd_creation_seed :: asset_creation_seed
  sd_creation_epoch :: epoch
  sd_creation_protocol_version :: protocol_version
  sd_derivation_algorithm :: hash_algorithm_id

record standard_asset_coin_v1 =
  sc_asset_id :: asset_id
  sc_amount :: u64

record standard_asset_mint_capability_v1 =
  sm_asset_id :: asset_id

record standard_asset_treasury_cap_v1 =
  st_asset_id :: asset_id
  st_total_supply :: u64
  st_max_supply :: u64

definition standard_asset_coin_v1_new ::
  "asset_id \<Rightarrow> u64 \<Rightarrow> (standard_asset_error, standard_asset_coin_v1) result" where
  "standard_asset_coin_v1_new asset amount =
     (if amount = 0 then Err ZeroCoinAmount else Ok \<lparr> sc_asset_id = asset, sc_amount = amount \<rparr>)"

definition standard_asset_treasury_cap_v1_new ::
  "asset_id \<Rightarrow> u64 \<Rightarrow> u64 \<Rightarrow> (standard_asset_error, standard_asset_treasury_cap_v1) result" where
  "standard_asset_treasury_cap_v1_new asset total_supply max_supply =
     (if max_supply = 0 then Err ZeroMaxSupply
      else if total_supply > max_supply then Err (TotalSupplyExceedsMaxSupply total_supply max_supply)
      else Ok \<lparr> st_asset_id = asset, st_total_supply = total_supply, st_max_supply = max_supply \<rparr>)"

text \<open>The arguments of a split and of a mint have the same fields and the same validation.\<close>

record amount_args =
  aa_amount :: u64
  aa_recipient :: address

definition amount_args_new :: "u64 \<Rightarrow> address \<Rightarrow> (standard_asset_error, amount_args) result" where
  "amount_args_new amount recipient =
     (if amount = 0 then Err ZeroCoinAmount else Ok \<lparr> aa_amount = amount, aa_recipient = recipient \<rparr>)"

section \<open>Identifiers and their derivation\<close>

definition encode_asset_id :: "asset_id \<Rightarrow> (standard_asset_error, bytes) result" where
  "encode_asset_id a = map_err SaCanonicalEncoding
     (try_bind (field_bytes 1 a (cs_new ASSET_ID_TYPE_ID SA_ENCODING_VERSION)) finish)"

definition decode_asset_id :: "bytes \<Rightarrow> (standard_asset_error, asset_id) result" where
  "decode_asset_id input =
     try_bind (map_err SaCanonicalDecoding
       (decode_closed_frame ASSET_ID_TYPE_ID SA_ENCODING_VERSION [1] input)) (\<lambda>frame.
     try_bind (map_err SaCanonicalDecoding (required_field frame 1)) asset_id_try_from_slice)"

definition encode_asset_id_derivation_input ::
  "address \<Rightarrow> asset_creation_seed \<Rightarrow> epoch \<Rightarrow> (standard_asset_error, bytes) result" where
  "encode_asset_id_derivation_input authority seed e = map_err SaCanonicalEncoding (
     try_bind (field_bytes 1 authority
       (cs_new ASSET_ID_DERIVATION_INPUT_TYPE_ID SA_ENCODING_VERSION)) (\<lambda>c.
     try_bind (field_bytes 2 seed c) (\<lambda>c.
     try_bind (field_u64 3 e c) finish)))"

definition derive_asset_id ::
  "sha_functions \<Rightarrow> hash_suite_resolver \<Rightarrow> epoch \<Rightarrow> address \<Rightarrow> asset_creation_seed \<Rightarrow>
   (standard_asset_error, asset_id \<times> hash_algorithm_id) result" where
  "derive_asset_id sha resolver e authority seed =
     try_bind (encode_asset_id_derivation_input authority seed e) (\<lambda>payload.
     try_bind (map_err SaHashing (hash_for_purpose sha resolver e HpAssetId payload)) (\<lambda>digest.
     Ok (digest_bytes digest, algorithm digest)))"

definition standard_asset_definition_derive ::
  "sha_functions \<Rightarrow> hash_suite_resolver \<Rightarrow> address \<Rightarrow> asset_creation_seed \<Rightarrow> epoch \<Rightarrow>
   (standard_asset_error, standard_asset_definition_v1) result" where
  "standard_asset_definition_derive sha resolver authority seed e =
     try_bind (derive_asset_id sha resolver e authority seed) (\<lambda>(asset, a).
     Ok \<lparr> sd_asset_id = asset, sd_creation_authority = authority, sd_creation_seed = seed,
          sd_creation_epoch = e, sd_creation_protocol_version = hsr_protocol_version resolver,
          sd_derivation_algorithm = a \<rparr>)"

definition standard_asset_definition_validate ::
  "sha_functions \<Rightarrow> hash_suite_resolver \<Rightarrow> standard_asset_definition_v1 \<Rightarrow>
   (standard_asset_error, unit) result" where
  "standard_asset_definition_validate sha resolver d =
     (if hsr_protocol_version resolver \<noteq> sd_creation_protocol_version d
      then Err (ProtocolVersionMismatch (sd_creation_protocol_version d)
             (hsr_protocol_version resolver))
      else
        try_bind (derive_asset_id sha resolver (sd_creation_epoch d) (sd_creation_authority d)
          (sd_creation_seed d)) (\<lambda>(expected_asset_id, expected_algorithm).
        if expected_algorithm \<noteq> sd_derivation_algorithm d
        then Err (DerivationAlgorithmMismatch expected_algorithm (sd_derivation_algorithm d))
        else if expected_asset_id \<noteq> sd_asset_id d
        then Err (AssetIdMismatch expected_asset_id (sd_asset_id d))
        else Ok ()))"

section \<open>Codecs of the bodies\<close>

definition encode_standard_asset_definition_v1 ::
  "standard_asset_definition_v1 \<Rightarrow> (standard_asset_error, bytes) result" where
  "encode_standard_asset_definition_v1 d =
     try_bind (encode_asset_id (sd_asset_id d)) (\<lambda>b.
     map_err SaCanonicalEncoding (
       try_bind (field_bytes 1 b
         (cs_new STANDARD_ASSET_DEFINITION_V1_TYPE_ID SA_ENCODING_VERSION)) (\<lambda>c.
       try_bind (field_bytes 2 (sd_creation_authority d) c) (\<lambda>c.
       try_bind (field_bytes 3 (sd_creation_seed d) c) (\<lambda>c.
       try_bind (field_u64 4 (sd_creation_epoch d) c) (\<lambda>c.
       try_bind (field_u16 5 (hash_algorithm_as_u16 (sd_derivation_algorithm d)) c) (\<lambda>c.
       try_bind (field_u32 6 (sd_creation_protocol_version d) c) finish)))))))"

definition decode_standard_asset_definition_v1 ::
  "bytes \<Rightarrow> (standard_asset_error, standard_asset_definition_v1) result" where
  "decode_standard_asset_definition_v1 input =
     try_bind (map_err SaCanonicalDecoding (decode_closed_frame STANDARD_ASSET_DEFINITION_V1_TYPE_ID
       SA_ENCODING_VERSION [1, 2, 3, 4, 5, 6] input)) (\<lambda>frame.
     try_bind (map_err SaCanonicalDecoding (required_field frame 1)) (\<lambda>b.
     try_bind (decode_asset_id b) (\<lambda>asset.
     try_bind (map_err SaCanonicalDecoding (required_field frame 2)) (\<lambda>b.
     try_bind (decode_address_field b) (\<lambda>authority.
     try_bind (map_err SaCanonicalDecoding (required_field frame 3)) (\<lambda>b.
     try_bind (asset_creation_seed_try_from_slice b) (\<lambda>seed.
     try_bind (map_err SaCanonicalDecoding (required_u64 frame 4)) (\<lambda>e.
     try_bind (map_err SaCanonicalDecoding (required_u16 frame 5)) (\<lambda>w.
     try_bind (map_err UnknownHashAlgorithm (hash_algorithm_try_from w)) (\<lambda>a.
     try_bind (map_err SaCanonicalDecoding (required_u32 frame 6)) (\<lambda>version.
     Ok \<lparr> sd_asset_id = asset, sd_creation_authority = authority, sd_creation_seed = seed,
          sd_creation_epoch = e, sd_creation_protocol_version = version,
          sd_derivation_algorithm = a \<rparr>)))))))))))"

definition encode_standard_asset_coin_v1 ::
  "standard_asset_coin_v1 \<Rightarrow> (standard_asset_error, bytes) result" where
  "encode_standard_asset_coin_v1 coin =
     try_bind (encode_asset_id (sc_asset_id coin)) (\<lambda>b.
     map_err SaCanonicalEncoding (
       try_bind (field_bytes 1 b (cs_new STANDARD_ASSET_COIN_V1_TYPE_ID SA_ENCODING_VERSION)) (\<lambda>c.
       try_bind (field_u64 2 (sc_amount coin) c) finish)))"

definition decode_standard_asset_coin_v1 ::
  "bytes \<Rightarrow> (standard_asset_error, standard_asset_coin_v1) result" where
  "decode_standard_asset_coin_v1 input =
     try_bind (map_err SaCanonicalDecoding (decode_closed_frame STANDARD_ASSET_COIN_V1_TYPE_ID
       SA_ENCODING_VERSION [1, 2] input)) (\<lambda>frame.
     try_bind (map_err SaCanonicalDecoding (required_field frame 1)) (\<lambda>b.
     try_bind (decode_asset_id b) (\<lambda>asset.
     try_bind (map_err SaCanonicalDecoding (required_u64 frame 2)) (\<lambda>amount.
     standard_asset_coin_v1_new asset amount))))"

definition encode_standard_asset_mint_capability_v1 ::
  "standard_asset_mint_capability_v1 \<Rightarrow> (standard_asset_error, bytes) result" where
  "encode_standard_asset_mint_capability_v1 capability =
     try_bind (encode_asset_id (sm_asset_id capability)) (\<lambda>b.
     map_err SaCanonicalEncoding (
       try_bind (field_bytes 1 b
         (cs_new STANDARD_ASSET_MINT_CAPABILITY_V1_TYPE_ID SA_ENCODING_VERSION)) finish))"

definition decode_standard_asset_mint_capability_v1 ::
  "bytes \<Rightarrow> (standard_asset_error, standard_asset_mint_capability_v1) result" where
  "decode_standard_asset_mint_capability_v1 input =
     try_bind (map_err SaCanonicalDecoding (decode_closed_frame
       STANDARD_ASSET_MINT_CAPABILITY_V1_TYPE_ID SA_ENCODING_VERSION [1] input)) (\<lambda>frame.
     try_bind (map_err SaCanonicalDecoding (required_field frame 1)) (\<lambda>b.
     try_bind (decode_asset_id b) (\<lambda>asset. Ok \<lparr> sm_asset_id = asset \<rparr>)))"

definition encode_standard_asset_treasury_cap_v1 ::
  "standard_asset_treasury_cap_v1 \<Rightarrow> (standard_asset_error, bytes) result" where
  "encode_standard_asset_treasury_cap_v1 cap =
     try_bind (encode_asset_id (st_asset_id cap)) (\<lambda>b.
     map_err SaCanonicalEncoding (
       try_bind (field_bytes 1 b
         (cs_new STANDARD_ASSET_TREASURY_CAP_V1_TYPE_ID SA_ENCODING_VERSION)) (\<lambda>c.
       try_bind (field_u64 2 (st_total_supply cap) c) (\<lambda>c.
       try_bind (field_u64 3 (st_max_supply cap) c) finish))))"

definition decode_standard_asset_treasury_cap_v1 ::
  "bytes \<Rightarrow> (standard_asset_error, standard_asset_treasury_cap_v1) result" where
  "decode_standard_asset_treasury_cap_v1 input =
     try_bind (map_err SaCanonicalDecoding (decode_closed_frame
       STANDARD_ASSET_TREASURY_CAP_V1_TYPE_ID SA_ENCODING_VERSION [1, 2, 3] input)) (\<lambda>frame.
     try_bind (map_err SaCanonicalDecoding (required_field frame 1)) (\<lambda>b.
     try_bind (decode_asset_id b) (\<lambda>asset.
     try_bind (map_err SaCanonicalDecoding (required_u64 frame 2)) (\<lambda>total_supply.
     try_bind (map_err SaCanonicalDecoding (required_u64 frame 3)) (\<lambda>max_supply.
     standard_asset_treasury_cap_v1_new asset total_supply max_supply)))))"

section \<open>Codecs of the call arguments\<close>

definition encode_standard_asset_transfer_args_v1 ::
  "address \<Rightarrow> (standard_asset_error, bytes) result" where
  "encode_standard_asset_transfer_args_v1 recipient = map_err SaCanonicalEncoding
     (try_bind (field_bytes 1 recipient
        (cs_new STANDARD_ASSET_TRANSFER_ARGS_V1_TYPE_ID SA_ENCODING_VERSION)) finish)"

definition decode_standard_asset_transfer_args_v1 ::
  "bytes \<Rightarrow> (standard_asset_error, address) result" where
  "decode_standard_asset_transfer_args_v1 input =
     try_bind (map_err SaCanonicalDecoding (decode_closed_frame
       STANDARD_ASSET_TRANSFER_ARGS_V1_TYPE_ID SA_ENCODING_VERSION [1] input)) (\<lambda>frame.
     try_bind (map_err SaCanonicalDecoding (required_field frame 1)) decode_address_field)"

definition encode_standard_asset_split_args_v1 ::
  "amount_args \<Rightarrow> (standard_asset_error, bytes) result" where
  "encode_standard_asset_split_args_v1 args = map_err SaCanonicalEncoding (
     try_bind (field_u64 1 (aa_amount args)
       (cs_new STANDARD_ASSET_SPLIT_ARGS_V1_TYPE_ID SA_ENCODING_VERSION)) (\<lambda>c.
     try_bind (field_bytes 2 (aa_recipient args) c) finish))"

definition decode_standard_asset_split_args_v1 ::
  "bytes \<Rightarrow> (standard_asset_error, amount_args) result" where
  "decode_standard_asset_split_args_v1 input =
     try_bind (map_err SaCanonicalDecoding (decode_closed_frame
       STANDARD_ASSET_SPLIT_ARGS_V1_TYPE_ID SA_ENCODING_VERSION [1, 2] input)) (\<lambda>frame.
     try_bind (map_err SaCanonicalDecoding (required_u64 frame 1)) (\<lambda>amount.
     try_bind (map_err SaCanonicalDecoding (required_field frame 2)) (\<lambda>b.
     try_bind (decode_address_field b) (\<lambda>recipient.
     amount_args_new amount recipient))))"

definition encode_standard_asset_mint_args_v1 ::
  "amount_args \<Rightarrow> (standard_asset_error, bytes) result" where
  "encode_standard_asset_mint_args_v1 args = map_err SaCanonicalEncoding (
     try_bind (field_u64 1 (aa_amount args)
       (cs_new STANDARD_ASSET_MINT_ARGS_V1_TYPE_ID SA_ENCODING_VERSION)) (\<lambda>c.
     try_bind (field_bytes 2 (aa_recipient args) c) finish))"

definition decode_standard_asset_mint_args_v1 ::
  "bytes \<Rightarrow> (standard_asset_error, amount_args) result" where
  "decode_standard_asset_mint_args_v1 input =
     try_bind (map_err SaCanonicalDecoding (decode_closed_frame
       STANDARD_ASSET_MINT_ARGS_V1_TYPE_ID SA_ENCODING_VERSION [1, 2] input)) (\<lambda>frame.
     try_bind (map_err SaCanonicalDecoding (required_u64 frame 1)) (\<lambda>amount.
     try_bind (map_err SaCanonicalDecoding (required_field frame 2)) (\<lambda>b.
     try_bind (decode_address_field b) (\<lambda>recipient.
     amount_args_new amount recipient))))"

section \<open>Nominal types\<close>

definition asset_id_projection :: "u16 \<Rightarrow> projection_step list" where
  "asset_id_projection body_type_id =
     [\<lparr> ps_expected_type_id = body_type_id, ps_expected_version = SA_ENCODING_VERSION,
        ps_field_id = 1 \<rparr>,
      \<lparr> ps_expected_type_id = ASSET_ID_TYPE_ID, ps_expected_version = SA_ENCODING_VERSION,
        ps_field_id = 1 \<rparr>]"

text \<open>The constructor identifiers repeat the type identifiers of the bodies.\<close>

definition asset_constructor :: "u16 \<Rightarrow> constructor_declaration" where
  "asset_constructor body_type_id =
     \<lparr> cd_id = body_type_id, cd_body_type_id = body_type_id, cd_body_version = SA_ENCODING_VERSION,
       cd_schema_version = STANDARD_ASSET_SCHEMA_VERSION_V1, cd_arity = VariableArity,
       cd_projection = asset_id_projection body_type_id \<rparr>"

definition definition_constructor_declaration :: constructor_declaration where
  "definition_constructor_declaration = asset_constructor STANDARD_ASSET_DEFINITION_V1_TYPE_ID"

definition coin_constructor_declaration :: constructor_declaration where
  "coin_constructor_declaration = asset_constructor STANDARD_ASSET_COIN_V1_TYPE_ID"

definition mint_capability_constructor_declaration :: constructor_declaration where
  "mint_capability_constructor_declaration =
     asset_constructor STANDARD_ASSET_MINT_CAPABILITY_V1_TYPE_ID"

definition treasury_cap_constructor_declaration :: constructor_declaration where
  "treasury_cap_constructor_declaration =
     asset_constructor STANDARD_ASSET_TREASURY_CAP_V1_TYPE_ID"

definition asset_constructor_registry :: "(standard_asset_error, constructor_registry) result" where
  "asset_constructor_registry =
     try_bind (map_err SaAbi (registry_register definition_constructor_declaration
       constructor_registry_new)) (\<lambda>registry.
     try_bind (map_err SaAbi (registry_register coin_constructor_declaration registry)) (\<lambda>registry.
     try_bind (map_err SaAbi (registry_register mint_capability_constructor_declaration registry))
       (\<lambda>registry.
     map_err SaAbi (registry_register treasury_cap_constructor_declaration registry))))"

definition definition_type_tag :: "asset_id \<Rightarrow> type_tag" where
  "definition_type_tag asset = \<lparr> tt_constructor = STANDARD_ASSET_DEFINITION_V1_TYPE_ID,
     tt_type_arg = Some (TaAssetId asset) \<rparr>"

definition coin_type_tag :: "asset_id \<Rightarrow> type_tag" where
  "coin_type_tag asset = \<lparr> tt_constructor = STANDARD_ASSET_COIN_V1_TYPE_ID,
     tt_type_arg = Some (TaAssetId asset) \<rparr>"

definition mint_capability_type_tag :: "asset_id \<Rightarrow> type_tag" where
  "mint_capability_type_tag asset = \<lparr> tt_constructor = STANDARD_ASSET_MINT_CAPABILITY_V1_TYPE_ID,
     tt_type_arg = Some (TaAssetId asset) \<rparr>"

definition treasury_cap_type_tag :: "asset_id \<Rightarrow> type_tag" where
  "treasury_cap_type_tag asset = \<lparr> tt_constructor = STANDARD_ASSET_TREASURY_CAP_V1_TYPE_ID,
     tt_type_arg = Some (TaAssetId asset) \<rparr>"

definition derive_definition_type_id ::
  "sha_functions \<Rightarrow> hash_suite_resolver \<Rightarrow> epoch \<Rightarrow> asset_id \<Rightarrow> (standard_asset_error, digest32) result"
  where
  "derive_definition_type_id sha resolver e asset =
     map_err SaAbi (derive_type_id sha resolver e (definition_type_tag asset))"

definition derive_coin_type_id ::
  "sha_functions \<Rightarrow> hash_suite_resolver \<Rightarrow> epoch \<Rightarrow> asset_id \<Rightarrow> (standard_asset_error, digest32) result"
  where
  "derive_coin_type_id sha resolver e asset =
     map_err SaAbi (derive_type_id sha resolver e (coin_type_tag asset))"

definition derive_mint_capability_type_id ::
  "sha_functions \<Rightarrow> hash_suite_resolver \<Rightarrow> epoch \<Rightarrow> asset_id \<Rightarrow> (standard_asset_error, digest32) result"
  where
  "derive_mint_capability_type_id sha resolver e asset =
     map_err SaAbi (derive_type_id sha resolver e (mint_capability_type_tag asset))"

definition derive_treasury_cap_type_id ::
  "sha_functions \<Rightarrow> hash_suite_resolver \<Rightarrow> epoch \<Rightarrow> asset_id \<Rightarrow> (standard_asset_error, digest32) result"
  where
  "derive_treasury_cap_type_id sha resolver e asset =
     map_err SaAbi (derive_type_id sha resolver e (treasury_cap_type_tag asset))"

section \<open>The codecs are exact\<close>

lemma identifier_checks_Ok_iff [result_simps]:
  "asset_id_try_from_slice bs = Ok a \<longleftrightarrow> bs = a \<and> array32 a"
  "decode_address_field bs = Ok a \<longleftrightarrow> bs = a \<and> array32 a"
  "asset_creation_seed_try_from_slice bs = Ok a \<longleftrightarrow> bs = a \<and> array32 a \<and> a \<noteq> replicate 32 0"
  by (auto simp: asset_id_try_from_slice_def decode_address_field_def asset_creation_seed_new_def
      asset_creation_seed_try_from_slice_def SA_IDENTIFIER_LEN_def array32_def)

lemma hash_algorithm_try_from_Ok_iff [result_simps]:
  "hash_algorithm_try_from w = Ok a \<longleftrightarrow> w = hash_algorithm_as_u16 a"
  using hash_algorithm_try_from_OkD by auto

lemma asset_value_new_Ok_iff [result_simps]:
  "standard_asset_coin_v1_new a n = Ok c \<longleftrightarrow> n \<noteq> 0 \<and> c = \<lparr> sc_asset_id = a, sc_amount = n \<rparr>"
  "standard_asset_treasury_cap_v1_new a t m = Ok p \<longleftrightarrow> m \<noteq> 0 \<and> t \<le> m \<and>
     p = \<lparr> st_asset_id = a, st_total_supply = t, st_max_supply = m \<rparr>"
  "amount_args_new n r = Ok x \<longleftrightarrow> n \<noteq> 0 \<and> x = \<lparr> aa_amount = n, aa_recipient = r \<rparr>"
  by (auto simp: standard_asset_coin_v1_new_def standard_asset_treasury_cap_v1_new_def
      amount_args_new_def not_less)

lemma encode_asset_id_Ok_iff:
  "encode_asset_id a = Ok b \<longleftrightarrow>
     encode_frame \<lparr> cf_type_id = 0x7001, cf_version = 1, cf_fields = [(1, a)] \<rparr> = Ok b"
  by (simp add: encode_asset_id_def encode_simps result_simps)

lemma decode_asset_id_Ok_iff: "decode_asset_id b = Ok a \<longleftrightarrow> array32 a \<and> encode_asset_id a = Ok b"
  unfolding decode_asset_id_def encode_asset_id_Ok_iff asset_ids
  by (subst decode_closed_iff) (auto simp: result_simps codec_simps)

lemma encode_definition_Ok_iff:
  "encode_standard_asset_definition_v1 d = Ok b \<longleftrightarrow>
     (\<exists>ab. encode_asset_id (sd_asset_id d) = Ok ab \<and>
       encode_frame \<lparr> cf_type_id = 0x7101, cf_version = 1, cf_fields =
         [(1, ab), (2, sd_creation_authority d), (3, sd_creation_seed d),
          (4, u64_to_le_bytes (sd_creation_epoch d)),
          (5, u16_to_le_bytes (hash_algorithm_as_u16 (sd_derivation_algorithm d))),
          (6, u32_to_le_bytes (sd_creation_protocol_version d))] \<rparr> = Ok b)"
  by (auto simp: encode_standard_asset_definition_v1_def encode_simps result_simps)

definition definition_wf :: "standard_asset_definition_v1 \<Rightarrow> bool" where
  "definition_wf d \<longleftrightarrow> array32 (sd_asset_id d) \<and> array32 (sd_creation_authority d) \<and>
     array32 (sd_creation_seed d) \<and> sd_creation_seed d \<noteq> replicate 32 0"

lemma decode_definition_Ok_iff:
  "decode_standard_asset_definition_v1 b = Ok d \<longleftrightarrow>
     definition_wf d \<and> encode_standard_asset_definition_v1 d = Ok b"
  unfolding decode_standard_asset_definition_v1_def encode_definition_Ok_iff asset_ids
  by (cases d) (subst decode_closed_iff; auto simp: result_simps codec_simps definition_wf_def
      decode_asset_id_Ok_iff)

lemma encode_coin_Ok_iff:
  "encode_standard_asset_coin_v1 c = Ok b \<longleftrightarrow>
     (\<exists>ab. encode_asset_id (sc_asset_id c) = Ok ab \<and>
       encode_frame \<lparr> cf_type_id = 0x7102, cf_version = 1, cf_fields =
         [(1, ab), (2, u64_to_le_bytes (sc_amount c))] \<rparr> = Ok b)"
  by (auto simp: encode_standard_asset_coin_v1_def encode_simps result_simps)

definition coin_wf :: "standard_asset_coin_v1 \<Rightarrow> bool" where
  "coin_wf c \<longleftrightarrow> array32 (sc_asset_id c) \<and> sc_amount c \<noteq> 0"

lemma decode_coin_Ok_iff:
  "decode_standard_asset_coin_v1 b = Ok c \<longleftrightarrow> coin_wf c \<and> encode_standard_asset_coin_v1 c = Ok b"
  unfolding decode_standard_asset_coin_v1_def encode_coin_Ok_iff asset_ids
  by (cases c) (subst decode_closed_iff; auto simp: result_simps codec_simps coin_wf_def
      decode_asset_id_Ok_iff)

lemma encode_mint_capability_Ok_iff:
  "encode_standard_asset_mint_capability_v1 c = Ok b \<longleftrightarrow>
     (\<exists>ab. encode_asset_id (sm_asset_id c) = Ok ab \<and>
       encode_frame \<lparr> cf_type_id = 0x7103, cf_version = 1, cf_fields = [(1, ab)] \<rparr> = Ok b)"
  by (auto simp: encode_standard_asset_mint_capability_v1_def encode_simps result_simps)

lemma decode_mint_capability_Ok_iff:
  "decode_standard_asset_mint_capability_v1 b = Ok c \<longleftrightarrow>
     array32 (sm_asset_id c) \<and> encode_standard_asset_mint_capability_v1 c = Ok b"
  unfolding decode_standard_asset_mint_capability_v1_def encode_mint_capability_Ok_iff asset_ids
  by (cases c) (subst decode_closed_iff; auto simp: result_simps codec_simps decode_asset_id_Ok_iff)

lemma encode_treasury_cap_Ok_iff:
  "encode_standard_asset_treasury_cap_v1 c = Ok b \<longleftrightarrow>
     (\<exists>ab. encode_asset_id (st_asset_id c) = Ok ab \<and>
       encode_frame \<lparr> cf_type_id = 0x7107, cf_version = 1, cf_fields =
         [(1, ab), (2, u64_to_le_bytes (st_total_supply c)),
          (3, u64_to_le_bytes (st_max_supply c))] \<rparr> = Ok b)"
  by (auto simp: encode_standard_asset_treasury_cap_v1_def encode_simps result_simps)

definition treasury_cap_wf :: "standard_asset_treasury_cap_v1 \<Rightarrow> bool" where
  "treasury_cap_wf c \<longleftrightarrow> array32 (st_asset_id c) \<and> st_max_supply c \<noteq> 0 \<and>
     st_total_supply c \<le> st_max_supply c"

lemma decode_treasury_cap_Ok_iff:
  "decode_standard_asset_treasury_cap_v1 b = Ok c \<longleftrightarrow>
     treasury_cap_wf c \<and> encode_standard_asset_treasury_cap_v1 c = Ok b"
  unfolding decode_standard_asset_treasury_cap_v1_def encode_treasury_cap_Ok_iff asset_ids
  by (cases c) (subst decode_closed_iff; auto simp: result_simps codec_simps treasury_cap_wf_def
      decode_asset_id_Ok_iff)

lemma decode_transfer_args_Ok_iff:
  "decode_standard_asset_transfer_args_v1 b = Ok r \<longleftrightarrow>
     array32 r \<and> encode_standard_asset_transfer_args_v1 r = Ok b"
  unfolding decode_standard_asset_transfer_args_v1_def encode_standard_asset_transfer_args_v1_def
    asset_ids
  by (subst decode_closed_iff) (auto simp: result_simps codec_simps encode_simps)

definition amount_args_wf :: "amount_args \<Rightarrow> bool" where
  "amount_args_wf x \<longleftrightarrow> aa_amount x \<noteq> 0 \<and> array32 (aa_recipient x)"

lemma decode_split_args_Ok_iff:
  "decode_standard_asset_split_args_v1 b = Ok x \<longleftrightarrow>
     amount_args_wf x \<and> encode_standard_asset_split_args_v1 x = Ok b"
  unfolding decode_standard_asset_split_args_v1_def encode_standard_asset_split_args_v1_def asset_ids
  by (cases x) (subst decode_closed_iff; auto simp: result_simps codec_simps encode_simps
      amount_args_wf_def)

lemma decode_mint_args_Ok_iff:
  "decode_standard_asset_mint_args_v1 b = Ok x \<longleftrightarrow>
     amount_args_wf x \<and> encode_standard_asset_mint_args_v1 x = Ok b"
  unfolding decode_standard_asset_mint_args_v1_def encode_standard_asset_mint_args_v1_def asset_ids
  by (cases x) (subst decode_closed_iff; auto simp: result_simps codec_simps encode_simps
      amount_args_wf_def)

interpretation asset_id_codec: strict_codec encode_asset_id decode_asset_id array32
  by unfold_locales (auto simp: decode_asset_id_Ok_iff)

interpretation coin_codec: strict_codec encode_standard_asset_coin_v1 decode_standard_asset_coin_v1
  coin_wf
  by unfold_locales (auto simp: decode_coin_Ok_iff)

interpretation treasury_cap_codec: strict_codec encode_standard_asset_treasury_cap_v1
  decode_standard_asset_treasury_cap_v1 treasury_cap_wf
  by unfold_locales (auto simp: decode_treasury_cap_Ok_iff)

section \<open>Definitions commit to their creation\<close>

lemma definition_validate_Ok_iff:
  "standard_asset_definition_validate sha r d = Ok () \<longleftrightarrow>
     standard_asset_definition_derive sha r (sd_creation_authority d) (sd_creation_seed d)
       (sd_creation_epoch d) = Ok d"
  by (cases d)
    (auto simp: standard_asset_definition_validate_def standard_asset_definition_derive_def
      result_simps split: if_splits prod.splits)

lemma derivation_input_Ok_iff:
  "encode_asset_id_derivation_input authority seed e = Ok b \<longleftrightarrow>
     encode_frame \<lparr> cf_type_id = 0x7100, cf_version = 1, cf_fields =
       [(1, authority), (2, seed), (3, u64_to_le_bytes e)] \<rparr> = Ok b"
  by (simp add: encode_asset_id_derivation_input_def encode_simps result_simps)

lemma derivation_input_inject:
  assumes "encode_asset_id_derivation_input au s e = Ok b"
    and "encode_asset_id_derivation_input au' s' e' = Ok b"
  shows "au = au' \<and> s = s' \<and> e = e'"
proof -
  have "decode_canonical_frame b = Ok \<lparr> cf_type_id = 0x7100, cf_version = 1, cf_fields =
      [(1, au), (2, s), (3, u64_to_le_bytes e)] \<rparr>"
    "decode_canonical_frame b = Ok \<lparr> cf_type_id = 0x7100, cf_version = 1, cf_fields =
      [(1, au'), (2, s'), (3, u64_to_le_bytes e')] \<rparr>"
    using assms by (auto simp: derivation_input_Ok_iff intro!: decode_encode_frame)
  then show ?thesis by simp
qed

lemma derive_asset_idD:
  assumes "derive_asset_id sha r e au s = Ok (a, alg)"
  obtains payload b where "encode_asset_id_derivation_input au s e = Ok payload"
    "frame_hash_input alg HpAssetId (hsr_protocol_version r) (hsr_chain_id r) payload = Ok b"
    "hash_unframed_bytes sha alg b = Ok a"
proof -
  from assms obtain payload d where "encode_asset_id_derivation_input au s e = Ok payload"
    "hash_for_purpose sha r e HpAssetId payload = Ok d" "a = digest_bytes d" "alg = algorithm d"
    by (auto simp: derive_asset_id_def result_simps)
  then show ?thesis
    by (auto simp: hash_for_purpose_def result_simps elim!: builtin_hash_OkD intro: that)
qed

text \<open>The framed input whose hash is the identifier of a definition, under a resolver.\<close>

definition creation_preimage :: "hash_suite_resolver \<Rightarrow> standard_asset_definition_v1 \<Rightarrow> bytes \<Rightarrow> bool" where
  "creation_preimage r d b \<longleftrightarrow> (\<exists>payload.
     encode_asset_id_derivation_input (sd_creation_authority d) (sd_creation_seed d) (sd_creation_epoch d) =
       Ok payload \<and>
     frame_hash_input (sd_derivation_algorithm d) HpAssetId (hsr_protocol_version r) (hsr_chain_id r) payload =
       Ok b)"

lemma validated_preimage:
  assumes "standard_asset_definition_validate sha r d = Ok ()"
  shows "sd_creation_protocol_version d = hsr_protocol_version r"
    "\<exists>b. creation_preimage r d b \<and>
       hash_unframed_bytes sha (sd_derivation_algorithm d) b = Ok (sd_asset_id d)"
proof -
  have d: "derive_asset_id sha r (sd_creation_epoch d) (sd_creation_authority d) (sd_creation_seed d) =
      Ok (sd_asset_id d, sd_derivation_algorithm d)"
    and "sd_creation_protocol_version d = hsr_protocol_version r"
    using assms by (auto simp: standard_asset_definition_validate_def result_simps
        split: if_splits prod.splits)
  then show "sd_creation_protocol_version d = hsr_protocol_version r" by simp
  from d show "\<exists>b. creation_preimage r d b \<and>
      hash_unframed_bytes sha (sd_derivation_algorithm d) b = Ok (sd_asset_id d)"
    by (rule derive_asset_idD) (auto simp: creation_preimage_def)
qed

text \<open>
  C20. A Standard Asset definition validates under a resolver exactly when it is what the resolver
  derives from its own creation authority, seed and epoch; and two definitions that validate with
  the same asset identifier, under any two resolvers, are equal in every field and belong to one
  chain, unless their own two framed creation inputs differ and both hash to that identifier.
\<close>

theorem asset_identity_binds_creation:
  "(standard_asset_definition_validate sha r d = Ok () \<longleftrightarrow>
      standard_asset_definition_derive sha r (sd_creation_authority d) (sd_creation_seed d)
        (sd_creation_epoch d) = Ok d) \<and>
   (standard_asset_definition_validate sha r d = Ok () \<longrightarrow>
    standard_asset_definition_validate sha r' d' = Ok () \<longrightarrow> sd_asset_id d = sd_asset_id d' \<longrightarrow>
      d = d' \<and> hsr_chain_id r = hsr_chain_id r' \<or>
      (\<exists>b b'. creation_preimage r d b \<and> creation_preimage r' d' b' \<and> b \<noteq> b' \<and>
         hash_unframed_bytes sha (sd_derivation_algorithm d) b = Ok (sd_asset_id d) \<and>
         hash_unframed_bytes sha (sd_derivation_algorithm d') b' = Ok (sd_asset_id d)))"
proof (intro conjI impI)
  assume v: "standard_asset_definition_validate sha r d = Ok ()"
    "standard_asset_definition_validate sha r' d' = Ok ()" and same: "sd_asset_id d = sd_asset_id d'"
  obtain b b' where b: "creation_preimage r d b" "creation_preimage r' d' b'"
    "hash_unframed_bytes sha (sd_derivation_algorithm d) b = Ok (sd_asset_id d)"
    "hash_unframed_bytes sha (sd_derivation_algorithm d') b' = Ok (sd_asset_id d)"
    using validated_preimage(2) [OF v(1)] validated_preimage(2) [OF v(2)] same by auto
  have "d = d' \<and> hsr_chain_id r = hsr_chain_id r'" if same_input: "b = b'"
  proof -
    obtain pl pl' where pl: "encode_asset_id_derivation_input (sd_creation_authority d) (sd_creation_seed d)
        (sd_creation_epoch d) = Ok pl"
      "encode_asset_id_derivation_input (sd_creation_authority d') (sd_creation_seed d')
        (sd_creation_epoch d') = Ok pl'"
      "frame_hash_input (sd_derivation_algorithm d) HpAssetId (hsr_protocol_version r) (hsr_chain_id r) pl = Ok b"
      "frame_hash_input (sd_derivation_algorithm d') HpAssetId (hsr_protocol_version r') (hsr_chain_id r') pl' =
        Ok b"
      using b(1,2) unfolding same_input creation_preimage_def by blast
    note eq = frame_hash_input_inject [OF pl(3,4)]
    then have "pl' = pl" by simp
    from derivation_input_inject [OF pl(1) pl(2) [unfolded this]] show ?thesis
      using eq same validated_preimage(1) [OF v(1)] validated_preimage(1) [OF v(2)]
      by (intro conjI standard_asset_definition_v1.equality) auto
  qed
  then show "d = d' \<and> hsr_chain_id r = hsr_chain_id r' \<or>
      (\<exists>b b'. creation_preimage r d b \<and> creation_preimage r' d' b' \<and> b \<noteq> b' \<and>
         hash_unframed_bytes sha (sd_derivation_algorithm d) b = Ok (sd_asset_id d) \<and>
         hash_unframed_bytes sha (sd_derivation_algorithm d') b' = Ok (sd_asset_id d))"
    using b by blast
qed (rule definition_validate_Ok_iff)

section \<open>Nominal types of the bodies\<close>

lemma declaration_ok_asset_constructor: "t \<noteq> 0 \<Longrightarrow> declaration_ok (asset_constructor t)"
  by (simp add: declaration_ok_def asset_constructor_def asset_id_projection_def asset_ids
      MAX_PROJECTION_DEPTH_def)

lemma project_asset_constructor:
  "project_type_arg (asset_constructor t) body = Ok (Some (TaAssetId a)) \<longleftrightarrow>
     (\<exists>f ab. decode_canonical_frame body = Ok f \<and> cf_type_id f = t \<and> cf_version f = 1 \<and>
        frame_field f 1 = Some ab \<and> decode_asset_id ab = Ok a)"
  by (auto simp: project_type_arg_def asset_constructor_def asset_id_projection_def asset_ids
      result_simps decode_asset_id_def decode_closed_frame_def array32_def split: if_splits)

lemma project_asset_constructor_shape:
  "project_type_arg (asset_constructor t) body = Ok ta \<Longrightarrow> \<exists>a. ta = Some (TaAssetId a)"
  by (auto simp: project_type_arg_def asset_constructor_def result_simps split: if_splits)

lemma project_coin:
  assumes "coin_wf c" "encode_standard_asset_coin_v1 c = Ok b"
  shows "project_type_arg coin_constructor_declaration b = Ok (Some (TaAssetId (sc_asset_id c)))"
proof -
  obtain ab where ab: "encode_asset_id (sc_asset_id c) = Ok ab"
    "encode_frame \<lparr> cf_type_id = 0x7102, cf_version = 1, cf_fields =
         [(1, ab), (2, u64_to_le_bytes (sc_amount c))] \<rparr> = Ok b"
    using assms(2) by (auto simp: encode_coin_Ok_iff)
  then have "decode_canonical_frame b = Ok \<lparr> cf_type_id = 0x7102, cf_version = 1, cf_fields =
         [(1, ab), (2, u64_to_le_bytes (sc_amount c))] \<rparr>"
    by (intro decode_encode_frame) auto
  then show ?thesis
    using ab assms(1)
    by (auto simp: coin_constructor_declaration_def project_asset_constructor asset_ids
        decode_asset_id_Ok_iff coin_wf_def)
qed

definition asset_declarations :: "constructor_declaration list" where
  "asset_declarations = [definition_constructor_declaration, coin_constructor_declaration,
     mint_capability_constructor_declaration, treasury_cap_constructor_declaration]"

lemmas asset_declaration_defs = asset_declarations_def definition_constructor_declaration_def
  coin_constructor_declaration_def mint_capability_constructor_declaration_def
  treasury_cap_constructor_declaration_def

lemma asset_declarations_ok: "declarations_ok asset_declarations"
  by (simp add: declarations_ok_def asset_declaration_defs declaration_ok_asset_constructor asset_ids)
    (simp add: asset_constructor_def MAX_CONSTRUCTORS_def)

lemma asset_constructor_registry_eq: "asset_constructor_registry = Ok (registry_of asset_declarations)"
  using register_all_Ok_iff [of asset_declarations "registry_of asset_declarations"]
    asset_declarations_ok
  by (auto simp: register_all_def asset_declarations_def asset_constructor_registry_def result_simps)

lemma asset_registry_coin:
  "asset_constructor_registry = Ok registry \<Longrightarrow>
   registry_get registry STANDARD_ASSET_COIN_V1_TYPE_ID = Some coin_constructor_declaration"
  by (auto simp: asset_constructor_registry_eq registry_of_lookup [OF asset_declarations_ok])
    (simp_all add: asset_declaration_defs asset_constructor_def)

lemma derived_type_id_verifies:
  "derive_type_id sha r e tag = Ok d \<Longrightarrow> e \<le> e' \<Longrightarrow> verify_type_id sha r d e' tag = Ok True"
  by (auto simp: derive_type_id_def verify_type_id_def result_simps
      intro: derived_type_identity_verifies)

text \<open>A coin object as the ledger stores it, created at epoch \<open>e0\<close>.\<close>

definition coin_object ::
  "sha_functions \<Rightarrow> hash_suite_resolver \<Rightarrow> epoch \<Rightarrow> standard_asset_coin_v1 \<Rightarrow> object \<Rightarrow> bool" where
  "coin_object sha r e0 c obj \<longleftrightarrow> coin_wf c \<and>
     encode_standard_asset_coin_v1 c = Ok (ob_data obj) \<and>
     derive_coin_type_id sha r e0 (sc_asset_id c) = Ok (ob_type_hash obj) \<and>
     ob_schema_version obj = STANDARD_ASSET_SCHEMA_VERSION_V1"

definition coin_param :: "access_mode \<Rightarrow> param_declaration" where
  "coin_param mode = \<lparr> pd_mode = mode, pd_constructor = STANDARD_ASSET_COIN_V1_TYPE_ID,
     pd_schema_version = STANDARD_ASSET_SCHEMA_VERSION_V1 \<rparr>"

lemma coin_input_typed:
  assumes reg: "asset_constructor_registry = Ok registry" and coin: "coin_object sha r e0 c (ri_object i)"
    and "e0 \<le> e"
  shows "input_typed registry sha r e (coin_param (ri_mode i), i) b \<longleftrightarrow>
    b = \<lparr> ti_declaration = coin_param (ri_mode i), ti_object = ri_object i,
          ti_type_tag = coin_type_tag (sc_asset_id c) \<rparr>"
proof -
  have body: "project_type_arg coin_constructor_declaration (ob_data (ri_object i)) =
      Ok (Some (TaAssetId (sc_asset_id c)))"
    using coin by (intro project_coin) (auto simp: coin_object_def)
  have "derive_type_id sha r e0 (coin_type_tag (sc_asset_id c)) = Ok (ob_type_hash (ri_object i))"
    using coin by (auto simp: coin_object_def derive_coin_type_id_def result_simps)
  then have hash: "verify_type_id sha r (ob_type_hash (ri_object i)) e (coin_type_tag (sc_asset_id c)) =
      Ok True"
    using assms(3) by (rule derived_type_id_verifies)
  have schema: "cd_schema_version coin_constructor_declaration = STANDARD_ASSET_SCHEMA_VERSION_V1"
    by (simp add: asset_declaration_defs asset_constructor_def)
  show ?thesis
  proof
    assume "input_typed registry sha r e (coin_param (ri_mode i), i) b"
    then show "b = \<lparr> ti_declaration = coin_param (ri_mode i), ti_object = ri_object i,
        ti_type_tag = coin_type_tag (sc_asset_id c) \<rparr>"
      using asset_registry_coin [OF reg] body
      by (cases b, cases "ti_type_tag b") (auto simp: input_typed_def coin_param_def coin_type_tag_def)
  next
    assume "b = \<lparr> ti_declaration = coin_param (ri_mode i), ti_object = ri_object i,
        ti_type_tag = coin_type_tag (sc_asset_id c) \<rparr>"
    then show "input_typed registry sha r e (coin_param (ri_mode i), i) b"
      using asset_registry_coin [OF reg] body hash coin schema
      by (simp add: input_typed_def coin_param_def coin_object_def) (simp add: coin_type_tag_def)
  qed
qed

definition coin_binding :: "epoch \<times> standard_asset_coin_v1 \<Rightarrow> resolved_input \<Rightarrow> typed_input" where
  "coin_binding ec i = \<lparr> ti_declaration = coin_param (ri_mode i), ti_object = ri_object i,
     ti_type_tag = coin_type_tag (sc_asset_id (snd ec)) \<rparr>"

lemma coin_inputs_typed:
  assumes reg: "asset_constructor_registry = Ok registry"
    and "list_all2 (\<lambda>(e0, c) i. e0 \<le> e \<and> coin_object sha r e0 c (ri_object i)) cs inputs"
  shows "list_all2 (input_typed registry sha r e)
      (zip (map (\<lambda>i. coin_param (ri_mode i)) inputs) inputs) bs \<longleftrightarrow> bs = map2 coin_binding cs inputs"
  using assms(2)
proof (induction cs inputs arbitrary: bs rule: list_all2_induct)
  case Nil
  then show ?case by simp
next
  case (Cons ec cs i inputs)
  have "input_typed registry sha r e (coin_param (ri_mode i), i) b \<longleftrightarrow> b = coin_binding ec i" for b
    using coin_input_typed [OF reg, of sha r "fst ec" "snd ec" i e b] Cons.hyps(1)
    by (auto simp: coin_binding_def)
  then show ?case using Cons.IH by (auto simp: list_all2_Cons1)
qed

lemma shared_asset_bindings:
  assumes "length cs = length inputs"
  shows "(\<exists>a. list_all (\<lambda>b. tt_type_arg (ti_type_tag b) = None \<or> tt_type_arg (ti_type_tag b) = Some a)
      (map2 coin_binding cs inputs)) \<longleftrightarrow> (\<exists>a. list_all (\<lambda>(e0, c). sc_asset_id c = a) cs)"
proof -
  have "list_all (\<lambda>b. tt_type_arg (ti_type_tag b) = None \<or> tt_type_arg (ti_type_tag b) = Some (TaAssetId a))
      (map2 coin_binding cs inputs) \<longleftrightarrow> list_all (\<lambda>(e0, c). sc_asset_id c = a) cs" for a
    using assms
    by (induction cs inputs rule: list_induct2) (auto simp: coin_binding_def coin_type_tag_def)
  moreover have "(\<exists>a. P a) \<longleftrightarrow> (\<exists>a. P (TaAssetId a))" for P by (metis type_arg.exhaust)
  ultimately show ?thesis by simp
qed

text \<open>
  C15. An entrypoint that declares coin parameters is called with coins of one asset only. On the
  Standard Asset registry, inputs that are coin objects created at any epochs up to the call, each
  given to a coin parameter of its own access mode, are accepted if and only if all of them carry
  the same asset identifier, and the bindings then give every input the coin type of that asset.
\<close>

theorem coin_inputs_share_asset:
  assumes "asset_constructor_registry = Ok registry"
    and "list_all2 (\<lambda>(e0, c) i. e0 \<le> e \<and> coin_object sha r e0 c (ri_object i)) cs inputs"
    and "es_params signature = map (\<lambda>i. coin_param (ri_mode i)) inputs"
  shows "verify_entrypoint_inputs signature registry sha r e inputs = Ok bs \<longleftrightarrow>
    (\<exists>a. list_all (\<lambda>(e0, c). sc_asset_id c = a) cs \<and>
      bs = map (\<lambda>i. \<lparr> ti_declaration = coin_param (ri_mode i), ti_object = ri_object i,
        ti_type_tag = coin_type_tag a \<rparr>) inputs)"
proof -
  have len: "length cs = length inputs" using assms(2) by (rule list_all2_lengthD)
  have "verify_entrypoint_inputs signature registry sha r e inputs = Ok bs \<longleftrightarrow>
      bs = map2 coin_binding cs inputs \<and> (\<exists>a. list_all (\<lambda>(e0, c). sc_asset_id c = a) cs)"
    unfolding verify_entrypoint_inputs_Ok_iff assms(3) coin_inputs_typed [OF assms(1,2)]
    using shared_asset_bindings [OF len] by auto
  moreover have "map2 coin_binding cs inputs = map (\<lambda>i. \<lparr> ti_declaration = coin_param (ri_mode i),
      ti_object = ri_object i, ti_type_tag = coin_type_tag a \<rparr>) inputs"
    if "list_all (\<lambda>(e0, c). sc_asset_id c = a) cs" for a
    using len that by (induction cs inputs rule: list_induct2) (auto simp: coin_binding_def)
  ultimately show ?thesis by auto
qed

section \<open>Witnesses\<close>

definition sample_resolver :: hash_suite_resolver where
  "sample_resolver = \<lparr> hsr_chain_id = str ''c'', hsr_protocol_version = 1, hsr_schedules =
     [\<lparr> hss_activation_epoch = 0, hss_suite = hash_suite_genesis \<rparr>] \<rparr>"

definition identity_sha :: sha_functions where
  "identity_sha = \<lparr> sha2_256 = (\<lambda>x. x), sha3_256 = rev \<rparr>"

lemmas frame_sizes = encode_frame_Ok_iff frame_fits_def frame_size_def MAX_CANONICAL_FRAME_BYTES_def

lemma encode_asset_id_small: "array32 a \<Longrightarrow> \<exists>b. encode_asset_id a = Ok b \<and> length b = 48"
  by (simp add: encode_asset_id_Ok_iff frame_sizes array32_def)

lemma encode_coin_small: "coin_wf c \<Longrightarrow> \<exists>b. encode_standard_asset_coin_v1 c = Ok b"
  using encode_asset_id_small [of "sc_asset_id c"]
  by (auto simp: encode_coin_Ok_iff frame_sizes coin_wf_def)

lemma encode_type_arg_small: "array32 a \<Longrightarrow> \<exists>b. encode_type_arg (TaAssetId a) = Ok b \<and> length b = 56"
  by (simp add: encode_type_arg_Ok_iff frame_sizes array32_def)

lemma coin_type_small:
  assumes "array32 a"
  shows "\<exists>d. derive_coin_type_id identity_sha sample_resolver e a = Ok d"
proof -
  obtain ab where ab: "encode_type_arg (TaAssetId a) = Ok ab" "length ab = 56"
    using encode_type_arg_small [OF assms] by blast
  obtain pl where pl: "encode_type_tag (coin_type_tag a) = Ok pl" "length pl = 80"
    using ab by (simp add: encode_type_tag_Ok_iff coin_type_tag_def frame_sizes)
  obtain fb where "frame_type_identity_input Sha2_256 (str ''c'') pl = Ok fb"
    using pl(2) by (simp add: frame_type_identity_input_Ok_iff frame_sizes str_def)
  then show ?thesis
    using pl(1) by (simp add: derive_coin_type_id_def derive_type_id_def hash_type_identity_def
        sample_resolver_def identity_sha_def suite_for_epoch_def hash_suite_genesis_def
        hash_suite_uniform_def)
qed

lemma coin_object_exists:
  assumes "coin_wf c"
  shows "\<exists>obj. coin_object identity_sha sample_resolver e c obj"
proof -
  obtain b d where "encode_standard_asset_coin_v1 c = Ok b"
    "derive_coin_type_id identity_sha sample_resolver e (sc_asset_id c) = Ok d"
    using encode_coin_small [OF assms] coin_type_small [of "sc_asset_id c" e] assms
    by (auto simp: coin_wf_def)
  then show ?thesis
    using assms by (intro exI [of _ "\<lparr> ob_id = [], ob_version = 1, ob_owner = Shared,
      ob_type_hash = d, ob_schema_version = 1, ob_data = b \<rparr>"])
      (simp add: coin_object_def STANDARD_ASSET_SCHEMA_VERSION_V1_def)
qed

theorem coin_inputs_share_asset_witness:
  "\<exists>registry x y z. asset_constructor_registry = Ok registry \<and>
     coin_object identity_sha sample_resolver 0 \<lparr> sc_asset_id = replicate 32 7, sc_amount = 5 \<rparr> x \<and>
     coin_object identity_sha sample_resolver 3 \<lparr> sc_asset_id = replicate 32 7, sc_amount = 9 \<rparr> y \<and>
     coin_object identity_sha sample_resolver 0 \<lparr> sc_asset_id = replicate 32 8, sc_amount = 1 \<rparr> z \<and>
     is_ok (verify_entrypoint_inputs \<lparr> es_entrypoint = str ''m'',
       es_params = [coin_param Consume, coin_param Write] \<rparr> registry identity_sha sample_resolver 4
       [\<lparr> ri_mode = Consume, ri_object = x \<rparr>, \<lparr> ri_mode = Write, ri_object = y \<rparr>]) \<and>
     \<not> is_ok (verify_entrypoint_inputs \<lparr> es_entrypoint = str ''m'',
       es_params = [coin_param Consume, coin_param Write] \<rparr> registry identity_sha sample_resolver 4
       [\<lparr> ri_mode = Consume, ri_object = x \<rparr>, \<lparr> ri_mode = Write, ri_object = z \<rparr>])"
proof -
  let ?c = "\<lambda>a n. \<lparr> sc_asset_id = replicate 32 a, sc_amount = n \<rparr>"
  have wf: "coin_wf (?c a n)" if "n \<noteq> 0" for a n using that by (simp add: coin_wf_def array32_def)
  obtain x y z where coins: "coin_object identity_sha sample_resolver 0 (?c 7 5) x"
    "coin_object identity_sha sample_resolver 3 (?c 7 9) y"
    "coin_object identity_sha sample_resolver 0 (?c 8 1) z"
    using coin_object_exists [OF wf [of 5 7], of 0] coin_object_exists [OF wf [of 9 7], of 3]
      coin_object_exists [OF wf [of 1 8], of 0] by auto
  let ?sg = "\<lparr> es_entrypoint = str ''m'', es_params = [coin_param Consume, coin_param Write] \<rparr>"
  let ?r = "registry_of asset_declarations"
  let ?in = "\<lambda>w. [\<lparr> ri_mode = Consume, ri_object = x \<rparr>, \<lparr> ri_mode = Write, ri_object = w \<rparr>]"
  have reg: "asset_constructor_registry = Ok ?r" by (rule asset_constructor_registry_eq)
  have "\<exists>bs. verify_entrypoint_inputs ?sg ?r identity_sha sample_resolver 4 (?in y) = Ok bs"
    using coins by (subst coin_inputs_share_asset [OF reg, where cs = "[(0, ?c 7 5), (3, ?c 7 9)]"]) auto
  moreover have "verify_entrypoint_inputs ?sg ?r identity_sha sample_resolver 4 (?in z) \<noteq> Ok bs" for bs
    using coins by (subst coin_inputs_share_asset [OF reg, where cs = "[(0, ?c 7 5), (0, ?c 8 1)]"]) auto
  ultimately show ?thesis
    using reg coins by (intro exI [of _ ?r] exI [of _ x] exI [of _ y] exI [of _ z]) (simp add: is_ok_iff)
qed

lemma sample_definition:
  "\<exists>d. standard_asset_definition_derive identity_sha sample_resolver (replicate 32 1) (replicate 32 k) 6 = Ok d \<and>
     sd_creation_authority d = replicate 32 1 \<and> sd_creation_seed d = replicate 32 k \<and>
     sd_derivation_algorithm d = Sha2_256 \<and> standard_asset_definition_validate identity_sha sample_resolver d = Ok ()"
proof -
  obtain pl where pl: "encode_asset_id_derivation_input (replicate 32 1) (replicate 32 k) 6 = Ok pl"
    "length pl = 100"
    by (simp add: derivation_input_Ok_iff frame_sizes)
  obtain fb where "frame_hash_input Sha2_256 HpAssetId 1 (str ''c'') pl = Ok fb"
    using pl(2) by (simp add: frame_hash_input_Ok_iff frame_sizes str_def)
  then obtain d where d: "standard_asset_definition_derive identity_sha sample_resolver
      (replicate 32 1) (replicate 32 k) 6 = Ok d" "sd_creation_authority d = replicate 32 1"
      "sd_creation_seed d = replicate 32 k" "sd_creation_epoch d = 6" "sd_derivation_algorithm d = Sha2_256"
    using pl(1) by (simp add: standard_asset_definition_derive_def derive_asset_id_def
        hash_for_purpose_def builtin_hash_def sample_resolver_def identity_sha_def suite_for_epoch_def
        hash_suite_genesis_def hash_suite_uniform_def)
  then show ?thesis by (auto simp: definition_validate_Ok_iff)
qed

text \<open>With the identity in place of the hash nothing collides, so two seeds give two identifiers.\<close>

theorem asset_identity_binds_creation_witness:
  "\<exists>d d'. standard_asset_definition_validate identity_sha sample_resolver d = Ok () \<and>
     standard_asset_definition_validate identity_sha sample_resolver d' = Ok () \<and>
     sd_creation_seed d = replicate 32 2 \<and> sd_creation_seed d' = replicate 32 3 \<and>
     standard_asset_definition_derive identity_sha sample_resolver (sd_creation_authority d)
       (sd_creation_seed d) (sd_creation_epoch d) = Ok d \<and>
     sd_asset_id d \<noteq> sd_asset_id d'"
proof -
  obtain d d' where d: "standard_asset_definition_validate identity_sha sample_resolver d = Ok ()"
      "standard_asset_definition_validate identity_sha sample_resolver d' = Ok ()"
    and seeds: "sd_creation_seed d = replicate 32 2" "sd_creation_seed d' = replicate 32 3"
    and algs: "sd_derivation_algorithm d = Sha2_256" "sd_derivation_algorithm d' = Sha2_256"
    using sample_definition [of 2] sample_definition [of 3] by blast
  have "b = b'" if "hash_unframed_bytes identity_sha Sha2_256 b = Ok x"
      "hash_unframed_bytes identity_sha Sha2_256 b' = Ok x" for b b' x
    using that by (simp add: identity_sha_def)
  moreover have "d \<noteq> d'" using seeds by auto
  ultimately have "sd_asset_id d \<noteq> sd_asset_id d'"
    using asset_identity_binds_creation [of identity_sha sample_resolver d sample_resolver d'] d
    unfolding algs by blast
  then show ?thesis
    using asset_identity_binds_creation [of identity_sha sample_resolver d sample_resolver d'] d seeds by blast
qed

end
