(* ===== verification/Fees.thy ===== *)
theory Fees
  imports Standard_Assets
begin

text \<open>
  The crate \<^verbatim>\<open>src/crates/fees\<close>: fee payments, the registry of fee assets, gas schedules, the checked
  fee arithmetic, and the reservation pricing of \<^verbatim>\<open>reservation.rs\<close> that admits a call against a
  maximal charge and settles it against the metered one.
\<close>

section \<open>Data\<close>

definition FEE_PAYMENT_TYPE_ID :: u16 where
  "FEE_PAYMENT_TYPE_ID = 0x7002"

definition FEE_ASSET_TYPE_ID :: u16 where
  "FEE_ASSET_TYPE_ID = 0x7003"

definition FEE_ASSET_REGISTRY_TYPE_ID :: u16 where
  "FEE_ASSET_REGISTRY_TYPE_ID = 0x7004"

definition GAS_SCHEDULE_TYPE_ID :: u16 where
  "GAS_SCHEDULE_TYPE_ID = 0x7005"

definition FEE_USAGE_TYPE_ID :: u16 where
  "FEE_USAGE_TYPE_ID = 0x7006"

definition FE_ENCODING_VERSION :: u16 where
  "FE_ENCODING_VERSION = 1"

definition MAX_REGISTRY_ASSETS :: usize where
  "MAX_REGISTRY_ASSETS = 65534"

definition MAX_GAS_SCHEDULE_BYTES :: usize where
  "MAX_GAS_SCHEDULE_BYTES = 10 + 6 * 14"

lemmas fee_ids [encode_simps] = FEE_PAYMENT_TYPE_ID_def FEE_ASSET_TYPE_ID_def
  FEE_ASSET_REGISTRY_TYPE_ID_def GAS_SCHEDULE_TYPE_ID_def FEE_USAGE_TYPE_ID_def
  FE_ENCODING_VERSION_def

type_synonym amount = u64

datatype fee_error =
    FeStandardAsset standard_asset_error
  | ZeroFeeUnitsPerAssetUnit
  | RegistryTooLarge usize
  | DuplicateAsset asset_id
  | UnknownAsset asset_id
  | AssetDisabled asset_id
  | MaxFeeExceeded amount amount
  | ArithmeticOverflow
  | FeCanonicalEncoding canonical_encoding_error
  | FeCanonicalDecoding canonical_decoding_error
  | FeObject object_error
  | GasScheduleTooLarge usize

record fee_payment =
  fp_asset_id :: asset_id
  fp_max_fee :: amount
  fp_fee_object :: object_ref

record fee_asset =
  fa_asset_id :: asset_id
  fa_fee_units_per_asset_unit :: u64
  fa_enabled :: bool

record fee_asset_registry =
  far_assets :: "fee_asset list"

record gas_schedule =
  gs_base_fee :: u64
  gs_execution_price :: u64
  gs_read_price :: u64
  gs_write_price :: u64
  gs_storage_price :: u64
  gs_system_module_price :: u64

record fee_usage =
  fu_execution_units :: u64
  fu_state_read_units :: u64
  fu_state_write_units :: u64
  fu_storage_units :: u64
  fu_system_module_units :: u64

definition gas_schedule_genesis :: gas_schedule where
  "gas_schedule_genesis = \<lparr> gs_base_fee = 0, gs_execution_price = 0, gs_read_price = 0,
     gs_write_price = 0, gs_storage_price = 0, gs_system_module_price = 0 \<rparr>"

section \<open>The registry of fee assets\<close>

definition fee_asset_validate :: "fee_asset \<Rightarrow> (fee_error, unit) result" where
  "fee_asset_validate asset =
     (if fa_fee_units_per_asset_unit asset = 0 then Err ZeroFeeUnitsPerAssetUnit else Ok ())"

definition fee_asset_registry_new :: fee_asset_registry where
  "fee_asset_registry_new = \<lparr> far_assets = [] \<rparr>"

definition registry_validate_step ::
  "asset_id option \<Rightarrow> fee_asset \<Rightarrow> (fee_error, asset_id option) result" where
  "registry_validate_step previous asset =
     try_bind (fee_asset_validate asset) (\<lambda>_.
     if previous = Some (fa_asset_id asset) then Err (DuplicateAsset (fa_asset_id asset))
     else Ok (Some (fa_asset_id asset)))"

definition fee_asset_registry_validate :: "fee_asset_registry \<Rightarrow> (fee_error, unit) result" where
  "fee_asset_registry_validate r =
     (if length (far_assets r) > MAX_REGISTRY_ASSETS then Err (RegistryTooLarge (length (far_assets r)))
      else try_bind (try_fold registry_validate_step None (far_assets r)) (\<lambda>_. Ok ()))"

definition fee_registry_get :: "fee_asset_registry \<Rightarrow> asset_id \<Rightarrow> fee_asset option" where
  "fee_registry_get r asset = bsearch_get asset fa_asset_id (far_assets r)"

definition add_asset :: "fee_asset \<Rightarrow> fee_asset_registry \<Rightarrow> (fee_error, fee_asset_registry) result" where
  "add_asset asset r =
     try_bind (fee_asset_validate asset) (\<lambda>_.
     case binary_search_by_key (fa_asset_id asset) fa_asset_id (far_assets r) of
       Inr _ \<Rightarrow> Err (DuplicateAsset (fa_asset_id asset))
     | Inl index \<Rightarrow> Ok \<lparr> far_assets = vec_insert index asset (far_assets r) \<rparr>)"

definition disable_asset :: "asset_id \<Rightarrow> fee_asset_registry \<Rightarrow> (fee_error, fee_asset_registry) result"
  where
  "disable_asset asset r =
     (case binary_search_by_key asset fa_asset_id (far_assets r) of
        Inl _ \<Rightarrow> Err (UnknownAsset asset)
      | Inr index \<Rightarrow>
          Ok \<lparr> far_assets = (far_assets r)[index := (far_assets r ! index) \<lparr> fa_enabled := False \<rparr>] \<rparr>)"

definition update_asset :: "fee_asset \<Rightarrow> fee_asset_registry \<Rightarrow> (fee_error, fee_asset_registry) result"
  where
  "update_asset asset r =
     try_bind (fee_asset_validate asset) (\<lambda>_.
     case binary_search_by_key (fa_asset_id asset) fa_asset_id (far_assets r) of
       Inl _ \<Rightarrow> Err (UnknownAsset (fa_asset_id asset))
     | Inr index \<Rightarrow> Ok \<lparr> far_assets = (far_assets r)[index := asset] \<rparr>)"

section \<open>Codecs\<close>

definition encode_fee_payment :: "fee_payment \<Rightarrow> (fee_error, bytes) result" where
  "encode_fee_payment p =
     try_bind (map_err FeStandardAsset (encode_asset_id (fp_asset_id p))) (\<lambda>b.
     try_bind (map_err FeCanonicalEncoding (
       try_bind (field_bytes 1 b (cs_new FEE_PAYMENT_TYPE_ID FE_ENCODING_VERSION)) (\<lambda>c.
       field_u64 2 (fp_max_fee p) c))) (\<lambda>c.
     try_bind (map_err FeObject (encode_object_ref (fp_fee_object p))) (\<lambda>b.
     map_err FeCanonicalEncoding (try_bind (field_bytes 3 b c) finish))))"

definition decode_fee_payment :: "bytes \<Rightarrow> (fee_error, fee_payment) result" where
  "decode_fee_payment input =
     try_bind (map_err FeCanonicalDecoding
       (decode_closed_frame FEE_PAYMENT_TYPE_ID FE_ENCODING_VERSION [1, 2, 3] input)) (\<lambda>frame.
     try_bind (map_err FeCanonicalDecoding (required_field frame 1)) (\<lambda>b.
     try_bind (map_err FeStandardAsset (decode_asset_id b)) (\<lambda>asset.
     try_bind (map_err FeCanonicalDecoding (required_u64 frame 2)) (\<lambda>max_fee.
     try_bind (map_err FeCanonicalDecoding (required_field frame 3)) (\<lambda>b.
     try_bind (map_err FeObject (decode_object_ref b)) (\<lambda>fee_object.
     Ok \<lparr> fp_asset_id = asset, fp_max_fee = max_fee, fp_fee_object = fee_object \<rparr>))))))"

definition encode_fee_asset :: "fee_asset \<Rightarrow> (fee_error, bytes) result" where
  "encode_fee_asset asset =
     try_bind (fee_asset_validate asset) (\<lambda>_.
     try_bind (map_err FeStandardAsset (encode_asset_id (fa_asset_id asset))) (\<lambda>b.
     map_err FeCanonicalEncoding (
       try_bind (field_bytes 1 b (cs_new FEE_ASSET_TYPE_ID FE_ENCODING_VERSION)) (\<lambda>c.
       try_bind (field_u64 2 (fa_fee_units_per_asset_unit asset) c) (\<lambda>c.
       try_bind (field_bytes 3 [if fa_enabled asset then 1 else 0] c) finish)))))"

definition encode_fee_asset_registry :: "fee_asset_registry \<Rightarrow> (fee_error, bytes) result" where
  "encode_fee_asset_registry r =
     try_bind (fee_asset_registry_validate r) (\<lambda>_.
     try_bind (map_err FeCanonicalEncoding (field_u32 1 (of_nat (length (far_assets r)))
       (cs_new FEE_ASSET_REGISTRY_TYPE_ID FE_ENCODING_VERSION))) (\<lambda>c.
     try_bind (put_items (RegistryTooLarge (length (far_assets r))) FeCanonicalEncoding
       encode_fee_asset 2 (far_assets r) c) (\<lambda>c.
     map_err FeCanonicalEncoding (finish c))))"

definition encode_gas_schedule :: "gas_schedule \<Rightarrow> (fee_error, bytes) result" where
  "encode_gas_schedule s = map_err FeCanonicalEncoding (
     try_bind (field_u64 1 (gs_base_fee s) (cs_new GAS_SCHEDULE_TYPE_ID FE_ENCODING_VERSION)) (\<lambda>c.
     try_bind (field_u64 2 (gs_execution_price s) c) (\<lambda>c.
     try_bind (field_u64 3 (gs_read_price s) c) (\<lambda>c.
     try_bind (field_u64 4 (gs_write_price s) c) (\<lambda>c.
     try_bind (field_u64 5 (gs_storage_price s) c) (\<lambda>c.
     try_bind (field_u64 6 (gs_system_module_price s) c) finish))))))"

definition decode_gas_schedule :: "bytes \<Rightarrow> (fee_error, gas_schedule) result" where
  "decode_gas_schedule input =
     (if length input > MAX_GAS_SCHEDULE_BYTES then Err (GasScheduleTooLarge (length input))
      else
        try_bind (map_err FeCanonicalDecoding (decode_closed_frame GAS_SCHEDULE_TYPE_ID
          FE_ENCODING_VERSION [1, 2, 3, 4, 5, 6] input)) (\<lambda>frame.
        map_err FeCanonicalDecoding (
          try_bind (required_u64 frame 1) (\<lambda>base_fee.
          try_bind (required_u64 frame 2) (\<lambda>execution_price.
          try_bind (required_u64 frame 3) (\<lambda>read_price.
          try_bind (required_u64 frame 4) (\<lambda>write_price.
          try_bind (required_u64 frame 5) (\<lambda>storage_price.
          try_bind (required_u64 frame 6) (\<lambda>system_module_price.
          Ok \<lparr> gs_base_fee = base_fee, gs_execution_price = execution_price,
               gs_read_price = read_price, gs_write_price = write_price,
               gs_storage_price = storage_price,
               gs_system_module_price = system_module_price \<rparr>)))))))))"

definition encode_fee_usage :: "fee_usage \<Rightarrow> (fee_error, bytes) result" where
  "encode_fee_usage u = map_err FeCanonicalEncoding (
     try_bind (field_u64 1 (fu_execution_units u) (cs_new FEE_USAGE_TYPE_ID FE_ENCODING_VERSION)) (\<lambda>c.
     try_bind (field_u64 2 (fu_state_read_units u) c) (\<lambda>c.
     try_bind (field_u64 3 (fu_state_write_units u) c) (\<lambda>c.
     try_bind (field_u64 4 (fu_storage_units u) c) (\<lambda>c.
     try_bind (field_u64 5 (fu_system_module_units u) c) finish)))))"

section \<open>Fee arithmetic\<close>

definition and_then :: "'a option \<Rightarrow> ('a \<Rightarrow> 'b option) \<Rightarrow> 'b option" where
  "and_then m f = (case m of None \<Rightarrow> None | Some x \<Rightarrow> f x)"

definition calculate_fee :: "fee_usage \<Rightarrow> gas_schedule \<Rightarrow> (fee_error, amount) result" where
  "calculate_fee usage schedule =
     try_bind (ok_or (checked_mul (fu_execution_units usage) (gs_execution_price schedule))
       ArithmeticOverflow) (\<lambda>execution.
     try_bind (ok_or (checked_mul (fu_state_read_units usage) (gs_read_price schedule))
       ArithmeticOverflow) (\<lambda>reads.
     try_bind (ok_or (checked_mul (fu_state_write_units usage) (gs_write_price schedule))
       ArithmeticOverflow) (\<lambda>writes.
     try_bind (ok_or (checked_mul (fu_storage_units usage) (gs_storage_price schedule))
       ArithmeticOverflow) (\<lambda>storage.
     try_bind (ok_or (checked_mul (fu_system_module_units usage) (gs_system_module_price schedule))
       ArithmeticOverflow) (\<lambda>system.
     ok_or (and_then (and_then (and_then (and_then (checked_add (gs_base_fee schedule) execution)
       (\<lambda>value. checked_add value reads)) (\<lambda>value. checked_add value writes))
       (\<lambda>value. checked_add value storage)) (\<lambda>value. checked_add value system))
       ArithmeticOverflow)))))"

definition ceil_div :: "u64 \<Rightarrow> u64 \<Rightarrow> (fee_error, u64) result" where
  "ceil_div numerator denominator =
     (if denominator = 0 then Err ArithmeticOverflow
      else ok_or (checked_add (numerator div denominator)
        (if numerator mod denominator \<noteq> 0 then 1 else 0)) ArithmeticOverflow)"

definition quote_fee_in_asset ::
  "fee_asset_registry \<Rightarrow> asset_id \<Rightarrow> amount \<Rightarrow> (fee_error, amount) result" where
  "quote_fee_in_asset r asset_id fee_units =
     try_bind (ok_or (fee_registry_get r asset_id) (UnknownAsset asset_id)) (\<lambda>asset.
     if \<not> fa_enabled asset then Err (AssetDisabled asset_id)
     else
       try_bind (fee_asset_validate asset) (\<lambda>_.
       ceil_div fee_units (fa_fee_units_per_asset_unit asset)))"

definition settle_fee_payment ::
  "fee_asset_registry \<Rightarrow> fee_payment \<Rightarrow> amount \<Rightarrow> (fee_error, amount) result" where
  "settle_fee_payment r payment fee_units =
     try_bind (quote_fee_in_asset r (fp_asset_id payment) fee_units) (\<lambda>required.
     if required > fp_max_fee payment then Err (MaxFeeExceeded required (fp_max_fee payment))
     else Ok required)"

section \<open>Reservation pricing\<close>

definition MAX_TOTAL_GAS_UNITS :: u64 where
  "MAX_TOTAL_GAS_UNITS = 1000000"

datatype reservation_error =
    UnsupportedResourcePrice
  | ZeroConversionDivisor
  | NonPositiveAllowance
  | TotalGasLimitExceeded u64 u64 u64
  | ReArithmeticOverflow
  | ActualUsageExceedsLimit u64 u64
  | ReMaxFeeExceeded amount amount

definition checked_total_gas :: "u64 \<Rightarrow> u64 \<Rightarrow> u64 \<Rightarrow> (reservation_error, u64) result" where
  "checked_total_gas application_units reserve_allowance settle_allowance =
     try_bind (ok_or (and_then (checked_add application_units reserve_allowance)
       (\<lambda>value. checked_add value settle_allowance)) ReArithmeticOverflow) (\<lambda>total_units.
     if total_units > MAX_TOTAL_GAS_UNITS
     then Err (TotalGasLimitExceeded application_units reserve_allowance settle_allowance)
     else Ok total_units)"

definition quote_asset_units ::
  "gas_schedule \<Rightarrow> u64 \<Rightarrow> u64 \<Rightarrow> (reservation_error, amount) result" where
  "quote_asset_units schedule fee_units_per_asset_unit total_gas_units =
     try_bind (ok_or (checked_mul (gs_execution_price schedule) total_gas_units)
       ReArithmeticOverflow) (\<lambda>execution_cost.
     try_bind (ok_or (checked_add (gs_base_fee schedule) execution_cost) ReArithmeticOverflow)
       (\<lambda>fee_units.
     map_err (\<lambda>_. ReArithmeticOverflow) (ceil_div fee_units fee_units_per_asset_unit)))"

record reservation_pricer =
  rp_schedule :: gas_schedule
  rp_fee_units_per_asset_unit :: u64
  rp_reserve_allowance :: u64
  rp_settle_allowance :: u64

definition reservation_pricer_new ::
  "gas_schedule \<Rightarrow> u64 \<Rightarrow> u64 \<Rightarrow> u64 \<Rightarrow> (reservation_error, reservation_pricer) result" where
  "reservation_pricer_new schedule fee_units_per_asset_unit reserve_allowance settle_allowance =
     (if gs_read_price schedule \<noteq> 0 \<or> gs_write_price schedule \<noteq> 0 \<or>
         gs_storage_price schedule \<noteq> 0 \<or> gs_system_module_price schedule \<noteq> 0
      then Err UnsupportedResourcePrice
      else if fee_units_per_asset_unit = 0 then Err ZeroConversionDivisor
      else if reserve_allowance = 0 \<or> settle_allowance = 0 then Err NonPositiveAllowance
      else
        try_bind (checked_total_gas 0 reserve_allowance settle_allowance) (\<lambda>_.
        Ok \<lparr> rp_schedule = schedule, rp_fee_units_per_asset_unit = fee_units_per_asset_unit,
             rp_reserve_allowance = reserve_allowance, rp_settle_allowance = settle_allowance \<rparr>))"

record admission =
  ad_schedule :: gas_schedule
  ad_fee_units_per_asset_unit :: u64
  ad_reserve_allowance :: u64
  ad_settle_allowance :: u64
  ad_application_limit :: u64
  ad_reserved :: amount

record settlement =
  se_actual :: amount
  se_refund :: amount

definition admit :: "reservation_pricer \<Rightarrow> u64 \<Rightarrow> amount \<Rightarrow> (reservation_error, admission) result" where
  "admit p application_limit max_fee =
     try_bind (checked_total_gas application_limit (rp_reserve_allowance p) (rp_settle_allowance p))
       (\<lambda>total_gas.
     try_bind (quote_asset_units (rp_schedule p) (rp_fee_units_per_asset_unit p) total_gas)
       (\<lambda>reserved.
     if reserved > max_fee then Err (ReMaxFeeExceeded reserved max_fee)
     else Ok \<lparr> ad_schedule = rp_schedule p,
               ad_fee_units_per_asset_unit = rp_fee_units_per_asset_unit p,
               ad_reserve_allowance = rp_reserve_allowance p,
               ad_settle_allowance = rp_settle_allowance p,
               ad_application_limit = application_limit, ad_reserved = reserved \<rparr>))"

definition settle :: "admission \<Rightarrow> u64 \<Rightarrow> (reservation_error, settlement) result" where
  "settle a actual_application_units =
     (if actual_application_units > ad_application_limit a
      then Err (ActualUsageExceedsLimit actual_application_units (ad_application_limit a))
      else
        try_bind (checked_total_gas actual_application_units (ad_reserve_allowance a)
          (ad_settle_allowance a)) (\<lambda>total_gas.
        try_bind (quote_asset_units (ad_schedule a) (ad_fee_units_per_asset_unit a) total_gas)
          (\<lambda>actual.
        try_bind (ok_or (checked_sub (ad_reserved a) actual) ReArithmeticOverflow) (\<lambda>refund.
        Ok \<lparr> se_actual = actual, se_refund = refund \<rparr>))))"

section \<open>The arithmetic is exact\<close>

lemma and_then_eq_Some: "and_then m f = Some y \<longleftrightarrow> (\<exists>x. m = Some x \<and> f x = Some y)"
  by (auto simp: and_then_def split: option.splits)

definition fee_total :: "fee_usage \<Rightarrow> gas_schedule \<Rightarrow> nat" where
  "fee_total u s = unat (gs_base_fee s) + unat (fu_execution_units u) * unat (gs_execution_price s) +
     unat (fu_state_read_units u) * unat (gs_read_price s) +
     unat (fu_state_write_units u) * unat (gs_write_price s) +
     unat (fu_storage_units u) * unat (gs_storage_price s) +
     unat (fu_system_module_units u) * unat (gs_system_module_price s)"

text \<open>The number of asset units that cover \<open>n\<close> fee units at \<open>d\<close> fee units each.\<close>

definition ceil_nat :: "nat \<Rightarrow> nat \<Rightarrow> nat" where
  "ceil_nat n d = n div d + (if n mod d = 0 then 0 else 1)"

lemma ceil_nat_bounds:
  assumes "0 < d"
  shows "n \<le> ceil_nat n d * d" "ceil_nat n d * d < n + d" "ceil_nat n d \<le> n"
proof -
  define q where "q = n div d"
  have n: "n = q * d + n mod d" by (simp add: q_def)
  have m: "n mod d < d" using assms by simp
  show "n \<le> ceil_nat n d * d" "ceil_nat n d * d < n + d"
    unfolding ceil_nat_def q_def [symmetric] using n m by (auto simp: add_mult_distrib)
  show "ceil_nat n d \<le> n"
  proof (cases "n mod d = 0")
    case True
    then show ?thesis by (simp add: ceil_nat_def)
  next
    case False
    then have "d \<noteq> 1" by auto
    then have "n div d < n" using assms False by (intro div_less_dividend) (auto intro: gr0I)
    then show ?thesis by (simp add: ceil_nat_def)
  qed
qed

lemma ceil_nat_mono: "m \<le> n \<Longrightarrow> ceil_nat m d \<le> ceil_nat n d"
proof (cases "d = 0")
  case False
  assume "m \<le> n"
  then have "ceil_nat m d * d < n + d" using ceil_nat_bounds(2) [of d m] False by simp
  moreover have "n \<le> ceil_nat n d * d" using ceil_nat_bounds(1) [of d n] False by simp
  ultimately have "ceil_nat m d * d < Suc (ceil_nat n d) * d" by simp
  then have "ceil_nat m d < Suc (ceil_nat n d)" using mult_less_cancel2 by blast
  then show ?thesis by simp
qed (auto simp: ceil_nat_def)

lemma ceil_div_Ok_iff:
  "ceil_div n d = Ok q \<longleftrightarrow> d \<noteq> 0 \<and> unat q = ceil_nat (unat n) (unat d)"
proof -
  have "n mod d = 0 \<longleftrightarrow> unat n mod unat d = 0"
    by (simp add: unat_eq_zero unat_mod flip: unat_0_iff)
  then show ?thesis
    by (auto simp: ceil_div_def result_simps checked_add_Some_iff unat_div ceil_nat_def)
qed

lemma ceil_div_total:
  assumes "d \<noteq> 0"
  shows "ceil_div n d = Ok (of_nat (ceil_nat (unat n) (unat d)))"
proof -
  have "ceil_nat (unat n) (unat d) \<le> unat n"
    using assms by (intro ceil_nat_bounds(3)) (simp add: unat_gt_0)
  also have "\<dots> < 2 ^ 64" using unsigned_less [of n, where 'a = nat] by simp
  finally have "unat (of_nat (ceil_nat (unat n) (unat d)) :: u64) = ceil_nat (unat n) (unat d)"
    by (simp add: unat_of_nat)
  then show ?thesis using assms by (simp add: ceil_div_Ok_iff)
qed

lemma calculate_fee_Ok_iff: "calculate_fee u s = Ok c \<longleftrightarrow> unat c = fee_total u s"
proof
  assume "calculate_fee u s = Ok c"
  then show "unat c = fee_total u s"
    by (auto simp: calculate_fee_def result_simps and_then_eq_Some checked_mul_Some_iff
        checked_add_Some_iff fee_total_def)
next
  assume c: "unat c = fee_total u s"
  have lt: "fee_total u s < 2 ^ 64" using unsigned_less [of c, where 'a = nat] c by simp
  let ?w = "\<lambda>n. of_nat n :: u64"
  have small: "unat (?w n) = n" if "n \<le> fee_total u s" for n
    using that lt by (simp add: unat_of_nat)
  define x1 where "x1 = unat (fu_execution_units u) * unat (gs_execution_price s)"
  define x2 where "x2 = unat (fu_state_read_units u) * unat (gs_read_price s)"
  define x3 where "x3 = unat (fu_state_write_units u) * unat (gs_write_price s)"
  define x4 where "x4 = unat (fu_storage_units u) * unat (gs_storage_price s)"
  define x5 where "x5 = unat (fu_system_module_units u) * unat (gs_system_module_price s)"
  have sum: "fee_total u s = unat (gs_base_fee s) + x1 + x2 + x3 + x4 + x5"
    by (simp add: fee_total_def x1_def x2_def x3_def x4_def x5_def)
  have "checked_mul (fu_execution_units u) (gs_execution_price s) = Some (?w x1)"
    "checked_mul (fu_state_read_units u) (gs_read_price s) = Some (?w x2)"
    "checked_mul (fu_state_write_units u) (gs_write_price s) = Some (?w x3)"
    "checked_mul (fu_storage_units u) (gs_storage_price s) = Some (?w x4)"
    "checked_mul (fu_system_module_units u) (gs_system_module_price s) = Some (?w x5)"
    unfolding checked_mul_Some_iff x1_def [symmetric] x2_def [symmetric] x3_def [symmetric]
      x4_def [symmetric] x5_def [symmetric]
    using sum by (auto intro!: small)
  moreover have "checked_add (gs_base_fee s) (?w x1) = Some (?w (unat (gs_base_fee s) + x1))"
    "checked_add (?w (unat (gs_base_fee s) + x1)) (?w x2) = Some (?w (unat (gs_base_fee s) + x1 + x2))"
    "checked_add (?w (unat (gs_base_fee s) + x1 + x2)) (?w x3) =
      Some (?w (unat (gs_base_fee s) + x1 + x2 + x3))"
    "checked_add (?w (unat (gs_base_fee s) + x1 + x2 + x3)) (?w x4) =
      Some (?w (unat (gs_base_fee s) + x1 + x2 + x3 + x4))"
    "checked_add (?w (unat (gs_base_fee s) + x1 + x2 + x3 + x4)) (?w x5) = Some c"
    unfolding checked_add_Some_iff using sum c by (auto simp: small simp del: of_nat_add)
  ultimately show "calculate_fee u s = Ok c"
    by (simp add: calculate_fee_def and_then_def del: of_nat_add)
qed

lemma calculate_fee_cases: "calculate_fee u s = Err ArithmeticOverflow \<or> (\<exists>c. calculate_fee u s = Ok c)"
proof -
  have "ok_or m ArithmeticOverflow = Err ArithmeticOverflow \<or> (\<exists>c. ok_or m ArithmeticOverflow = Ok c)"
    for m :: "u64 option" by (cases m) auto
  moreover have "try_bind (ok_or m ArithmeticOverflow) f = Err ArithmeticOverflow \<or>
      (\<exists>c. try_bind (ok_or m ArithmeticOverflow) f = Ok c)"
    if "\<And>x. f x = Err ArithmeticOverflow \<or> (\<exists>c. f x = Ok c)" for m :: "u64 option" and f :: "u64 \<Rightarrow> (fee_error, u64) result"
    using that by (cases m) auto
  ultimately show ?thesis unfolding calculate_fee_def by simp
qed

text \<open>
  C19. The checked fee chain computes the exact fee: it returns the mathematical sum of the base fee
  and the five products of usage and price whenever that sum fits 64 bits, and reports an arithmetic
  overflow otherwise. It never wraps and never refuses a fee that fits.
\<close>

theorem calculate_fee_exact:
  "calculate_fee usage schedule =
     (if fee_total usage schedule < 2 ^ 64 then Ok (of_nat (fee_total usage schedule))
      else Err ArithmeticOverflow)"
proof (cases "fee_total usage schedule < 2 ^ 64")
  case True
  then show ?thesis by (simp add: calculate_fee_Ok_iff unat_of_nat)
next
  case False
  then have "calculate_fee usage schedule \<noteq> Ok c" for c
    using unsigned_less [of c, where 'a = nat] by (simp add: calculate_fee_Ok_iff)
  then show ?thesis using False calculate_fee_cases by auto
qed

section \<open>The registry is a finite map\<close>

definition fee_registry_ok :: "fee_asset_registry \<Rightarrow> bool" where
  "fee_registry_ok r \<longleftrightarrow> key_sorted fa_asset_id (far_assets r) \<and>
     list_all (\<lambda>x. fa_fee_units_per_asset_unit x \<noteq> 0) (far_assets r)"

lemma fee_asset_validate_Ok_iff [result_simps]:
  "fee_asset_validate x = Ok u \<longleftrightarrow> fa_fee_units_per_asset_unit x \<noteq> 0"
  by (simp add: fee_asset_validate_def)

lemma fee_registry_get_iff:
  "fee_registry_ok r \<Longrightarrow> fee_registry_get r a = Some x \<longleftrightarrow> x \<in> set (far_assets r) \<and> fa_asset_id x = a"
  by (simp add: fee_registry_get_def fee_registry_ok_def bsearch_get_Some_iff)

lemma fee_search:
  assumes "fee_registry_ok r"
  shows "binary_search_by_key a fa_asset_id (far_assets r) = Inl i \<Longrightarrow> fee_registry_get r a = None"
    and "binary_search_by_key a fa_asset_id (far_assets r) = Inr i \<Longrightarrow>
      i < length (far_assets r) \<and> fa_asset_id (far_assets r ! i) = a \<and>
      fee_registry_get r a = Some (far_assets r ! i)"
  using assms binary_search_present [of fa_asset_id "far_assets r" a i]
  by (auto simp: fee_registry_get_def bsearch_get_def fee_registry_ok_def)

text \<open>Replacing the entry found by the search.\<close>

lemma fee_registry_replace:
  assumes ok: "fee_registry_ok r" and i: "binary_search_by_key a fa_asset_id (far_assets r) = Inr i"
    and x: "fa_asset_id x = a" "fa_fee_units_per_asset_unit x \<noteq> 0"
  shows "fee_registry_ok \<lparr> far_assets = (far_assets r)[i := x] \<rparr> \<and>
    fee_registry_get \<lparr> far_assets = (far_assets r)[i := x] \<rparr> = (fee_registry_get r)(a \<mapsto> x)"
proof -
  have "key_sorted fa_asset_id (far_assets r)" using ok by (simp add: fee_registry_ok_def)
  note rep = bsearch_replace [OF this i x(1)]
  show ?thesis
    using rep(1,3) ok x(2)
    by (auto simp: fee_registry_ok_def list_all_iff fee_registry_get_def rep(2) fun_eq_iff)
qed

lemma fee_registry_insert:
  assumes ok: "fee_registry_ok r" and x: "fa_fee_units_per_asset_unit x \<noteq> 0"
    and i: "binary_search_by_key (fa_asset_id x) fa_asset_id (far_assets r) = Inl i"
  shows "fee_registry_ok \<lparr> far_assets = vec_insert i x (far_assets r) \<rparr> \<and>
    fee_registry_get \<lparr> far_assets = vec_insert i x (far_assets r) \<rparr> =
      (fee_registry_get r)(fa_asset_id x \<mapsto> x)"
proof -
  have sorted: "key_sorted fa_asset_id (far_assets r)" using ok by (simp add: fee_registry_ok_def)
  show ?thesis
    using ok x binary_search_insert_sorted(1) [OF sorted i]
    by (auto simp: fee_registry_ok_def list_all_iff fee_registry_get_def fun_eq_iff
        bsearch_get_insert [OF sorted i])
qed

interpretation fee_assets: sorted_registry fa_asset_id far_assets add_asset
proof unfold_locales
  fix r x r' assume r: "key_sorted fa_asset_id (far_assets r)" "add_asset x r = Ok r'"
  then obtain i where i: "binary_search_by_key (fa_asset_id x) fa_asset_id (far_assets r) = Inl i"
    "r' = \<lparr> far_assets = vec_insert i x (far_assets r) \<rparr>"
    by (auto simp: add_asset_def result_simps split: sum.splits)
  then show "key_sorted fa_asset_id (far_assets r')"
    "set (far_assets r') = insert x (set (far_assets r)) \<and> fa_asset_id x \<notin> fa_asset_id ` set (far_assets r)"
    using binary_search_insert_sorted [OF r(1) i(1)] by auto
qed

text \<open>The abstract registry: a partial map, and what the three operations do to it.\<close>

type_synonym fee_map = "asset_id \<Rightarrow> fee_asset option"

definition map_add_asset :: "fee_asset \<Rightarrow> fee_map \<Rightarrow> (fee_error, fee_map) result" where
  "map_add_asset x m =
     (if fa_fee_units_per_asset_unit x = 0 then Err ZeroFeeUnitsPerAssetUnit
      else if m (fa_asset_id x) \<noteq> None then Err (DuplicateAsset (fa_asset_id x))
      else Ok (m(fa_asset_id x \<mapsto> x)))"

definition map_disable_asset :: "asset_id \<Rightarrow> fee_map \<Rightarrow> (fee_error, fee_map) result" where
  "map_disable_asset a m =
     (case m a of None \<Rightarrow> Err (UnknownAsset a)
      | Some x \<Rightarrow> Ok (m(a \<mapsto> x \<lparr> fa_enabled := False \<rparr>)))"

definition map_update_asset :: "fee_asset \<Rightarrow> fee_map \<Rightarrow> (fee_error, fee_map) result" where
  "map_update_asset x m =
     (if fa_fee_units_per_asset_unit x = 0 then Err ZeroFeeUnitsPerAssetUnit
      else if m (fa_asset_id x) = None then Err (UnknownAsset (fa_asset_id x))
      else Ok (m(fa_asset_id x \<mapsto> x)))"

text \<open>A result whose value satisfies the invariant and abstracts to a given one.\<close>

definition refines_to ::
  "(fee_error, fee_asset_registry) result \<Rightarrow> (fee_error, fee_map) result \<Rightarrow> bool" where
  "refines_to c m \<longleftrightarrow> map_result (\<lambda>e. e) fee_registry_get c = m \<and> pred_result (\<lambda>_. True) fee_registry_ok c"

lemma refines_to_simps [simp]:
  "refines_to (Ok r) (Ok m) \<longleftrightarrow> fee_registry_get r = m \<and> fee_registry_ok r"
  "refines_to (Err e) (Err e') \<longleftrightarrow> e = e'"
  by (auto simp: refines_to_def)

lemma add_asset_refines:
  "fee_registry_ok r \<Longrightarrow> refines_to (add_asset x r) (map_add_asset x (fee_registry_get r))"
  using fee_search [of r "fa_asset_id x"] fee_registry_insert [of r x]
  by (cases "fa_fee_units_per_asset_unit x = 0";
      cases "binary_search_by_key (fa_asset_id x) fa_asset_id (far_assets r)")
    (auto simp: add_asset_def map_add_asset_def fee_asset_validate_def)

lemma update_asset_refines:
  "fee_registry_ok r \<Longrightarrow> refines_to (update_asset x r) (map_update_asset x (fee_registry_get r))"
  using fee_search [of r "fa_asset_id x"] fee_registry_replace [of r "fa_asset_id x" _ x]
  by (cases "fa_fee_units_per_asset_unit x = 0";
      cases "binary_search_by_key (fa_asset_id x) fa_asset_id (far_assets r)")
    (auto simp: update_asset_def map_update_asset_def fee_asset_validate_def)

lemma disable_asset_refines:
  assumes ok: "fee_registry_ok r"
  shows "refines_to (disable_asset a r) (map_disable_asset a (fee_registry_get r))"
proof (cases "binary_search_by_key a fa_asset_id (far_assets r)")
  case (Inl i)
  then show ?thesis
    using fee_search(1) [OF ok Inl] by (simp add: disable_asset_def map_disable_asset_def)
next
  case (Inr i)
  note at = fee_search(2) [OF ok Inr]
  then have "fa_fee_units_per_asset_unit (far_assets r ! i) \<noteq> 0"
    using ok by (simp add: fee_registry_ok_def list_all_length)
  then show ?thesis
    using at fee_registry_replace [OF ok Inr, of "(far_assets r ! i) \<lparr> fa_enabled := False \<rparr>"]
    by (simp add: disable_asset_def map_disable_asset_def Inr)
qed

text \<open>
  C17. The fee-asset registry refines a finite map from asset identifiers to fee parameters with
  non-zero rates. On a registry in canonical order, adding, disabling and updating an asset return
  what the map operations return, errors included, and the resulting registry is in canonical order
  again; the lookups by binary search find exactly the stored entries.
\<close>

theorem fee_registry_refines_map:
  assumes "fee_registry_ok r"
  shows "refines_to (add_asset x r) (map_add_asset x (fee_registry_get r)) \<and>
    refines_to (disable_asset a r) (map_disable_asset a (fee_registry_get r)) \<and>
    refines_to (update_asset x r) (map_update_asset x (fee_registry_get r)) \<and>
    (fee_registry_get r a = Some y \<longleftrightarrow> y \<in> set (far_assets r) \<and> fa_asset_id y = a)"
  using assms
  by (simp add: add_asset_refines disable_asset_refines update_asset_refines fee_registry_get_iff)

theorem fee_registry_refines_map_witness:
  "\<exists>r. add_asset \<lparr> fa_asset_id = replicate 32 9, fa_fee_units_per_asset_unit = 2, fa_enabled = True \<rparr>
      \<lparr> far_assets = [\<lparr> fa_asset_id = replicate 32 1, fa_fee_units_per_asset_unit = 5,
          fa_enabled = True \<rparr>] \<rparr> = Ok r \<and> fee_registry_ok r \<and>
    map_option fa_fee_units_per_asset_unit (fee_registry_get r (replicate 32 9)) = Some 2 \<and>
    map_option fa_fee_units_per_asset_unit (fee_registry_get r (replicate 32 1)) = Some 5"
proof -
  let ?x = "\<lparr> fa_asset_id = replicate 32 9, fa_fee_units_per_asset_unit = 2, fa_enabled = True \<rparr> ::
    fee_asset"
  let ?y = "\<lparr> fa_asset_id = replicate 32 1, fa_fee_units_per_asset_unit = 5, fa_enabled = True \<rparr> ::
    fee_asset"
  let ?r = "\<lparr> far_assets = [?y] \<rparr>"
  have ok: "fee_registry_ok ?r" by (simp add: fee_registry_ok_def key_sorted_def)
  have at: "fee_registry_get ?r (replicate 32 1) = Some ?y"
    using fee_registry_refines_map [OF ok, of ?x "replicate 32 1" ?y] by simp
  have "fee_registry_get ?r (replicate 32 9) = None"
    using fee_registry_refines_map [OF ok, of ?x "replicate 32 9"]
    by (cases "fee_registry_get ?r (replicate 32 9)")
      (auto simp: fee_registry_get_iff [OF ok] replicate_eq_replicate)
  then have m: "map_add_asset ?x (fee_registry_get ?r) = Ok ((fee_registry_get ?r)(replicate 32 9 \<mapsto> ?x))"
    by (simp add: map_add_asset_def)
  have "refines_to (add_asset ?x ?r) (map_add_asset ?x (fee_registry_get ?r))"
    using fee_registry_refines_map [OF ok] by blast
  then show ?thesis
    unfolding m using at
    by (cases "add_asset ?x ?r") (auto simp: refines_to_def replicate_eq_replicate)
qed

section \<open>Quotes and settlement\<close>

lemma settle_fee_payment_Ok_iff:
  "settle_fee_payment r p n = Ok c \<longleftrightarrow>
     (\<exists>x. fee_registry_get r (fp_asset_id p) = Some x \<and> fa_enabled x \<and>
        fa_fee_units_per_asset_unit x \<noteq> 0 \<and>
        unat c = ceil_nat (unat n) (unat (fa_fee_units_per_asset_unit x)) \<and> c \<le> fp_max_fee p)"
  by (auto simp: settle_fee_payment_def quote_fee_in_asset_def result_simps ceil_div_Ok_iff not_less)

section \<open>Admission and settlement\<close>

definition reservation_units :: "gas_schedule \<Rightarrow> u64 \<Rightarrow> nat \<Rightarrow> nat" where
  "reservation_units s d gas =
     ceil_nat (unat (gs_base_fee s) + unat (gs_execution_price s) * gas) (unat d)"

lemma checked_total_gas_Ok_iff:
  "checked_total_gas a r s = Ok t \<longleftrightarrow> unat t = unat a + unat r + unat s \<and> unat t \<le> 1000000"
proof -
  have "\<not> MAX_TOTAL_GAS_UNITS < t \<longleftrightarrow> unat t \<le> 1000000"
    by (simp add: MAX_TOTAL_GAS_UNITS_def word_less_nat_alt not_less)
  moreover have "(\<exists>x :: u64. unat x = unat a + unat r \<and> unat t = unat x + unat s) \<longleftrightarrow>
      unat t = unat a + unat r + unat s"
  proof
    assume t: "unat t = unat a + unat r + unat s"
    then have "unat a + unat r < 2 ^ 64" using unsigned_less [of t, where 'a = nat] by simp
    then have "unat (of_nat (unat a + unat r) :: u64) = unat a + unat r"
      by (simp add: unat_of_nat del: of_nat_add)
    with t show "\<exists>x :: u64. unat x = unat a + unat r \<and> unat t = unat x + unat s" by metis
  qed auto
  ultimately show ?thesis
    by (auto simp: checked_total_gas_def result_simps and_then_eq_Some checked_add_Some_iff)
qed

lemma quote_asset_units_Ok_iff:
  "quote_asset_units s d t = Ok q \<longleftrightarrow> d \<noteq> 0 \<and>
     unat (gs_base_fee s) + unat (gs_execution_price s) * unat t < 2 ^ 64 \<and>
     unat q = reservation_units s d (unat t)"
proof -
  let ?n = "unat (gs_base_fee s) + unat (gs_execution_price s) * unat t"
  have fee: "(\<exists>x w. checked_mul (gs_execution_price s) t = Some x \<and>
      checked_add (gs_base_fee s) x = Some w \<and> P w) \<longleftrightarrow> ?n < 2 ^ 64 \<and> P (of_nat ?n)" for P
  proof
    assume "\<exists>x w. checked_mul (gs_execution_price s) t = Some x \<and>
      checked_add (gs_base_fee s) x = Some w \<and> P w"
    then obtain w where w: "unat w = ?n" "P w" by (auto simp: checked_mul_Some_iff checked_add_Some_iff)
    then have "of_nat ?n = w" unfolding w(1) [symmetric] by simp
    then show "?n < 2 ^ 64 \<and> P (of_nat ?n)"
      using w unsigned_less [of w, where 'a = nat] by simp
  next
    assume n: "?n < 2 ^ 64 \<and> P (of_nat ?n)"
    then have "unat (of_nat ?n :: u64) = ?n"
      "unat (of_nat (unat (gs_execution_price s) * unat t) :: u64) = unat (gs_execution_price s) * unat t"
      by (auto simp: unat_of_nat simp del: of_nat_add of_nat_mult)
    with n show "\<exists>x w. checked_mul (gs_execution_price s) t = Some x \<and>
      checked_add (gs_base_fee s) x = Some w \<and> P w"
      unfolding checked_mul_Some_iff checked_add_Some_iff by metis
  qed
  have "quote_asset_units s d t = Ok q \<longleftrightarrow> ?n < 2 ^ 64 \<and> ceil_div (of_nat ?n) d = Ok q"
    unfolding fee [of "\<lambda>w. ceil_div w d = Ok q", symmetric]
    by (auto simp: quote_asset_units_def try_bind_eq_Ok map_err_eq_Ok ok_or_eq_Ok)
  moreover have "unat (of_nat ?n :: u64) = ?n" if "?n < 2 ^ 64"
    using that by (simp add: unat_of_nat del: of_nat_add of_nat_mult)
  ultimately show ?thesis by (auto simp: ceil_div_Ok_iff reservation_units_def simp del: of_nat_add of_nat_mult)
qed

lemma admit_Ok_iff:
  "admit p l max_fee = Ok a \<longleftrightarrow>
     (\<exists>t. checked_total_gas l (rp_reserve_allowance p) (rp_settle_allowance p) = Ok t \<and>
       quote_asset_units (rp_schedule p) (rp_fee_units_per_asset_unit p) t = Ok (ad_reserved a) \<and>
       ad_reserved a \<le> max_fee \<and> ad_schedule a = rp_schedule p \<and>
       ad_fee_units_per_asset_unit a = rp_fee_units_per_asset_unit p \<and>
       ad_reserve_allowance a = rp_reserve_allowance p \<and>
       ad_settle_allowance a = rp_settle_allowance p \<and> ad_application_limit a = l)"
  by (cases a) (auto simp: admit_def result_simps not_less)

lemma settle_within_limit:
  assumes adm: "admit p l max_fee = Ok a" and le: "n \<le> l"
  shows "\<exists>st. settle a n = Ok st \<and> unat (se_actual st) + unat (se_refund st) = unat (ad_reserved a) \<and>
    unat (se_actual st) = reservation_units (rp_schedule p) (rp_fee_units_per_asset_unit p)
      (unat n + unat (rp_reserve_allowance p) + unat (rp_settle_allowance p))"
proof -
  let ?s = "rp_schedule p" and ?d = "rp_fee_units_per_asset_unit p"
  let ?R = "unat (rp_reserve_allowance p) + unat (rp_settle_allowance p)"
  from adm obtain t :: u64 where t: "unat t = unat l + ?R" "unat t \<le> 1000000" "?d \<noteq> 0"
    "unat (gs_base_fee ?s) + unat (gs_execution_price ?s) * unat t < 2 ^ 64"
    "unat (ad_reserved a) = reservation_units ?s ?d (unat t)"
    unfolding admit_Ok_iff checked_total_gas_Ok_iff quote_asset_units_Ok_iff add.assoc by blast
  have nl: "unat n \<le> unat l" using le by (simp add: word_le_nat_alt)
  define u :: u64 where "u = of_nat (unat n + ?R)"
  have u: "unat u = unat n + ?R" using nl t(1,2) by (simp add: u_def unat_of_nat del: of_nat_add)
  have ut: "unat u \<le> unat t" using u t(1) nl by simp
  have "unat (gs_base_fee ?s) + unat (gs_execution_price ?s) * unat u < 2 ^ 64"
    using t(4) mult_le_mono2 [OF ut, of "unat (gs_execution_price ?s)"] by linarith
  define q :: u64 where "q = of_nat (reservation_units ?s ?d (unat u))"
  have le_q: "reservation_units ?s ?d (unat u) \<le> unat (ad_reserved a)"
    unfolding t(5) reservation_units_def using ut by (intro ceil_nat_mono) simp
  then have q: "unat q = reservation_units ?s ?d (unat u)"
    using unsigned_less [of "ad_reserved a", where 'a = nat] by (simp add: q_def unat_of_nat)
  have fields: "ad_schedule a = ?s" "ad_fee_units_per_asset_unit a = ?d"
    "ad_reserve_allowance a = rp_reserve_allowance p" "ad_settle_allowance a = rp_settle_allowance p"
    "ad_application_limit a = l"
    using adm by (auto simp: admit_Ok_iff)
  have gas: "checked_total_gas n (rp_reserve_allowance p) (rp_settle_allowance p) = Ok u"
    using u ut t(2) by (simp add: checked_total_gas_Ok_iff)
  have quote: "quote_asset_units ?s ?d u = Ok q"
    using \<open>unat (gs_base_fee ?s) + unat (gs_execution_price ?s) * unat u < 2 ^ 64\<close> q t(3)
    by (simp add: quote_asset_units_Ok_iff)
  have sub: "checked_sub (ad_reserved a) q = Some (ad_reserved a - q)" "q \<le> ad_reserved a"
    using le_q q by (simp_all add: checked_sub_def word_le_nat_alt)
  have "settle a n = Ok \<lparr> se_actual = q, se_refund = ad_reserved a - q \<rparr>"
    using le gas quote sub(1) by (simp add: settle_def fields not_less)
  moreover have "unat q + unat (ad_reserved a - q) = unat (ad_reserved a)"
    using sub(2) by (simp add: unat_sub word_le_nat_alt)
  ultimately show ?thesis using q u by (simp add: add.assoc)
qed

text \<open>
  C14. Reservation pricing conserves the payer's units and stays within what was signed. An admitted
  call reserves the exact ceiling of \<open>base_fee + execution_price * (L + R + S)\<close> over the conversion
  rate, at most the signed maximum; settling it with any metered usage up to the admitted limit
  succeeds, charges the exact ceiling for that usage, and charge and refund add up to the
  reservation; usage above the limit is refused.
\<close>

theorem admission_settles_within_reservation:
  assumes "admit p l max_fee = Ok a"
  shows "unat (ad_reserved a) = reservation_units (rp_schedule p) (rp_fee_units_per_asset_unit p)
      (unat l + unat (rp_reserve_allowance p) + unat (rp_settle_allowance p)) \<and>
    ad_reserved a \<le> max_fee \<and>
    (\<forall>n. if n \<le> l
      then \<exists>st. settle a n = Ok st \<and> unat (se_actual st) + unat (se_refund st) = unat (ad_reserved a) \<and>
        unat (se_actual st) = reservation_units (rp_schedule p) (rp_fee_units_per_asset_unit p)
          (unat n + unat (rp_reserve_allowance p) + unat (rp_settle_allowance p))
      else settle a n = Err (ActualUsageExceedsLimit n l))"
proof -
  have "unat (ad_reserved a) = reservation_units (rp_schedule p) (rp_fee_units_per_asset_unit p)
      (unat l + unat (rp_reserve_allowance p) + unat (rp_settle_allowance p))" "ad_reserved a \<le> max_fee"
    using assms by (auto simp: admit_Ok_iff checked_total_gas_Ok_iff quote_asset_units_Ok_iff)
  moreover have "settle a n = Err (ActualUsageExceedsLimit n l)" if "\<not> n \<le> l" for n
    using assms that by (auto simp: settle_def admit_Ok_iff)
  ultimately show ?thesis using settle_within_limit [OF assms] by auto
qed

theorem admission_settles_within_reservation_witness:
  "\<exists>p a st. reservation_pricer_new \<lparr> gs_base_fee = 10, gs_execution_price = 3, gs_read_price = 0,
       gs_write_price = 0, gs_storage_price = 0, gs_system_module_price = 0 \<rparr> 7 2 2 = Ok p \<and>
     admit p 100 50 = Ok a \<and> settle a 40 = Ok st \<and> unat (ad_reserved a) = 46 \<and>
     unat (se_actual st) = 21 \<and> unat (se_refund st) = 25"
proof -
  let ?s = "\<lparr> gs_base_fee = 10, gs_execution_price = 3, gs_read_price = 0, gs_write_price = 0,
    gs_storage_price = 0, gs_system_module_price = 0 \<rparr> :: gas_schedule"
  let ?p = "\<lparr> rp_schedule = ?s, rp_fee_units_per_asset_unit = 7, rp_reserve_allowance = 2,
    rp_settle_allowance = 2 \<rparr>"
  let ?a = "\<lparr> ad_schedule = ?s, ad_fee_units_per_asset_unit = 7, ad_reserve_allowance = 2,
    ad_settle_allowance = 2, ad_application_limit = 100, ad_reserved = 46 \<rparr>"
  have new: "reservation_pricer_new ?s 7 2 2 = Ok ?p"
    by (simp add: reservation_pricer_new_def checked_total_gas_def and_then_def checked_add_def
        MAX_TOTAL_GAS_UNITS_def)
  have adm: "admit ?p 100 50 = Ok ?a"
    by (simp add: admit_def checked_total_gas_def and_then_def checked_add_def checked_mul_def
        MAX_TOTAL_GAS_UNITS_def quote_asset_units_def ceil_div_def)
  note facts = admission_settles_within_reservation [OF adm]
  have "\<exists>st. settle ?a 40 = Ok st \<and> unat (se_actual st) + unat (se_refund st) = 46 \<and>
      unat (se_actual st) = 21"
    using facts [THEN conjunct2, THEN conjunct2, THEN spec, of 40]
    by (simp add: reservation_units_def ceil_nat_def)
  then show ?thesis using new adm by (intro exI [of _ ?p] exI [of _ ?a]) auto
qed

section \<open>The codecs are exact\<close>

lemma encode_fee_payment_Ok_iff:
  "encode_fee_payment p = Ok b \<longleftrightarrow>
     (\<exists>ab ob. encode_asset_id (fp_asset_id p) = Ok ab \<and> encode_object_ref (fp_fee_object p) = Ok ob \<and>
       encode_frame \<lparr> cf_type_id = 0x7002, cf_version = 1, cf_fields =
         [(1, ab), (2, u64_to_le_bytes (fp_max_fee p)), (3, ob)] \<rparr> = Ok b)"
  by (auto simp: encode_fee_payment_def encode_simps result_simps)

definition fee_payment_wf :: "fee_payment \<Rightarrow> bool" where
  "fee_payment_wf p \<longleftrightarrow> array32 (fp_asset_id p) \<and> object_ref_wf (fp_fee_object p)"

lemma decode_fee_payment_Ok_iff:
  "decode_fee_payment b = Ok p \<longleftrightarrow> fee_payment_wf p \<and> encode_fee_payment p = Ok b"
  unfolding decode_fee_payment_def encode_fee_payment_Ok_iff fee_ids
  by (cases p) (subst decode_closed_iff; auto simp: result_simps codec_simps fee_payment_wf_def
      decode_asset_id_Ok_iff decode_object_ref_Ok_iff)

lemma encode_gas_schedule_Ok_iff:
  "encode_gas_schedule s = Ok b \<longleftrightarrow>
     encode_frame \<lparr> cf_type_id = 0x7005, cf_version = 1, cf_fields =
       [(1, u64_to_le_bytes (gs_base_fee s)), (2, u64_to_le_bytes (gs_execution_price s)),
        (3, u64_to_le_bytes (gs_read_price s)), (4, u64_to_le_bytes (gs_write_price s)),
        (5, u64_to_le_bytes (gs_storage_price s)),
        (6, u64_to_le_bytes (gs_system_module_price s))] \<rparr> = Ok b"
  by (simp add: encode_gas_schedule_def encode_simps result_simps)

lemma encode_gas_schedule_length: "encode_gas_schedule s = Ok b \<Longrightarrow> length b = MAX_GAS_SCHEDULE_BYTES"
  by (auto simp: encode_gas_schedule_Ok_iff encode_frame_Ok_iff frame_size_def MAX_GAS_SCHEDULE_BYTES_def)

lemma decode_gas_schedule_Ok_iff: "decode_gas_schedule b = Ok s \<longleftrightarrow> encode_gas_schedule s = Ok b"
proof (cases "length b \<le> MAX_GAS_SCHEDULE_BYTES")
  case True
  then show ?thesis
    unfolding decode_gas_schedule_def encode_gas_schedule_Ok_iff fee_ids
    by (cases s, simp, subst decode_closed_iff) (auto simp: result_simps codec_simps)
next
  case False
  then show ?thesis
    using encode_gas_schedule_length [of s b] by (auto simp: decode_gas_schedule_def)
qed

interpretation fee_payment_codec: strict_codec encode_fee_payment decode_fee_payment fee_payment_wf
  by unfold_locales (auto simp: decode_fee_payment_Ok_iff)

interpretation gas_schedule_codec: strict_codec encode_gas_schedule decode_gas_schedule "\<lambda>_. True"
  by unfold_locales (auto simp: decode_gas_schedule_Ok_iff)

end
