(* ===== verification/Fast_Votes.thy ===== *)
theory Fast_Votes
  imports HotStuff_Certificates Item_Frames
begin

text \<open>
  The owned-object fast path (\<^verbatim>\<open>src/crates/consensus/src/fast_vote.rs\<close>): fast votes and certificates,
  the stateless certifier that casts and verifies votes and forms and verifies certificates, and the
  strict codecs. A certificate is formed from the set of valid votes alone, whatever their order, it
  carries the shortest quorum in validator order, and every formed certificate verifies. The
  certificates are a \<open>certificate_scheme\<close>, like those of chained HotStuff.
\<close>

section \<open>Votes and certificates\<close>

definition MAX_FAST_CERTIFICATE_VOTES :: usize where
  "MAX_FAST_CERTIFICATE_VOTES = 10000"

record fast_vote =
  fv_chain_id :: chain_id
  fv_protocol_version :: protocol_version
  fv_epoch :: epoch
  fv_tx_hash :: digest32
  fv_execution_effects_hash :: digest32
  fv_validator :: validator_id
  fv_signature_scheme :: signature_scheme_id
  fv_locked_objects_digest :: digest32
  fv_signature :: bytes

record fast_certificate =
  fc_chain_id :: chain_id
  fc_protocol_version :: protocol_version
  fc_epoch :: epoch
  fc_tx_hash :: digest32
  fc_execution_effects_hash :: digest32
  fc_locked_objects_digest :: digest32
  fc_votes :: "fast_vote list"

record fast_path_certifier =
  fp_chain_id :: chain_id
  fp_protocol_version :: protocol_version
  fp_epoch :: epoch
  fp_validator_set :: validator_set

definition fast_path_certifier_new ::
  "chain_id \<Rightarrow> protocol_version \<Rightarrow> epoch \<Rightarrow> validator_set \<Rightarrow>
   (consensus_error, fast_path_certifier) result" where
  "fast_path_certifier_new c pv e vset =
     (if vs_epoch vset \<noteq> e then Err (ValidatorSetEpochMismatch e (vs_epoch vset))
      else Ok \<lparr> fp_chain_id = c, fp_protocol_version = pv, fp_epoch = e, fp_validator_set = vset \<rparr>)"

section \<open>Encoders\<close>

definition encode_fast_vote_payload :: "fast_vote \<Rightarrow> (consensus_error, bytes) result" where
  "encode_fast_vote_payload v =
     map_err CeCanonicalEncoding (
       try_bind (field_str 1 (fv_chain_id v) (cs_new 0xD006 CONSENSUS_ENCODING_VERSION)) (\<lambda>c.
       try_bind (field_u32 2 (fv_protocol_version v) c) (\<lambda>c.
       try_bind (field_u64 3 (fv_epoch v) c) (\<lambda>c.
       try_bind (encode_digest32 (fv_tx_hash v)) (\<lambda>d.
       try_bind (field_bytes 4 d c) (\<lambda>c.
       try_bind (encode_digest32 (fv_execution_effects_hash v)) (\<lambda>d.
       try_bind (field_bytes 5 d c) (\<lambda>c.
       try_bind (field_bytes 6 (fv_validator v) c) (\<lambda>c.
       try_bind (field_u16 7 (signature_scheme_as_u16 (fv_signature_scheme v)) c) (\<lambda>c.
       try_bind (encode_digest32 (fv_locked_objects_digest v)) (\<lambda>d.
       try_bind (field_bytes 8 d c) finish)))))))))))"

definition encode_fast_vote :: "fast_vote \<Rightarrow> (consensus_error, bytes) result" where
  "encode_fast_vote v =
     try_bind (validate_signature_length (fv_signature v)) (\<lambda>_.
     try_bind (encode_fast_vote_payload v) (\<lambda>payload.
     map_err CeCanonicalEncoding (
       try_bind (field_bytes 1 payload (cs_new 0xD007 CONSENSUS_ENCODING_VERSION)) (\<lambda>c.
       try_bind (field_bytes 2 (fv_signature v) c) finish))))"

definition encode_fast_certificate :: "fast_certificate \<Rightarrow> (consensus_error, bytes) result" where
  "encode_fast_certificate fc =
     (if length (fc_votes fc) > MAX_FAST_CERTIFICATE_VOTES then Err NonCanonicalCertificateVotes
      else
        try_bind (map_err CeCanonicalEncoding (
          try_bind (field_str 1 (fc_chain_id fc) (cs_new 0xD008 CONSENSUS_ENCODING_VERSION)) (\<lambda>c.
          try_bind (field_u32 2 (fc_protocol_version fc) c) (\<lambda>c.
          try_bind (field_u64 3 (fc_epoch fc) c) (\<lambda>c.
          try_bind (encode_digest32 (fc_tx_hash fc)) (\<lambda>d.
          try_bind (field_bytes 4 d c) (\<lambda>c.
          try_bind (encode_digest32 (fc_execution_effects_hash fc)) (\<lambda>d.
          try_bind (field_bytes 5 d c) (\<lambda>c.
          try_bind (encode_digest32 (fc_locked_objects_digest fc)) (\<lambda>d.
          field_bytes 6 d c)))))))))) (\<lambda>c.
        try_bind (ok_or (u32_try_from (length (fc_votes fc))) NonCanonicalCertificateVotes)
          (\<lambda>count.
        try_bind (map_err CeCanonicalEncoding (field_u32 7 count c)) (\<lambda>c.
        try_bind (put_items NonCanonicalCertificateVotes CeCanonicalEncoding encode_fast_vote 8
                    (fc_votes fc) c) (\<lambda>c.
        map_err CeCanonicalEncoding (finish c))))))"

section \<open>Strict decoders\<close>

definition decode_fast_vote :: "bytes \<Rightarrow> (consensus_error, fast_vote) result" where
  "decode_fast_vote input =
     try_bind (map_err CeCanonicalDecoding
       (decode_closed_frame 0xD007 CONSENSUS_ENCODING_VERSION [1, 2] input)) (\<lambda>outer.
     try_bind (map_err CeCanonicalDecoding (required_field outer 1)) (\<lambda>payload_bytes.
     try_bind (map_err CeCanonicalDecoding (required_field outer 2)) (\<lambda>signature.
     try_bind (map_err CeCanonicalDecoding
       (decode_closed_frame 0xD006 CONSENSUS_ENCODING_VERSION [1, 2, 3, 4, 5, 6, 7, 8]
          payload_bytes)) (\<lambda>payload.
     try_bind (required_chain_id payload) (\<lambda>chain_id.
     try_bind (map_err CeCanonicalDecoding (required_u32 payload 2)) (\<lambda>protocol_version.
     try_bind (map_err CeCanonicalDecoding (required_u64 payload 3)) (\<lambda>epoch.
     try_bind (required_digest payload 4) (\<lambda>tx_hash.
     try_bind (required_digest payload 5) (\<lambda>execution_effects_hash.
     try_bind (map_err CeCanonicalDecoding (required_field payload 6)) (\<lambda>validator_field.
     try_bind (field_array32 6 validator_field) (\<lambda>validator_bytes.
     try_bind (required_signature_scheme payload 7) (\<lambda>signature_scheme.
     try_bind (required_digest payload 8) (\<lambda>locked_objects_digest.
     let vote = \<lparr> fv_chain_id = chain_id, fv_protocol_version = protocol_version, fv_epoch = epoch,
           fv_tx_hash = tx_hash, fv_execution_effects_hash = execution_effects_hash,
           fv_validator = validator_bytes, fv_signature_scheme = signature_scheme,
           fv_locked_objects_digest = locked_objects_digest, fv_signature = signature \<rparr> in
     try_bind (encode_fast_vote vote) (\<lambda>b.
     if b \<noteq> input then Err NonCanonicalCertificateVotes else Ok vote))))))))))))))"

text \<open>
  One turn of a loop that reads item \<open>index\<close> from field \<open>index + base\<close> and requires strictly
  ascending keys; the state holds the items so far and the previous key.
\<close>

definition take_ordered_item ::
  "'e \<Rightarrow> (canonical_decoding_error \<Rightarrow> 'e) \<Rightarrow> (bytes \<Rightarrow> ('e, 'a) result) \<Rightarrow> ('a \<Rightarrow> 'k :: linorder) \<Rightarrow>
   usize \<Rightarrow> canonical_frame \<Rightarrow> 'a list \<times> 'k option \<Rightarrow> nat \<Rightarrow> ('e, 'a list \<times> 'k option) result" where
  "take_ordered_item err wrap dec key base frame st index =
     (case st of (items, previous) \<Rightarrow>
       try_bind (ok_or (u16_try_from (index + base)) err) (\<lambda>field_id.
       try_bind (map_err wrap (required_field frame field_id)) (\<lambda>b.
       try_bind (dec b) (\<lambda>item.
       if (case previous of Some k \<Rightarrow> k \<ge> key item | None \<Rightarrow> False) then Err err
       else Ok (items @ [item], Some (key item))))))"

definition decode_fast_certificate :: "bytes \<Rightarrow> (consensus_error, fast_certificate) result" where
  "decode_fast_certificate input =
     try_bind (map_err CeCanonicalDecoding (decode_canonical_frame input)) (\<lambda>frame.
     try_bind (map_err CeCanonicalDecoding (require_type frame 0xD008)) (\<lambda>_.
     try_bind (map_err CeCanonicalDecoding (require_version frame CONSENSUS_ENCODING_VERSION)) (\<lambda>_.
     try_bind (required_chain_id frame) (\<lambda>chain_id.
     try_bind (map_err CeCanonicalDecoding (required_u32 frame 2)) (\<lambda>protocol_version.
     try_bind (map_err CeCanonicalDecoding (required_u64 frame 3)) (\<lambda>epoch.
     try_bind (required_digest frame 4) (\<lambda>tx_hash.
     try_bind (required_digest frame 5) (\<lambda>execution_effects_hash.
     try_bind (required_digest frame 6) (\<lambda>locked_objects_digest.
     try_bind (map_err CeCanonicalDecoding (required_u32 frame 7)) (\<lambda>count32.
     let count = unat count32 in
     if count > MAX_FAST_CERTIFICATE_VOTES then Err NonCanonicalCertificateVotes
     else
       try_bind (ok_or (usize_checked_add count 7) NonCanonicalCertificateVotes) (\<lambda>expected.
       if length (cf_fields frame) \<noteq> expected then Err NonCanonicalCertificateVotes
       else
         try_bind (try_fold (take_ordered_item NonCanonicalCertificateVotes CeCanonicalDecoding
                     decode_fast_vote fv_validator 8 frame) ([], None) [0..<count]) (\<lambda>(votes, _).
         let certificate = \<lparr> fc_chain_id = chain_id, fc_protocol_version = protocol_version,
               fc_epoch = epoch, fc_tx_hash = tx_hash,
               fc_execution_effects_hash = execution_effects_hash,
               fc_locked_objects_digest = locked_objects_digest, fc_votes = votes \<rparr> in
         try_bind (encode_fast_certificate certificate) (\<lambda>b.
         if b \<noteq> input then Err NonCanonicalCertificateVotes else Ok certificate)))))))))))))"

section \<open>The certifier\<close>

definition fast_path_context ::
  "fast_path_certifier \<Rightarrow> chain_id \<Rightarrow> protocol_version \<Rightarrow> epoch \<Rightarrow> (consensus_error, unit) result" where
  "fast_path_context fp c pv e =
     (if c \<noteq> fp_chain_id fp \<or> pv \<noteq> fp_protocol_version fp \<or> e \<noteq> fp_epoch fp
      then Err ContextMismatch else Ok ())"

definition fast_path_registered_scheme ::
  "fast_path_certifier \<Rightarrow> validator_id \<Rightarrow> signature_scheme_id \<Rightarrow> (consensus_error, unit) result" where
  "fast_path_registered_scheme fp validator scheme =
     try_bind (ok_or (vs_get (fp_validator_set fp) validator) (UnknownValidator validator)) (\<lambda>info.
     if vi_signature_scheme info \<noteq> scheme then Err (CeSignatureSchemeMismatch validator) else Ok ())"

definition fast_path_signature_frame ::
  "fast_path_certifier \<Rightarrow> signature_scheme_id \<Rightarrow> bytes \<Rightarrow> (consensus_error, bytes) result" where
  "fast_path_signature_frame fp scheme payload =
     map_err CeCrypto (
       try_bind (signature_message_type_new (str ''fast-path-vote-v1'')) (\<lambda>mt.
       frame_signature_message
         \<lparr> sd_chain_id = fp_chain_id fp, sd_protocol_version = fp_protocol_version fp,
           sd_epoch = fp_epoch fp, sd_message_type = mt, sd_signature_scheme_id = scheme \<rparr> payload))"

definition cast_vote ::
  "fast_path_certifier \<Rightarrow> digest32 \<Rightarrow> digest32 \<Rightarrow> digest32 \<Rightarrow> consensus_signer \<Rightarrow>
   (consensus_error, fast_vote) result" where
  "cast_vote fp tx_hash execution_effects_hash locked_objects_digest sg =
     try_bind (fast_path_registered_scheme fp (sg_validator_id sg) (sg_signature_scheme sg)) (\<lambda>_.
     let vote = \<lparr> fv_chain_id = fp_chain_id fp, fv_protocol_version = fp_protocol_version fp,
           fv_epoch = fp_epoch fp, fv_tx_hash = tx_hash,
           fv_execution_effects_hash = execution_effects_hash, fv_validator = sg_validator_id sg,
           fv_signature_scheme = sg_signature_scheme sg,
           fv_locked_objects_digest = locked_objects_digest, fv_signature = [] \<rparr> in
     try_bind (encode_fast_vote_payload vote) (\<lambda>payload.
     try_bind (fast_path_signature_frame fp (fv_signature_scheme vote) payload) (\<lambda>framed.
     try_bind (map_err Authenticator (sg_sign_framed sg framed)) (\<lambda>signature.
     try_bind (validate_signature_length signature) (\<lambda>_.
     Ok (vote\<lparr> fv_signature := signature \<rparr>))))))"

definition verify_fast_vote ::
  "fast_path_certifier \<Rightarrow> consensus_verifier \<Rightarrow> fast_vote \<Rightarrow> (consensus_error, unit) result" where
  "verify_fast_vote fp vf v =
     try_bind (fast_path_context fp (fv_chain_id v) (fv_protocol_version v) (fv_epoch v)) (\<lambda>_.
     try_bind (fast_path_registered_scheme fp (fv_validator v) (fv_signature_scheme v)) (\<lambda>_.
     try_bind (validate_signature_length (fv_signature v)) (\<lambda>_.
     try_bind (ok_or (vs_get (fp_validator_set fp) (fv_validator v))
                 (UnknownValidator (fv_validator v))) (\<lambda>info.
     try_bind (encode_fast_vote_payload v) (\<lambda>payload.
     try_bind (fast_path_signature_frame fp (fv_signature_scheme v) payload) (\<lambda>framed.
     try_bind (map_err Authenticator (vf (fv_validator v) (fv_signature_scheme v)
                 (vi_public_key info) framed (fv_signature v))) (\<lambda>valid.
     if \<not> valid then Err (InvalidSignature (fv_validator v)) else Ok ())))))))"

text \<open>The errors of a candidate vote that only exclude it.\<close>

definition excludes_vote :: "consensus_error \<Rightarrow> bool" where
  "excludes_vote e = (case e of
     UnknownValidator _ \<Rightarrow> True | CeSignatureSchemeMismatch _ \<Rightarrow> True
   | CeInvalidSignatureLength _ \<Rightarrow> True | InvalidSignature _ \<Rightarrow> True | ContextMismatch \<Rightarrow> True
   | _ \<Rightarrow> False)"

text \<open>One turn of the loop over the candidate votes: the smallest valid signature per validator.\<close>

definition collect_vote ::
  "fast_path_certifier \<Rightarrow> consensus_verifier \<Rightarrow> digest32 \<Rightarrow> digest32 \<Rightarrow> digest32 \<Rightarrow>
   (validator_id, fast_vote) btree_map \<Rightarrow> fast_vote \<Rightarrow>
   (consensus_error, (validator_id, fast_vote) btree_map) result" where
  "collect_vote fp vf tx_hash execution_effects_hash locked_objects_digest by_validator v =
     (if fv_tx_hash v \<noteq> tx_hash \<or> fv_execution_effects_hash v \<noteq> execution_effects_hash \<or>
         fv_locked_objects_digest v \<noteq> locked_objects_digest then Ok by_validator
      else if fv_chain_id v \<noteq> fp_chain_id fp \<or> fv_protocol_version v \<noteq> fp_protocol_version fp \<or>
         fv_epoch v \<noteq> fp_epoch fp then Ok by_validator
      else case verify_fast_vote fp vf v of
        Ok _ \<Rightarrow> Ok (case bm_get by_validator (fv_validator v) of
            Some current \<Rightarrow>
              if fv_signature v < fv_signature current
              then bm_insert (fv_validator v) v by_validator else by_validator
          | None \<Rightarrow> bm_insert (fv_validator v) v by_validator)
      | Err e \<Rightarrow> if excludes_vote e then Ok by_validator else Err e
      | Abort \<Rightarrow> Abort)"

text \<open>The loop over the collected votes, which stops at the quorum.\<close>

fun select_votes ::
  "fast_path_certifier \<Rightarrow> u64 \<Rightarrow> fast_vote list \<Rightarrow> (validator_id \<times> fast_vote) list \<Rightarrow>
   (consensus_error, fast_vote list option) result" where
  "select_votes fp weight selected [] = Ok None"
| "select_votes fp weight selected ((validator, v) # rest) =
     try_bind (ok_or (vs_get (fp_validator_set fp) validator) (UnknownValidator validator)) (\<lambda>info.
     try_bind (ok_or (checked_add weight (vi_voting_power info)) ArithmeticOverflow) (\<lambda>weight.
     if weight \<ge> quorum_threshold (fp_validator_set fp) then Ok (Some (selected @ [v]))
     else select_votes fp weight (selected @ [v]) rest))"

definition try_form_fast_certificate ::
  "fast_path_certifier \<Rightarrow> consensus_verifier \<Rightarrow> digest32 \<Rightarrow> digest32 \<Rightarrow> digest32 \<Rightarrow> fast_vote list \<Rightarrow>
   (consensus_error, fast_certificate option) result" where
  "try_form_fast_certificate fp vf tx_hash execution_effects_hash locked_objects_digest votes =
     try_bind (try_fold (collect_vote fp vf tx_hash execution_effects_hash locked_objects_digest)
                 [] votes) (\<lambda>by_validator.
     try_bind (select_votes fp 0 [] by_validator) (\<lambda>selected.
     Ok (map_option (\<lambda>votes. \<lparr> fc_chain_id = fp_chain_id fp,
           fc_protocol_version = fp_protocol_version fp, fc_epoch = fp_epoch fp,
           fc_tx_hash = tx_hash, fc_execution_effects_hash = execution_effects_hash,
           fc_locked_objects_digest = locked_objects_digest, fc_votes = votes \<rparr>) selected)))"

text \<open>One turn of the loop over the votes of a certificate: previous validator and power so far.\<close>

definition fast_certificate_step ::
  "fast_path_certifier \<Rightarrow> consensus_verifier \<Rightarrow> fast_certificate \<Rightarrow> validator_id option \<times> u64 \<Rightarrow>
   fast_vote \<Rightarrow> (consensus_error, validator_id option \<times> u64) result" where
  "fast_certificate_step fp vf fc s v =
     (case s of (previous, weight) \<Rightarrow>
       if (case previous of Some vid \<Rightarrow> vid \<ge> fv_validator v | None \<Rightarrow> False)
       then Err NonCanonicalCertificateVotes
       else if fv_chain_id v \<noteq> fc_chain_id fc \<or> fv_protocol_version v \<noteq> fc_protocol_version fc \<or>
         fv_epoch v \<noteq> fc_epoch fc \<or> fv_tx_hash v \<noteq> fc_tx_hash fc \<or>
         fv_execution_effects_hash v \<noteq> fc_execution_effects_hash fc \<or>
         fv_locked_objects_digest v \<noteq> fc_locked_objects_digest fc
       then Err CertificateVoteMismatch
       else
         try_bind (verify_fast_vote fp vf v) (\<lambda>_.
         try_bind (ok_or (vs_get (fp_validator_set fp) (fv_validator v))
                     (UnknownValidator (fv_validator v))) (\<lambda>info.
         try_bind (ok_or (checked_add weight (vi_voting_power info)) ArithmeticOverflow) (\<lambda>weight.
         Ok (Some (fv_validator v), weight)))))"

definition verify_fast_certificate ::
  "fast_path_certifier \<Rightarrow> consensus_verifier \<Rightarrow> fast_certificate \<Rightarrow> (consensus_error, unit) result" where
  "verify_fast_certificate fp vf fc =
     try_bind (fast_path_context fp (fc_chain_id fc) (fc_protocol_version fc) (fc_epoch fc)) (\<lambda>_.
     try_bind (try_fold (fast_certificate_step fp vf fc) (None, 0) (fc_votes fc)) (\<lambda>(_, weight).
     let required = quorum_threshold (fp_validator_set fp) in
     if weight < required then Err (InsufficientQuorum weight required) else Ok ()))"

section \<open>When the checks succeed\<close>

lemma fast_path_context_Ok_iff [result_simps]:
  "fast_path_context fp c pv e = Ok u \<longleftrightarrow>
     c = fp_chain_id fp \<and> pv = fp_protocol_version fp \<and> e = fp_epoch fp"
  by (auto simp: fast_path_context_def)

lemma fast_path_registered_scheme_Ok_iff [result_simps]:
  "fast_path_registered_scheme fp vid s = Ok u \<longleftrightarrow>
     (\<exists>info. vs_get (fp_validator_set fp) vid = Some info \<and> vi_signature_scheme info = s)"
  by (auto simp: fast_path_registered_scheme_def result_simps)

definition fast_vote_signed :: "fast_path_certifier \<Rightarrow> consensus_verifier \<Rightarrow> fast_vote \<Rightarrow> bool" where
  "fast_vote_signed fp vf v \<longleftrightarrow>
     (\<exists>info payload framed. vs_get (fp_validator_set fp) (fv_validator v) = Some info \<and>
        vi_signature_scheme info = fv_signature_scheme v \<and> encode_fast_vote_payload v = Ok payload \<and>
        fast_path_signature_frame fp (fv_signature_scheme v) payload = Ok framed \<and>
        vf (fv_validator v) (fv_signature_scheme v) (vi_public_key info) framed (fv_signature v) =
          Ok True)"

lemma verify_fast_vote_Ok_iff:
  "verify_fast_vote fp vf v = Ok u \<longleftrightarrow>
     fv_chain_id v = fp_chain_id fp \<and> fv_protocol_version v = fp_protocol_version fp \<and>
     fv_epoch v = fp_epoch fp \<and> fv_signature v \<noteq> [] \<and>
     length (fv_signature v) \<le> MAX_SIGNATURE_BYTES \<and> fast_vote_signed fp vf v"
  by (auto simp: verify_fast_vote_def result_simps fast_vote_signed_def split: if_splits)

lemma verify_fast_vote_member:
  assumes "validator_set_inv (fp_validator_set fp)" "verify_fast_vote fp vf v = Ok ()"
  shows "fv_validator v \<in> vs_members (fp_validator_set fp)"
  using assms vs_get_Some_iff [OF assms(1)]
  by (auto simp: verify_fast_vote_Ok_iff fast_vote_signed_def vs_members_def intro: rev_image_eqI)

definition fast_vote_matches :: "fast_certificate \<Rightarrow> fast_vote \<Rightarrow> bool" where
  "fast_vote_matches fc v \<longleftrightarrow> fv_chain_id v = fc_chain_id fc \<and>
     fv_protocol_version v = fc_protocol_version fc \<and> fv_epoch v = fc_epoch fc \<and>
     fv_tx_hash v = fc_tx_hash fc \<and> fv_execution_effects_hash v = fc_execution_effects_hash fc \<and>
     fv_locked_objects_digest v = fc_locked_objects_digest fc"

definition fast_votes_power :: "fast_path_certifier \<Rightarrow> fast_vote list \<Rightarrow> nat" where
  "fast_votes_power fp vs = sum_list (map (\<lambda>v. vs_power (fp_validator_set fp) (fv_validator v)) vs)"

lemma fast_certificate_step_Ok_iff:
  "fast_certificate_step fp vf fc (prev, w) v = Ok r \<longleftrightarrow>
     (\<forall>p. prev = Some p \<longrightarrow> p < fv_validator v) \<and>
     (fast_vote_matches fc v \<and> verify_fast_vote fp vf v = Ok ()) \<and>
     (\<exists>w'. unat w' = unat w + vs_power (fp_validator_set fp) (fv_validator v) \<and>
       r = (Some (fv_validator v), w'))"
proof (cases "vs_get (fp_validator_set fp) (fv_validator v)")
  case None
  then have "verify_fast_vote fp vf v \<noteq> Ok ()"
    by (simp add: verify_fast_vote_Ok_iff fast_vote_signed_def)
  then show ?thesis by (auto simp: fast_certificate_step_def result_simps split: if_splits)
next
  case (Some info)
  then have pw: "vs_power (fp_validator_set fp) (fv_validator v) = unat (vi_voting_power info)"
    by (simp add: vs_power_def)
  show ?thesis
    using Some
    by (auto simp: fast_certificate_step_def result_simps fast_vote_matches_def pw not_le
        checked_add_Some_iff split: if_splits option.splits)
qed

definition fast_quorum_voted ::
  "fast_path_certifier \<Rightarrow> consensus_verifier \<Rightarrow> fast_certificate \<Rightarrow> bool" where
  "fast_quorum_voted fp vf fc \<longleftrightarrow> key_sorted fv_validator (fc_votes fc) \<and>
     (\<forall>v \<in> set (fc_votes fc). fast_vote_matches fc v \<and> verify_fast_vote fp vf v = Ok ()) \<and>
     unat (quorum_threshold (fp_validator_set fp)) \<le> fast_votes_power fp (fc_votes fc)"

definition fc_signers :: "fast_certificate \<Rightarrow> validator_id set" where
  "fc_signers fc = fv_validator ` set (fc_votes fc)"

lemma fast_votes_power_sum:
  "key_sorted fv_validator vs \<Longrightarrow>
   fast_votes_power fp vs = sum (vs_power (fp_validator_set fp)) (fv_validator ` set vs)"
  unfolding fast_votes_power_def by (rule sorted_power_sum)

lemma verify_fast_certificate_Ok_iff:
  assumes inv: "validator_set_inv (fp_validator_set fp)"
  shows "verify_fast_certificate fp vf fc = Ok u \<longleftrightarrow>
    fc_chain_id fc = fp_chain_id fp \<and> fc_protocol_version fc = fp_protocol_version fp \<and>
    fc_epoch fc = fp_epoch fp \<and> fast_quorum_voted fp vf fc"
proof -
  let ?vs = "fc_votes fc"
  have fold: "(\<exists>q. try_fold (fast_certificate_step fp vf fc) (None, 0) ?vs = Ok (q, r)) \<longleftrightarrow>
      key_sorted fv_validator ?vs \<and>
      (\<forall>v \<in> set ?vs. fast_vote_matches fc v \<and> verify_fast_vote fp vf v = Ok ()) \<and>
      unat r = fast_votes_power fp ?vs" for r
    using power_fold_Ok_iff [OF fast_certificate_step_Ok_iff, where prev = None and w = 0]
    by (simp add: fast_votes_power_def)
  have bound: "fast_votes_power fp ?vs < 2 ^ 64"
    if "key_sorted fv_validator ?vs" "\<forall>v \<in> set ?vs. fast_vote_matches fc v \<and> verify_fast_vote fp vf v = Ok ()"
    unfolding fast_votes_power_sum [OF that(1)]
    using that(2) verify_fast_vote_member [OF inv] by (intro member_power_bound [OF inv]) auto
  have "verify_fast_certificate fp vf fc = Ok u \<longleftrightarrow>
      fc_chain_id fc = fp_chain_id fp \<and> fc_protocol_version fc = fp_protocol_version fp \<and>
      fc_epoch fc = fp_epoch fp \<and>
      (\<exists>r. (\<exists>q. try_fold (fast_certificate_step fp vf fc) (None, 0) ?vs = Ok (q, r)) \<and>
        quorum_threshold (fp_validator_set fp) \<le> r)"
    by (auto simp: verify_fast_certificate_def result_simps Let_def not_less)
  then show ?thesis
    unfolding fold fast_quorum_voted_def using bound quorum_word_iff [of "fast_votes_power fp ?vs"] by auto
qed

interpretation fast_certificates: certificate_scheme
  "\<lambda>(fp, vf :: consensus_verifier). validator_set_inv (fp_validator_set fp)"
  "\<lambda>(fp, _). vs_members (fp_validator_set fp)"
  "\<lambda>(fp, _). vs_power (fp_validator_set fp)"
  "\<lambda>(fp, _). unat (quorum_threshold (fp_validator_set fp))"
  "\<lambda>(fp, vf) fc. verify_fast_certificate fp vf fc = Ok ()" fc_signers
proof unfold_locales
  fix s :: "fast_path_certifier \<times> consensus_verifier" and fc
  obtain fp vf where s: "s = (fp, vf)" by (cases s)
  assume "case s of (fp, vf) \<Rightarrow> validator_set_inv (fp_validator_set fp)"
  then have inv: "validator_set_inv (fp_validator_set fp)" by (simp add: s)
  show "finite (case s of (fp, _) \<Rightarrow> vs_members (fp_validator_set fp))" by (simp add: s)
  show "2 * sum (case s of (fp, _) \<Rightarrow> vs_power (fp_validator_set fp))
      (case s of (fp, _) \<Rightarrow> vs_members (fp_validator_set fp)) <
      3 * (case s of (fp, _) \<Rightarrow> unat (quorum_threshold (fp_validator_set fp)))"
    using inv vs_quorum.threshold_two_thirds by (simp add: s)
  assume "(case s of (fp, vf) \<Rightarrow> \<lambda>fc. verify_fast_certificate fp vf fc = Ok ()) fc"
  then have q: "fast_quorum_voted fp vf fc" using inv by (simp add: s verify_fast_certificate_Ok_iff)
  then show "fc_signers fc \<subseteq> (case s of (fp, _) \<Rightarrow> vs_members (fp_validator_set fp))"
    using verify_fast_vote_member [OF inv] by (auto simp: s fc_signers_def fast_quorum_voted_def)
  show "(case s of (fp, _) \<Rightarrow> unat (quorum_threshold (fp_validator_set fp)))
      \<le> sum (case s of (fp, _) \<Rightarrow> vs_power (fp_validator_set fp)) (fc_signers fc)"
    using q fast_votes_power_sum [of "fc_votes fc" fp]
    by (simp add: s fast_quorum_voted_def fc_signers_def)
qed

section \<open>Forming certificates\<close>

text \<open>The valid votes for a target, and the one that is kept per validator.\<close>

definition fast_vote_valid ::
  "fast_path_certifier \<Rightarrow> consensus_verifier \<Rightarrow> digest32 \<Rightarrow> digest32 \<Rightarrow> digest32 \<Rightarrow> fast_vote \<Rightarrow> bool" where
  "fast_vote_valid fp vf tx ee lo v \<longleftrightarrow> fv_tx_hash v = tx \<and> fv_execution_effects_hash v = ee \<and>
     fv_locked_objects_digest v = lo \<and> verify_fast_vote fp vf v = Ok ()"

definition fast_vote_best ::
  "fast_path_certifier \<Rightarrow> consensus_verifier \<Rightarrow> digest32 \<Rightarrow> digest32 \<Rightarrow> digest32 \<Rightarrow> fast_vote set \<Rightarrow>
   fast_vote \<Rightarrow> bool" where
  "fast_vote_best fp vf tx ee lo V v \<longleftrightarrow> v \<in> V \<and> fast_vote_valid fp vf tx ee lo v \<and>
     (\<forall>u \<in> V. fast_vote_valid fp vf tx ee lo u \<and> fv_validator u = fv_validator v \<longrightarrow>
        fv_signature v \<le> fv_signature u)"

text \<open>A vote that makes the whole call fail.\<close>

definition fast_vote_fatal ::
  "fast_path_certifier \<Rightarrow> consensus_verifier \<Rightarrow> digest32 \<Rightarrow> digest32 \<Rightarrow> digest32 \<Rightarrow> fast_vote \<Rightarrow> bool" where
  "fast_vote_fatal fp vf tx ee lo v \<longleftrightarrow> fv_tx_hash v = tx \<and> fv_execution_effects_hash v = ee \<and>
     fv_locked_objects_digest v = lo \<and> fv_chain_id v = fp_chain_id fp \<and>
     fv_protocol_version v = fp_protocol_version fp \<and> fv_epoch v = fp_epoch fp \<and>
     (case verify_fast_vote fp vf v of Ok _ \<Rightarrow> False | Err e \<Rightarrow> \<not> excludes_vote e | Abort \<Rightarrow> True)"

text \<open>Two valid votes of one validator for one target differ in the signature only.\<close>

lemma fast_vote_valid_unique:
  assumes "fast_vote_valid fp vf tx ee lo u" "fast_vote_valid fp vf tx ee lo v"
    "fv_validator u = fv_validator v" "fv_signature u = fv_signature v"
  shows "u = v"
  using assms
  by (cases u, cases v) (auto simp: fast_vote_valid_def verify_fast_vote_Ok_iff fast_vote_signed_def)

lemma fast_vote_best_exists:
  assumes "finite V" "u \<in> V" "fast_vote_valid fp vf tx ee lo u"
  obtains b where "fast_vote_best fp vf tx ee lo V b" "fv_validator b = fv_validator u"
proof -
  let ?S = "{w \<in> V. fast_vote_valid fp vf tx ee lo w \<and> fv_validator w = fv_validator u}"
  have "finite ?S" "u \<in> ?S" using assms by auto
  then have "Min (fv_signature ` ?S) \<in> fv_signature ` ?S" by (intro Min_in) auto
  then obtain b where b: "b \<in> ?S" "fv_signature b = Min (fv_signature ` ?S)" by auto
  have "fv_signature b \<le> fv_signature w" if "w \<in> ?S" for w
    unfolding b(2) using \<open>finite ?S\<close> that by (intro Min_le) auto
  then show ?thesis using b(1) by (intro that [of b]) (auto simp: fast_vote_best_def)
qed

lemma fast_vote_bestD:
  assumes "fast_vote_best fp vf tx ee lo V v"
  shows "v \<in> V" "fast_vote_valid fp vf tx ee lo v"
    "u \<in> V \<Longrightarrow> fast_vote_valid fp vf tx ee lo u \<Longrightarrow> fv_validator u = fv_validator v \<Longrightarrow>
       fv_signature v \<le> fv_signature u"
  using assms by (simp_all add: fast_vote_best_def)

lemma fast_vote_best_unique:
  assumes "fast_vote_best fp vf tx ee lo V u" "fast_vote_best fp vf tx ee lo V v"
    "fv_validator u = fv_validator v"
  shows "u = v"
  using fast_vote_bestD(1,2) [OF assms(1)] fast_vote_bestD(1,2) [OF assms(2)] assms(3)
  by (intro fast_vote_valid_unique antisym fast_vote_bestD(3) [OF assms(1)]
      fast_vote_bestD(3) [OF assms(2)]) simp_all

text \<open>What a further valid vote changes.\<close>

lemma fast_vote_best_insert_other:
  "fv_validator u \<noteq> fv_validator v \<Longrightarrow>
   fast_vote_best fp vf tx ee lo (insert v V) u \<longleftrightarrow> fast_vote_best fp vf tx ee lo V u"
  by (auto simp: fast_vote_best_def)

lemma fast_vote_best_insert_same:
  assumes v: "fast_vote_valid fp vf tx ee lo v" and b: "fast_vote_best fp vf tx ee lo V b"
    "fv_validator b = fv_validator v"
  shows "fast_vote_best fp vf tx ee lo (insert v V) (if fv_signature v < fv_signature b then v else b)"
proof (cases "fv_signature v < fv_signature b")
  case True
  have "fv_signature v \<le> fv_signature u"
    if "u \<in> V" "fast_vote_valid fp vf tx ee lo u" "fv_validator u = fv_validator v" for u
    using True fast_vote_bestD(3) [OF b(1) that(1,2)] that(3) b(2) by simp
  then show ?thesis using v True by (simp add: fast_vote_best_def)
next
  case False
  then have "fv_signature b \<le> fv_signature v" by (simp add: not_less)
  then show ?thesis using b(1) False by (simp add: fast_vote_best_def)
qed

lemma fast_vote_best_insert_new:
  assumes "fast_vote_valid fp vf tx ee lo v" "finite V"
    and none: "\<nexists>b. fast_vote_best fp vf tx ee lo V b \<and> fv_validator b = fv_validator v"
  shows "fast_vote_best fp vf tx ee lo (insert v V) v"
proof -
  have "\<not> fast_vote_valid fp vf tx ee lo u" if "u \<in> V" "fv_validator u = fv_validator v" for u
    using that none fast_vote_best_exists [OF assms(2) that(1)] by metis
  then show ?thesis using assms(1) unfolding fast_vote_best_def by blast
qed

definition collected ::
  "fast_path_certifier \<Rightarrow> consensus_verifier \<Rightarrow> digest32 \<Rightarrow> digest32 \<Rightarrow> digest32 \<Rightarrow> fast_vote set \<Rightarrow>
   (validator_id, fast_vote) btree_map \<Rightarrow> bool" where
  "collected fp vf tx ee lo V m \<longleftrightarrow> bm_inv m \<and>
     (\<forall>k v. bm_get m k = Some v \<longleftrightarrow> fast_vote_best fp vf tx ee lo V v \<and> fv_validator v = k)"

lemma collect_vote_step:
  assumes m: "collected fp vf tx ee lo V m" and V: "finite V"
  shows "(\<exists>m'. collect_vote fp vf tx ee lo m v = Ok m') \<longleftrightarrow> \<not> fast_vote_fatal fp vf tx ee lo v"
    "collect_vote fp vf tx ee lo m v = Ok m' \<Longrightarrow> collected fp vf tx ee lo (insert v V) m'"
proof -
  show "(\<exists>m'. collect_vote fp vf tx ee lo m v = Ok m') \<longleftrightarrow> \<not> fast_vote_fatal fp vf tx ee lo v"
    by (auto simp: collect_vote_def fast_vote_fatal_def split: result.splits)
next
  assume step: "collect_vote fp vf tx ee lo m v = Ok m'"
  show "collected fp vf tx ee lo (insert v V) m'"
  proof (cases "fast_vote_valid fp vf tx ee lo v")
    case False
    then have "m' = m"
      using step
      by (auto simp: collect_vote_def fast_vote_valid_def split: result.splits if_splits)
    moreover have "fast_vote_best fp vf tx ee lo (insert v V) u \<longleftrightarrow> fast_vote_best fp vf tx ee lo V u" for u
      using False by (auto simp: fast_vote_best_def)
    ultimately show ?thesis using m by (simp add: collected_def)
  next
    case True
    let ?k = "fv_validator v" and ?V = "insert v V"
    have ok: "verify_fast_vote fp vf v = Ok ()" using True by (simp add: fast_vote_valid_def)
    have m': "m' = (case bm_get m ?k of
        Some current \<Rightarrow> if fv_signature v < fv_signature current then bm_insert ?k v m else m
      | None \<Rightarrow> bm_insert ?k v m)"
      using step ok ok [unfolded verify_fast_vote_Ok_iff] True
      by (simp add: collect_vote_def fast_vote_valid_def)
    have inv: "bm_inv m" and
      get: "bm_get m k = Some u \<longleftrightarrow> fast_vote_best fp vf tx ee lo V u \<and> fv_validator u = k" for k u
      using m by (simp_all add: collected_def)
    obtain w where w: "bm_get m' ?k = Some w" "fast_vote_best fp vf tx ee lo ?V w" "fv_validator w = ?k"
    proof (cases "bm_get m ?k")
      case None
      then have "\<nexists>b. fast_vote_best fp vf tx ee lo V b \<and> fv_validator b = ?k" using get [of ?k] by simp
      from fast_vote_best_insert_new [OF True V this] show ?thesis
        using inv None by (intro that [of v]) (simp_all add: m' bm.get_insert)
    next
      case (Some b)
      then have b: "fast_vote_best fp vf tx ee lo V b" "fv_validator b = ?k" using get [of ?k b] by simp_all
      show ?thesis
        using inv Some b(2) fast_vote_best_insert_same [OF True b]
        by (intro that [of "if fv_signature v < fv_signature b then v else b"])
          (simp_all add: m' bm.get_insert)
    qed
    have "bm_get m' k = Some u \<longleftrightarrow> fast_vote_best fp vf tx ee lo ?V u \<and> fv_validator u = k" for k u
    proof (cases "k = ?k")
      case False
      then have "bm_get m' k = bm_get m k"
        using inv by (simp add: m' bm.get_insert split: option.split)
      then show ?thesis using False get [of k u] fast_vote_best_insert_other [of u v] by auto
    next
      case True
      then show ?thesis using w fast_vote_best_unique [OF _ w(2), of u] by auto
    qed
    moreover have "bm_inv m'" using inv by (simp add: m' bm_inv_insert split: option.split)
    ultimately show ?thesis by (simp add: collected_def)
  qed
qed

lemma collect_votes:
  assumes "collected fp vf tx ee lo V m" "finite V"
  shows "(\<exists>m'. try_fold (collect_vote fp vf tx ee lo) m vs = Ok m') \<longleftrightarrow>
      (\<forall>v \<in> set vs. \<not> fast_vote_fatal fp vf tx ee lo v)"
    "try_fold (collect_vote fp vf tx ee lo) m vs = Ok m' \<Longrightarrow> collected fp vf tx ee lo (V \<union> set vs) m'"
proof -
  show "(\<exists>m'. try_fold (collect_vote fp vf tx ee lo) m vs = Ok m') \<longleftrightarrow>
      (\<forall>v \<in> set vs. \<not> fast_vote_fatal fp vf tx ee lo v)"
    using assms
  proof (induction vs arbitrary: V m)
    case (Cons v vs)
    show ?case
    proof (cases "fast_vote_fatal fp vf tx ee lo v")
      case True
      then have "\<nexists>m'. collect_vote fp vf tx ee lo m v = Ok m'" using collect_vote_step(1) [OF Cons.prems] by simp
      then show ?thesis using True by (simp add: try_bind_eq_Ok)
    next
      case False
      then obtain m' where m': "collect_vote fp vf tx ee lo m v = Ok m'"
        using collect_vote_step(1) [OF Cons.prems] by auto
      then show ?thesis
        using Cons.IH [OF collect_vote_step(2) [OF Cons.prems m']] Cons.prems(2) False by simp
    qed
  qed simp
  show "try_fold (collect_vote fp vf tx ee lo) m vs = Ok m' \<Longrightarrow> collected fp vf tx ee lo (V \<union> set vs) m'"
    using assms
  proof (induction vs arbitrary: V m)
    case (Cons v vs)
    then obtain m1 where "collect_vote fp vf tx ee lo m v = Ok m1"
      "try_fold (collect_vote fp vf tx ee lo) m1 vs = Ok m'" by (auto simp: try_bind_eq_Ok)
    then show ?case
      using Cons.IH [OF _ collect_vote_step(2) [OF Cons.prems(2,3)]] Cons.prems(3) by simp
  qed simp
qed

lemma collected_empty: "collected fp vf tx ee lo {} []"
  by (simp add: collected_def fast_vote_best_def bm_inv_def bm_get_def)

text \<open>Only one map can be collected from a set of votes, so their order does not matter.\<close>

lemma collected_unique:
  assumes "collected fp vf tx ee lo V m" "collected fp vf tx ee lo V m'"
  shows "m = m'"
proof -
  have "bm_get m k = Some v \<longleftrightarrow> bm_get m' k = Some v" for k v
    using assms by (simp add: collected_def)
  then have "bm_get m k = bm_get m' k" for k by (metis option.exhaust)
  then show ?thesis using assms bm.entries_ext [of m m'] by (simp add: collected_def)
qed

lemma collect_votes_set:
  assumes "set vs = set vs'"
  shows "try_fold (collect_vote fp vf tx ee lo) [] vs = Ok m \<longleftrightarrow>
    try_fold (collect_vote fp vf tx ee lo) [] vs' = Ok m"
  using collect_votes [OF collected_empty, of fp vf tx ee lo vs]
    collect_votes [OF collected_empty, of fp vf tx ee lo vs'] assms
    collected_unique [of fp vf tx ee lo "set vs"]
  by (metis Un_empty_left finite.emptyI)

text \<open>
  The selection takes the shortest prefix that reaches the threshold. The second argument is the
  power already counted.
\<close>

definition quorum_prefix :: "fast_path_certifier \<Rightarrow> nat \<Rightarrow> fast_vote list \<Rightarrow> fast_vote list \<Rightarrow> bool" where
  "quorum_prefix fp n vs sel \<longleftrightarrow> sel \<noteq> [] \<and> sel = take (length sel) vs \<and>
     n + fast_votes_power fp (butlast sel) < unat (quorum_threshold (fp_validator_set fp)) \<and>
     unat (quorum_threshold (fp_validator_set fp)) \<le> n + fast_votes_power fp sel"

lemma fast_votes_power_Cons:
  "fast_votes_power fp (v # vs) = vs_power (fp_validator_set fp) (fv_validator v) + fast_votes_power fp vs"
  by (simp add: fast_votes_power_def)

lemma quorum_prefix_one:
  assumes "n < unat (quorum_threshold (fp_validator_set fp))"
    "unat (quorum_threshold (fp_validator_set fp)) \<le> n + vs_power (fp_validator_set fp) (fv_validator v)"
  shows "quorum_prefix fp n (v # vs) [v]"
  using assms by (simp add: quorum_prefix_def fast_votes_power_def)

lemma quorum_prefix_Cons:
  assumes "quorum_prefix fp (n + vs_power (fp_validator_set fp) (fv_validator v)) vs sel"
  shows "quorum_prefix fp n (v # vs) (v # sel)"
  using assms by (simp add: quorum_prefix_def fast_votes_power_Cons add.assoc)

lemma select_votes_spec:
  assumes inv: "validator_set_inv (fp_validator_set fp)"
    and m: "\<forall>(k, v) \<in> set m. fv_validator v = k \<and> k \<in> vs_members (fp_validator_set fp)"
    and low: "unat w < unat (quorum_threshold (fp_validator_set fp))"
    and bound: "unat w + fast_votes_power fp (map snd m) < 2 ^ 64"
  shows "select_votes fp w acc m = Ok None \<and>
      unat w + fast_votes_power fp (map snd m) < unat (quorum_threshold (fp_validator_set fp)) \<or>
    (\<exists>sel. select_votes fp w acc m = Ok (Some (acc @ sel)) \<and> quorum_prefix fp (unat w) (map snd m) sel)"
  using m low bound
proof (induction m arbitrary: w acc)
  case Nil
  then show ?case by (simp add: fast_votes_power_def)
next
  case (Cons a m)
  obtain k v where a: "a = (k, v)" by (cases a)
  have kv: "fv_validator v = k" "k \<in> vs_members (fp_validator_set fp)" using Cons.prems(1) by (simp_all add: a)
  then obtain info where info: "vs_get (fp_validator_set fp) k = Some info"
    using vs_get_None_iff [OF inv, of k] by auto
  then have pw: "vs_power (fp_validator_set fp) (fv_validator v) = unat (vi_voting_power info)"
    by (simp add: vs_power_def kv)
  let ?w = "w + vi_voting_power info"
  have fits: "unat w + unat (vi_voting_power info) < 2 ^ 64"
    using Cons.prems(3) by (simp add: a fast_votes_power_Cons pw)
  then have w: "unat ?w = unat w + unat (vi_voting_power info)" by (simp add: unat_add_less)
  have step: "select_votes fp w acc (a # m) =
      (if quorum_threshold (fp_validator_set fp) \<le> ?w then Ok (Some (acc @ [v]))
       else select_votes fp ?w (acc @ [v]) m)"
    using fits by (simp add: a info checked_add_def)
  show ?case
  proof (cases "quorum_threshold (fp_validator_set fp) \<le> ?w")
    case True
    then have "quorum_prefix fp (unat w) (map snd (a # m)) [v]"
      using Cons.prems(2) quorum_prefix_one [of "unat w" fp v "map snd m"]
      by (simp add: a pw word_le_nat_alt w)
    then show ?thesis unfolding step using True by auto
  next
    case False
    then have "select_votes fp ?w (acc @ [v]) m = Ok None \<and>
        unat ?w + fast_votes_power fp (map snd m) < unat (quorum_threshold (fp_validator_set fp)) \<or>
      (\<exists>sel. select_votes fp ?w (acc @ [v]) m = Ok (Some ((acc @ [v]) @ sel)) \<and>
        quorum_prefix fp (unat ?w) (map snd m) sel)"
      using Cons.prems pw [unfolded kv(1)]
      by (intro Cons.IH) (simp_all add: a w fast_votes_power_Cons word_le_nat_alt)
    then show ?thesis
      unfolding step using False quorum_prefix_Cons [of fp "unat w" v "map snd m"]
      by (auto simp: a w pw fast_votes_power_Cons)
  qed
qed

text \<open>The collected votes are the best ones, in validator order.\<close>

lemma collected_votes:
  assumes inv: "validator_set_inv (fp_validator_set fp)" and m: "collected fp vf tx ee lo V m"
  shows "\<forall>(k, v) \<in> set m. fv_validator v = k \<and> k \<in> vs_members (fp_validator_set fp)"
    "key_sorted fv_validator (map snd m)" "set (map snd m) = {v. fast_vote_best fp vf tx ee lo V v}"
    "finite V \<Longrightarrow> fast_votes_power fp (map snd m) =
       sum (vs_power (fp_validator_set fp)) (fv_validator ` {v \<in> V. fast_vote_valid fp vf tx ee lo v})"
    "fast_votes_power fp (map snd m) < 2 ^ 64"
proof -
  have mem: "(k, v) \<in> set m \<longleftrightarrow> fast_vote_best fp vf tx ee lo V v \<and> fv_validator v = k" for k v
    using m bm.get_iff_entries [of m k v] by (simp add: collected_def)
  have member: "fv_validator v \<in> vs_members (fp_validator_set fp)" if "fast_vote_best fp vf tx ee lo V v" for v
    using verify_fast_vote_member [OF inv, of vf v] fast_vote_bestD(2) [OF that]
    by (simp add: fast_vote_valid_def)
  show "\<forall>(k, v) \<in> set m. fv_validator v = k \<and> k \<in> vs_members (fp_validator_set fp)"
  proof (clarify, intro conjI)
    fix k v assume "(k, v) \<in> set m"
    then have "fast_vote_best fp vf tx ee lo V v" "fv_validator v = k" using mem [of k v] by simp_all
    then show "fv_validator v = k" "k \<in> vs_members (fp_validator_set fp)" using member [of v] by simp_all
  qed
  have "fv_validator (snd x) = fst x" if "x \<in> set m" for x using mem [of "fst x" "snd x"] that by simp
  then have "map fv_validator (map snd m) = map fst m" by simp
  then show ks: "key_sorted fv_validator (map snd m)"
    using m by (simp only: key_sorted_def collected_def bm_inv_def)
  show set: "set (map snd m) = {v. fast_vote_best fp vf tx ee lo V v}"
  proof (intro equalityI subsetI)
    fix v assume "v \<in> {v. fast_vote_best fp vf tx ee lo V v}"
    then have "(fv_validator v, v) \<in> set m" using mem [of "fv_validator v" v] by simp
    then show "v \<in> set (map snd m)" by force
  next
    fix v assume "v \<in> set (map snd m)"
    then obtain k where "(k, v) \<in> set m" by auto
    then show "v \<in> {v. fast_vote_best fp vf tx ee lo V v}" using mem [of k v] by simp
  qed
  show "fast_votes_power fp (map snd m) < 2 ^ 64"
    unfolding fast_votes_power_sum [OF ks] set using member by (intro member_power_bound [OF inv]) auto
  assume "finite V"
  then have "fv_validator ` {v. fast_vote_best fp vf tx ee lo V v} =
      fv_validator ` {v \<in> V. fast_vote_valid fp vf tx ee lo v}"
    (is "?f ` ?B = ?f ` ?A")
  proof (intro equalityI subsetI)
    fix k assume "k \<in> ?f ` ?B"
    then show "k \<in> ?f ` ?A" using fast_vote_bestD(1,2) by blast
  next
    fix k assume "k \<in> ?f ` ?A"
    then obtain u where u: "u \<in> V" "fast_vote_valid fp vf tx ee lo u" "k = fv_validator u" by blast
    obtain b where "fast_vote_best fp vf tx ee lo V b" "fv_validator b = fv_validator u"
      by (rule fast_vote_best_exists [OF \<open>finite V\<close> u(1,2)])
    then show "k \<in> ?f ` ?B" using u(3) by (intro image_eqI [of _ _ b]) simp_all
  qed
  then show "fast_votes_power fp (map snd m) =
      sum (vs_power (fp_validator_set fp)) (fv_validator ` {v \<in> V. fast_vote_valid fp vf tx ee lo v})"
    unfolding fast_votes_power_sum [OF ks] set by simp
qed

lemma quorum_prefix_key_sorted:
  assumes "key_sorted f vs" "quorum_prefix fp n vs sel"
  shows "key_sorted f sel" "set sel \<subseteq> set vs"
    "x \<in> set vs \<Longrightarrow> x \<notin> set sel \<Longrightarrow> y \<in> set sel \<Longrightarrow> f y < f x"
proof -
  obtain rest where "vs = sel @ rest"
    using assms(2) by (metis append_take_drop_id quorum_prefix_def)
  then show "key_sorted f sel" "set sel \<subseteq> set vs"
    "x \<in> set vs \<Longrightarrow> x \<notin> set sel \<Longrightarrow> y \<in> set sel \<Longrightarrow> f y < f x"
    using assms(1) by (auto simp: key_sorted_append)
qed

lemma quorum_prefix_power:
  assumes "quorum_prefix fp n vs sel"
  shows "unat (quorum_threshold (fp_validator_set fp)) \<le> n + fast_votes_power fp vs"
proof -
  obtain rest where "vs = sel @ rest" using assms by (metis append_take_drop_id quorum_prefix_def)
  then show ?thesis using assms by (simp add: quorum_prefix_def fast_votes_power_def)
qed

definition formed_certificate ::
  "fast_path_certifier \<Rightarrow> digest32 \<Rightarrow> digest32 \<Rightarrow> digest32 \<Rightarrow> fast_vote list \<Rightarrow> fast_certificate" where
  "formed_certificate fp tx ee lo sel =
     \<lparr> fc_chain_id = fp_chain_id fp, fc_protocol_version = fp_protocol_version fp,
       fc_epoch = fp_epoch fp, fc_tx_hash = tx, fc_execution_effects_hash = ee,
       fc_locked_objects_digest = lo, fc_votes = sel \<rparr>"

lemma formed_cases:
  assumes inv: "validator_set_inv (fp_validator_set fp)"
    and fold: "try_fold (collect_vote fp vf tx ee lo) [] votes = Ok m"
  obtains (none) "try_form_fast_certificate fp vf tx ee lo votes = Ok None"
      "fast_votes_power fp (map snd m) < unat (quorum_threshold (fp_validator_set fp))"
    | (some) sel where
      "try_form_fast_certificate fp vf tx ee lo votes = Ok (Some (formed_certificate fp tx ee lo sel))"
      "quorum_prefix fp 0 (map snd m) sel"
proof -
  have m: "collected fp vf tx ee lo (set votes) m"
    using collect_votes(2) [OF collected_empty _ fold] by simp
  have "unat (0 :: u64) < unat (quorum_threshold (fp_validator_set fp))"
    using vs_quorum.threshold_two_thirds [OF inv] by simp
  from select_votes_spec [OF inv collected_votes(1) [OF inv m] this, where acc = "[]"]
  show ?thesis
    using collected_votes(5) [OF inv m] fold that
    by (auto simp: try_form_fast_certificate_def formed_certificate_def)
qed

lemma formed_certificate_ok:
  assumes inv: "validator_set_inv (fp_validator_set fp)" and m: "collected fp vf tx ee lo V m"
    and sel: "quorum_prefix fp 0 (map snd m) sel"
  shows "verify_fast_certificate fp vf (formed_certificate fp tx ee lo sel) = Ok ()"
    "\<forall>v \<in> set sel. fast_vote_best fp vf tx ee lo V v"
    "finite V \<Longrightarrow> v \<in> V \<Longrightarrow> fast_vote_valid fp vf tx ee lo v \<Longrightarrow> fv_validator v \<notin> fv_validator ` set sel \<Longrightarrow>
       s \<in> fv_validator ` set sel \<Longrightarrow> s < fv_validator v"
proof -
  note votes = collected_votes [OF inv m]
  note prefix = quorum_prefix_key_sorted [OF votes(2) sel]
  show best: "\<forall>v \<in> set sel. fast_vote_best fp vf tx ee lo V v" using prefix(2) votes(3) by auto
  then have "\<forall>v \<in> set sel. fast_vote_matches (formed_certificate fp tx ee lo sel) v \<and>
      verify_fast_vote fp vf v = Ok ()"
    using fast_vote_bestD(2)
    by (fastforce simp: fast_vote_matches_def formed_certificate_def fast_vote_valid_def
        verify_fast_vote_Ok_iff)
  then show "verify_fast_certificate fp vf (formed_certificate fp tx ee lo sel) = Ok ()"
    using prefix(1) sel
    by (simp add: verify_fast_certificate_Ok_iff [OF inv] fast_quorum_voted_def formed_certificate_def
        quorum_prefix_def)
  assume v: "finite V" "v \<in> V" "fast_vote_valid fp vf tx ee lo v" "fv_validator v \<notin> fv_validator ` set sel"
    and s: "s \<in> fv_validator ` set sel"
  obtain b where b: "fast_vote_best fp vf tx ee lo V b" "fv_validator b = fv_validator v"
    by (rule fast_vote_best_exists [OF v(1-3)])
  then have "b \<in> set (map snd m)" "b \<notin> set sel" using votes(3) v(4) by (auto simp: image_iff)
  from s obtain y where y: "y \<in> set sel" "s = fv_validator y" by blast
  show "s < fv_validator v"
    using prefix(3) [OF \<open>b \<in> set (map snd m)\<close> \<open>b \<notin> set sel\<close> y(1)] b(2) y(2) by simp
qed

text \<open>
  C12. Forming a fast certificate does not depend on the order or the multiplicity of the candidate
  votes, only on their set. The call fails exactly when some vote for the target fails verification
  with an error other than the five that merely exclude it. Otherwise no certificate results exactly
  when the validators with a valid vote hold less than the quorum threshold; a certificate that
  results verifies, carries for each signer its valid vote with the smallest signature, and takes the
  signers in ascending order until the threshold is reached and not one more.
\<close>

theorem fast_certificate_formation:
  assumes "validator_set_new e vs = Ok (fp_validator_set fp)"
  shows "((\<exists>r. try_form_fast_certificate fp vf tx ee lo votes = Ok r) \<longleftrightarrow>
      \<not> (\<exists>v \<in> set votes. fast_vote_fatal fp vf tx ee lo v)) \<and>
    (\<forall>r. try_form_fast_certificate fp vf tx ee lo votes = Ok r \<longrightarrow>
      (\<forall>votes'. set votes' = set votes \<longrightarrow> try_form_fast_certificate fp vf tx ee lo votes' = Ok r) \<and>
      (r = None \<longleftrightarrow> sum (vs_power (fp_validator_set fp))
        (fv_validator ` {v \<in> set votes. fast_vote_valid fp vf tx ee lo v}) <
          unat (quorum_threshold (fp_validator_set fp))) \<and>
      (\<forall>fc. r = Some fc \<longrightarrow> verify_fast_certificate fp vf fc = Ok () \<and>
        fc_tx_hash fc = tx \<and> fc_execution_effects_hash fc = ee \<and> fc_locked_objects_digest fc = lo \<and>
        (\<forall>v \<in> set (fc_votes fc). fast_vote_best fp vf tx ee lo (set votes) v) \<and>
        fast_votes_power fp (butlast (fc_votes fc)) < unat (quorum_threshold (fp_validator_set fp)) \<and>
        (\<forall>v \<in> set votes. fast_vote_valid fp vf tx ee lo v \<and> fv_validator v \<notin> fc_signers fc \<longrightarrow>
          (\<forall>s \<in> fc_signers fc. s < fv_validator v))))"
proof (intro conjI allI impI)
  have inv: "validator_set_inv (fp_validator_set fp)" using assms by (simp add: validator_set_new_Ok_iff)
  let ?form = "try_form_fast_certificate fp vf tx ee lo"
  have fold_iff: "(\<exists>m. try_fold (collect_vote fp vf tx ee lo) [] votes = Ok m) \<longleftrightarrow>
      \<not> (\<exists>v \<in> set votes. fast_vote_fatal fp vf tx ee lo v)"
    using collect_votes(1) [OF collected_empty] by simp
  have fold: "\<exists>m. try_fold (collect_vote fp vf tx ee lo) [] votes = Ok m" if "?form votes = Ok r" for r
    using that by (auto simp: try_form_fast_certificate_def result_simps)
  show "(\<exists>r. ?form votes = Ok r) \<longleftrightarrow> \<not> (\<exists>v \<in> set votes. fast_vote_fatal fp vf tx ee lo v)"
    unfolding fold_iff [symmetric] using fold formed_cases [OF inv] by metis
  fix r assume r: "?form votes = Ok r"
  then obtain m where m: "try_fold (collect_vote fp vf tx ee lo) [] votes = Ok m" using fold by blast
  have coll: "collected fp vf tx ee lo (set votes) m"
    using collect_votes(2) [OF collected_empty _ m] by simp
  show "?form votes' = Ok r" if "set votes' = set votes" for votes'
    using r m collect_votes_set [OF that, of fp vf tx ee lo m] by (simp add: try_form_fast_certificate_def)
  have spec: "(r = None \<longleftrightarrow> fast_votes_power fp (map snd m) < unat (quorum_threshold (fp_validator_set fp))) \<and>
      (\<forall>fc. r = Some fc \<longrightarrow> (\<exists>sel. fc = formed_certificate fp tx ee lo sel \<and>
        quorum_prefix fp 0 (map snd m) sel))"
    using inv m
  proof (cases rule: formed_cases)
    case (some sel)
    then show ?thesis using r quorum_prefix_power [OF some(2)] by auto
  qed (use r in simp)
  then show "r = None \<longleftrightarrow> sum (vs_power (fp_validator_set fp))
      (fv_validator ` {v \<in> set votes. fast_vote_valid fp vf tx ee lo v}) <
        unat (quorum_threshold (fp_validator_set fp))"
    using collected_votes(4) [OF inv coll finite_set] by simp
  fix fc assume "r = Some fc"
  with spec obtain sel where fc: "fc = formed_certificate fp tx ee lo sel"
    and sel: "quorum_prefix fp 0 (map snd m) sel" by blast
  note ok = formed_certificate_ok [OF inv coll sel]
  show "verify_fast_certificate fp vf fc = Ok ()" using ok(1) fc by simp
  show "fc_tx_hash fc = tx" "fc_execution_effects_hash fc = ee" "fc_locked_objects_digest fc = lo"
    "\<forall>v \<in> set (fc_votes fc). fast_vote_best fp vf tx ee lo (set votes) v"
    "fast_votes_power fp (butlast (fc_votes fc)) < unat (quorum_threshold (fp_validator_set fp))"
    using ok(2) sel by (simp_all add: fc formed_certificate_def quorum_prefix_def)
  show "\<forall>v \<in> set votes. fast_vote_valid fp vf tx ee lo v \<and> fv_validator v \<notin> fc_signers fc \<longrightarrow>
      (\<forall>s \<in> fc_signers fc. s < fv_validator v)"
    using ok(3) [OF finite_set] by (simp add: fc formed_certificate_def fc_signers_def)
qed

end
