(* ===== verification/Fast_Codec.thy ===== *)
theory Fast_Codec
  imports Fast_Votes
begin

text \<open>
  The codecs of \<^verbatim>\<open>src/crates/consensus/src/fast_vote.rs\<close> are exact: a decoder accepts exactly the bytes
  the encoder writes for a well-formed vote or certificate. The loop that reads list items with
  strictly ascending keys is shared with the locked-object sets of the equivocation evidence.
\<close>

section \<open>Items with ascending keys\<close>

lemma take_ordered_item_Ok_iff:
  assumes "i + base < 2 ^ 16"
  shows "take_ordered_item e w dec key base f (xs, prev) i = Ok r \<longleftrightarrow>
    (\<exists>b x. frame_field f (of_nat (i + base)) = Some b \<and> dec b = Ok x \<and>
      (\<forall>k. prev = Some k \<longrightarrow> k < key x) \<and> r = (xs @ [x], Some (key x)))"
  using assms
  by (auto simp: take_ordered_item_def result_simps u16_try_from_def not_le simp del: of_nat_add
      split: option.splits if_splits)

text \<open>The loop is \<open>take_items\<close> with a check of the order.\<close>

lemma take_ordered_items:
  assumes "n + base \<le> 2 ^ 16"
  shows "(\<exists>prev. try_fold (take_ordered_item e w dec key base f) ([], None) [0..<n] = Ok (xs, prev)) \<longleftrightarrow>
    take_items e w dec base n f = Ok xs \<and> key_sorted key xs" (is "?L \<longleftrightarrow> ?R")
proof
  let ?P = "\<lambda>k (xs, prev). length xs = k \<and> key_sorted key xs \<and>
    (\<forall>i < k. \<exists>b. frame_field f (of_nat (i + base)) = Some b \<and> dec b = Ok (xs ! i)) \<and>
    (\<forall>x \<in> set xs. \<exists>p. prev = Some p \<and> key x \<le> p)"
  assume ?L
  then obtain prev where fold: "try_fold (take_ordered_item e w dec key base f) ([], None) [0..<n] = Ok (xs, prev)"
    by blast
  have "?P n (xs, prev)"
  proof (rule try_fold_upt_inv [where P = ?P, OF fold])
    fix k t t' assume k: "k < n" and inv: "?P k t"
      and step: "take_ordered_item e w dec key base f t k = Ok t'"
    obtain ys prev where t: "t = (ys, prev)" by (cases t)
    have "k + base < 2 ^ 16" using k assms by simp
    from step obtain b x where x: "frame_field f (of_nat (k + base)) = Some b" "dec b = Ok x"
      "\<forall>p. prev = Some p \<longrightarrow> p < key x" "t' = (ys @ [x], Some (key x))"
      unfolding t take_ordered_item_Ok_iff [OF \<open>k + base < 2 ^ 16\<close>] by blast
    have "\<forall>y \<in> set ys. key y < key x"
      using inv x(3) unfolding t by (auto dest!: bspec intro: le_less_trans)
    then show "?P (Suc k) t'"
      using inv x unfolding t
      by (auto simp: key_sorted_def sorted_wrt_append less_imp_le nth_append less_Suc_eq simp del: of_nat_add)
  qed (auto simp: key_sorted_def)
  then show ?R using assms by (simp add: take_items_Ok_iff del: of_nat_add)
next
  let ?S = "\<lambda>k. (take k xs, if k = 0 then None else Some (key (xs ! (k - 1))))"
  assume R: ?R
  then have xs: "length xs = n"
    "\<forall>i < n. \<exists>b. frame_field f (of_nat (i + base)) = Some b \<and> dec b = Ok (xs ! i)"
    using assms by (auto simp: take_items_Ok_iff simp del: of_nat_add)
  have "try_fold (take_ordered_item e w dec key base f) (?S 0) [0..<n] = Ok (?S n)"
  proof (rule try_fold_upt)
    fix k assume k: "k < n"
    then have "k + base < 2 ^ 16" using assms by simp
    moreover have "\<forall>p. snd (?S k) = Some p \<longrightarrow> p < key (xs ! k)"
      using R k xs(1) by (auto simp: key_sorted_def sorted_wrt_iff_nth_less)
    ultimately show "take_ordered_item e w dec key base f (?S k) k = Ok (?S (Suc k))"
      using xs k by (auto simp: take_ordered_item_Ok_iff take_Suc_conv_app_nth simp del: of_nat_add)
  qed simp
  then show ?L using xs(1) by auto
qed

lemma take_ordered_itemsD:
  assumes "try_fold (take_ordered_item e w dec key base f) ([], None) [0..<n] = Ok (xs, prev)"
    "n + base \<le> 2 ^ 16"
  shows "take_items e w dec base n f = Ok xs" "key_sorted key xs"
  using take_ordered_items [OF assms(2), of e w dec key f xs] assms(1) by auto

lemma take_ordered_itemsE:
  assumes "take_items e w dec base n f = Ok xs" "key_sorted key xs" "n + base \<le> 2 ^ 16"
  obtains prev where
    "try_fold (take_ordered_item e w dec key base f) ([], None) [0..<n] = Ok (xs, prev)"
  using take_ordered_items [OF assms(3), of e w dec key f xs] assms(1,2) by auto

section \<open>Fast votes\<close>

lemma encode_fast_vote_payload_Ok_iff:
  "encode_fast_vote_payload v = Ok b \<longleftrightarrow>
     (\<exists>t e l. encode_digest32 (fv_tx_hash v) = Ok t \<and>
       encode_digest32 (fv_execution_effects_hash v) = Ok e \<and>
       encode_digest32 (fv_locked_objects_digest v) = Ok l \<and>
       encode_frame \<lparr> cf_type_id = 0xD006, cf_version = 1, cf_fields =
         [(1, fv_chain_id v), (2, u32_to_le_bytes (fv_protocol_version v)),
          (3, u64_to_le_bytes (fv_epoch v)), (4, t), (5, e), (6, fv_validator v),
          (7, u16_to_le_bytes (signature_scheme_as_u16 (fv_signature_scheme v))), (8, l)] \<rparr> = Ok b)"
  by (auto simp: encode_fast_vote_payload_def encode_simps result_simps)

lemma encode_fast_vote_Ok_iff:
  "encode_fast_vote v = Ok b \<longleftrightarrow>
     fv_signature v \<noteq> [] \<and> length (fv_signature v) \<le> MAX_SIGNATURE_BYTES \<and>
     (\<exists>p. encode_fast_vote_payload v = Ok p \<and>
       encode_frame \<lparr> cf_type_id = 0xD007, cf_version = 1,
         cf_fields = [(1, p), (2, fv_signature v)] \<rparr> = Ok b)"
  by (auto simp: encode_fast_vote_def encode_simps result_simps)

definition fast_vote_wf :: "fast_vote \<Rightarrow> bool" where
  "fast_vote_wf v \<longleftrightarrow> chain_id_wf (fv_chain_id v) \<and> digest32_wf (fv_tx_hash v) \<and>
     digest32_wf (fv_execution_effects_hash v) \<and> digest32_wf (fv_locked_objects_digest v) \<and>
     array32 (fv_validator v)"

lemma decode_fast_vote_Ok_iff: "decode_fast_vote b = Ok v \<longleftrightarrow> fast_vote_wf v \<and> encode_fast_vote v = Ok b"
proof
  assume "decode_fast_vote b = Ok v"
  then show "fast_vote_wf v \<and> encode_fast_vote v = Ok b"
    by (auto simp: decode_fast_vote_def fast_vote_wf_def result_simps Let_def split: if_splits)
next
  assume wf: "fast_vote_wf v \<and> encode_fast_vote v = Ok b"
  then obtain p t e l where enc: "encode_digest32 (fv_tx_hash v) = Ok t"
    "encode_digest32 (fv_execution_effects_hash v) = Ok e"
    "encode_digest32 (fv_locked_objects_digest v) = Ok l" and
    p: "encode_frame \<lparr> cf_type_id = 0xD006, cf_version = 1, cf_fields =
         [(1, fv_chain_id v), (2, u32_to_le_bytes (fv_protocol_version v)),
          (3, u64_to_le_bytes (fv_epoch v)), (4, t), (5, e), (6, fv_validator v),
          (7, u16_to_le_bytes (signature_scheme_as_u16 (fv_signature_scheme v))), (8, l)] \<rparr> = Ok p" and
    b: "encode_frame \<lparr> cf_type_id = 0xD007, cf_version = 1,
         cf_fields = [(1, p), (2, fv_signature v)] \<rparr> = Ok b"
    by (auto simp: encode_fast_vote_Ok_iff encode_fast_vote_payload_Ok_iff)
  have outer: "decode_closed_frame 0xD007 1 [1, 2] b = Ok \<lparr> cf_type_id = 0xD007, cf_version = 1,
      cf_fields = [(1, p), (2, fv_signature v)] \<rparr>" (is "_ = Ok ?o")
    by (rule decode_closed_encoded [OF b]) simp_all
  have inner: "decode_closed_frame 0xD006 1 [1, 2, 3, 4, 5, 6, 7, 8] p = Ok \<lparr> cf_type_id = 0xD006,
      cf_version = 1, cf_fields =
         [(1, fv_chain_id v), (2, u32_to_le_bytes (fv_protocol_version v)),
          (3, u64_to_le_bytes (fv_epoch v)), (4, t), (5, e), (6, fv_validator v),
          (7, u16_to_le_bytes (signature_scheme_as_u16 (fv_signature_scheme v))), (8, l)] \<rparr>" (is "_ = Ok ?i")
    by (rule decode_closed_encoded [OF p]) simp_all
  show "decode_fast_vote b = Ok v"
    unfolding decode_fast_vote_def consensus_ids using wf enc outer inner
    by (cases v) (auto simp: result_simps codec_simps fast_vote_wf_def Let_def)
qed

interpretation fast_vote_codec: strict_codec encode_fast_vote decode_fast_vote fast_vote_wf
  by unfold_locales (auto simp: decode_fast_vote_Ok_iff)

section \<open>Fast certificates\<close>

definition fast_certificate_head ::
  "fast_certificate \<Rightarrow> bytes \<Rightarrow> bytes \<Rightarrow> bytes \<Rightarrow> (u16 \<times> bytes) list" where
  "fast_certificate_head fc t e l =
     [(1, fc_chain_id fc), (2, u32_to_le_bytes (fc_protocol_version fc)),
      (3, u64_to_le_bytes (fc_epoch fc)), (4, t), (5, e), (6, l),
      (7, u32_to_le_bytes (of_nat (length (fc_votes fc))))]"

lemma length_fast_certificate_head [simp]: "length (fast_certificate_head fc t e l) = 7"
  by (simp add: fast_certificate_head_def)

lemma fast_certificate_list_head:
  "n \<le> MAX_FAST_CERTIFICATE_VOTES \<Longrightarrow> list_head (fast_certificate_head fc t e l) n"
  by (simp add: list_head_def fast_certificate_head_def MAX_FAST_CERTIFICATE_VOTES_def upt_rec)

lemma encode_fast_certificate_Ok_iff:
  "encode_fast_certificate fc = Ok b \<longleftrightarrow> length (fc_votes fc) \<le> MAX_FAST_CERTIFICATE_VOTES \<and>
     (\<exists>t e l bs. encode_digest32 (fc_tx_hash fc) = Ok t \<and>
       encode_digest32 (fc_execution_effects_hash fc) = Ok e \<and>
       encode_digest32 (fc_locked_objects_digest fc) = Ok l \<and>
       list_all2 (\<lambda>v b. encode_fast_vote v = Ok b) (fc_votes fc) bs \<and>
       encode_frame (list_frame 0xD008 1 (fast_certificate_head fc t e l) bs) = Ok b)"
proof (cases "length (fc_votes fc) \<le> MAX_FAST_CERTIFICATE_VOTES")
  case True
  let ?put = "\<lambda>t e l. try_bind (put_items NonCanonicalCertificateVotes CeCanonicalEncoding encode_fast_vote 8
      (fc_votes fc) \<lparr> cs_type_id = 0xD008, cs_version = 1, cs_fields = fast_certificate_head fc t e l \<rparr>)
      (\<lambda>c. map_err CeCanonicalEncoding (finish c))"
  have items: "?put t e l = Ok b \<longleftrightarrow>
    (\<exists>bs. list_all2 (\<lambda>v b. encode_fast_vote v = Ok b) (fc_votes fc) bs \<and>
      encode_frame (list_frame 0xD008 1 (fast_certificate_head fc t e l) bs) = Ok b)" for t e l
    by (rule put_list_frame_Ok_iff [OF fast_certificate_list_head [OF True]]) simp
  have "encode_fast_certificate fc = Ok b \<longleftrightarrow>
      (\<exists>t e l. encode_digest32 (fc_tx_hash fc) = Ok t \<and>
       encode_digest32 (fc_execution_effects_hash fc) = Ok e \<and>
       encode_digest32 (fc_locked_objects_digest fc) = Ok l \<and> ?put t e l = Ok b)"
    using True
    by (cases "encode_digest32 (fc_tx_hash fc)"; cases "encode_digest32 (fc_execution_effects_hash fc)";
        cases "encode_digest32 (fc_locked_objects_digest fc)")
      (simp_all add: encode_fast_certificate_def encode_simps u32_try_from_def
        MAX_FAST_CERTIFICATE_VOTES_def fast_certificate_head_def)
  then show ?thesis using True unfolding items by auto
next
  case False
  then show ?thesis by (simp add: encode_fast_certificate_def)
qed

definition fast_certificate_wf :: "fast_certificate \<Rightarrow> bool" where
  "fast_certificate_wf fc \<longleftrightarrow> chain_id_wf (fc_chain_id fc) \<and> digest32_wf (fc_tx_hash fc) \<and>
     digest32_wf (fc_execution_effects_hash fc) \<and> digest32_wf (fc_locked_objects_digest fc) \<and>
     list_all fast_vote_wf (fc_votes fc) \<and> key_sorted fv_validator (fc_votes fc)"

lemma decode_fast_certificateD:
  assumes "decode_fast_certificate b = Ok fc"
  shows "fast_certificate_wf fc \<and> encode_fast_certificate fc = Ok b"
proof -
  from assms obtain f n prev where f: "chain_id_wf (fc_chain_id fc)" "digest32_wf (fc_tx_hash fc)"
    "digest32_wf (fc_execution_effects_hash fc)" "digest32_wf (fc_locked_objects_digest fc)"
    "n \<le> MAX_FAST_CERTIFICATE_VOTES"
    "try_fold (take_ordered_item NonCanonicalCertificateVotes CeCanonicalDecoding decode_fast_vote
       fv_validator 8 f) ([], None) [0..<n] = Ok (fc_votes fc, prev)"
    "encode_fast_certificate fc = Ok b"
    by (auto simp: decode_fast_certificate_def result_simps Let_def not_less split: if_splits)
  have "n + 8 \<le> 2 ^ 16" using f(5) by (simp add: MAX_FAST_CERTIFICATE_VOTES_def)
  then show ?thesis
    using f(1-4,7) take_ordered_itemsD [OF f(6)]
    by (auto simp: fast_certificate_wf_def take_items_Ok_iff list_all_length decode_fast_vote_Ok_iff
        simp del: of_nat_add)
qed

lemma decode_encode_fast_certificate:
  assumes wf: "fast_certificate_wf fc" and enc: "encode_fast_certificate fc = Ok b"
  shows "decode_fast_certificate b = Ok fc"
proof -
  let ?n = "length (fc_votes fc)"
  from enc obtain t e l bs where max: "?n \<le> MAX_FAST_CERTIFICATE_VOTES"
    and d: "encode_digest32 (fc_tx_hash fc) = Ok t" "encode_digest32 (fc_execution_effects_hash fc) = Ok e"
      "encode_digest32 (fc_locked_objects_digest fc) = Ok l"
    and bs: "list_all2 (\<lambda>v b. encode_fast_vote v = Ok b) (fc_votes fc) bs"
    and b: "encode_frame (list_frame 0xD008 1 (fast_certificate_head fc t e l) bs) = Ok b"
    by (auto simp: encode_fast_certificate_Ok_iff)
  let ?f = "list_frame 0xD008 1 (fast_certificate_head fc t e l) bs"
  have len: "length bs = ?n" using bs by (simp add: list_all2_lengthD)
  have "list_all2 (\<lambda>v b. decode_fast_vote b = Ok v) (fc_votes fc) bs"
    using wf bs by (simp add: list_all2_decode_encode [of decode_fast_vote, OF decode_fast_vote_Ok_iff]
        fast_certificate_wf_def)
  then have f: "has_fields ?f (fast_certificate_head fc t e l)" "length (cf_fields ?f) = 7 + ?n"
    "take_items NonCanonicalCertificateVotes CeCanonicalDecoding decode_fast_vote 8 ?n ?f = Ok (fc_votes fc)"
    using take_list_frame_count_iff [where f = ?f and t = "0xD008" and v = 1 and xs = "fc_votes fc"
        and e = NonCanonicalCertificateVotes and w = CeCanonicalDecoding and dec = decode_fast_vote
        and hs = "fast_certificate_head fc t e l"] fast_certificate_list_head [OF max]
    by (auto simp: numeral_eq_Suc)
  have n: "unat (of_nat ?n :: u32) = ?n" "?n + 8 \<le> 2 ^ 16" "usize_checked_add ?n 7 = Some (?n + 7)"
    using max by (simp_all add: unat_of_nat MAX_FAST_CERTIFICATE_VOTES_def usize_checked_add_def usize_max_def)
  obtain prev where votes: "try_fold (take_ordered_item NonCanonicalCertificateVotes CeCanonicalDecoding
      decode_fast_vote fv_validator 8 ?f) ([], None) [0..<?n] = Ok (fc_votes fc, prev)"
    using wf by (auto simp: fast_certificate_wf_def intro: take_ordered_itemsE [OF f(3) _ n(2)])
  have head: "required_chain_id ?f = Ok (fc_chain_id fc)" "required_digest ?f 4 = Ok (fc_tx_hash fc)"
    "required_digest ?f 5 = Ok (fc_execution_effects_hash fc)"
    "required_digest ?f 6 = Ok (fc_locked_objects_digest fc)"
    "required_u32 ?f 2 = Ok (fc_protocol_version fc)" "required_u64 ?f 3 = Ok (fc_epoch fc)"
    "required_u32 ?f 7 = Ok (of_nat ?n)"
    using f(1) wf d by (simp_all add: has_fields_def fast_certificate_head_def result_simps fast_certificate_wf_def)
  have "list_head (fast_certificate_head fc t e l) (length bs)" using max len by (simp add: fast_certificate_list_head)
  from decode_list_frame [OF this b] show ?thesis
    using votes head n len max enc
    by (cases fc) (auto simp: decode_fast_certificate_def consensus_ids require_type_def require_version_def)
qed

lemma decode_fast_certificate_Ok_iff:
  "decode_fast_certificate b = Ok fc \<longleftrightarrow> fast_certificate_wf fc \<and> encode_fast_certificate fc = Ok b"
  using decode_fast_certificateD decode_encode_fast_certificate by blast

interpretation fast_certificate_codec: strict_codec encode_fast_certificate decode_fast_certificate
  fast_certificate_wf
  by unfold_locales (auto simp: decode_fast_certificate_Ok_iff)

end
