(* ===== verification/Equivocation.thy ===== *)
theory Equivocation
  imports Fast_Codec
begin

text \<open>
  Evidence of equivocation on the fast path (\<^verbatim>\<open>src/crates/consensus/src/equivocation.rs\<close>, classes a
  and b): building it from two signed votes, verifying it, and its strict codecs. Evidence does not
  depend on the order in which the two votes are given, it decodes to itself, and two conflicting fast
  certificates yield verified evidence against more than a third of the voting power.
\<close>

section \<open>Evidence\<close>

definition MAX_LOCKED_OBJECT_SET_ENTRIES :: usize where
  "MAX_LOCKED_OBJECT_SET_ENTRIES = 4096"

record locked_object_set_preimage =
  lp_chain_id :: chain_id
  lp_protocol_version :: protocol_version
  lp_epoch :: epoch
  lp_entries :: "object_ref list"

record fast_vote_equivocation_evidence =
  fe_chain_id :: chain_id
  fe_protocol_version :: protocol_version
  fe_epoch :: epoch
  fe_tx_hash :: digest32
  fe_validator :: validator_id
  fe_low :: fast_vote
  fe_high :: fast_vote

record fast_vote_object_conflict_evidence =
  oc_chain_id :: chain_id
  oc_protocol_version :: protocol_version
  oc_epoch :: epoch
  oc_validator :: validator_id
  oc_conflicting_object_id :: object_id
  oc_conflicting_version :: u64
  oc_low :: fast_vote
  oc_low_preimage :: locked_object_set_preimage
  oc_high :: fast_vote
  oc_high_preimage :: locked_object_set_preimage

section \<open>Locked-object sets\<close>

definition encode_locked_object_set_preimage ::
  "locked_object_set_preimage \<Rightarrow> (consensus_error, bytes) result" where
  "encode_locked_object_set_preimage lp =
     (if length (lp_entries lp) > MAX_LOCKED_OBJECT_SET_ENTRIES
      then Err NonCanonicalLockedObjectOrder
      else
        try_bind (map_err CeCanonicalEncoding (
          try_bind (field_str 1 (lp_chain_id lp) (cs_new 0xD00C CONSENSUS_ENCODING_VERSION)) (\<lambda>c.
          try_bind (field_u32 2 (lp_protocol_version lp) c) (\<lambda>c.
          field_u64 3 (lp_epoch lp) c)))) (\<lambda>c.
        try_bind (ok_or (u32_try_from (length (lp_entries lp))) NonCanonicalLockedObjectOrder)
          (\<lambda>count.
        try_bind (map_err CeCanonicalEncoding (field_u32 4 count c)) (\<lambda>c.
        try_bind (put_items NonCanonicalLockedObjectOrder CeCanonicalEncoding
                    (\<lambda>x. map_err CeObject (encode_object_ref x)) 5 (lp_entries lp) c) (\<lambda>c.
        map_err CeCanonicalEncoding (finish c))))))"

definition decode_locked_object_set_preimage ::
  "bytes \<Rightarrow> (consensus_error, locked_object_set_preimage) result" where
  "decode_locked_object_set_preimage input =
     try_bind (map_err CeCanonicalDecoding (decode_canonical_frame input)) (\<lambda>frame.
     try_bind (map_err CeCanonicalDecoding (require_type frame 0xD00C)) (\<lambda>_.
     try_bind (map_err CeCanonicalDecoding (require_version frame CONSENSUS_ENCODING_VERSION)) (\<lambda>_.
     try_bind (required_chain_id frame) (\<lambda>chain_id.
     try_bind (map_err CeCanonicalDecoding (required_u32 frame 2)) (\<lambda>protocol_version.
     try_bind (map_err CeCanonicalDecoding (required_u64 frame 3)) (\<lambda>epoch.
     try_bind (map_err CeCanonicalDecoding (required_u32 frame 4)) (\<lambda>count32.
     let count = unat count32 in
     if count > MAX_LOCKED_OBJECT_SET_ENTRIES then Err NonCanonicalLockedObjectOrder
     else
       try_bind (ok_or (usize_checked_add count 4) NonCanonicalLockedObjectOrder) (\<lambda>expected.
       if length (cf_fields frame) \<noteq> expected then Err NonCanonicalLockedObjectOrder
       else
         try_bind (try_fold (take_ordered_item NonCanonicalLockedObjectOrder CeCanonicalDecoding
                     (\<lambda>b. map_err CeObject (decode_object_ref b)) or_id 5 frame) ([], None) [0..<count])
           (\<lambda>(entries, _).
         let preimage = \<lparr> lp_chain_id = chain_id, lp_protocol_version = protocol_version,
               lp_epoch = epoch, lp_entries = entries \<rparr> in
         try_bind (encode_locked_object_set_preimage preimage) (\<lambda>b.
         if b \<noteq> input then Err NonCanonicalLockedObjectOrder else Ok preimage))))))))))"

definition require_preimage_matches_vote_context ::
  "locked_object_set_preimage \<Rightarrow> fast_vote \<Rightarrow> (consensus_error, unit) result" where
  "require_preimage_matches_vote_context lp v =
     (if lp_chain_id lp \<noteq> fv_chain_id v \<or> lp_protocol_version lp \<noteq> fv_protocol_version v \<or>
         lp_epoch lp \<noteq> fv_epoch v
      then Err CertificateVoteMismatch else Ok ())"

text \<open>Collecting an iterator into a \<open>BTreeSet\<close>, and the first element of one.\<close>

definition collect_set :: "'k :: linorder list \<Rightarrow> 'k btree_set" where
  "collect_set ks = foldl (\<lambda>s k. snd (bs_insert k s)) [] ks"

definition first_elem :: "'k btree_set \<Rightarrow> 'k option" where
  "first_elem s = (case bs_elems s of [] \<Rightarrow> None | k # _ \<Rightarrow> Some k)"

definition shared_object_versions ::
  "locked_object_set_preimage \<Rightarrow> locked_object_set_preimage \<Rightarrow> (object_id \<times> u64) btree_set" where
  "shared_object_versions low_preimage high_preimage =
     (let low_set = collect_set (map (\<lambda>x. (or_id x, or_version x)) (lp_entries low_preimage)) in
      collect_set (filter (bm_contains_key low_set)
        (map (\<lambda>x. (or_id x, or_version x)) (lp_entries high_preimage))))"

definition require_canonical_object_conflict ::
  "fast_vote \<Rightarrow> locked_object_set_preimage \<Rightarrow> fast_vote \<Rightarrow> locked_object_set_preimage \<Rightarrow> object_id \<Rightarrow>
   u64 \<Rightarrow> (consensus_error, unit) result" where
  "require_canonical_object_conflict low low_preimage high high_preimage object_id version =
     try_bind (require_preimage_matches_vote_context low_preimage low) (\<lambda>_.
     try_bind (require_preimage_matches_vote_context high_preimage high) (\<lambda>_.
     try_bind (ok_or (first_elem (shared_object_versions low_preimage high_preimage))
                 ObjectConflictNotProvenByPreimages) (\<lambda>smallest.
     if smallest \<noteq> (object_id, version) then Err ObjectConflictNotProvenByPreimages else Ok ())))"

section \<open>Building\<close>

definition build_fast_vote_equivocation_evidence ::
  "fast_vote \<Rightarrow> fast_vote \<Rightarrow> (consensus_error, fast_vote_equivocation_evidence) result" where
  "build_fast_vote_equivocation_evidence a b =
     (if fv_chain_id a \<noteq> fv_chain_id b \<or> fv_protocol_version a \<noteq> fv_protocol_version b \<or>
         fv_epoch a \<noteq> fv_epoch b \<or> fv_validator a \<noteq> fv_validator b \<or> fv_tx_hash a \<noteq> fv_tx_hash b
      then Err EquivocationEvidenceConflictKeyMismatch
      else
        try_bind (encode_fast_vote_payload a) (\<lambda>payload_a.
        try_bind (encode_fast_vote_payload b) (\<lambda>payload_b.
        if payload_a = payload_b then Err EquivocationEvidenceStatementsIdentical
        else
          (case (if payload_a < payload_b then (a, b) else (b, a)) of (low, high) \<Rightarrow>
           Ok \<lparr> fe_chain_id = fv_chain_id a, fe_protocol_version = fv_protocol_version a,
                fe_epoch = fv_epoch a, fe_tx_hash = fv_tx_hash a, fe_validator = fv_validator a,
                fe_low = low, fe_high = high \<rparr>))))"

definition build_fast_vote_object_conflict_evidence ::
  "fast_vote \<Rightarrow> fast_vote \<Rightarrow> locked_object_set_preimage \<Rightarrow> locked_object_set_preimage \<Rightarrow>
   (consensus_error, fast_vote_object_conflict_evidence) result" where
  "build_fast_vote_object_conflict_evidence a b a_preimage b_preimage =
     (if fv_chain_id a \<noteq> fv_chain_id b \<or> fv_protocol_version a \<noteq> fv_protocol_version b \<or>
         fv_epoch a \<noteq> fv_epoch b \<or> fv_validator a \<noteq> fv_validator b
      then Err EquivocationEvidenceConflictKeyMismatch
      else if fv_tx_hash a = fv_tx_hash b then Err ObjectConflictRequiresDistinctTransactions
      else
        try_bind (require_preimage_matches_vote_context a_preimage a) (\<lambda>_.
        try_bind (require_preimage_matches_vote_context b_preimage b) (\<lambda>_.
        try_bind (ok_or (first_elem (shared_object_versions a_preimage b_preimage))
                    ObjectConflictNotFound) (\<lambda>(object_id, version).
        case (if fv_tx_hash a < fv_tx_hash b then (a, a_preimage, b, b_preimage)
              else (b, b_preimage, a, a_preimage)) of (low, low_preimage, high, high_preimage) \<Rightarrow>
          Ok \<lparr> oc_chain_id = fv_chain_id a, oc_protocol_version = fv_protocol_version a,
               oc_epoch = fv_epoch a, oc_validator = fv_validator a,
               oc_conflicting_object_id = object_id, oc_conflicting_version = version,
               oc_low = low, oc_low_preimage = low_preimage,
               oc_high = high, oc_high_preimage = high_preimage \<rparr>))))"

section \<open>Verifying\<close>

definition verify_fast_vote_equivocation_evidence ::
  "fast_vote_equivocation_evidence \<Rightarrow> validator_set \<Rightarrow> consensus_verifier \<Rightarrow>
   (consensus_error, unit) result" where
  "verify_fast_vote_equivocation_evidence ev vset vf =
     try_bind (fast_path_certifier_new (fe_chain_id ev) (fe_protocol_version ev) (fe_epoch ev) vset)
       (\<lambda>certifier.
     try_bind (verify_fast_vote certifier vf (fe_low ev)) (\<lambda>_.
     try_bind (verify_fast_vote certifier vf (fe_high ev)) (\<lambda>_. Ok ())))"

definition verify_fast_vote_object_conflict_evidence ::
  "fast_vote_object_conflict_evidence \<Rightarrow> validator_set \<Rightarrow> consensus_verifier \<Rightarrow>
   (consensus_error, unit) result" where
  "verify_fast_vote_object_conflict_evidence ev vset vf =
     try_bind (fast_path_certifier_new (oc_chain_id ev) (oc_protocol_version ev) (oc_epoch ev) vset)
       (\<lambda>certifier.
     try_bind (verify_fast_vote certifier vf (oc_low ev)) (\<lambda>_.
     try_bind (verify_fast_vote certifier vf (oc_high ev)) (\<lambda>_.
     require_canonical_object_conflict (oc_low ev) (oc_low_preimage ev) (oc_high ev)
       (oc_high_preimage ev) (oc_conflicting_object_id ev) (oc_conflicting_version ev))))"

section \<open>Codecs\<close>

definition encode_fast_vote_equivocation_evidence ::
  "fast_vote_equivocation_evidence \<Rightarrow> (consensus_error, bytes) result" where
  "encode_fast_vote_equivocation_evidence ev =
     try_bind (map_err CeCanonicalEncoding (
       try_bind (field_str 1 (fe_chain_id ev) (cs_new 0xD00D CONSENSUS_ENCODING_VERSION)) (\<lambda>c.
       try_bind (field_u32 2 (fe_protocol_version ev) c) (\<lambda>c.
       try_bind (field_u64 3 (fe_epoch ev) c) (\<lambda>c.
       try_bind (encode_digest32 (fe_tx_hash ev)) (\<lambda>d.
       try_bind (field_bytes 4 d c) (\<lambda>c.
       field_bytes 5 (fe_validator ev) c))))))) (\<lambda>c.
     try_bind (encode_fast_vote (fe_low ev)) (\<lambda>low.
     try_bind (map_err CeCanonicalEncoding (field_bytes 6 low c)) (\<lambda>c.
     try_bind (encode_fast_vote (fe_high ev)) (\<lambda>high.
     try_bind (map_err CeCanonicalEncoding (field_bytes 7 high c)) (\<lambda>c.
     map_err CeCanonicalEncoding (finish c))))))"

definition decode_fast_vote_equivocation_evidence ::
  "bytes \<Rightarrow> (consensus_error, fast_vote_equivocation_evidence) result" where
  "decode_fast_vote_equivocation_evidence input =
     try_bind (map_err CeCanonicalDecoding
       (decode_closed_frame 0xD00D CONSENSUS_ENCODING_VERSION [1, 2, 3, 4, 5, 6, 7] input)) (\<lambda>frame.
     try_bind (required_chain_id frame) (\<lambda>chain_id.
     try_bind (map_err CeCanonicalDecoding (required_u32 frame 2)) (\<lambda>protocol_version.
     try_bind (map_err CeCanonicalDecoding (required_u64 frame 3)) (\<lambda>epoch.
     try_bind (required_digest frame 4) (\<lambda>tx_hash.
     try_bind (map_err CeCanonicalDecoding (required_field frame 5)) (\<lambda>validator_field.
     try_bind (field_array32 5 validator_field) (\<lambda>validator.
     try_bind (try_bind (map_err CeCanonicalDecoding (required_field frame 6)) decode_fast_vote) (\<lambda>low.
     try_bind (try_bind (map_err CeCanonicalDecoding (required_field frame 7)) decode_fast_vote) (\<lambda>high.
     if fv_chain_id low \<noteq> chain_id \<or> fv_protocol_version low \<noteq> protocol_version \<or>
        fv_epoch low \<noteq> epoch \<or> fv_tx_hash low \<noteq> tx_hash \<or> fv_validator low \<noteq> validator \<or>
        fv_chain_id high \<noteq> chain_id \<or> fv_protocol_version high \<noteq> protocol_version \<or>
        fv_epoch high \<noteq> epoch \<or> fv_tx_hash high \<noteq> tx_hash \<or> fv_validator high \<noteq> validator
     then Err CertificateVoteMismatch
     else
       try_bind (encode_fast_vote_payload low) (\<lambda>payload_low.
       try_bind (encode_fast_vote_payload high) (\<lambda>payload_high.
       if payload_low \<ge> payload_high then Err NonCanonicalEquivocationEvidenceOrder
       else
         let evidence = \<lparr> fe_chain_id = chain_id, fe_protocol_version = protocol_version,
               fe_epoch = epoch, fe_tx_hash = tx_hash, fe_validator = validator,
               fe_low = low, fe_high = high \<rparr> in
         try_bind (encode_fast_vote_equivocation_evidence evidence) (\<lambda>b.
         if b \<noteq> input then Err NonCanonicalEquivocationEvidenceOrder else Ok evidence))))))))))))"

definition encode_fast_vote_object_conflict_evidence ::
  "fast_vote_object_conflict_evidence \<Rightarrow> (consensus_error, bytes) result" where
  "encode_fast_vote_object_conflict_evidence ev =
     try_bind (map_err CeCanonicalEncoding (
       try_bind (field_str 1 (oc_chain_id ev) (cs_new 0xD00E CONSENSUS_ENCODING_VERSION)) (\<lambda>c.
       try_bind (field_u32 2 (oc_protocol_version ev) c) (\<lambda>c.
       try_bind (field_u64 3 (oc_epoch ev) c) (\<lambda>c.
       try_bind (field_bytes 4 (oc_validator ev) c) (\<lambda>c.
       try_bind (field_bytes 5 (oc_conflicting_object_id ev) c) (\<lambda>c.
       field_u64 6 (oc_conflicting_version ev) c))))))) (\<lambda>c.
     try_bind (encode_fast_vote (oc_low ev)) (\<lambda>low.
     try_bind (map_err CeCanonicalEncoding (field_bytes 7 low c)) (\<lambda>c.
     try_bind (encode_locked_object_set_preimage (oc_low_preimage ev)) (\<lambda>low_preimage.
     try_bind (map_err CeCanonicalEncoding (field_bytes 8 low_preimage c)) (\<lambda>c.
     try_bind (encode_fast_vote (oc_high ev)) (\<lambda>high.
     try_bind (map_err CeCanonicalEncoding (field_bytes 9 high c)) (\<lambda>c.
     try_bind (encode_locked_object_set_preimage (oc_high_preimage ev)) (\<lambda>high_preimage.
     try_bind (map_err CeCanonicalEncoding (field_bytes 10 high_preimage c)) (\<lambda>c.
     map_err CeCanonicalEncoding (finish c))))))))))"

definition decode_fast_vote_object_conflict_evidence ::
  "bytes \<Rightarrow> (consensus_error, fast_vote_object_conflict_evidence) result" where
  "decode_fast_vote_object_conflict_evidence input =
     try_bind (map_err CeCanonicalDecoding
       (decode_closed_frame 0xD00E CONSENSUS_ENCODING_VERSION [1, 2, 3, 4, 5, 6, 7, 8, 9, 10] input))
       (\<lambda>frame.
     try_bind (required_chain_id frame) (\<lambda>chain_id.
     try_bind (map_err CeCanonicalDecoding (required_u32 frame 2)) (\<lambda>protocol_version.
     try_bind (map_err CeCanonicalDecoding (required_u64 frame 3)) (\<lambda>epoch.
     try_bind (map_err CeCanonicalDecoding (required_field frame 4)) (\<lambda>validator_field.
     try_bind (field_array32 4 validator_field) (\<lambda>validator.
     try_bind (map_err CeCanonicalDecoding (required_field frame 5)) (\<lambda>object_id_field.
     try_bind (field_array32 5 object_id_field) (\<lambda>object_id.
     try_bind (map_err CeCanonicalDecoding (required_u64 frame 6)) (\<lambda>version.
     try_bind (try_bind (map_err CeCanonicalDecoding (required_field frame 7)) decode_fast_vote) (\<lambda>low.
     try_bind (try_bind (map_err CeCanonicalDecoding (required_field frame 8))
                 decode_locked_object_set_preimage) (\<lambda>low_preimage.
     try_bind (try_bind (map_err CeCanonicalDecoding (required_field frame 9)) decode_fast_vote) (\<lambda>high.
     try_bind (try_bind (map_err CeCanonicalDecoding (required_field frame 10))
                 decode_locked_object_set_preimage) (\<lambda>high_preimage.
     if fv_chain_id low \<noteq> chain_id \<or> fv_protocol_version low \<noteq> protocol_version \<or>
        fv_epoch low \<noteq> epoch \<or> fv_validator low \<noteq> validator \<or>
        fv_chain_id high \<noteq> chain_id \<or> fv_protocol_version high \<noteq> protocol_version \<or>
        fv_epoch high \<noteq> epoch \<or> fv_validator high \<noteq> validator
     then Err CertificateVoteMismatch
     else if fv_tx_hash low = fv_tx_hash high then Err ObjectConflictRequiresDistinctTransactions
     else if fv_tx_hash low \<ge> fv_tx_hash high then Err NonCanonicalEquivocationEvidenceOrder
     else
       try_bind (require_canonical_object_conflict low low_preimage high high_preimage object_id
                   version) (\<lambda>_.
       let evidence = \<lparr> oc_chain_id = chain_id, oc_protocol_version = protocol_version,
             oc_epoch = epoch, oc_validator = validator, oc_conflicting_object_id = object_id,
             oc_conflicting_version = version, oc_low = low, oc_low_preimage = low_preimage,
             oc_high = high, oc_high_preimage = high_preimage \<rparr> in
       try_bind (encode_fast_vote_object_conflict_evidence evidence) (\<lambda>b.
       if b \<noteq> input then Err NonCanonicalEquivocationEvidenceOrder else Ok evidence)))))))))))))))"

section \<open>Shared object versions\<close>

definition object_versions :: "locked_object_set_preimage \<Rightarrow> (object_id \<times> u64) set" where
  "object_versions lp = (\<lambda>x. (or_id x, or_version x)) ` set (lp_entries lp)"

lemma collect_set_inv: "bm_inv (collect_set ks)" "fst ` set (collect_set ks) = set ks"
proof -
  have "bm_inv s \<Longrightarrow> bm_inv (foldl (\<lambda>s k. snd (bs_insert k s)) s ks)" for s :: "'a btree_set"
    by (induction ks arbitrary: s) (simp_all add: bs_insert_def bm_inv_insert)
  then show "bm_inv (collect_set ks)" by (simp add: collect_set_def bm_inv_def)
  have "fst ` set (foldl (\<lambda>s k. snd (bs_insert k s)) s ks) = fst ` set s \<union> set ks" for s :: "'a btree_set"
    by (induction ks arbitrary: s) (auto simp: bs_insert_def set_bm_insert_keys)
  from this [of "[]"] show "fst ` set (collect_set ks) = set ks" by (simp add: collect_set_def)
qed

lemma first_elem_Some_iff:
  assumes "bm_inv s"
  shows "first_elem s = Some k \<longleftrightarrow> k \<in> fst ` set s \<and> (\<forall>k' \<in> fst ` set s. k \<le> k')"
proof (cases s)
  case Nil
  then show ?thesis by (simp add: first_elem_def bs_elems_def)
next
  case (Cons x xs)
  then have "\<forall>k' \<in> fst ` set xs. fst x < k'" using assms by (auto simp: bm_inv_def)
  then show ?thesis unfolding Cons by (auto simp: first_elem_def bs_elems_def intro: less_imp_le antisym)
qed

lemma set_shared_object_versions:
  "fst ` set (shared_object_versions lp hp) = object_versions lp \<inter> object_versions hp"
  unfolding shared_object_versions_def Let_def collect_set_inv(2)
  by (auto simp: bm_contains_key_iff collect_set_inv(2) object_versions_def)

lemma first_shared_Some_iff:
  "first_elem (shared_object_versions lp hp) = Some k \<longleftrightarrow>
     k \<in> object_versions lp \<inter> object_versions hp \<and>
     (\<forall>k' \<in> object_versions lp \<inter> object_versions hp. k \<le> k')"
proof -
  have "bm_inv (shared_object_versions lp hp)"
    by (simp add: shared_object_versions_def Let_def collect_set_inv)
  then show ?thesis by (simp add: first_elem_Some_iff set_shared_object_versions)
qed

lemma first_shared_commute:
  "first_elem (shared_object_versions lp hp) = first_elem (shared_object_versions hp lp)"
proof -
  have "first_elem (shared_object_versions lp hp) = Some k \<longleftrightarrow>
      first_elem (shared_object_versions hp lp) = Some k" for k
    unfolding first_shared_Some_iff by (simp add: Int_commute)
  then show ?thesis by (metis option.exhaust)
qed

lemma first_shared_exists:
  assumes "object_versions lp \<inter> object_versions hp \<noteq> {}"
  obtains k where "first_elem (shared_object_versions lp hp) = Some k"
proof -
  have "finite (object_versions lp \<inter> object_versions hp)" by (simp add: object_versions_def)
  then have "first_elem (shared_object_versions lp hp) = Some (Min (object_versions lp \<inter> object_versions hp))"
    using assms unfolding first_shared_Some_iff by (intro conjI Min_in ballI Min_le)
  then show ?thesis by (rule that)
qed

lemma require_preimage_matches_Ok_iff [result_simps]:
  "require_preimage_matches_vote_context lp v = Ok u \<longleftrightarrow>
     lp_chain_id lp = fv_chain_id v \<and> lp_protocol_version lp = fv_protocol_version v \<and>
     lp_epoch lp = fv_epoch v"
  by (auto simp: require_preimage_matches_vote_context_def)

lemma require_canonical_object_conflict_Ok_iff [result_simps]:
  "require_canonical_object_conflict low lp high hp i n = Ok u \<longleftrightarrow>
     require_preimage_matches_vote_context lp low = Ok () \<and>
     require_preimage_matches_vote_context hp high = Ok () \<and>
     first_elem (shared_object_versions lp hp) = Some (i, n)"
  by (auto simp: require_canonical_object_conflict_def result_simps split: if_splits)

section \<open>What is built\<close>

definition same_voter :: "fast_vote \<Rightarrow> fast_vote \<Rightarrow> bool" where
  "same_voter a b \<longleftrightarrow> fv_chain_id a = fv_chain_id b \<and> fv_protocol_version a = fv_protocol_version b \<and>
     fv_epoch a = fv_epoch b \<and> fv_validator a = fv_validator b"

definition equivocation_ordered :: "fast_vote_equivocation_evidence \<Rightarrow> bool" where
  "equivocation_ordered ev \<longleftrightarrow> same_voter (fe_low ev) (fe_high ev) \<and>
     fv_tx_hash (fe_low ev) = fv_tx_hash (fe_high ev) \<and>
     fe_chain_id ev = fv_chain_id (fe_low ev) \<and> fe_protocol_version ev = fv_protocol_version (fe_low ev) \<and>
     fe_epoch ev = fv_epoch (fe_low ev) \<and> fe_tx_hash ev = fv_tx_hash (fe_low ev) \<and>
     fe_validator ev = fv_validator (fe_low ev) \<and>
     (\<exists>p q. encode_fast_vote_payload (fe_low ev) = Ok p \<and> encode_fast_vote_payload (fe_high ev) = Ok q \<and> p < q)"

lemma build_equivocation_Ok_iff:
  "build_fast_vote_equivocation_evidence a b = Ok ev \<longleftrightarrow>
     equivocation_ordered ev \<and> {fe_low ev, fe_high ev} = {a, b}"
proof
  assume "build_fast_vote_equivocation_evidence a b = Ok ev"
  then obtain p q where ab: "same_voter a b" "fv_tx_hash a = fv_tx_hash b"
    "encode_fast_vote_payload a = Ok p" "encode_fast_vote_payload b = Ok q" "p \<noteq> q" and
    ev: "ev = \<lparr> fe_chain_id = fv_chain_id a, fe_protocol_version = fv_protocol_version a,
      fe_epoch = fv_epoch a, fe_tx_hash = fv_tx_hash a, fe_validator = fv_validator a,
      fe_low = if p < q then a else b, fe_high = if p < q then b else a \<rparr>"
    by (auto simp: build_fast_vote_equivocation_evidence_def result_simps same_voter_def split: if_splits)
  have "q < p" if "\<not> p < q" using ab(5) that by simp
  then show "equivocation_ordered ev \<and> {fe_low ev, fe_high ev} = {a, b}"
    using ab by (auto simp: ev equivocation_ordered_def same_voter_def)
next
  assume ev: "equivocation_ordered ev \<and> {fe_low ev, fe_high ev} = {a, b}"
  then obtain p q where pq: "encode_fast_vote_payload (fe_low ev) = Ok p"
    "encode_fast_vote_payload (fe_high ev) = Ok q" "p < q" by (auto simp: equivocation_ordered_def)
  then have "fe_low ev \<noteq> fe_high ev" by auto
  with ev consider "a = fe_low ev" "b = fe_high ev" | "a = fe_high ev" "b = fe_low ev" by (auto simp: doubleton_eq_iff)
  then show "build_fast_vote_equivocation_evidence a b = Ok ev"
    using ev pq
    by cases (cases ev; auto simp: build_fast_vote_equivocation_evidence_def equivocation_ordered_def
        same_voter_def)+
qed

definition conflict_ordered :: "fast_vote_object_conflict_evidence \<Rightarrow> bool" where
  "conflict_ordered ev \<longleftrightarrow> same_voter (oc_low ev) (oc_high ev) \<and>
     fv_tx_hash (oc_low ev) < fv_tx_hash (oc_high ev) \<and>
     oc_chain_id ev = fv_chain_id (oc_low ev) \<and> oc_protocol_version ev = fv_protocol_version (oc_low ev) \<and>
     oc_epoch ev = fv_epoch (oc_low ev) \<and> oc_validator ev = fv_validator (oc_low ev) \<and>
     require_canonical_object_conflict (oc_low ev) (oc_low_preimage ev) (oc_high ev)
       (oc_high_preimage ev) (oc_conflicting_object_id ev) (oc_conflicting_version ev) = Ok ()"

lemma build_conflict_Ok_iff:
  "build_fast_vote_object_conflict_evidence a b la lb = Ok ev \<longleftrightarrow> conflict_ordered ev \<and>
     {(oc_low ev, oc_low_preimage ev), (oc_high ev, oc_high_preimage ev)} = {(a, la), (b, lb)}"
proof
  assume "build_fast_vote_object_conflict_evidence a b la lb = Ok ev"
  then obtain i n where ab: "same_voter a b" "fv_tx_hash a \<noteq> fv_tx_hash b"
    "require_preimage_matches_vote_context la a = Ok ()" "require_preimage_matches_vote_context lb b = Ok ()"
    "first_elem (shared_object_versions la lb) = Some (i, n)" and
    ev: "ev = \<lparr> oc_chain_id = fv_chain_id a, oc_protocol_version = fv_protocol_version a,
      oc_epoch = fv_epoch a, oc_validator = fv_validator a, oc_conflicting_object_id = i,
      oc_conflicting_version = n,
      oc_low = if fv_tx_hash a < fv_tx_hash b then a else b,
      oc_low_preimage = if fv_tx_hash a < fv_tx_hash b then la else lb,
      oc_high = if fv_tx_hash a < fv_tx_hash b then b else a,
      oc_high_preimage = if fv_tx_hash a < fv_tx_hash b then lb else la \<rparr>"
    by (auto simp: build_fast_vote_object_conflict_evidence_def result_simps same_voter_def split: if_splits)
  have "first_elem (shared_object_versions lb la) = Some (i, n)"
    using ab(5) first_shared_commute [of lb la] by (rule trans [rotated])
  then show "conflict_ordered ev \<and>
      {(oc_low ev, oc_low_preimage ev), (oc_high ev, oc_high_preimage ev)} = {(a, la), (b, lb)}"
    using ab
    by (cases "fv_tx_hash a < fv_tx_hash b")
      (auto simp: ev conflict_ordered_def same_voter_def require_canonical_object_conflict_Ok_iff not_less)
next
  assume ev: "conflict_ordered ev \<and>
      {(oc_low ev, oc_low_preimage ev), (oc_high ev, oc_high_preimage ev)} = {(a, la), (b, lb)}"
  then have less: "fv_tx_hash (oc_low ev) < fv_tx_hash (oc_high ev)" by (simp add: conflict_ordered_def)
  from ev consider "a = oc_low ev" "la = oc_low_preimage ev" "b = oc_high ev" "lb = oc_high_preimage ev"
    | "a = oc_high ev" "la = oc_high_preimage ev" "b = oc_low ev" "lb = oc_low_preimage ev"
    by (auto simp: doubleton_eq_iff)
  moreover have "first_elem (shared_object_versions (oc_low_preimage ev) (oc_high_preimage ev)) =
      Some (oc_conflicting_object_id ev, oc_conflicting_version ev)"
    using ev by (simp add: conflict_ordered_def require_canonical_object_conflict_Ok_iff)
  moreover from this have "first_elem (shared_object_versions (oc_high_preimage ev) (oc_low_preimage ev)) =
      Some (oc_conflicting_object_id ev, oc_conflicting_version ev)"
    using first_shared_commute by (rule trans [rotated])
  moreover have "\<not> fv_tx_hash (oc_high ev) < fv_tx_hash (oc_low ev)"
    "fv_tx_hash (oc_low ev) \<noteq> fv_tx_hash (oc_high ev)" "fv_tx_hash (oc_high ev) \<noteq> fv_tx_hash (oc_low ev)"
    using less by auto
  moreover have "require_preimage_matches_vote_context (oc_low_preimage ev) (oc_low ev) = Ok ()"
    "require_preimage_matches_vote_context (oc_high_preimage ev) (oc_high ev) = Ok ()"
    using ev by (simp_all add: conflict_ordered_def require_canonical_object_conflict_Ok_iff)
  ultimately show "build_fast_vote_object_conflict_evidence a b la lb = Ok ev"
    using ev less
    by cases (simp_all add: build_fast_vote_object_conflict_evidence_def conflict_ordered_def
        same_voter_def)
qed

section \<open>The codecs are exact\<close>

definition preimage_head :: "locked_object_set_preimage \<Rightarrow> (u16 \<times> bytes) list" where
  "preimage_head lp =
     [(1, lp_chain_id lp), (2, u32_to_le_bytes (lp_protocol_version lp)),
      (3, u64_to_le_bytes (lp_epoch lp)), (4, u32_to_le_bytes (of_nat (length (lp_entries lp))))]"

lemma length_preimage_head [simp]: "length (preimage_head lp) = 4"
  by (simp add: preimage_head_def)

lemma preimage_list_head: "n \<le> MAX_LOCKED_OBJECT_SET_ENTRIES \<Longrightarrow> list_head (preimage_head lp) n"
  by (simp add: list_head_def preimage_head_def MAX_LOCKED_OBJECT_SET_ENTRIES_def upt_rec)

lemma encode_preimage_Ok_iff:
  "encode_locked_object_set_preimage lp = Ok b \<longleftrightarrow>
     length (lp_entries lp) \<le> MAX_LOCKED_OBJECT_SET_ENTRIES \<and>
     (\<exists>bs. list_all2 (\<lambda>x b. encode_object_ref x = Ok b) (lp_entries lp) bs \<and>
       encode_frame (list_frame 0xD00C 1 (preimage_head lp) bs) = Ok b)"
proof (cases "length (lp_entries lp) \<le> MAX_LOCKED_OBJECT_SET_ENTRIES")
  case True
  have "encode_locked_object_set_preimage lp =
      try_bind (put_items NonCanonicalLockedObjectOrder CeCanonicalEncoding
        (\<lambda>x. map_err CeObject (encode_object_ref x)) 5 (lp_entries lp)
        \<lparr> cs_type_id = 0xD00C, cs_version = 1, cs_fields = preimage_head lp \<rparr>)
      (\<lambda>c. map_err CeCanonicalEncoding (finish c))"
    using True
    by (simp add: encode_locked_object_set_preimage_def encode_simps u32_try_from_def
        MAX_LOCKED_OBJECT_SET_ENTRIES_def preimage_head_def)
  also have "\<dots> = Ok b \<longleftrightarrow> (\<exists>bs. list_all2 (\<lambda>x b. map_err CeObject (encode_object_ref x) = Ok b) (lp_entries lp) bs \<and>
      encode_frame (list_frame 0xD00C 1 (preimage_head lp) bs) = Ok b)"
    by (rule put_list_frame_Ok_iff [OF preimage_list_head [OF True]]) simp
  finally show ?thesis using True unfolding map_err_eq_Ok by simp
next
  case False
  then show ?thesis by (simp add: encode_locked_object_set_preimage_def)
qed

definition preimage_wf :: "locked_object_set_preimage \<Rightarrow> bool" where
  "preimage_wf lp \<longleftrightarrow> chain_id_wf (lp_chain_id lp) \<and> list_all object_ref_wf (lp_entries lp) \<and>
     key_sorted or_id (lp_entries lp)"

lemma decode_wrapped_object_ref:
  "map_err CeObject (decode_object_ref b) = Ok x \<longleftrightarrow> object_ref_wf x \<and> encode_object_ref x = Ok b"
  by (simp add: map_err_eq_Ok decode_object_ref_Ok_iff)

lemma decode_preimageD:
  assumes "decode_locked_object_set_preimage b = Ok lp"
  shows "preimage_wf lp \<and> encode_locked_object_set_preimage lp = Ok b"
proof -
  from assms obtain f n prev where f: "chain_id_wf (lp_chain_id lp)" "n \<le> MAX_LOCKED_OBJECT_SET_ENTRIES"
    "try_fold (take_ordered_item NonCanonicalLockedObjectOrder CeCanonicalDecoding
       (\<lambda>b. map_err CeObject (decode_object_ref b)) or_id 5 f) ([], None) [0..<n] = Ok (lp_entries lp, prev)"
    "encode_locked_object_set_preimage lp = Ok b"
    by (auto simp: decode_locked_object_set_preimage_def result_simps Let_def not_less split: if_splits)
  have "n + 5 \<le> 2 ^ 16" using f(2) by (simp add: MAX_LOCKED_OBJECT_SET_ENTRIES_def)
  then show ?thesis
    using f(1,4) take_ordered_itemsD [OF f(3)]
    by (auto simp: preimage_wf_def take_items_Ok_iff list_all_length decode_wrapped_object_ref
        simp del: of_nat_add)
qed

lemma decode_encode_preimage:
  assumes wf: "preimage_wf lp" and enc: "encode_locked_object_set_preimage lp = Ok b"
  shows "decode_locked_object_set_preimage b = Ok lp"
proof -
  let ?n = "length (lp_entries lp)" and ?dec = "\<lambda>b. map_err CeObject (decode_object_ref b)"
  from enc obtain bs where max: "?n \<le> MAX_LOCKED_OBJECT_SET_ENTRIES"
    and bs: "list_all2 (\<lambda>x b. encode_object_ref x = Ok b) (lp_entries lp) bs"
    and b: "encode_frame (list_frame 0xD00C 1 (preimage_head lp) bs) = Ok b"
    by (auto simp: encode_preimage_Ok_iff)
  let ?f = "list_frame 0xD00C 1 (preimage_head lp) bs"
  have len: "length bs = ?n" using bs by (simp add: list_all2_lengthD)
  have "list_all2 (\<lambda>x b. ?dec b = Ok x) (lp_entries lp) bs"
    using wf bs by (simp add: list_all2_decode_encode [of ?dec, OF decode_wrapped_object_ref] preimage_wf_def)
  then have f: "has_fields ?f (preimage_head lp)" "length (cf_fields ?f) = 4 + ?n"
    "take_items NonCanonicalLockedObjectOrder CeCanonicalDecoding ?dec 5 ?n ?f = Ok (lp_entries lp)"
    using take_list_frame_count_iff [where f = ?f and t = "0xD00C" and v = 1 and xs = "lp_entries lp"
        and e = NonCanonicalLockedObjectOrder and w = CeCanonicalDecoding and dec = ?dec
        and hs = "preimage_head lp"] preimage_list_head [OF max]
    by (auto simp: numeral_eq_Suc)
  have n: "unat (of_nat ?n :: u32) = ?n" "?n + 5 \<le> 2 ^ 16" "usize_checked_add ?n 4 = Some (?n + 4)"
    using max by (simp_all add: unat_of_nat MAX_LOCKED_OBJECT_SET_ENTRIES_def usize_checked_add_def usize_max_def)
  obtain prev where entries: "try_fold (take_ordered_item NonCanonicalLockedObjectOrder CeCanonicalDecoding
      ?dec or_id 5 ?f) ([], None) [0..<?n] = Ok (lp_entries lp, prev)"
    using wf by (auto simp: preimage_wf_def intro: take_ordered_itemsE [OF f(3) _ n(2)])
  have head: "required_chain_id ?f = Ok (lp_chain_id lp)" "required_u32 ?f 2 = Ok (lp_protocol_version lp)"
    "required_u64 ?f 3 = Ok (lp_epoch lp)" "required_u32 ?f 4 = Ok (of_nat ?n)"
    using f(1) wf by (simp_all add: has_fields_def preimage_head_def result_simps preimage_wf_def)
  have "list_head (preimage_head lp) (length bs)" using max len by (simp add: preimage_list_head)
  from decode_list_frame [OF this b] show ?thesis
    using entries head n len max enc
    by (cases lp) (auto simp: decode_locked_object_set_preimage_def consensus_ids require_type_def
        require_version_def)
qed

lemma decode_preimage_Ok_iff:
  "decode_locked_object_set_preimage b = Ok lp \<longleftrightarrow>
     preimage_wf lp \<and> encode_locked_object_set_preimage lp = Ok b"
  using decode_preimageD decode_encode_preimage by blast

interpretation preimage_codec: strict_codec encode_locked_object_set_preimage
  decode_locked_object_set_preimage preimage_wf
  by unfold_locales (auto simp: decode_preimage_Ok_iff)

lemma encode_equivocation_Ok_iff:
  "encode_fast_vote_equivocation_evidence ev = Ok b \<longleftrightarrow>
     (\<exists>t low high. encode_digest32 (fe_tx_hash ev) = Ok t \<and> encode_fast_vote (fe_low ev) = Ok low \<and>
       encode_fast_vote (fe_high ev) = Ok high \<and>
       encode_frame \<lparr> cf_type_id = 0xD00D, cf_version = 1, cf_fields =
         [(1, fe_chain_id ev), (2, u32_to_le_bytes (fe_protocol_version ev)),
          (3, u64_to_le_bytes (fe_epoch ev)), (4, t), (5, fe_validator ev), (6, low), (7, high)] \<rparr> = Ok b)"
  by (auto simp: encode_fast_vote_equivocation_evidence_def encode_simps result_simps)

definition equivocation_wf :: "fast_vote_equivocation_evidence \<Rightarrow> bool" where
  "equivocation_wf ev \<longleftrightarrow> equivocation_ordered ev \<and> fast_vote_wf (fe_low ev) \<and> fast_vote_wf (fe_high ev)"

lemma decode_equivocation_Ok_iff:
  "decode_fast_vote_equivocation_evidence b = Ok ev \<longleftrightarrow>
     equivocation_wf ev \<and> encode_fast_vote_equivocation_evidence ev = Ok b"
proof
  assume "decode_fast_vote_equivocation_evidence b = Ok ev"
  then show "equivocation_wf ev \<and> encode_fast_vote_equivocation_evidence ev = Ok b"
    by (auto simp: decode_fast_vote_equivocation_evidence_def equivocation_wf_def equivocation_ordered_def
        same_voter_def result_simps Let_def not_le decode_fast_vote_Ok_iff split: if_splits)
next
  assume wf: "equivocation_wf ev \<and> encode_fast_vote_equivocation_evidence ev = Ok b"
  then obtain t low high where enc: "encode_digest32 (fe_tx_hash ev) = Ok t"
    "encode_fast_vote (fe_low ev) = Ok low" "encode_fast_vote (fe_high ev) = Ok high" and
    b: "encode_frame \<lparr> cf_type_id = 0xD00D, cf_version = 1, cf_fields =
         [(1, fe_chain_id ev), (2, u32_to_le_bytes (fe_protocol_version ev)),
          (3, u64_to_le_bytes (fe_epoch ev)), (4, t), (5, fe_validator ev), (6, low), (7, high)] \<rparr> = Ok b"
    by (auto simp: encode_equivocation_Ok_iff)
  have frame: "decode_closed_frame 0xD00D 1 [1, 2, 3, 4, 5, 6, 7] b = Ok \<lparr> cf_type_id = 0xD00D,
      cf_version = 1, cf_fields =
         [(1, fe_chain_id ev), (2, u32_to_le_bytes (fe_protocol_version ev)),
          (3, u64_to_le_bytes (fe_epoch ev)), (4, t), (5, fe_validator ev), (6, low), (7, high)] \<rparr>"
    by (rule decode_closed_encoded [OF b]) simp_all
  have "decode_fast_vote low = Ok (fe_low ev)" "decode_fast_vote high = Ok (fe_high ev)"
    using wf enc by (simp_all add: decode_fast_vote_Ok_iff equivocation_wf_def)
  then show "decode_fast_vote_equivocation_evidence b = Ok ev"
    unfolding decode_fast_vote_equivocation_evidence_def consensus_ids using wf enc frame
    by (cases ev) (auto simp: result_simps codec_simps equivocation_wf_def equivocation_ordered_def
        same_voter_def fast_vote_wf_def Let_def)
qed

interpretation equivocation_codec: strict_codec encode_fast_vote_equivocation_evidence
  decode_fast_vote_equivocation_evidence equivocation_wf
  by unfold_locales (auto simp: decode_equivocation_Ok_iff)

lemma encode_conflict_Ok_iff:
  "encode_fast_vote_object_conflict_evidence ev = Ok b \<longleftrightarrow>
     (\<exists>low lp high hp. encode_fast_vote (oc_low ev) = Ok low \<and>
       encode_locked_object_set_preimage (oc_low_preimage ev) = Ok lp \<and>
       encode_fast_vote (oc_high ev) = Ok high \<and>
       encode_locked_object_set_preimage (oc_high_preimage ev) = Ok hp \<and>
       encode_frame \<lparr> cf_type_id = 0xD00E, cf_version = 1, cf_fields =
         [(1, oc_chain_id ev), (2, u32_to_le_bytes (oc_protocol_version ev)),
          (3, u64_to_le_bytes (oc_epoch ev)), (4, oc_validator ev), (5, oc_conflicting_object_id ev),
          (6, u64_to_le_bytes (oc_conflicting_version ev)), (7, low), (8, lp), (9, high), (10, hp)] \<rparr> = Ok b)"
  by (auto simp: encode_fast_vote_object_conflict_evidence_def encode_simps result_simps)

definition conflict_wf :: "fast_vote_object_conflict_evidence \<Rightarrow> bool" where
  "conflict_wf ev \<longleftrightarrow> conflict_ordered ev \<and> fast_vote_wf (oc_low ev) \<and> fast_vote_wf (oc_high ev) \<and>
     preimage_wf (oc_low_preimage ev) \<and> preimage_wf (oc_high_preimage ev)"

lemma conflict_object_id:
  assumes "conflict_wf ev"
  shows "array32 (oc_conflicting_object_id ev)"
proof -
  have "(oc_conflicting_object_id ev, oc_conflicting_version ev) \<in> object_versions (oc_low_preimage ev)"
    using assms by (auto simp: conflict_wf_def conflict_ordered_def require_canonical_object_conflict_Ok_iff
        first_shared_Some_iff)
  then show ?thesis
    using assms by (auto simp: conflict_wf_def preimage_wf_def object_versions_def list_all_iff object_ref_wf_def)
qed

lemma decode_conflict_Ok_iff:
  "decode_fast_vote_object_conflict_evidence b = Ok ev \<longleftrightarrow>
     conflict_wf ev \<and> encode_fast_vote_object_conflict_evidence ev = Ok b"
proof
  assume "decode_fast_vote_object_conflict_evidence b = Ok ev"
  then show "conflict_wf ev \<and> encode_fast_vote_object_conflict_evidence ev = Ok b"
    by (auto simp: decode_fast_vote_object_conflict_evidence_def conflict_wf_def conflict_ordered_def
        same_voter_def result_simps Let_def not_le decode_fast_vote_Ok_iff decode_preimage_Ok_iff split: if_splits)
next
  assume wf: "conflict_wf ev \<and> encode_fast_vote_object_conflict_evidence ev = Ok b"
  then obtain low lp high hp where enc: "encode_fast_vote (oc_low ev) = Ok low"
    "encode_locked_object_set_preimage (oc_low_preimage ev) = Ok lp"
    "encode_fast_vote (oc_high ev) = Ok high"
    "encode_locked_object_set_preimage (oc_high_preimage ev) = Ok hp" and
    b: "encode_frame \<lparr> cf_type_id = 0xD00E, cf_version = 1, cf_fields =
         [(1, oc_chain_id ev), (2, u32_to_le_bytes (oc_protocol_version ev)),
          (3, u64_to_le_bytes (oc_epoch ev)), (4, oc_validator ev), (5, oc_conflicting_object_id ev),
          (6, u64_to_le_bytes (oc_conflicting_version ev)), (7, low), (8, lp), (9, high), (10, hp)] \<rparr> = Ok b"
    by (auto simp: encode_conflict_Ok_iff)
  have frame: "decode_closed_frame 0xD00E 1 [1, 2, 3, 4, 5, 6, 7, 8, 9, 10] b = Ok \<lparr> cf_type_id = 0xD00E,
      cf_version = 1, cf_fields =
         [(1, oc_chain_id ev), (2, u32_to_le_bytes (oc_protocol_version ev)),
          (3, u64_to_le_bytes (oc_epoch ev)), (4, oc_validator ev), (5, oc_conflicting_object_id ev),
          (6, u64_to_le_bytes (oc_conflicting_version ev)), (7, low), (8, lp), (9, high), (10, hp)] \<rparr>"
    by (rule decode_closed_encoded [OF b]) simp_all
  have dec: "decode_fast_vote low = Ok (oc_low ev)" "decode_fast_vote high = Ok (oc_high ev)"
    "decode_locked_object_set_preimage lp = Ok (oc_low_preimage ev)"
    "decode_locked_object_set_preimage hp = Ok (oc_high_preimage ev)"
    using wf enc by (simp_all add: decode_fast_vote_Ok_iff decode_preimage_Ok_iff conflict_wf_def)
  have head: "chain_id_wf (oc_chain_id ev)" "array32 (oc_validator ev)" "array32 (oc_conflicting_object_id ev)"
    "same_voter (oc_low ev) (oc_high ev)" "fv_tx_hash (oc_low ev) < fv_tx_hash (oc_high ev)"
    "fv_tx_hash (oc_low ev) \<noteq> fv_tx_hash (oc_high ev)"
    using wf conflict_object_id [of ev] by (auto simp: conflict_wf_def conflict_ordered_def fast_vote_wf_def)
  then show "decode_fast_vote_object_conflict_evidence b = Ok ev"
    unfolding decode_fast_vote_object_conflict_evidence_def consensus_ids using wf enc frame dec
    by (cases ev) (auto simp: result_simps codec_simps conflict_wf_def conflict_ordered_def
        same_voter_def Let_def)
qed

interpretation conflict_codec: strict_codec encode_fast_vote_object_conflict_evidence
  decode_fast_vote_object_conflict_evidence conflict_wf
  by unfold_locales (auto simp: decode_conflict_Ok_iff)

section \<open>Conflicting certificates\<close>

lemma encode_fast_vote_payload_inject:
  assumes "encode_fast_vote_payload v = Ok b" "encode_fast_vote_payload w = Ok b"
    "fv_signature v = fv_signature w"
  shows "v = w"
proof -
  let ?f = "\<lambda>v t e l. \<lparr> cf_type_id = 0xD006, cf_version = 1, cf_fields =
         [(1, fv_chain_id v), (2, u32_to_le_bytes (fv_protocol_version v)),
          (3, u64_to_le_bytes (fv_epoch v)), (4, t), (5, e), (6, fv_validator v),
          (7, u16_to_le_bytes (signature_scheme_as_u16 (fv_signature_scheme v))), (8, l)] \<rparr>"
  obtain t e l where v: "encode_digest32 (fv_tx_hash v) = Ok t" "encode_digest32 (fv_execution_effects_hash v) = Ok e"
      "encode_digest32 (fv_locked_objects_digest v) = Ok l" "encode_frame (?f v t e l) = Ok b"
    using assms(1) unfolding encode_fast_vote_payload_Ok_iff by blast
  obtain t' e' l' where w: "encode_digest32 (fv_tx_hash w) = Ok t'" "encode_digest32 (fv_execution_effects_hash w) = Ok e'"
      "encode_digest32 (fv_locked_objects_digest w) = Ok l'" "encode_frame (?f w t' e' l') = Ok b"
    using assms(2) unfolding encode_fast_vote_payload_Ok_iff by blast
  have "?f v t e l = ?f w t' e' l'"
    by (rule encode_frame_inject [OF v(4) w(4)]) (simp_all add: frame_wf_def key_sorted_def)
  then show ?thesis
    using assms(3) encode_digest32_inject [OF v(1)] encode_digest32_inject [OF v(2)]
      encode_digest32_inject [OF v(3)] w(1-3)
    by (intro fast_vote.equality) simp_all
qed

lemma fast_path_certifier_of_vote:
  assumes "vs_epoch (fp_validator_set fp) = fp_epoch fp" "verify_fast_vote fp vf v = Ok ()"
  shows "fast_path_certifier_new (fv_chain_id v) (fv_protocol_version v) (fv_epoch v) (fp_validator_set fp) = Ok fp"
  using assms by (cases fp) (simp add: fast_path_certifier_new_def verify_fast_vote_Ok_iff)

text \<open>Two verified votes of one validator convict it.\<close>

lemma equivocation_evidence_verifies:
  assumes fp: "vs_epoch (fp_validator_set fp) = fp_epoch fp"
    and v: "verify_fast_vote fp vf v = Ok ()" and w: "verify_fast_vote fp vf w = Ok ()"
    and same: "fv_validator v = fv_validator w" "fv_tx_hash v = fv_tx_hash w"
    and diff: "fv_execution_effects_hash v \<noteq> fv_execution_effects_hash w \<or>
      fv_locked_objects_digest v \<noteq> fv_locked_objects_digest w"
  shows "\<exists>ev. build_fast_vote_equivocation_evidence v w = Ok ev \<and>
    build_fast_vote_equivocation_evidence w v = Ok ev \<and> fe_validator ev = fv_validator v \<and>
    verify_fast_vote_equivocation_evidence ev (fp_validator_set fp) vf = Ok ()"
proof -
  obtain p q where pq: "encode_fast_vote_payload v = Ok p" "encode_fast_vote_payload w = Ok q"
    using v w by (auto simp: verify_fast_vote_Ok_iff fast_vote_signed_def)
  have "p \<noteq> q"
  proof
    assume "p = q"
    moreover have "encode_fast_vote_payload (w\<lparr> fv_signature := fv_signature v \<rparr>) = Ok q"
      using pq(2) by (simp add: encode_fast_vote_payload_def)
    ultimately have "v = w\<lparr> fv_signature := fv_signature v \<rparr>"
      using pq(1) encode_fast_vote_payload_inject by simp
    then have "fv_execution_effects_hash v = fv_execution_effects_hash w"
      "fv_locked_objects_digest v = fv_locked_objects_digest w"
      by (metis fast_vote.select_convs(5) fast_vote.surjective fast_vote.update_convs(9),
          metis fast_vote.select_convs(8) fast_vote.surjective fast_vote.update_convs(9))
    with diff show False by simp
  qed
  let ?ev = "\<lparr> fe_chain_id = fv_chain_id v, fe_protocol_version = fv_protocol_version v,
    fe_epoch = fv_epoch v, fe_tx_hash = fv_tx_hash v, fe_validator = fv_validator v,
    fe_low = if p < q then v else w, fe_high = if p < q then w else v \<rparr>"
  have "equivocation_ordered ?ev" "{fe_low ?ev, fe_high ?ev} = {v, w}"
    using v w same pq \<open>p \<noteq> q\<close>
    by (auto simp: equivocation_ordered_def same_voter_def verify_fast_vote_Ok_iff not_less order.strict_iff_order)
  moreover have "verify_fast_vote_equivocation_evidence ?ev (fp_validator_set fp) vf = Ok ()"
    using v w fast_path_certifier_of_vote [OF fp v]
    by (simp add: verify_fast_vote_equivocation_evidence_def)
  ultimately show ?thesis
    by (intro exI [of _ ?ev]) (simp add: build_equivocation_Ok_iff insert_commute)
qed

lemma conflict_evidence_verifies:
  assumes fp: "vs_epoch (fp_validator_set fp) = fp_epoch fp"
    and v: "verify_fast_vote fp vf v = Ok ()" and w: "verify_fast_vote fp vf w = Ok ()"
    and same: "fv_validator v = fv_validator w" and diff: "fv_tx_hash v \<noteq> fv_tx_hash w"
    and lv: "require_preimage_matches_vote_context lv v = Ok ()"
    and lw: "require_preimage_matches_vote_context lw w = Ok ()"
    and shared: "object_versions lv \<inter> object_versions lw \<noteq> {}"
  shows "\<exists>ev. build_fast_vote_object_conflict_evidence v w lv lw = Ok ev \<and>
    build_fast_vote_object_conflict_evidence w v lw lv = Ok ev \<and> oc_validator ev = fv_validator v \<and>
    (oc_conflicting_object_id ev, oc_conflicting_version ev) \<in> object_versions lv \<inter> object_versions lw \<and>
    verify_fast_vote_object_conflict_evidence ev (fp_validator_set fp) vf = Ok ()"
proof -
  obtain i n where first: "first_elem (shared_object_versions lv lw) = Some (i, n)"
    using first_shared_exists [OF shared] by (metis surj_pair)
  have swap: "first_elem (shared_object_versions lw lv) = Some (i, n)"
    using first first_shared_commute by (rule trans [rotated])
  let ?less = "fv_tx_hash v < fv_tx_hash w"
  let ?ev = "\<lparr> oc_chain_id = fv_chain_id v, oc_protocol_version = fv_protocol_version v,
    oc_epoch = fv_epoch v, oc_validator = fv_validator v, oc_conflicting_object_id = i,
    oc_conflicting_version = n, oc_low = if ?less then v else w, oc_low_preimage = if ?less then lv else lw,
    oc_high = if ?less then w else v, oc_high_preimage = if ?less then lw else lv \<rparr>"
  have "conflict_ordered ?ev" "{(oc_low ?ev, oc_low_preimage ?ev), (oc_high ?ev, oc_high_preimage ?ev)} =
      {(v, lv), (w, lw)}"
    using v w same lv lw diff first swap
    by (auto simp: conflict_ordered_def same_voter_def verify_fast_vote_Ok_iff not_less order.strict_iff_order
        require_canonical_object_conflict_Ok_iff)
  moreover have "verify_fast_vote_object_conflict_evidence ?ev (fp_validator_set fp) vf = Ok ()"
    using v w lv lw first swap fast_path_certifier_of_vote [OF fp v]
    by (simp add: verify_fast_vote_object_conflict_evidence_def require_canonical_object_conflict_Ok_iff)
  moreover have "(i, n) \<in> object_versions lv \<inter> object_versions lw"
    using first unfolding first_shared_Some_iff by simp
  ultimately show ?thesis
    by (intro exI [of _ ?ev]) (simp add: build_conflict_Ok_iff insert_commute)
qed

lemma conflicting_votes_evidence:
  assumes fp: "fp = \<lparr> fp_chain_id = c, fp_protocol_version = pv, fp_epoch = e, fp_validator_set = vset \<rparr>"
      "vs_epoch vset = e"
    and votes: "verify_fast_vote fp vf v = Ok ()" "verify_fast_vote fp vf w = Ok ()"
      "fast_vote_matches fc v" "fast_vote_matches fc' w" "fv_validator v = fv_validator w"
    and conflict: "fc_tx_hash fc = fc_tx_hash fc' \<and>
          (fc_execution_effects_hash fc \<noteq> fc_execution_effects_hash fc' \<or>
           fc_locked_objects_digest fc \<noteq> fc_locked_objects_digest fc') \<or>
        fc_tx_hash fc \<noteq> fc_tx_hash fc' \<and> object_versions lp \<inter> object_versions lp' \<noteq> {} \<and>
          (lp_chain_id lp, lp_protocol_version lp, lp_epoch lp) = (c, pv, e) \<and>
          (lp_chain_id lp', lp_protocol_version lp', lp_epoch lp') = (c, pv, e)"
  shows "(fc_tx_hash fc = fc_tx_hash fc' \<longrightarrow>
        (\<exists>ev. build_fast_vote_equivocation_evidence v w = Ok ev \<and>
          build_fast_vote_equivocation_evidence w v = Ok ev \<and> fe_validator ev = fv_validator v \<and>
          verify_fast_vote_equivocation_evidence ev vset vf = Ok ())) \<and>
      (fc_tx_hash fc \<noteq> fc_tx_hash fc' \<longrightarrow>
        (\<exists>ev. build_fast_vote_object_conflict_evidence v w lp lp' = Ok ev \<and>
          build_fast_vote_object_conflict_evidence w v lp' lp = Ok ev \<and> oc_validator ev = fv_validator v \<and>
          (oc_conflicting_object_id ev, oc_conflicting_version ev) \<in> object_versions lp \<inter> object_versions lp' \<and>
          verify_fast_vote_object_conflict_evidence ev vset vf = Ok ()))"
proof (intro conjI impI)
  have ep: "vs_epoch (fp_validator_set fp) = fp_epoch fp" and sets: "fp_validator_set fp = vset"
    by (simp_all add: fp)
  show "\<exists>ev. build_fast_vote_equivocation_evidence v w = Ok ev \<and>
      build_fast_vote_equivocation_evidence w v = Ok ev \<and> fe_validator ev = fv_validator v \<and>
      verify_fast_vote_equivocation_evidence ev vset vf = Ok ()" if "fc_tx_hash fc = fc_tx_hash fc'"
    using equivocation_evidence_verifies [OF ep votes(1,2,5), unfolded sets] conflict that votes(3,4)
    by (simp add: fast_vote_matches_def)
  assume t: "fc_tx_hash fc \<noteq> fc_tx_hash fc'"
  have "require_preimage_matches_vote_context lp v = Ok ()"
    "require_preimage_matches_vote_context lp' w = Ok ()"
    using t conflict votes(1,2) by (auto simp: require_preimage_matches_Ok_iff verify_fast_vote_Ok_iff fp(1))
  then show "\<exists>ev. build_fast_vote_object_conflict_evidence v w lp lp' = Ok ev \<and>
      build_fast_vote_object_conflict_evidence w v lp' lp = Ok ev \<and> oc_validator ev = fv_validator v \<and>
      (oc_conflicting_object_id ev, oc_conflicting_version ev) \<in> object_versions lp \<inter> object_versions lp' \<and>
      verify_fast_vote_object_conflict_evidence ev vset vf = Ok ()"
    using conflict_evidence_verifies [OF ep votes(1,2,5), of lp lp', unfolded sets] conflict t votes(3,4)
    by (simp add: fast_vote_matches_def)
qed

text \<open>
  C11. Two verified fast certificates that contradict each other convict more than a third of the
  voting power, with evidence that the same validator set verifies and that does not depend on the
  order of the two votes. Certificates contradict each other when they certify different effects or
  locked objects for one transaction, or different transactions whose locked-object sets share an
  object version; in the second case the evidence names a shared object version.
\<close>

theorem conflicting_fast_certificates_accountable:
  assumes "validator_set_new e vs = Ok vset" and "fast_path_certifier_new c pv e vset = Ok fp"
    and "verify_fast_certificate fp vf fc = Ok ()" and "verify_fast_certificate fp vf fc' = Ok ()"
    and "fc_tx_hash fc = fc_tx_hash fc' \<and>
          (fc_execution_effects_hash fc \<noteq> fc_execution_effects_hash fc' \<or>
           fc_locked_objects_digest fc \<noteq> fc_locked_objects_digest fc') \<or>
        fc_tx_hash fc \<noteq> fc_tx_hash fc' \<and> object_versions lp \<inter> object_versions lp' \<noteq> {} \<and>
          (lp_chain_id lp, lp_protocol_version lp, lp_epoch lp) = (c, pv, e) \<and>
          (lp_chain_id lp', lp_protocol_version lp', lp_epoch lp') = (c, pv, e)"
  shows "\<exists>A \<subseteq> vs_members vset. unat (vs_total_voting_power vset) < 3 * sum (vs_power vset) A \<and>
    (\<forall>a \<in> A. \<exists>v \<in> set (fc_votes fc). \<exists>w \<in> set (fc_votes fc'). fv_validator v = a \<and> fv_validator w = a \<and>
      (fc_tx_hash fc = fc_tx_hash fc' \<longrightarrow>
        (\<exists>ev. build_fast_vote_equivocation_evidence v w = Ok ev \<and>
          build_fast_vote_equivocation_evidence w v = Ok ev \<and> fe_validator ev = a \<and>
          verify_fast_vote_equivocation_evidence ev vset vf = Ok ())) \<and>
      (fc_tx_hash fc \<noteq> fc_tx_hash fc' \<longrightarrow>
        (\<exists>ev. build_fast_vote_object_conflict_evidence v w lp lp' = Ok ev \<and>
          build_fast_vote_object_conflict_evidence w v lp' lp = Ok ev \<and> oc_validator ev = a \<and>
          (oc_conflicting_object_id ev, oc_conflicting_version ev) \<in> object_versions lp \<inter> object_versions lp' \<and>
          verify_fast_vote_object_conflict_evidence ev vset vf = Ok ())))"
proof (intro exI [of _ "fc_signers fc \<inter> fc_signers fc'"] conjI ballI)
  let ?A = "fc_signers fc \<inter> fc_signers fc'"
  have fp: "fp = \<lparr> fp_chain_id = c, fp_protocol_version = pv, fp_epoch = e, fp_validator_set = vset \<rparr>"
    "vs_epoch vset = e"
    using assms(2) by (auto simp: fast_path_certifier_new_def split: if_splits)
  have inv: "validator_set_inv (fp_validator_set fp)" using assms(1) fp by (simp add: validator_set_new_Ok_iff)
  then have inv': "validator_set_inv vset" by (simp add: fp)
  show "?A \<subseteq> vs_members vset"
    using fast_certificates.signers_members [of "(fp, vf)" fc] inv assms(3) by (auto simp: fp)
  show "unat (vs_total_voting_power vset) < 3 * sum (vs_power vset) ?A"
    using fast_certificates.certificates_overlap [of "(fp, vf)" fc fc'] inv assms(3,4) sum_vs_power [OF inv']
    by (simp add: fp)
  fix a assume "a \<in> ?A"
  then obtain v w where v: "v \<in> set (fc_votes fc)" "fv_validator v = a"
    and w: "w \<in> set (fc_votes fc')" "fv_validator w = a" by (auto simp: fc_signers_def)
  have votes: "verify_fast_vote fp vf v = Ok ()" "verify_fast_vote fp vf w = Ok ()"
    "fast_vote_matches fc v" "fast_vote_matches fc' w"
    using v w assms(3,4) by (auto simp: verify_fast_certificate_Ok_iff [OF inv] fast_quorum_voted_def)
  note ev = conflicting_votes_evidence [OF fp votes _ assms(5)]
  show "\<exists>v \<in> set (fc_votes fc). \<exists>w \<in> set (fc_votes fc'). fv_validator v = a \<and> fv_validator w = a \<and>
      (fc_tx_hash fc = fc_tx_hash fc' \<longrightarrow>
        (\<exists>ev. build_fast_vote_equivocation_evidence v w = Ok ev \<and>
          build_fast_vote_equivocation_evidence w v = Ok ev \<and> fe_validator ev = a \<and>
          verify_fast_vote_equivocation_evidence ev vset vf = Ok ())) \<and>
      (fc_tx_hash fc \<noteq> fc_tx_hash fc' \<longrightarrow>
        (\<exists>ev. build_fast_vote_object_conflict_evidence v w lp lp' = Ok ev \<and>
          build_fast_vote_object_conflict_evidence w v lp' lp = Ok ev \<and> oc_validator ev = a \<and>
          (oc_conflicting_object_id ev, oc_conflicting_version ev) \<in> object_versions lp \<inter> object_versions lp' \<and>
          verify_fast_vote_object_conflict_evidence ev vset vf = Ok ()))"
    by (intro bexI [OF _ v(1)] bexI [OF _ w(1)] conjI ev [THEN conjunct1, unfolded v(2)]
        ev [THEN conjunct2, unfolded v(2)]) (simp_all add: v w)
qed

end
