(* ===== verification/Fast_Witnesses.thy ===== *)
theory Fast_Witnesses
  imports Equivocation HotStuff_Samples
begin

text \<open>
  Fast votes and certificates of the four-member sample set, and the properties of the fast path at
  these inputs. A signature is accepted when it equals the public key.
\<close>

section \<open>Sample votes\<close>

definition sample_fp :: fast_path_certifier where
  "sample_fp = \<lparr> fp_chain_id = str ''c'', fp_protocol_version = 1, fp_epoch = 0,
     fp_validator_set = sample_set \<rparr>"

definition sample_fast_verifier :: consensus_verifier where
  "sample_fast_verifier validator scheme public_key framed signature = Ok (signature = public_key)"

text \<open>The vote of validator \<open>i\<close> for transaction \<open>t\<close> with effects \<open>f\<close>.\<close>

definition sample_fast_vote :: "u64 \<Rightarrow> u64 \<Rightarrow> u8 \<Rightarrow> fast_vote" where
  "sample_fast_vote t f i = \<lparr> fv_chain_id = str ''c'', fv_protocol_version = 1, fv_epoch = 0,
     fv_tx_hash = sample_digest t 0, fv_execution_effects_hash = sample_digest f 1,
     fv_validator = sample_id i, fv_signature_scheme = Ed25519,
     fv_locked_objects_digest = sample_digest 0 0, fv_signature = [i] \<rparr>"

definition sample_fast_certificate :: "u64 \<Rightarrow> u64 \<Rightarrow> u8 list \<Rightarrow> fast_certificate" where
  "sample_fast_certificate t f is = \<lparr> fc_chain_id = str ''c'', fc_protocol_version = 1, fc_epoch = 0,
     fc_tx_hash = sample_digest t 0, fc_execution_effects_hash = sample_digest f 1,
     fc_locked_objects_digest = sample_digest 0 0, fc_votes = map (sample_fast_vote t f) is \<rparr>"

lemma sample_fp_set [simp]: "fp_validator_set sample_fp = sample_set"
  by (simp add: sample_fp_def)

lemma sample_fast_payload: "\<exists>b. encode_fast_vote_payload (sample_fast_vote t f i) = Ok b \<and> length b \<le> 400"
proof -
  obtain a b c where "encode_digest32 (sample_digest t 0) = Ok a" "length a \<le> 60"
    "encode_digest32 (sample_digest f 1) = Ok b" "length b \<le> 60"
    "encode_digest32 (sample_digest 0 0) = Ok c" "length c \<le> 60"
    using encode_digest32_small [OF sample_digest_wf] by metis
  then show ?thesis unfolding encode_fast_vote_payload_Ok_iff
    by (simp add: sample_fast_vote_def encode_frame_small frame_size_def)
qed

lemma sample_fast_frame:
  assumes "length payload \<le> 3000"
  shows "\<exists>b. fast_path_signature_frame sample_fp Ed25519 payload = Ok b"
proof -
  let ?mt = "str ''fast-path-vote-v1''"
  have mt: "\<not> str_is_blank ?mt" "length ?mt \<le> 100" by (simp_all add: str_def)
  then have "frame_size (cf_fields (signature_frame \<lparr> sd_chain_id = str ''c'', sd_protocol_version = 1,
      sd_epoch = 0, sd_message_type = ?mt, sd_signature_scheme_id = Ed25519 \<rparr> payload)) \<le> 4000"
    using assms by (simp add: signature_frame_def frame_size_def)
  from encode_frame_small [OF _ this] show ?thesis
    using mt by (auto simp: fast_path_signature_frame_def signature_message_type_new_def
        frame_signature_message_eq signature_frame_def sample_fp_def)
qed

lemma sample_fast_verify:
  assumes "i \<in> {1, 2, 3, 4}"
  shows "verify_fast_vote sample_fp sample_fast_verifier (sample_fast_vote t f i) = Ok ()"
proof -
  obtain p where p: "encode_fast_vote_payload (sample_fast_vote t f i) = Ok p" "length p \<le> 400"
    using sample_fast_payload by blast
  then obtain b where "fast_path_signature_frame sample_fp Ed25519 p = Ok b"
    using sample_fast_frame [of p] by auto
  then have "fast_vote_signed sample_fp sample_fast_verifier (sample_fast_vote t f i)"
    using p(1) sample_set_get [OF assms]
    by (simp add: fast_vote_signed_def sample_fast_verifier_def) (simp add: sample_fast_vote_def)
  then show ?thesis
    by (simp add: verify_fast_vote_Ok_iff) (simp add: sample_fast_vote_def sample_fp_def MAX_SIGNATURE_BYTES_def)
qed

lemma sample_fast_votes_power:
  "set is \<subseteq> {1, 2, 3, 4} \<Longrightarrow> fast_votes_power sample_fp (map (sample_fast_vote t f) is) = length is"
  by (induction "is") (auto simp: fast_votes_power_def sample_fast_vote_def sample_set_power)

lemma sample_fast_certificate_verifies:
  assumes "set is \<subseteq> {1, 2, 3, 4}" "sorted_wrt (<) is" "3 \<le> length is"
  shows "verify_fast_certificate sample_fp sample_fast_verifier (sample_fast_certificate t f is) = Ok ()"
proof -
  have "key_sorted fv_validator (map (sample_fast_vote t f) is)"
    using assms(2) by (simp add: key_sorted_def sorted_wrt_map sample_fast_vote_def)
  then have "fast_quorum_voted sample_fp sample_fast_verifier (sample_fast_certificate t f is)"
    using assms sample_fast_votes_power [OF assms(1)] sample_fast_verify
    by (auto simp: fast_quorum_voted_def sample_fast_certificate_def sample_set_threshold
        fast_vote_matches_def) (simp_all add: sample_fast_vote_def)
  then show ?thesis
    using sample_set_inv by (simp add: verify_fast_certificate_Ok_iff)
      (simp add: sample_fast_certificate_def sample_fp_def)
qed

section \<open>The properties at the samples\<close>

theorem fast_certificate_formation_witness:
  "\<exists>fc. try_form_fast_certificate sample_fp sample_fast_verifier (sample_digest 1 0) (sample_digest 1 1)
       (sample_digest 0 0) (map (sample_fast_vote 1 1) [3, 1, 4]) = Ok (Some fc) \<and>
     try_form_fast_certificate sample_fp sample_fast_verifier (sample_digest 1 0) (sample_digest 1 1)
       (sample_digest 0 0) (map (sample_fast_vote 1 1) [1, 4, 3, 1]) = Ok (Some fc) \<and>
     verify_fast_certificate sample_fp sample_fast_verifier fc = Ok ()"
proof -
  let ?votes = "map (sample_fast_vote 1 1) [3, 1, 4]" and ?votes' = "map (sample_fast_vote 1 1) [1, 4, 3, 1]"
  let ?form = "try_form_fast_certificate sample_fp sample_fast_verifier (sample_digest 1 0) (sample_digest 1 1)
    (sample_digest 0 0)"
  let ?valid = "fast_vote_valid sample_fp sample_fast_verifier (sample_digest 1 0) (sample_digest 1 1)
    (sample_digest 0 0)"
  have valid: "?valid (sample_fast_vote 1 1 i)" if "i \<in> {1, 2, 3, 4}" for i
    using sample_fast_verify [OF that] by (simp add: fast_vote_valid_def) (simp add: sample_fast_vote_def)
  note formation = fast_certificate_formation [where fp = sample_fp and vf = sample_fast_verifier
      and tx = "sample_digest 1 0" and ee = "sample_digest 1 1" and lo = "sample_digest 0 0" and
      votes = ?votes, unfolded sample_fp_set, OF sample_set_new]
  have "\<not> (\<exists>v \<in> set ?votes. fast_vote_fatal sample_fp sample_fast_verifier (sample_digest 1 0)
      (sample_digest 1 1) (sample_digest 0 0) v)"
    using sample_fast_verify by (simp add: fast_vote_fatal_def)
  from iffD2 [OF formation [THEN conjunct1] this] obtain r where r: "?form ?votes = Ok r" by (rule exE)
  note formed = formation [THEN conjunct2, THEN spec, THEN mp, OF r]
  have "{v \<in> set ?votes. ?valid v} = set ?votes" using valid by auto
  moreover have "fv_validator ` set ?votes = sample_id ` {1, 3, 4}"
    by (auto simp: sample_fast_vote_def)
  moreover have "sum (vs_power sample_set) (sample_id ` {1, 3, 4}) = 3" by (simp add: sample_set_power)
  ultimately have "\<not> sum (vs_power sample_set) (fv_validator ` {v \<in> set ?votes. ?valid v}) <
      unat (quorum_threshold sample_set)"
    by (simp only: sample_set_threshold) simp
  then have "r \<noteq> None" using formed [THEN conjunct2, THEN conjunct1] by (simp only: not_False_eq_True)
  then obtain fc where fc: "r = Some fc" by (cases r) simp_all
  have "set ?votes' = set ?votes" by auto
  from formed [THEN conjunct1, THEN spec, THEN mp, OF this] have "?form ?votes' = Ok r" .
  moreover have "verify_fast_certificate sample_fp sample_fast_verifier fc = Ok ()"
    using formed [THEN conjunct2, THEN conjunct2, THEN spec, THEN mp, OF fc] by (rule conjunct1)
  ultimately show ?thesis using r unfolding fc by (intro exI [of _ fc] conjI)
qed

definition sample_preimage :: "object_ref list \<Rightarrow> locked_object_set_preimage" where
  "sample_preimage xs = \<lparr> lp_chain_id = str ''c'', lp_protocol_version = 1, lp_epoch = 0, lp_entries = xs \<rparr>"

theorem conflicting_fast_certificates_accountable_witness:
  "\<exists>A \<subseteq> vs_members sample_set. unat (vs_total_voting_power sample_set) < 3 * sum (vs_power sample_set) A \<and>
     (\<forall>a \<in> A. \<exists>v w ev. build_fast_vote_object_conflict_evidence v w
        (sample_preimage [\<lparr> or_id = sample_id 7, or_version = 5, or_digest = sample_digest 1 1 \<rparr>])
        (sample_preimage [\<lparr> or_id = sample_id 6, or_version = 2, or_digest = sample_digest 1 1 \<rparr>,
           \<lparr> or_id = sample_id 7, or_version = 5, or_digest = sample_digest 2 2 \<rparr>]) = Ok ev \<and> oc_validator ev = a)"
proof -
  let ?lp = "sample_preimage [\<lparr> or_id = sample_id 7, or_version = 5, or_digest = sample_digest 1 1 \<rparr>]"
  let ?lp' = "sample_preimage [\<lparr> or_id = sample_id 6, or_version = 2, or_digest = sample_digest 1 1 \<rparr>,
    \<lparr> or_id = sample_id 7, or_version = 5, or_digest = sample_digest 2 2 \<rparr>]"
  let ?fc = "sample_fast_certificate 1 1 [1, 2, 3]" and ?fc' = "sample_fast_certificate 2 1 [2, 3, 4]"
  have ne: "fc_tx_hash ?fc \<noteq> fc_tx_hash ?fc'" by (simp add: sample_fast_certificate_def sample_digest_def)
  have "fast_path_certifier_new (str ''c'') 1 0 sample_set = Ok sample_fp"
    by (simp add: fast_path_certifier_new_def sample_fp_def sample_set_def)
  moreover have "verify_fast_certificate sample_fp sample_fast_verifier ?fc = Ok ()"
    "verify_fast_certificate sample_fp sample_fast_verifier ?fc' = Ok ()"
    by (simp_all add: sample_fast_certificate_verifies)
  moreover have "object_versions ?lp \<inter> object_versions ?lp' \<noteq> {}"
    by (simp add: object_versions_def sample_preimage_def)
  ultimately obtain A where A: "A \<subseteq> vs_members sample_set"
    "unat (vs_total_voting_power sample_set) < 3 * sum (vs_power sample_set) A" and
    convict: "\<forall>a \<in> A. \<exists>v \<in> set (fc_votes ?fc). \<exists>w \<in> set (fc_votes ?fc'). fv_validator v = a \<and>
      fv_validator w = a \<and>
      (fc_tx_hash ?fc = fc_tx_hash ?fc' \<longrightarrow>
        (\<exists>ev. build_fast_vote_equivocation_evidence v w = Ok ev \<and>
          build_fast_vote_equivocation_evidence w v = Ok ev \<and> fe_validator ev = a \<and>
          verify_fast_vote_equivocation_evidence ev sample_set sample_fast_verifier = Ok ())) \<and>
      (fc_tx_hash ?fc \<noteq> fc_tx_hash ?fc' \<longrightarrow>
        (\<exists>ev. build_fast_vote_object_conflict_evidence v w ?lp ?lp' = Ok ev \<and>
          build_fast_vote_object_conflict_evidence w v ?lp' ?lp = Ok ev \<and> oc_validator ev = a \<and>
          (oc_conflicting_object_id ev, oc_conflicting_version ev) \<in> object_versions ?lp \<inter> object_versions ?lp' \<and>
          verify_fast_vote_object_conflict_evidence ev sample_set sample_fast_verifier = Ok ()))"
    using conflicting_fast_certificates_accountable [OF sample_set_new, of "str ''c''" 1 sample_fp
        sample_fast_verifier ?fc ?fc' ?lp ?lp'] ne
    by (auto simp only: sample_preimage_def locked_object_set_preimage.simps)
  have "\<exists>v w ev. build_fast_vote_object_conflict_evidence v w ?lp ?lp' = Ok ev \<and> oc_validator ev = a"
    if "a \<in> A" for a
    using bspec [OF convict that] ne by (elim bexE conjE) (simp, blast)
  then show ?thesis using A by (intro exI [of _ A] conjI ballI)
qed

end
