(* ===== verification/Bonds.thy ===== *)
theory Bonds
  imports Item_Frames Consensus_Codec
begin

text \<open>
  The crate \<^verbatim>\<open>src/crates/bonds\<close>: the registry of bond resources, slashable bonds and their unbonding,
  slashing evidence, validator admission and the strict codecs. Over any sequence of operations the
  registry stays valid, and a bond that starts to unbond stays slashable through the whole delay of
  its resource and is refused for admission from its unlock epoch on.
\<close>

section \<open>Data\<close>

text \<open>The derived order compares the domain, then the value.\<close>

datatype bond_resource_id = BondResourceId (bri_domain: u16) (bri_value: bytes)

instantiation bond_resource_id :: linorder
begin

definition less_eq_bond_resource_id :: "bond_resource_id \<Rightarrow> bond_resource_id \<Rightarrow> bool" where
  "less_eq_bond_resource_id a b \<longleftrightarrow>
     bri_domain a < bri_domain b \<or> bri_domain a = bri_domain b \<and> bri_value a \<le> bri_value b"

definition less_bond_resource_id :: "bond_resource_id \<Rightarrow> bond_resource_id \<Rightarrow> bool" where
  "less_bond_resource_id a b \<longleftrightarrow>
     bri_domain a < bri_domain b \<or> bri_domain a = bri_domain b \<and> bri_value a < bri_value b"

instance
  by standard (auto simp: less_eq_bond_resource_id_def less_bond_resource_id_def
      intro: bond_resource_id.expand)

end

datatype (plugins only: size) bond_error =
    ZeroMinBond
  | ZeroResourceDomain
  | ZeroUnbondingEpochs
  | ExposureBelowMinBond u64 u64
  | BoRegistryTooLarge usize
  | DuplicateResource bond_resource_id
  | UnknownResource bond_resource_id
  | ResourceDisabled bond_resource_id
  | ResourceConfigMismatch bond_resource_id bond_resource_id
  | BondBelowMinimum u64 u64
  | BondAboveExposure u64 u64
  | AlreadyUnbonding
  | UnlockEpochOverflow
  | IdenticalEvidenceDigests
  | MissingGovernanceApproval
  | MissingBond
  | ApprovalValidatorMismatch
  | BondValidatorMismatch
  | BondNotYetActive epoch epoch
  | BondNotActive epoch epoch
  | InvalidBoolean u8
  | UnknownValidatorAdmissionPolicy u16
  | UnknownSlashingReason u16
  | RegistryCountMismatch usize usize
  | BoNonCanonicalEncoding bytes
  | BoCanonicalEncoding canonical_encoding_error
  | BoCanonicalDecoding canonical_decoding_error

datatype validator_admission_policy =
    GenesisPermissioned | GovernancePermissioned | BondAndGovernance | BondRequired

definition admission_policy_as_u16 :: "validator_admission_policy \<Rightarrow> u16" where
  "admission_policy_as_u16 p = (case p of GenesisPermissioned \<Rightarrow> 0x0001
     | GovernancePermissioned \<Rightarrow> 0x0002 | BondAndGovernance \<Rightarrow> 0x0003 | BondRequired \<Rightarrow> 0x0004)"

definition requires_governance_approval :: "validator_admission_policy \<Rightarrow> bool" where
  "requires_governance_approval p =
     (case p of GenesisPermissioned \<Rightarrow> True | GovernancePermissioned \<Rightarrow> True
      | BondAndGovernance \<Rightarrow> True | BondRequired \<Rightarrow> False)"

definition requires_bond :: "validator_admission_policy \<Rightarrow> bool" where
  "requires_bond p = (case p of BondAndGovernance \<Rightarrow> True | BondRequired \<Rightarrow> True | _ \<Rightarrow> False)"

definition bond_resource_id_new :: "u16 \<Rightarrow> bytes \<Rightarrow> (bond_error, bond_resource_id) result" where
  "bond_resource_id_new domain value =
     (if domain = 0 then Err ZeroResourceDomain else Ok (BondResourceId domain value))"

record bond_resource_config =
  brc_resource_id :: bond_resource_id
  brc_min_bond :: u64
  brc_enabled :: bool
  brc_unbonding_epochs :: u64
  brc_max_validator_exposure :: "u64 option"

record bond_resource_registry =
  brr_resources :: "bond_resource_config list"

record bond_object =
  bo_validator_id :: validator_id
  bo_resource_id :: bond_resource_id
  bo_amount :: u64
  bo_bonded_epoch :: epoch
  bo_unlock_epoch :: "epoch option"

datatype slashing_reason =
    ConflictingObjectVote | ConsensusEquivocation | ConflictingFinalizedStatement | DoubleSigning

definition slashing_reason_as_u16 :: "slashing_reason \<Rightarrow> u16" where
  "slashing_reason_as_u16 r = (case r of ConflictingObjectVote \<Rightarrow> 0x0001
     | ConsensusEquivocation \<Rightarrow> 0x0002 | ConflictingFinalizedStatement \<Rightarrow> 0x0003
     | DoubleSigning \<Rightarrow> 0x0004)"

record slashing_evidence =
  sl_validator_id :: validator_id
  sl_epoch :: epoch
  sl_reason :: slashing_reason
  sl_left_statement :: digest32
  sl_right_statement :: digest32

record validator_admission =
  va_validator_id :: validator_id
  va_bond :: "bond_object option"

section \<open>The registry\<close>

definition bond_resource_config_validate :: "bond_resource_config \<Rightarrow> (bond_error, unit) result" where
  "bond_resource_config_validate c =
     (if brc_min_bond c = 0 then Err ZeroMinBond
      else if brc_unbonding_epochs c = 0 then Err ZeroUnbondingEpochs
      else case brc_max_validator_exposure c of
        Some m \<Rightarrow> if m < brc_min_bond c then Err (ExposureBelowMinBond (brc_min_bond c) m) else Ok ()
      | None \<Rightarrow> Ok ())"

text \<open>The check of one identifier against the previous one, in the validation and in the decoder.\<close>

definition check_resource_order ::
  "bond_resource_id option \<Rightarrow> bond_resource_id \<Rightarrow> (bond_error, unit) result" where
  "check_resource_order previous i =
     (case previous of
        None \<Rightarrow> Ok ()
      | Some p \<Rightarrow>
          if p = i then Err (DuplicateResource i)
          else if p > i then Err (BoNonCanonicalEncoding (str ''bond resource registry''))
          else Ok ())"

definition bond_registry_validate :: "bond_resource_registry \<Rightarrow> (bond_error, unit) result" where
  "bond_registry_validate r =
     (if length (brr_resources r) > 65534 then Err (BoRegistryTooLarge (length (brr_resources r)))
      else
        try_bind (try_fold (\<lambda>previous resource.
          try_bind (bond_resource_config_validate resource) (\<lambda>_.
          try_bind (check_resource_order previous (brc_resource_id resource)) (\<lambda>_.
          Ok (Some (brc_resource_id resource))))) None (brr_resources r)) (\<lambda>_. Ok ()))"

definition bond_registry_get ::
  "bond_resource_registry \<Rightarrow> bond_resource_id \<Rightarrow> bond_resource_config option" where
  "bond_registry_get r i = bsearch_get i brc_resource_id (brr_resources r)"

definition add_resource ::
  "bond_resource_config \<Rightarrow> bond_resource_registry \<Rightarrow> (bond_error, bond_resource_registry) result" where
  "add_resource c r =
     try_bind (bond_resource_config_validate c) (\<lambda>_.
     case binary_search_by_key (brc_resource_id c) brc_resource_id (brr_resources r) of
       Inr _ \<Rightarrow> Err (DuplicateResource (brc_resource_id c))
     | Inl index \<Rightarrow> Ok \<lparr> brr_resources = vec_insert index c (brr_resources r) \<rparr>)"

definition disable_resource ::
  "bond_resource_id \<Rightarrow> bond_resource_registry \<Rightarrow> (bond_error, bond_resource_registry) result" where
  "disable_resource i r =
     (case binary_search_by_key i brc_resource_id (brr_resources r) of
        Inl _ \<Rightarrow> Err (UnknownResource i)
      | Inr index \<Rightarrow> Ok \<lparr> brr_resources =
          (brr_resources r)[index := (brr_resources r ! index)\<lparr> brc_enabled := False \<rparr>] \<rparr>)"

definition update_resource ::
  "bond_resource_config \<Rightarrow> bond_resource_registry \<Rightarrow> (bond_error, bond_resource_registry) result" where
  "update_resource c r =
     try_bind (bond_resource_config_validate c) (\<lambda>_.
     case binary_search_by_key (brc_resource_id c) brc_resource_id (brr_resources r) of
       Inl _ \<Rightarrow> Err (UnknownResource (brc_resource_id c))
     | Inr index \<Rightarrow> Ok \<lparr> brr_resources = (brr_resources r)[index := c] \<rparr>)"

section \<open>Bonds and admission\<close>

definition validate_against :: "bond_object \<Rightarrow> bond_resource_config \<Rightarrow> (bond_error, unit) result" where
  "validate_against b c =
     try_bind (bond_resource_config_validate c) (\<lambda>_.
     if bo_resource_id b \<noteq> brc_resource_id c
     then Err (ResourceConfigMismatch (bo_resource_id b) (brc_resource_id c))
     else if \<not> brc_enabled c then Err (ResourceDisabled (brc_resource_id c))
     else if bo_amount b < brc_min_bond c then Err (BondBelowMinimum (bo_amount b) (brc_min_bond c))
     else case brc_max_validator_exposure c of
       Some m \<Rightarrow> if bo_amount b > m then Err (BondAboveExposure (bo_amount b) m) else Ok ()
     | None \<Rightarrow> Ok ())"

definition is_active_at :: "bond_object \<Rightarrow> epoch \<Rightarrow> bool" where
  "is_active_at b e = (case bo_unlock_epoch b of Some unlock \<Rightarrow> e < unlock | None \<Rightarrow> True)"

definition request_unbond ::
  "bond_resource_registry \<Rightarrow> epoch \<Rightarrow> bond_object \<Rightarrow> (bond_error, bond_object) result" where
  "request_unbond r e b =
     (if bo_unlock_epoch b \<noteq> None then Err AlreadyUnbonding
      else
        try_bind (ok_or (bond_registry_get r (bo_resource_id b)) (UnknownResource (bo_resource_id b)))
          (\<lambda>config.
        try_bind (ok_or (checked_add e (brc_unbonding_epochs config)) UnlockEpochOverflow) (\<lambda>unlock.
        Ok (b\<lparr> bo_unlock_epoch := Some unlock \<rparr>))))"

definition slashing_evidence_validate :: "slashing_evidence \<Rightarrow> (bond_error, unit) result" where
  "slashing_evidence_validate ev =
     (if sl_left_statement ev = sl_right_statement ev then Err IdenticalEvidenceDigests else Ok ())"

text \<open>The \<open>expect\<close> of an inactive bond without unlock epoch is \<open>Abort\<close>.\<close>

definition validate_bond_for_epoch ::
  "bond_object \<Rightarrow> bond_resource_registry \<Rightarrow> epoch \<Rightarrow> (bond_error, unit) result" where
  "validate_bond_for_epoch b r e =
     try_bind (ok_or (bond_registry_get r (bo_resource_id b)) (UnknownResource (bo_resource_id b)))
       (\<lambda>config.
     try_bind (validate_against b config) (\<lambda>_.
     if \<not> is_active_at b e
     then (case bo_unlock_epoch b of Some unlock \<Rightarrow> Err (BondNotActive e unlock) | None \<Rightarrow> Abort)
     else Ok ()))"

text \<open>The approval is the validator that governance approved.\<close>

definition validator_admission_validate ::
  "validator_admission \<Rightarrow> bond_resource_registry \<Rightarrow> validator_admission_policy \<Rightarrow>
   validator_id option \<Rightarrow> epoch \<Rightarrow> (bond_error, unit) result" where
  "validator_admission_validate a r policy approval e =
     try_bind (if requires_governance_approval policy
       then try_bind (ok_or approval MissingGovernanceApproval) (\<lambda>approved.
         if approved \<noteq> va_validator_id a then Err ApprovalValidatorMismatch else Ok ())
       else Ok ()) (\<lambda>_.
     case va_bond a of
       Some b \<Rightarrow>
         if bo_validator_id b \<noteq> va_validator_id a then Err BondValidatorMismatch
         else if bo_bonded_epoch b > e then Err (BondNotYetActive e (bo_bonded_epoch b))
         else validate_bond_for_epoch b r e
     | None \<Rightarrow> if requires_bond policy then Err MissingBond else Ok ())"

section \<open>The registry is a finite map of valid policies\<close>

definition bond_registry_ok :: "bond_resource_registry \<Rightarrow> bool" where
  "bond_registry_ok r \<longleftrightarrow> key_sorted brc_resource_id (brr_resources r) \<and>
     (\<forall>c \<in> set (brr_resources r). bond_resource_config_validate c = Ok ())"

lemma bond_resource_config_validate_Ok_iff:
  "bond_resource_config_validate c = Ok () \<longleftrightarrow> 0 < brc_min_bond c \<and> 0 < brc_unbonding_epochs c \<and>
     (\<forall>m. brc_max_validator_exposure c = Some m \<longrightarrow> brc_min_bond c \<le> m)"
  by (auto simp: bond_resource_config_validate_def word_gt_0 not_less split: option.splits)

lemma bond_resource_config_validate_enabled [simp]:
  "bond_resource_config_validate (c\<lparr> brc_enabled := b \<rparr>) = Ok () \<longleftrightarrow>
   bond_resource_config_validate c = Ok ()"
  by (simp add: bond_resource_config_validate_Ok_iff)

lemma check_resource_order_Ok_iff:
  "check_resource_order p i = Ok u \<longleftrightarrow> (\<forall>q. p = Some q \<longrightarrow> q < i)"
  by (auto simp: check_resource_order_def split: option.splits)

text \<open>The scan of \<open>validate\<close> accepts exactly the sorted registries of valid policies.\<close>

lemma bond_registry_scan_Ok_iff:
  "(\<exists>q. try_fold (\<lambda>previous resource.
          try_bind (bond_resource_config_validate resource) (\<lambda>_.
          try_bind (check_resource_order previous (brc_resource_id resource)) (\<lambda>_.
          Ok (Some (brc_resource_id resource))))) p cs = Ok q) \<longleftrightarrow>
   key_sorted brc_resource_id cs \<and> (\<forall>c \<in> set cs. bond_resource_config_validate c = Ok ()) \<and>
   (\<forall>q. \<forall>c \<in> set cs. p = Some q \<longrightarrow> q < brc_resource_id c)"
proof (induction cs arbitrary: p)
  case Nil
  then show ?case by (simp add: key_sorted_def)
next
  case (Cons c cs)
  show ?case
    using Cons.IH [of "Some (brc_resource_id c)"]
    by (auto simp: try_bind_eq_Ok check_resource_order_Ok_iff key_sorted_Cons intro: less_trans)
qed

lemma bond_registry_validate_Ok_iff:
  "bond_registry_validate r = Ok () \<longleftrightarrow> length (brr_resources r) \<le> 65534 \<and> bond_registry_ok r"
  using bond_registry_scan_Ok_iff [of None "brr_resources r"]
  by (auto simp: bond_registry_validate_def bond_registry_ok_def try_bind_eq_Ok)

lemma bond_registry_get_valid:
  assumes "bond_registry_ok r" "bond_registry_get r i = Some c"
  shows "brc_resource_id c = i" "bond_resource_config_validate c = Ok ()"
  using assms by (auto simp: bond_registry_ok_def bond_registry_get_def bsearch_get_Some_iff)

text \<open>Every operation is the operation of the map, and keeps the registry sorted and valid.\<close>

lemma add_resource_Ok:
  assumes "bond_registry_ok r" "add_resource c r = Ok r'"
  shows "bond_registry_ok r'" "bond_registry_get r (brc_resource_id c) = None"
    "bond_registry_get r' = (bond_registry_get r)(brc_resource_id c \<mapsto> c)"
proof -
  obtain i where i: "binary_search_by_key (brc_resource_id c) brc_resource_id (brr_resources r) = Inl i"
    and c: "bond_resource_config_validate c = Ok ()"
    and r': "r' = \<lparr> brr_resources = vec_insert i c (brr_resources r) \<rparr>"
    using assms(2) by (auto simp: add_resource_def try_bind_eq_Ok split: sum.splits)
  have ks: "key_sorted brc_resource_id (brr_resources r)" using assms(1) by (simp add: bond_registry_ok_def)
  show "bond_registry_ok r'"
    using binary_search_insert_sorted(1) [OF ks i] c assms(1) by (auto simp: r' bond_registry_ok_def)
  show "bond_registry_get r (brc_resource_id c) = None"
    using i by (simp add: bond_registry_get_def bsearch_get_def)
  show "bond_registry_get r' = (bond_registry_get r)(brc_resource_id c \<mapsto> c)"
    by (rule ext) (simp add: r' bond_registry_get_def bsearch_get_insert [OF ks i])
qed

lemma replace_resource_Ok:
  assumes ok: "bond_registry_ok r"
    and i: "binary_search_by_key (brc_resource_id c) brc_resource_id (brr_resources r) = Inr i"
    and c: "bond_resource_config_validate c = Ok ()"
  shows "bond_registry_ok \<lparr> brr_resources = (brr_resources r)[i := c] \<rparr>"
    "bond_registry_get \<lparr> brr_resources = (brr_resources r)[i := c] \<rparr> =
      (bond_registry_get r)(brc_resource_id c \<mapsto> c)"
proof -
  have ks: "key_sorted brc_resource_id (brr_resources r)" using ok by (simp add: bond_registry_ok_def)
  note rep = bsearch_replace [OF ks i refl]
  show "bond_registry_ok \<lparr> brr_resources = (brr_resources r)[i := c] \<rparr>"
    using rep(1,3) ok c unfolding bond_registry_ok_def by auto
  show "bond_registry_get \<lparr> brr_resources = (brr_resources r)[i := c] \<rparr> =
      (bond_registry_get r)(brc_resource_id c \<mapsto> c)"
    by (rule ext) (simp add: bond_registry_get_def rep(2))
qed

lemma update_resource_Ok:
  assumes "bond_registry_ok r" "update_resource c r = Ok r'"
  shows "bond_registry_ok r'" "bond_registry_get r' = (bond_registry_get r)(brc_resource_id c \<mapsto> c)"
    "bond_registry_get r (brc_resource_id c) \<noteq> None"
proof -
  obtain i where "binary_search_by_key (brc_resource_id c) brc_resource_id (brr_resources r) = Inr i"
    and "bond_resource_config_validate c = Ok ()"
    and r': "r' = \<lparr> brr_resources = (brr_resources r)[i := c] \<rparr>"
    using assms(2) by (auto simp: update_resource_def try_bind_eq_Ok split: sum.splits)
  note * = this(1,2)
  show "bond_registry_ok r'" "bond_registry_get r' = (bond_registry_get r)(brc_resource_id c \<mapsto> c)"
    using replace_resource_Ok [OF assms(1) *] by (simp_all add: r')
  show "bond_registry_get r (brc_resource_id c) \<noteq> None"
    using *(1) by (simp add: bond_registry_get_def bsearch_get_def)
qed

lemma disable_resource_Ok:
  assumes "bond_registry_ok r" "disable_resource k r = Ok r'"
  shows "bond_registry_ok r'"
    "\<exists>c. bond_registry_get r k = Some c \<and>
       bond_registry_get r' = (bond_registry_get r)(k \<mapsto> c\<lparr> brc_enabled := False \<rparr>)"
proof -
  obtain i where i: "binary_search_by_key k brc_resource_id (brr_resources r) = Inr i"
    and r': "r' = \<lparr> brr_resources =
      (brr_resources r)[i := (brr_resources r ! i)\<lparr> brc_enabled := False \<rparr>] \<rparr>"
    using assms(2) by (auto simp: disable_resource_def split: sum.splits)
  let ?c = "brr_resources r ! i"
  have get: "bond_registry_get r k = Some ?c" using i by (simp add: bond_registry_get_def bsearch_get_def)
  note c = bond_registry_get_valid [OF assms(1) get]
  have *: "binary_search_by_key (brc_resource_id (?c\<lparr> brc_enabled := False \<rparr>)) brc_resource_id
      (brr_resources r) = Inr i" "bond_resource_config_validate (?c\<lparr> brc_enabled := False \<rparr>) = Ok ()"
    using i c by simp_all
  show "bond_registry_ok r'"
    "\<exists>c. bond_registry_get r k = Some c \<and>
       bond_registry_get r' = (bond_registry_get r)(k \<mapsto> c\<lparr> brc_enabled := False \<rparr>)"
    using replace_resource_Ok [OF assms(1) *] get c(1) by (simp_all add: r')
qed

interpretation bond_resources: sorted_registry brc_resource_id brr_resources add_resource
  by unfold_locales (auto simp: add_resource_def try_bind_eq_Ok binary_search_insert_sorted
      dest: binary_search_insert_sorted(2) split: sum.splits)

section \<open>Admission\<close>

lemma is_active_at_iff: "is_active_at b e \<longleftrightarrow> (\<forall>u. bo_unlock_epoch b = Some u \<longrightarrow> e < u)"
  by (simp add: is_active_at_def split: option.splits)

lemma validate_against_Ok_iff:
  "validate_against b c = Ok () \<longleftrightarrow> bond_resource_config_validate c = Ok () \<and>
     bo_resource_id b = brc_resource_id c \<and> brc_enabled c \<and> brc_min_bond c \<le> bo_amount b \<and>
     (\<forall>m. brc_max_validator_exposure c = Some m \<longrightarrow> bo_amount b \<le> m)"
  by (auto simp: validate_against_def try_bind_eq_Ok not_less split: option.splits)

lemma validate_bond_for_epoch_Ok_iff:
  assumes "bond_registry_ok r"
  shows "validate_bond_for_epoch b r e = Ok () \<longleftrightarrow> is_active_at b e \<and>
    (\<exists>c. bond_registry_get r (bo_resource_id b) = Some c \<and> brc_enabled c \<and>
       brc_min_bond c \<le> bo_amount b \<and>
       (\<forall>m. brc_max_validator_exposure c = Some m \<longrightarrow> bo_amount b \<le> m))"
  using bond_registry_get_valid [OF assms, of "bo_resource_id b"]
  by (auto simp: validate_bond_for_epoch_def try_bind_eq_Ok ok_or_eq_Ok validate_against_Ok_iff
      split: option.splits)

lemma validate_bond_for_epoch_returns: "validate_bond_for_epoch b r e \<noteq> Abort"
proof -
  have "bond_resource_config_validate c \<noteq> Abort" for c
    by (simp add: bond_resource_config_validate_def split: option.splits)
  then have "validate_against b c \<noteq> Abort" for c
    by (auto simp: validate_against_def result_simps split: option.splits)
  then show ?thesis
    by (auto simp: validate_bond_for_epoch_def is_active_at_def result_simps split: option.splits)
qed

definition approval_accepted ::
  "validator_admission_policy \<Rightarrow> validator_id option \<Rightarrow> validator_id \<Rightarrow> bool" where
  "approval_accepted policy approval v \<longleftrightarrow> policy \<noteq> BondRequired \<longrightarrow> approval = Some v"

lemma admission_approval_Ok_iff:
  "(if requires_governance_approval policy
    then try_bind (ok_or approval MissingGovernanceApproval) (\<lambda>approved.
      if approved \<noteq> v then Err ApprovalValidatorMismatch else Ok ())
    else Ok ()) = Ok u \<longleftrightarrow> approval_accepted policy approval v"
  by (cases policy) (auto simp: approval_accepted_def requires_governance_approval_def
      try_bind_eq_Ok ok_or_eq_Ok)

lemma admission_with_bond_Ok_iff:
  "validator_admission_validate \<lparr> va_validator_id = v, va_bond = Some b \<rparr> r policy approval e = Ok () \<longleftrightarrow>
     approval_accepted policy approval v \<and> bo_validator_id b = v \<and> bo_bonded_epoch b \<le> e \<and>
     validate_bond_for_epoch b r e = Ok ()"
  by (auto simp: validator_admission_validate_def try_bind_eq_Ok admission_approval_Ok_iff not_less)

section \<open>The life of a bond\<close>

text \<open>
  Sequences of calls on one registry and one bond: the registry operations and requests to unbond at
  some epoch. A call that fails leaves both unchanged, as every error is returned before the first
  assignment.
\<close>

datatype bond_call =
    AddResource bond_resource_config
  | DisableResource bond_resource_id
  | UpdateResource bond_resource_config
  | RequestUnbond epoch

fun bond_call_step ::
  "bond_call \<Rightarrow> bond_resource_registry \<times> bond_object \<Rightarrow> bond_resource_registry \<times> bond_object" where
  "bond_call_step (AddResource c) (r, b) = (case add_resource c r of Ok r' \<Rightarrow> (r', b) | _ \<Rightarrow> (r, b))"
| "bond_call_step (DisableResource i) (r, b) =
     (case disable_resource i r of Ok r' \<Rightarrow> (r', b) | _ \<Rightarrow> (r, b))"
| "bond_call_step (UpdateResource c) (r, b) =
     (case update_resource c r of Ok r' \<Rightarrow> (r', b) | _ \<Rightarrow> (r, b))"
| "bond_call_step (RequestUnbond e) (r, b) =
     (case request_unbond r e b of Ok b' \<Rightarrow> (r, b') | _ \<Rightarrow> (r, b))"

definition bond_run ::
  "bond_call list \<Rightarrow> bond_resource_registry \<times> bond_object \<Rightarrow> bond_resource_registry \<times> bond_object" where
  "bond_run calls s = fold bond_call_step calls s"

lemma bond_run_append: "bond_run (cs @ ds) s = bond_run ds (bond_run cs s)"
  by (simp add: bond_run_def)

lemma bond_run_snoc: "bond_run (cs @ [c]) s = bond_call_step c (bond_run cs s)"
  by (simp add: bond_run_def)

lemma request_unbond_Ok_iff:
  "request_unbond r e b = Ok b' \<longleftrightarrow> bo_unlock_epoch b = None \<and>
     (\<exists>c u. bond_registry_get r (bo_resource_id b) = Some c \<and>
        unat u = unat e + unat (brc_unbonding_epochs c) \<and> b' = b\<lparr> bo_unlock_epoch := Some u \<rparr>)"
  by (auto simp: request_unbond_def try_bind_eq_Ok ok_or_eq_Ok checked_add_Some_iff)

lemma bond_call_step_registry:
  "bond_registry_ok r \<Longrightarrow> bond_registry_ok (fst (bond_call_step c (r, b)))"
  by (cases c) (auto dest: add_resource_Ok(1) update_resource_Ok(1) disable_resource_Ok(1)
      split: result.splits)

lemma bond_run_registry: "bond_registry_ok r \<Longrightarrow> bond_registry_ok (fst (bond_run cs (r, b)))"
proof (induction cs rule: rev_induct)
  case (snoc c cs)
  then show ?case
    using bond_call_step_registry [of "fst (bond_run cs (r, b))" c "snd (bond_run cs (r, b))"]
    by (simp add: bond_run_snoc)
qed (simp add: bond_run_def)

text \<open>Where the unlock epoch of a bond comes from.\<close>

definition unbond_origin ::
  "bond_resource_registry \<Rightarrow> bond_object \<Rightarrow> bond_call list \<Rightarrow> epoch \<Rightarrow> epoch \<Rightarrow> bool" where
  "unbond_origin r b cs e u \<longleftrightarrow> (\<exists>pre post c. cs = pre @ RequestUnbond e # post \<and>
     snd (bond_run pre (r, b)) = b \<and>
     bond_registry_get (fst (bond_run pre (r, b))) (bo_resource_id b) = Some c \<and>
     unat u = unat e + unat (brc_unbonding_epochs c) \<and> 0 < brc_unbonding_epochs c)"

lemma unbond_origin_less: "unbond_origin r b cs e u \<Longrightarrow> e < u"
  by (auto simp: unbond_origin_def word_less_nat_alt)

lemma unbond_origin_snoc: "unbond_origin r b cs e u \<Longrightarrow> unbond_origin r b (cs @ [c]) e u"
  unfolding unbond_origin_def by (metis append.assoc append_Cons)

lemma bond_call_step_bond:
  assumes "bond_call_step c (r, b) = (r', b')"
  shows "b' = b \<or> (\<exists>e. c = RequestUnbond e \<and> request_unbond r e b = Ok b')"
  using assms by (cases c) (auto split: result.splits)

lemma bond_run_bond:
  assumes "bond_registry_ok r" "bo_unlock_epoch b = None"
  shows "snd (bond_run cs (r, b)) = b \<or>
    (\<exists>e u. snd (bond_run cs (r, b)) = b\<lparr> bo_unlock_epoch := Some u \<rparr> \<and> unbond_origin r b cs e u)"
proof (induction cs rule: rev_induct)
  case Nil
  then show ?case by (simp add: bond_run_def)
next
  case (snoc c cs)
  obtain r1 b1 where run: "bond_run cs (r, b) = (r1, b1)" by fastforce
  obtain r2 b2 where step: "bond_call_step c (r1, b1) = (r2, b2)" by fastforce
  have ok: "bond_registry_ok r1" using bond_run_registry [OF assms(1), of cs b] by (simp add: run)
  have b2: "snd (bond_run (cs @ [c]) (r, b)) = b2" by (simp add: bond_run_snoc run step)
  from snoc [unfolded run] consider "b1 = b"
    | e u where "b1 = b\<lparr> bo_unlock_epoch := Some u \<rparr>" "unbond_origin r b cs e u" by auto
  then show ?case
  proof cases
    case 1
    show ?thesis
    proof (cases "b2 = b")
      case False
      then obtain e where e: "c = RequestUnbond e" "request_unbond r1 e b = Ok b2"
        using bond_call_step_bond [OF step] 1 by auto
      then obtain k u where k: "bond_registry_get r1 (bo_resource_id b) = Some k"
        "unat u = unat e + unat (brc_unbonding_epochs k)" "b2 = b\<lparr> bo_unlock_epoch := Some u \<rparr>"
        by (auto simp: request_unbond_Ok_iff)
      have "0 < brc_unbonding_epochs k"
        using bond_registry_get_valid(2) [OF ok k(1)] by (simp add: bond_resource_config_validate_Ok_iff)
      then have "unbond_origin r b (cs @ [c]) e u"
        unfolding unbond_origin_def using k(1,2) run 1 e(1) by (intro exI [of _ cs] exI [of _ "[]"]) auto
      then show ?thesis using b2 k(3) by auto
    qed (simp add: b2)
  next
    case (2 e u)
    then have "b2 = b1" using bond_call_step_bond [OF step] by (auto simp: request_unbond_Ok_iff)
    then show ?thesis using 2 unbond_origin_snoc [OF 2(2), of c] b2 by auto
  qed
qed

text \<open>
  C13. A bond stays slashable through its whole unbonding delay, over any sequence of registry
  operations and requests to unbond, failed ones included. From a validated registry and a bond that
  is not unbonding, the final registry is again sorted with valid policies; the final bond differs
  from the first one at most in an unlock epoch, which is set once, by a request at some epoch \<open>e\<close>,
  to \<open>e\<close> plus the non-zero delay that its resource had in the registry at that moment, so that no
  later change of the registry shortens it. With the final registry the bond admits its validator at exactly the epochs from its bonded epoch until before the unlock epoch, if the
  approval the policy asks for is given and its resource is registered and enabled with limits that
  its amount meets.
\<close>

theorem bond_slashable_through_delay:
  assumes "bond_registry_validate r = Ok ()" "bo_unlock_epoch b = None"
    and "bond_run calls (r, b) = (r', b')"
  shows "bond_registry_ok r' \<and>
    (b' = b \<or> (\<exists>e u. b' = b\<lparr> bo_unlock_epoch := Some u \<rparr> \<and> unbond_origin r b calls e u \<and> e < u)) \<and>
    (\<forall>v policy approval now.
       validator_admission_validate \<lparr> va_validator_id = v, va_bond = Some b' \<rparr> r' policy approval now
         = Ok () \<longleftrightarrow>
       approval_accepted policy approval v \<and> bo_validator_id b = v \<and> bo_bonded_epoch b \<le> now \<and>
       (\<forall>u. bo_unlock_epoch b' = Some u \<longrightarrow> now < u) \<and>
       (\<exists>c. bond_registry_get r' (bo_resource_id b) = Some c \<and> brc_enabled c \<and>
          brc_min_bond c \<le> bo_amount b \<and>
          (\<forall>m. brc_max_validator_exposure c = Some m \<longrightarrow> bo_amount b \<le> m)))"
proof -
  have ok: "bond_registry_ok r" using assms(1) by (simp add: bond_registry_validate_Ok_iff)
  have ok': "bond_registry_ok r'" using bond_run_registry [OF ok, of calls b] assms(3) by simp
  have b': "b' = b \<or> (\<exists>e u. b' = b\<lparr> bo_unlock_epoch := Some u \<rparr> \<and> unbond_origin r b calls e u \<and> e < u)"
    using bond_run_bond [OF ok assms(2), of calls] unbond_origin_less unfolding assms(3) snd_conv by blast
  then have same: "bo_validator_id b' = bo_validator_id b" "bo_bonded_epoch b' = bo_bonded_epoch b"
    "bo_resource_id b' = bo_resource_id b" "bo_amount b' = bo_amount b" by auto
  show ?thesis
    using ok' b'
    by (simp add: admission_with_bond_Ok_iff validate_bond_for_epoch_Ok_iff is_active_at_iff same conj_ac)
qed

text \<open>
  A bond of 20 units whose resource has a delay of three epochs: the request at epoch 5 sets the
  unlock epoch 8, which neither the shorter delay set afterwards nor the second request changes.
\<close>

theorem bond_slashable_through_delay_witness:
  "let i = BondResourceId 1 (replicate 32 7);
     c = \<lparr> brc_resource_id = i, brc_min_bond = 10, brc_enabled = True, brc_unbonding_epochs = 3,
           brc_max_validator_exposure = None \<rparr>;
     r = \<lparr> brr_resources = [c] \<rparr>;
     b = \<lparr> bo_validator_id = replicate 32 1, bo_resource_id = i, bo_amount = 20,
           bo_bonded_epoch = 2, bo_unlock_epoch = None \<rparr>;
     calls = [RequestUnbond 5, UpdateResource (c\<lparr> brc_unbonding_epochs := 1 \<rparr>), RequestUnbond 6];
     r' = fst (bond_run calls (r, b)); b' = snd (bond_run calls (r, b));
     a = \<lparr> va_validator_id = replicate 32 1, va_bond = Some b' \<rparr>
   in bond_registry_ok r' \<and> bo_unlock_epoch b' = Some 8 \<and>
     validator_admission_validate a r' BondRequired None 7 = Ok () \<and>
     validator_admission_validate a r' BondRequired None 8 \<noteq> Ok ()"
proof -
  let ?i = "BondResourceId 1 (replicate 32 7)"
  let ?c = "\<lparr> brc_resource_id = ?i, brc_min_bond = 10, brc_enabled = True, brc_unbonding_epochs = 3,
    brc_max_validator_exposure = None \<rparr> :: bond_resource_config"
  let ?d = "?c\<lparr> brc_unbonding_epochs := 1 \<rparr>" and ?r = "\<lparr> brr_resources = [?c] \<rparr>"
  let ?b = "\<lparr> bo_validator_id = replicate 32 1, bo_resource_id = ?i, bo_amount = 20,
    bo_bonded_epoch = 2, bo_unlock_epoch = None \<rparr> :: bond_object"
  let ?calls = "[RequestUnbond 5, UpdateResource ?d, RequestUnbond 6]"
  let ?r' = "\<lparr> brr_resources = [?d] \<rparr>" and ?b' = "?b\<lparr> bo_unlock_epoch := Some 8 \<rparr>"
  have found: "binary_search_by_key ?i brc_resource_id [x] = Inr 0"
    if "brc_resource_id x = ?i" for x :: bond_resource_config
    using binary_search_found [of brc_resource_id "[x]" 0] that by (simp add: key_sorted_def)
  have run: "bond_run ?calls (?r, ?b) = (?r', ?b')"
    by (simp add: bond_run_def request_unbond_def update_resource_def bond_registry_get_def
        bsearch_get_def found bond_resource_config_validate_def checked_add_def)
  have "bond_registry_validate ?r = Ok ()"
    by (simp add: bond_registry_validate_def bond_resource_config_validate_def check_resource_order_def)
  note life = bond_slashable_through_delay [OF this _ run]
  have "bond_registry_get ?r' ?i = Some ?d" by (simp add: bond_registry_get_def bsearch_get_def found)
  then show ?thesis
    unfolding Let_def run fst_conv snd_conv using life by (simp add: approval_accepted_def)
qed

end
