(* ===== verification/Bond_Codec.thy ===== *)
theory Bond_Codec
  imports Bonds
begin

text \<open>
  The codecs of \<^verbatim>\<open>src/crates/bonds/src/lib.rs\<close>. Every decoder compares the re-encoding of its result with
  the input, and each accepts exactly the bytes its encoder writes for a well-formed value.
\<close>

section \<open>Encoders and decoders\<close>

definition require_exact_reencoding :: "bytes \<Rightarrow> bytes \<Rightarrow> bytes \<Rightarrow> (bond_error, unit) result" where
  "require_exact_reencoding input encoded kind =
     (if encoded \<noteq> input then Err (BoNonCanonicalEncoding kind) else Ok ())"

definition bo_fixed_field ::
  "usize \<Rightarrow> canonical_frame \<Rightarrow> u16 \<Rightarrow> (bond_error, bytes) result" where
  "bo_fixed_field n frame field_id =
     try_bind (map_err BoCanonicalDecoding (required_field frame field_id)) (\<lambda>bs.
     if length bs \<noteq> n then Err (BoCanonicalDecoding (InvalidFieldLength field_id n (length bs)))
     else Ok bs)"

definition bo_boolean_field :: "canonical_frame \<Rightarrow> u16 \<Rightarrow> (bond_error, bool) result" where
  "bo_boolean_field frame field_id =
     try_bind (bo_fixed_field 1 frame field_id) (\<lambda>bs.
     if hd bs = 0 then Ok False else if hd bs = 1 then Ok True else Err (InvalidBoolean (hd bs)))"

definition bo_optional_u64_field :: "canonical_frame \<Rightarrow> u16 \<Rightarrow> (bond_error, u64 option) result" where
  "bo_optional_u64_field frame field_id =
     (case frame_field frame field_id of
        None \<Rightarrow> Ok None
      | Some bs \<Rightarrow>
          if length bs \<noteq> 8 then Err (BoCanonicalDecoding (InvalidFieldLength field_id 8 (length bs)))
          else Ok (Some (u64_from_le_bytes bs)))"

text \<open>\<open>option.map(f).transpose()\<close>.\<close>

definition map_transpose :: "('a \<Rightarrow> ('e, 'b) result) \<Rightarrow> 'a option \<Rightarrow> ('e, 'b option) result" where
  "map_transpose f m =
     (case m of None \<Rightarrow> Ok None | Some a \<Rightarrow> try_bind (f a) (\<lambda>b. Ok (Some b)))"

definition decode_epoch_exact :: "bytes \<Rightarrow> (bond_error, epoch) result" where
  "decode_epoch_exact input =
     try_bind (map_err BoCanonicalDecoding (decode_closed_frame 0x0107 1 [1] input)) (\<lambda>frame.
     try_bind (map_err BoCanonicalDecoding (required_u64 frame 1)) (\<lambda>e.
     try_bind (map_err BoCanonicalEncoding (encode_epoch e)) (\<lambda>b.
     try_bind (require_exact_reencoding input b (str ''epoch'')) (\<lambda>_. Ok e))))"

definition encode_validator_admission_policy ::
  "validator_admission_policy \<Rightarrow> (bond_error, bytes) result" where
  "encode_validator_admission_policy policy = map_err BoCanonicalEncoding (
     try_bind (field_u16 1 (admission_policy_as_u16 policy) (cs_new 0x8001 1)) finish)"

definition decode_validator_admission_policy ::
  "bytes \<Rightarrow> (bond_error, validator_admission_policy) result" where
  "decode_validator_admission_policy input =
     try_bind (map_err BoCanonicalDecoding (decode_closed_frame 0x8001 1 [1] input)) (\<lambda>frame.
     try_bind (map_err BoCanonicalDecoding (required_u16 frame 1)) (\<lambda>tag.
     try_bind (if tag = 1 then Ok GenesisPermissioned else if tag = 2 then Ok GovernancePermissioned
       else if tag = 3 then Ok BondAndGovernance else if tag = 4 then Ok BondRequired
       else Err (UnknownValidatorAdmissionPolicy tag)) (\<lambda>policy.
     try_bind (encode_validator_admission_policy policy) (\<lambda>b.
     try_bind (require_exact_reencoding input b (str ''validator admission policy'')) (\<lambda>_.
     Ok policy)))))"

definition encode_bond_resource_id :: "bond_resource_id \<Rightarrow> (bond_error, bytes) result" where
  "encode_bond_resource_id i = map_err BoCanonicalEncoding (
     try_bind (field_u16 1 (bri_domain i) (cs_new 0x8008 1)) (\<lambda>c.
     try_bind (field_bytes 2 (bri_value i) c) finish))"

definition decode_bond_resource_id :: "bytes \<Rightarrow> (bond_error, bond_resource_id) result" where
  "decode_bond_resource_id input =
     try_bind (map_err BoCanonicalDecoding (decode_closed_frame 0x8008 1 [1, 2] input)) (\<lambda>frame.
     try_bind (bo_fixed_field 32 frame 2) (\<lambda>value.
     try_bind (map_err BoCanonicalDecoding (required_u16 frame 1)) (\<lambda>domain.
     try_bind (bond_resource_id_new domain value) (\<lambda>i.
     try_bind (encode_bond_resource_id i) (\<lambda>b.
     try_bind (require_exact_reencoding input b (str ''bond resource id'')) (\<lambda>_. Ok i))))))"

definition encode_bond_resource_config :: "bond_resource_config \<Rightarrow> (bond_error, bytes) result" where
  "encode_bond_resource_config config =
     try_bind (bond_resource_config_validate config) (\<lambda>_.
     try_bind (encode_bond_resource_id (brc_resource_id config)) (\<lambda>b.
     map_err BoCanonicalEncoding (
       try_bind (field_bytes 1 b (cs_new 0x8002 1)) (\<lambda>c.
       try_bind (field_u64 2 (brc_min_bond config) c) (\<lambda>c.
       try_bind (field_bytes 3 [if brc_enabled config then 1 else 0] c) (\<lambda>c.
       try_bind (field_u64 4 (brc_unbonding_epochs config) c) (\<lambda>c.
       try_bind (case brc_max_validator_exposure config of
           Some m \<Rightarrow> field_u64 5 m c | None \<Rightarrow> Ok c) finish)))))))"

definition decode_bond_resource_config :: "bytes \<Rightarrow> (bond_error, bond_resource_config) result" where
  "decode_bond_resource_config input =
     try_bind (map_err BoCanonicalDecoding
       (decode_closed_frame 0x8002 1 [1, 2, 3, 4, 5] input)) (\<lambda>frame.
     try_bind (map_err BoCanonicalDecoding (required_field frame 1)) (\<lambda>b.
     try_bind (decode_bond_resource_id b) (\<lambda>resource_id.
     try_bind (map_err BoCanonicalDecoding (required_u64 frame 2)) (\<lambda>min_bond.
     try_bind (bo_boolean_field frame 3) (\<lambda>enabled.
     try_bind (map_err BoCanonicalDecoding (required_u64 frame 4)) (\<lambda>unbonding_epochs.
     try_bind (bo_optional_u64_field frame 5) (\<lambda>max_validator_exposure.
     let config = \<lparr> brc_resource_id = resource_id, brc_min_bond = min_bond, brc_enabled = enabled,
           brc_unbonding_epochs = unbonding_epochs,
           brc_max_validator_exposure = max_validator_exposure \<rparr> in
     try_bind (bond_resource_config_validate config) (\<lambda>_.
     try_bind (encode_bond_resource_config config) (\<lambda>b.
     try_bind (require_exact_reencoding input b (str ''bond resource config'')) (\<lambda>_.
     Ok config))))))))))"

definition encode_bond_resource_registry :: "bond_resource_registry \<Rightarrow> (bond_error, bytes) result"
  where
  "encode_bond_resource_registry r =
     try_bind (bond_registry_validate r) (\<lambda>_.
     try_bind (ok_or (u32_try_from (length (brr_resources r)))
       (BoRegistryTooLarge (length (brr_resources r)))) (\<lambda>n.
     try_bind (map_err BoCanonicalEncoding (field_u32 1 n (cs_new 0x8003 1))) (\<lambda>c.
     try_bind (put_items (BoRegistryTooLarge (length (brr_resources r))) BoCanonicalEncoding
       encode_bond_resource_config 2 (brr_resources r) c) (\<lambda>c.
     map_err BoCanonicalEncoding (finish c)))))"

definition take_resource ::
  "usize \<Rightarrow> canonical_frame \<Rightarrow> bond_resource_config list \<times> bond_resource_id option \<Rightarrow> nat \<Rightarrow>
   (bond_error, bond_resource_config list \<times> bond_resource_id option) result" where
  "take_resource declared frame st index =
     (case st of (resources, previous) \<Rightarrow>
       try_bind (ok_or (u16_try_from (index + 2)) (BoRegistryTooLarge declared)) (\<lambda>field_id.
       try_bind (map_err BoCanonicalDecoding (required_field frame field_id)) (\<lambda>b.
       try_bind (decode_bond_resource_config b) (\<lambda>resource.
       try_bind (check_resource_order previous (brc_resource_id resource)) (\<lambda>_.
       Ok (resources @ [resource], Some (brc_resource_id resource)))))))"

definition decode_bond_resource_registry :: "bytes \<Rightarrow> (bond_error, bond_resource_registry) result"
  where
  "decode_bond_resource_registry input =
     try_bind (map_err BoCanonicalDecoding (decode_canonical_frame input)) (\<lambda>frame.
     try_bind (map_err BoCanonicalDecoding (require_type frame 0x8003)) (\<lambda>_.
     try_bind (map_err BoCanonicalDecoding (require_version frame 1)) (\<lambda>_.
     try_bind (map_err BoCanonicalDecoding (required_u32 frame 1)) (\<lambda>n.
     let declared = unat n; actual = length (cf_fields frame) - 1 in
     if declared > 65534 then Err (BoRegistryTooLarge declared)
     else if actual \<noteq> declared then Err (RegistryCountMismatch declared actual)
     else
       try_bind (try_fold (take_resource declared frame) ([], None) [0..<declared]) (\<lambda>(resources, _).
       let r = \<lparr> brr_resources = resources \<rparr> in
       try_bind (bond_registry_validate r) (\<lambda>_.
       try_bind (encode_bond_resource_registry r) (\<lambda>b.
       try_bind (require_exact_reencoding input b (str ''bond resource registry'')) (\<lambda>_. Ok r))))))))"

definition encode_bond_object :: "bond_object \<Rightarrow> (bond_error, bytes) result" where
  "encode_bond_object bond =
     try_bind (map_err BoCanonicalEncoding (field_bytes 1 (bo_validator_id bond) (cs_new 0x8004 1))) (\<lambda>c.
     try_bind (encode_bond_resource_id (bo_resource_id bond)) (\<lambda>b.
     map_err BoCanonicalEncoding (
       try_bind (field_bytes 2 b c) (\<lambda>c.
       try_bind (field_u64 3 (bo_amount bond) c) (\<lambda>c.
       try_bind (encode_epoch (bo_bonded_epoch bond)) (\<lambda>b.
       try_bind (field_bytes 4 b c) (\<lambda>c.
       try_bind (case bo_unlock_epoch bond of
           Some u \<Rightarrow> try_bind (encode_epoch u) (\<lambda>b. field_bytes 5 b c) | None \<Rightarrow> Ok c) finish)))))))"

definition decode_bond_object :: "bytes \<Rightarrow> (bond_error, bond_object) result" where
  "decode_bond_object input =
     try_bind (map_err BoCanonicalDecoding
       (decode_closed_frame 0x8004 1 [1, 2, 3, 4, 5] input)) (\<lambda>frame.
     try_bind (bo_fixed_field 32 frame 1) (\<lambda>validator_id.
     try_bind (map_err BoCanonicalDecoding (required_field frame 2)) (\<lambda>b.
     try_bind (decode_bond_resource_id b) (\<lambda>resource_id.
     try_bind (map_err BoCanonicalDecoding (required_u64 frame 3)) (\<lambda>amount.
     try_bind (map_err BoCanonicalDecoding (required_field frame 4)) (\<lambda>b.
     try_bind (decode_epoch_exact b) (\<lambda>bonded_epoch.
     try_bind (map_transpose decode_epoch_exact (frame_field frame 5)) (\<lambda>unlock_epoch.
     let bond = \<lparr> bo_validator_id = validator_id, bo_resource_id = resource_id, bo_amount = amount,
           bo_bonded_epoch = bonded_epoch, bo_unlock_epoch = unlock_epoch \<rparr> in
     try_bind (encode_bond_object bond) (\<lambda>b.
     try_bind (require_exact_reencoding input b (str ''bond object'')) (\<lambda>_. Ok bond))))))))))"

definition encode_slashing_reason :: "slashing_reason \<Rightarrow> (bond_error, bytes) result" where
  "encode_slashing_reason reason = map_err BoCanonicalEncoding (
     try_bind (field_u16 1 (slashing_reason_as_u16 reason) (cs_new 0x8005 1)) finish)"

definition decode_slashing_reason :: "bytes \<Rightarrow> (bond_error, slashing_reason) result" where
  "decode_slashing_reason input =
     try_bind (map_err BoCanonicalDecoding (decode_closed_frame 0x8005 1 [1] input)) (\<lambda>frame.
     try_bind (map_err BoCanonicalDecoding (required_u16 frame 1)) (\<lambda>tag.
     try_bind (if tag = 1 then Ok ConflictingObjectVote else if tag = 2 then Ok ConsensusEquivocation
       else if tag = 3 then Ok ConflictingFinalizedStatement else if tag = 4 then Ok DoubleSigning
       else Err (UnknownSlashingReason tag)) (\<lambda>reason.
     try_bind (encode_slashing_reason reason) (\<lambda>b.
     try_bind (require_exact_reencoding input b (str ''slashing reason'')) (\<lambda>_. Ok reason)))))"

definition encode_slashing_evidence :: "slashing_evidence \<Rightarrow> (bond_error, bytes) result" where
  "encode_slashing_evidence ev =
     try_bind (slashing_evidence_validate ev) (\<lambda>_.
     try_bind (map_err BoCanonicalEncoding (
       try_bind (field_bytes 1 (sl_validator_id ev) (cs_new 0x8006 1)) (\<lambda>c.
       try_bind (encode_epoch (sl_epoch ev)) (\<lambda>b. field_bytes 2 b c)))) (\<lambda>c.
     try_bind (encode_slashing_reason (sl_reason ev)) (\<lambda>b.
     map_err BoCanonicalEncoding (
       try_bind (field_bytes 3 b c) (\<lambda>c.
       try_bind (encode_digest32 (sl_left_statement ev)) (\<lambda>b.
       try_bind (field_bytes 4 b c) (\<lambda>c.
       try_bind (encode_digest32 (sl_right_statement ev)) (\<lambda>b.
       try_bind (field_bytes 5 b c) finish))))))))"

definition decode_slashing_evidence :: "bytes \<Rightarrow> (bond_error, slashing_evidence) result" where
  "decode_slashing_evidence input =
     try_bind (map_err BoCanonicalDecoding
       (decode_closed_frame 0x8006 1 [1, 2, 3, 4, 5] input)) (\<lambda>frame.
     try_bind (bo_fixed_field 32 frame 1) (\<lambda>validator_id.
     try_bind (map_err BoCanonicalDecoding (required_field frame 2)) (\<lambda>b.
     try_bind (decode_epoch_exact b) (\<lambda>epoch.
     try_bind (map_err BoCanonicalDecoding (required_field frame 3)) (\<lambda>b.
     try_bind (decode_slashing_reason b) (\<lambda>reason.
     try_bind (map_err BoCanonicalDecoding (try_bind (required_field frame 4) decode_digest32)) (\<lambda>left.
     try_bind (map_err BoCanonicalDecoding (try_bind (required_field frame 5) decode_digest32)) (\<lambda>right.
     let ev = \<lparr> sl_validator_id = validator_id, sl_epoch = epoch, sl_reason = reason,
           sl_left_statement = left, sl_right_statement = right \<rparr> in
     try_bind (slashing_evidence_validate ev) (\<lambda>_.
     try_bind (encode_slashing_evidence ev) (\<lambda>b.
     try_bind (require_exact_reencoding input b (str ''slashing evidence'')) (\<lambda>_. Ok ev)))))))))))"

definition encode_validator_admission :: "validator_admission \<Rightarrow> (bond_error, bytes) result" where
  "encode_validator_admission a =
     try_bind (map_err BoCanonicalEncoding (field_bytes 1 (va_validator_id a) (cs_new 0x8007 1))) (\<lambda>c.
     try_bind (case va_bond a of
         Some bond \<Rightarrow> try_bind (encode_bond_object bond) (\<lambda>b.
           map_err BoCanonicalEncoding (field_bytes 4 b c))
       | None \<Rightarrow> Ok c) (\<lambda>c.
     map_err BoCanonicalEncoding (finish c)))"

definition decode_validator_admission :: "bytes \<Rightarrow> (bond_error, validator_admission) result" where
  "decode_validator_admission input =
     try_bind (map_err BoCanonicalDecoding (decode_closed_frame 0x8007 1 [1, 4] input)) (\<lambda>frame.
     try_bind (bo_fixed_field 32 frame 1) (\<lambda>validator_id.
     try_bind (map_transpose decode_bond_object (frame_field frame 4)) (\<lambda>bond.
     let a = \<lparr> va_validator_id = validator_id, va_bond = bond \<rparr> in
     try_bind (encode_validator_admission a) (\<lambda>b.
     try_bind (require_exact_reencoding input b (str ''validator admission'')) (\<lambda>_. Ok a)))))"

section \<open>Exactness\<close>

lemma require_exact_reencoding_Ok_iff [result_simps]:
  "require_exact_reencoding input b k = Ok u \<longleftrightarrow> b = input"
  by (simp add: require_exact_reencoding_def)

lemma bo_fixed_field_Ok_iff [result_simps]:
  "bo_fixed_field n f k = Ok b \<longleftrightarrow> frame_field f k = Some b \<and> length b = n"
  by (auto simp: bo_fixed_field_def result_simps)

lemma bo_boolean_field_Ok_iff [result_simps]:
  "bo_boolean_field f k = Ok x \<longleftrightarrow> frame_field f k = Some [if x then 1 else 0]"
proof -
  have "bo_boolean_field f k = Ok x \<longleftrightarrow>
      (\<exists>b. frame_field f k = Some [b] \<and> (b = 0 \<and> \<not> x \<or> b = 1 \<and> x))"
    by (auto simp: bo_boolean_field_def try_bind_eq_Ok bo_fixed_field_Ok_iff length_Suc_conv
        split: if_splits)
  then show ?thesis by auto
qed

lemma bo_optional_u64_field_Ok_iff [result_simps]:
  "bo_optional_u64_field f k = Ok m \<longleftrightarrow> frame_field f k = map_option u64_to_le_bytes m"
  by (cases m) (auto simp: bo_optional_u64_field_def result_simps split: option.splits)

lemma map_transpose_Ok_iff [result_simps]:
  "map_transpose f m = Ok r \<longleftrightarrow>
     (case m of None \<Rightarrow> r = None | Some a \<Rightarrow> \<exists>x. r = Some x \<and> f a = Ok x)"
  by (auto simp: map_transpose_def result_simps split: option.splits)

lemma encode_epoch_Ok_iff:
  "encode_epoch e = Ok b \<longleftrightarrow> encode_frame \<lparr> cf_type_id = 0x0107, cf_version = 1,
     cf_fields = [(1, u64_to_le_bytes e)] \<rparr> = Ok b"
  by (simp add: encode_epoch_def encode_simps)

lemma decode_epoch_exact_Ok_iff: "decode_epoch_exact b = Ok e \<longleftrightarrow> encode_epoch e = Ok b"
proof
  assume e: "encode_epoch e = Ok b"
  from decode_closed_encoded [OF e [unfolded encode_epoch_Ok_iff], of "[1]"] e
  show "decode_epoch_exact b = Ok e" by (simp add: decode_epoch_exact_def result_simps)
qed (auto simp: decode_epoch_exact_def result_simps)

lemma decode_validator_admission_policy_Ok_iff:
  "decode_validator_admission_policy b = Ok p \<longleftrightarrow> encode_validator_admission_policy p = Ok b"
proof
  assume e: "encode_validator_admission_policy p = Ok b"
  then have "encode_frame \<lparr> cf_type_id = 0x8001, cf_version = 1,
      cf_fields = [(1, u16_to_le_bytes (admission_policy_as_u16 p))] \<rparr> = Ok b"
    by (simp add: encode_validator_admission_policy_def encode_simps result_simps)
  from decode_closed_encoded [OF this, of "[1]"] e
  show "decode_validator_admission_policy b = Ok p"
    by (cases p) (simp_all add: decode_validator_admission_policy_def result_simps admission_policy_as_u16_def)
qed (auto simp: decode_validator_admission_policy_def result_simps)

lemma decode_slashing_reason_Ok_iff:
  "decode_slashing_reason b = Ok p \<longleftrightarrow> encode_slashing_reason p = Ok b"
proof
  assume e: "encode_slashing_reason p = Ok b"
  then have "encode_frame \<lparr> cf_type_id = 0x8005, cf_version = 1,
      cf_fields = [(1, u16_to_le_bytes (slashing_reason_as_u16 p))] \<rparr> = Ok b"
    by (simp add: encode_slashing_reason_def encode_simps result_simps)
  from decode_closed_encoded [OF this, of "[1]"] e
  show "decode_slashing_reason b = Ok p"
    by (cases p) (simp_all add: decode_slashing_reason_def result_simps slashing_reason_as_u16_def)
qed (auto simp: decode_slashing_reason_def result_simps)

text \<open>Resource identifiers, policies, bonds, evidence and admission records.\<close>

definition bond_resource_id_wf :: "bond_resource_id \<Rightarrow> bool" where
  "bond_resource_id_wf i \<longleftrightarrow> bri_domain i \<noteq> 0 \<and> array32 (bri_value i)"

lemma bond_resource_id_new_Ok_iff [result_simps]:
  "bond_resource_id_new d v = Ok i \<longleftrightarrow> d \<noteq> 0 \<and> i = BondResourceId d v"
  by (auto simp: bond_resource_id_new_def)

lemma encode_bond_resource_id_Ok_iff:
  "encode_bond_resource_id i = Ok b \<longleftrightarrow> encode_frame \<lparr> cf_type_id = 0x8008, cf_version = 1,
     cf_fields = [(1, u16_to_le_bytes (bri_domain i)), (2, bri_value i)] \<rparr> = Ok b"
  by (simp add: encode_bond_resource_id_def encode_simps result_simps)

lemma decode_bond_resource_id_Ok_iff:
  "decode_bond_resource_id b = Ok i \<longleftrightarrow> bond_resource_id_wf i \<and> encode_bond_resource_id i = Ok b"
proof
  assume e: "bond_resource_id_wf i \<and> encode_bond_resource_id i = Ok b"
  from decode_closed_encoded [OF e [THEN conjunct2, unfolded encode_bond_resource_id_Ok_iff], of "[1, 2]"] e
  show "decode_bond_resource_id b = Ok i"
    by (cases i) (simp add: decode_bond_resource_id_def result_simps bond_resource_id_wf_def array32_def)
qed (auto simp: decode_bond_resource_id_def result_simps bond_resource_id_wf_def array32_def)

definition config_fields :: "bond_resource_config \<Rightarrow> bytes \<Rightarrow> (u16 \<times> bytes) list" where
  "config_fields c i = [(1, i), (2, u64_to_le_bytes (brc_min_bond c)),
     (3, [if brc_enabled c then 1 else 0]), (4, u64_to_le_bytes (brc_unbonding_epochs c))] @
     (case brc_max_validator_exposure c of None \<Rightarrow> [] | Some m \<Rightarrow> [(5, u64_to_le_bytes m)])"

lemma encode_bond_resource_config_Ok_iff:
  "encode_bond_resource_config c = Ok b \<longleftrightarrow> bond_resource_config_validate c = Ok () \<and>
     (\<exists>i. encode_bond_resource_id (brc_resource_id c) = Ok i \<and>
       encode_frame \<lparr> cf_type_id = 0x8002, cf_version = 1, cf_fields = config_fields c i \<rparr> = Ok b)"
  by (auto simp: encode_bond_resource_config_def encode_simps result_simps config_fields_def
      split: option.splits)

lemma decode_bond_resource_config_Ok_iff:
  "decode_bond_resource_config b = Ok c \<longleftrightarrow>
     bond_resource_id_wf (brc_resource_id c) \<and> encode_bond_resource_config c = Ok b" (is "_ \<longleftrightarrow> ?R")
proof
  assume R: ?R
  then obtain i where i: "encode_bond_resource_id (brc_resource_id c) = Ok i"
    "bond_resource_config_validate c = Ok ()" and
    b: "encode_frame \<lparr> cf_type_id = 0x8002, cf_version = 1, cf_fields = config_fields c i \<rparr> = Ok b"
    by (auto simp: encode_bond_resource_config_Ok_iff)
  have "decode_closed_frame 0x8002 1 [1, 2, 3, 4, 5] b = Ok \<lparr> cf_type_id = 0x8002, cf_version = 1,
      cf_fields = config_fields c i \<rparr>"
    by (rule decode_closed_written [OF b]) (auto simp: config_fields_def split: option.splits)
  then show "decode_bond_resource_config b = Ok c"
    using R i by (cases c; cases "brc_max_validator_exposure c")
      (auto simp: decode_bond_resource_config_def result_simps decode_bond_resource_id_Ok_iff
        config_fields_def Let_def)
qed (auto simp: decode_bond_resource_config_def result_simps Let_def decode_bond_resource_id_Ok_iff)

definition bond_fields :: "bond_object \<Rightarrow> bytes \<Rightarrow> bytes \<Rightarrow> bytes option \<Rightarrow> (u16 \<times> bytes) list" where
  "bond_fields bond i e u = [(1, bo_validator_id bond), (2, i), (3, u64_to_le_bytes (bo_amount bond)),
     (4, e)] @ (case u of None \<Rightarrow> [] | Some x \<Rightarrow> [(5, x)])"

lemma encode_bond_object_Ok_iff:
  "encode_bond_object bond = Ok b \<longleftrightarrow>
     (\<exists>i e u. encode_bond_resource_id (bo_resource_id bond) = Ok i \<and>
       encode_epoch (bo_bonded_epoch bond) = Ok e \<and>
       (case bo_unlock_epoch bond of None \<Rightarrow> u = None | Some x \<Rightarrow> \<exists>y. u = Some y \<and> encode_epoch x = Ok y) \<and>
       encode_frame \<lparr> cf_type_id = 0x8004, cf_version = 1, cf_fields = bond_fields bond i e u \<rparr> = Ok b)"
  by (cases "bo_unlock_epoch bond")
    (auto simp: encode_bond_object_def encode_simps result_simps bond_fields_def)

definition bond_object_wf :: "bond_object \<Rightarrow> bool" where
  "bond_object_wf bond \<longleftrightarrow> array32 (bo_validator_id bond) \<and> bond_resource_id_wf (bo_resource_id bond)"

lemma decode_bond_object_Ok_iff:
  "decode_bond_object b = Ok bond \<longleftrightarrow> bond_object_wf bond \<and> encode_bond_object bond = Ok b" (is "_ \<longleftrightarrow> ?R")
proof
  assume R: ?R
  then obtain i e u where ie: "encode_bond_resource_id (bo_resource_id bond) = Ok i"
    "encode_epoch (bo_bonded_epoch bond) = Ok e"
    "case bo_unlock_epoch bond of None \<Rightarrow> u = None | Some x \<Rightarrow> \<exists>y. u = Some y \<and> encode_epoch x = Ok y"
    and b: "encode_frame \<lparr> cf_type_id = 0x8004, cf_version = 1, cf_fields = bond_fields bond i e u \<rparr> = Ok b"
    by (auto simp: encode_bond_object_Ok_iff)
  have "decode_closed_frame 0x8004 1 [1, 2, 3, 4, 5] b = Ok \<lparr> cf_type_id = 0x8004, cf_version = 1,
      cf_fields = bond_fields bond i e u \<rparr>"
    by (rule decode_closed_written [OF b]) (auto simp: bond_fields_def split: option.splits)
  then show "decode_bond_object b = Ok bond"
    using R ie by (cases bond; cases "bo_unlock_epoch bond")
      (auto simp: decode_bond_object_def result_simps decode_bond_resource_id_Ok_iff bond_object_wf_def array32_def
        decode_epoch_exact_Ok_iff bond_fields_def Let_def)
qed (auto simp: decode_bond_object_def result_simps Let_def decode_bond_resource_id_Ok_iff bond_object_wf_def
    array32_def)

lemma slashing_evidence_validate_Ok_iff [result_simps]:
  "slashing_evidence_validate ev = Ok u \<longleftrightarrow> sl_left_statement ev \<noteq> sl_right_statement ev"
  by (simp add: slashing_evidence_validate_def)

lemma encode_slashing_evidence_Ok_iff:
  "encode_slashing_evidence ev = Ok b \<longleftrightarrow> sl_left_statement ev \<noteq> sl_right_statement ev \<and>
     (\<exists>e r x y. encode_epoch (sl_epoch ev) = Ok e \<and> encode_slashing_reason (sl_reason ev) = Ok r \<and>
       encode_digest32 (sl_left_statement ev) = Ok x \<and> encode_digest32 (sl_right_statement ev) = Ok y \<and>
       encode_frame \<lparr> cf_type_id = 0x8006, cf_version = 1,
         cf_fields = [(1, sl_validator_id ev), (2, e), (3, r), (4, x), (5, y)] \<rparr> = Ok b)"
  by (auto simp: encode_slashing_evidence_def encode_simps result_simps)

definition slashing_evidence_wf :: "slashing_evidence \<Rightarrow> bool" where
  "slashing_evidence_wf ev \<longleftrightarrow> array32 (sl_validator_id ev) \<and> digest32_wf (sl_left_statement ev) \<and>
     digest32_wf (sl_right_statement ev)"

lemma decode_slashing_evidence_Ok_iff:
  "decode_slashing_evidence b = Ok ev \<longleftrightarrow> slashing_evidence_wf ev \<and> encode_slashing_evidence ev = Ok b"
    (is "_ \<longleftrightarrow> ?R")
proof
  assume R: ?R
  then obtain e r x y where parts: "encode_epoch (sl_epoch ev) = Ok e"
    "encode_slashing_reason (sl_reason ev) = Ok r" "encode_digest32 (sl_left_statement ev) = Ok x"
    "encode_digest32 (sl_right_statement ev) = Ok y" "sl_left_statement ev \<noteq> sl_right_statement ev"
    and b: "encode_frame \<lparr> cf_type_id = 0x8006, cf_version = 1,
         cf_fields = [(1, sl_validator_id ev), (2, e), (3, r), (4, x), (5, y)] \<rparr> = Ok b"
    by (auto simp: encode_slashing_evidence_Ok_iff)
  have "decode_closed_frame 0x8006 1 [1, 2, 3, 4, 5] b = Ok \<lparr> cf_type_id = 0x8006, cf_version = 1,
         cf_fields = [(1, sl_validator_id ev), (2, e), (3, r), (4, x), (5, y)] \<rparr>"
    by (rule decode_closed_encoded [OF b]) simp_all
  then show "decode_slashing_evidence b = Ok ev"
    using R parts by (cases ev)
      (auto simp: decode_slashing_evidence_def result_simps decode_slashing_reason_Ok_iff
        decode_digest32_Ok_iff decode_epoch_exact_Ok_iff slashing_evidence_wf_def
        array32_def Let_def)
qed (auto simp: decode_slashing_evidence_def result_simps Let_def decode_digest32_Ok_iff
    slashing_evidence_wf_def array32_def)

definition admission_fields :: "validator_admission \<Rightarrow> bytes option \<Rightarrow> (u16 \<times> bytes) list" where
  "admission_fields a x = (1, va_validator_id a) # (case x of None \<Rightarrow> [] | Some y \<Rightarrow> [(4, y)])"

lemma encode_validator_admission_Ok_iff:
  "encode_validator_admission a = Ok b \<longleftrightarrow>
     (\<exists>x. (case va_bond a of None \<Rightarrow> x = None | Some z \<Rightarrow> \<exists>y. x = Some y \<and> encode_bond_object z = Ok y) \<and>
       encode_frame \<lparr> cf_type_id = 0x8007, cf_version = 1, cf_fields = admission_fields a x \<rparr> = Ok b)"
  by (cases "va_bond a")
    (auto simp: encode_validator_admission_def encode_simps result_simps admission_fields_def)

definition validator_admission_wf :: "validator_admission \<Rightarrow> bool" where
  "validator_admission_wf a \<longleftrightarrow> array32 (va_validator_id a) \<and> pred_option bond_object_wf (va_bond a)"

lemma decode_validator_admission_Ok_iff:
  "decode_validator_admission b = Ok a \<longleftrightarrow> validator_admission_wf a \<and> encode_validator_admission a = Ok b"
    (is "_ \<longleftrightarrow> ?R")
proof
  assume R: ?R
  then obtain x where x:
    "case va_bond a of None \<Rightarrow> x = None | Some z \<Rightarrow> \<exists>y. x = Some y \<and> encode_bond_object z = Ok y"
    and b: "encode_frame \<lparr> cf_type_id = 0x8007, cf_version = 1, cf_fields = admission_fields a x \<rparr> = Ok b"
    by (auto simp: encode_validator_admission_Ok_iff)
  have "decode_closed_frame 0x8007 1 [1, 4] b = Ok \<lparr> cf_type_id = 0x8007, cf_version = 1,
      cf_fields = admission_fields a x \<rparr>"
    by (rule decode_closed_written [OF b]) (auto simp: admission_fields_def split: option.splits)
  then show "decode_validator_admission b = Ok a"
    using R x by (cases a; cases "va_bond a")
      (auto simp: decode_validator_admission_def result_simps decode_bond_object_Ok_iff
        validator_admission_wf_def admission_fields_def array32_def Let_def)
qed (auto simp: decode_validator_admission_def result_simps Let_def decode_bond_object_Ok_iff
    validator_admission_wf_def array32_def split: option.splits)

text \<open>The registry. The loop reads the policies and checks their order.\<close>

definition registry_head :: "bond_resource_registry \<Rightarrow> (u16 \<times> bytes) list" where
  "registry_head r = [(1, u32_to_le_bytes (of_nat (length (brr_resources r))))]"

lemma length_registry_head [simp]: "length (registry_head r) = 1"
  by (simp add: registry_head_def)

lemma registry_list_head: "n \<le> 65534 \<Longrightarrow> list_head (registry_head r) n"
  by (simp add: list_head_def registry_head_def upt_rec)

lemma encode_bond_resource_registry_Ok_iff:
  "encode_bond_resource_registry r = Ok b \<longleftrightarrow> bond_registry_validate r = Ok () \<and>
     (\<exists>bs. list_all2 (\<lambda>c b. encode_bond_resource_config c = Ok b) (brr_resources r) bs \<and>
       encode_frame (list_frame 0x8003 1 (registry_head r) bs) = Ok b)"
proof (cases "bond_registry_validate r = Ok ()")
  case True
  then have n: "length (brr_resources r) \<le> 65534" by (simp add: bond_registry_validate_Ok_iff)
  have "encode_bond_resource_registry r =
      try_bind (put_items (BoRegistryTooLarge (length (brr_resources r))) BoCanonicalEncoding
        encode_bond_resource_config 2 (brr_resources r)
        \<lparr> cs_type_id = 0x8003, cs_version = 1, cs_fields = registry_head r \<rparr>)
        (\<lambda>c. map_err BoCanonicalEncoding (finish c))"
    using True n by (simp add: encode_bond_resource_registry_def encode_simps registry_head_def u32_try_from_def)
  then show ?thesis
    using True put_list_frame_Ok_iff [OF registry_list_head [OF n, of r], of 2] by simp
next
  case False
  then show ?thesis by (auto simp: encode_bond_resource_registry_def result_simps)
qed

lemma take_resource_Ok_iff:
  assumes "i + 2 < 2 ^ 16"
  shows "take_resource n f (cs, prev) i = Ok s \<longleftrightarrow>
    (\<exists>b c. frame_field f (of_nat (i + 2)) = Some b \<and> decode_bond_resource_config b = Ok c \<and>
      (\<forall>p. prev = Some p \<longrightarrow> p < brc_resource_id c) \<and> s = (cs @ [c], Some (brc_resource_id c)))"
  using assms
  by (auto simp: take_resource_def result_simps u16_try_from_def check_resource_order_Ok_iff
      simp del: of_nat_add)

definition bond_registry_wf :: "bond_resource_registry \<Rightarrow> bool" where
  "bond_registry_wf r \<longleftrightarrow> list_all (\<lambda>c. bond_resource_id_wf (brc_resource_id c)) (brr_resources r)"

lemma take_resources_wf:
  assumes "try_fold (take_resource m f) ([], None) [0..<n] = Ok (cs, prev)" "n \<le> 65534"
  shows "list_all (\<lambda>c. bond_resource_id_wf (brc_resource_id c)) cs"
proof -
  let ?P = "\<lambda>k :: nat. \<lambda>(cs, prev :: bond_resource_id option).
    list_all (\<lambda>c. bond_resource_id_wf (brc_resource_id c)) cs"
  have "?P n (cs, prev)"
  proof (rule try_fold_upt_inv [where P = ?P, OF assms(1)])
    fix k t t' assume "k < n" "?P k t" "take_resource m f t k = Ok t'"
    then show "?P (Suc k) t'"
      using assms(2)
      by (cases t) (auto simp: take_resource_Ok_iff decode_bond_resource_config_Ok_iff simp del: of_nat_add)
  qed simp_all
  then show ?thesis by simp
qed

lemma take_resources_complete:
  assumes xs: "take_items e w decode_bond_resource_config 2 n f = Ok xs"
    "key_sorted brc_resource_id xs" "n \<le> 65534"
  shows "\<exists>prev. try_fold (take_resource m f) ([], None) [0..<n] = Ok (xs, prev)"
proof -
  let ?S = "\<lambda>k. (take k xs, if k = 0 then None else Some (brc_resource_id (xs ! (k - 1))))"
  have at: "length xs = n" "\<forall>i < n. \<exists>b. frame_field f (of_nat (i + 2)) = Some b \<and>
      decode_bond_resource_config b = Ok (xs ! i)"
    using xs(1,3) by (auto simp: take_items_Ok_iff simp del: of_nat_add)
  have "try_fold (take_resource m f) (?S 0) [0..<n] = Ok (?S n)"
  proof (rule try_fold_upt)
    fix k assume k: "k < n"
    then have "k + 2 < 2 ^ 16" using xs(3) by simp
    moreover have "\<forall>p. snd (?S k) = Some p \<longrightarrow> p < brc_resource_id (xs ! k)"
      using xs(2) k at(1) by (auto simp: key_sorted_def sorted_wrt_iff_nth_less)
    ultimately show "take_resource m f (?S k) k = Ok (?S (Suc k))"
      using at k by (auto simp: take_resource_Ok_iff take_Suc_conv_app_nth simp del: of_nat_add)
  qed simp
  then show ?thesis using at(1) by auto
qed

lemma decode_encode_bond_resource_registry:
  assumes wf: "bond_registry_wf r" and enc: "encode_bond_resource_registry r = Ok b"
  shows "decode_bond_resource_registry b = Ok r"
proof -
  let ?n = "length (brr_resources r)" and ?e = "BoRegistryTooLarge 0"
  from enc obtain bs where valid: "bond_registry_validate r = Ok ()"
    and bs: "list_all2 (\<lambda>c b. encode_bond_resource_config c = Ok b) (brr_resources r) bs"
    and b: "encode_frame (list_frame 0x8003 1 (registry_head r) bs) = Ok b"
    by (auto simp: encode_bond_resource_registry_Ok_iff)
  let ?f = "list_frame 0x8003 1 (registry_head r) bs"
  have max: "?n \<le> 65534" and sorted: "key_sorted brc_resource_id (brr_resources r)"
    using valid by (auto simp: bond_registry_validate_Ok_iff bond_registry_ok_def)
  have "list_all2 (\<lambda>c b. decode_bond_resource_config b = Ok c) (brr_resources r) bs"
    using wf bs by (simp add: bond_registry_wf_def
        list_all2_decode_encode [of decode_bond_resource_config, OF decode_bond_resource_config_Ok_iff])
  then have f: "has_fields ?f (registry_head r)" "length (cf_fields ?f) = 1 + ?n"
    "take_items ?e BoCanonicalDecoding decode_bond_resource_config 2 ?n ?f = Ok (brr_resources r)"
    using take_list_frame_count_iff [where f = ?f and t = "0x8003" and v = 1 and xs = "brr_resources r"
        and e = ?e and w = BoCanonicalDecoding and dec = decode_bond_resource_config
        and hs = "registry_head r"] registry_list_head [OF max]
    by (auto simp: numeral_eq_Suc)
  have n: "unat (of_nat ?n :: u32) = ?n" using max by (simp add: unat_of_nat)
  have head: "required_u32 ?f 1 = Ok (of_nat ?n)"
    using f(1) by (simp add: has_fields_def registry_head_def result_simps)
  obtain prev where items: "try_fold (take_resource ?n ?f) ([], None) [0..<?n] = Ok (brr_resources r, prev)"
    using take_resources_complete [OF f(3) sorted max, of ?n] by blast
  have "list_head (registry_head r) (length bs)"
    using max bs by (simp add: registry_list_head list_all2_lengthD [OF bs, symmetric])
  from decode_list_frame [OF this b] show ?thesis
    using items head n f(2) max enc valid
    by (cases r) (auto simp: decode_bond_resource_registry_def require_type_def require_version_def
        require_exact_reencoding_def Let_def)
qed

lemma decode_bond_resource_registry_Ok_iff:
  "decode_bond_resource_registry b = Ok r \<longleftrightarrow>
     bond_registry_wf r \<and> encode_bond_resource_registry r = Ok b"
proof
  assume "decode_bond_resource_registry b = Ok r"
  then obtain f n prev where "n \<le> 65534" "encode_bond_resource_registry r = Ok b"
    "try_fold (take_resource n f) ([], None) [0..<n] = Ok (brr_resources r, prev)"
    by (auto simp: decode_bond_resource_registry_def result_simps Let_def not_less split: if_splits)
  then show "bond_registry_wf r \<and> encode_bond_resource_registry r = Ok b"
    using take_resources_wf [of n f n] by (simp add: bond_registry_wf_def)
qed (simp add: decode_encode_bond_resource_registry)

text \<open>The strict codecs of the crate.\<close>

interpretation bond_registry_codec: strict_codec encode_bond_resource_registry
  decode_bond_resource_registry bond_registry_wf
  by unfold_locales (auto simp: decode_bond_resource_registry_Ok_iff)

interpretation slashing_evidence_codec: strict_codec encode_slashing_evidence
  decode_slashing_evidence slashing_evidence_wf
  by unfold_locales (auto simp: decode_slashing_evidence_Ok_iff)

interpretation validator_admission_codec: strict_codec encode_validator_admission
  decode_validator_admission validator_admission_wf
  by unfold_locales (auto simp: decode_validator_admission_Ok_iff)

text \<open>
  C40. The decoders of the bond crate accept exactly what the encoders write. A registry decodes from
  \<open>b\<close> iff it is sorted with valid policies and well-formed resource identifiers, has at most 65534
  entries and \<open>b\<close> is its encoding; bonds, slashing evidence and admission records alike, where the two
  statements of the evidence differ.
\<close>

theorem bond_codecs_exact:
  "(decode_bond_resource_registry b = Ok r \<longleftrightarrow>
      bond_registry_ok r \<and> length (brr_resources r) \<le> 65534 \<and> bond_registry_wf r \<and>
      encode_bond_resource_registry r = Ok b) \<and>
   (decode_bond_object b = Ok x \<longleftrightarrow> bond_object_wf x \<and> encode_bond_object x = Ok b) \<and>
   (decode_slashing_evidence b = Ok ev \<longleftrightarrow> sl_left_statement ev \<noteq> sl_right_statement ev \<and>
      slashing_evidence_wf ev \<and> encode_slashing_evidence ev = Ok b) \<and>
   (decode_validator_admission b = Ok a \<longleftrightarrow>
      validator_admission_wf a \<and> encode_validator_admission a = Ok b)"
  by (auto simp: decode_bond_resource_registry_Ok_iff decode_bond_object_Ok_iff
      decode_slashing_evidence_Ok_iff decode_validator_admission_Ok_iff encode_slashing_evidence_Ok_iff
      encode_bond_resource_registry_Ok_iff bond_registry_validate_Ok_iff)

end
