(* ===== verification/Spec2Isabelle.thy ===== *)
theory Spec2Isabelle
  imports HotStuff_Properties Fees Fast_Witnesses Bond_Codec
begin

text \<open>
  A verification development of the protocol core of the repository: the deterministic crates under
  \<^verbatim>\<open>src/crates\<close> that every node must agree on byte for byte, from the canonical encoding up to the
  consensus state machine, the fast path and the economics of fees and bonds.

  \<^bold>\<open>The program and its parts.\<close> A node takes canonical byte frames, checks them against an epoch's
  validator set, and advances a consensus state that it persists. \<^verbatim>\<open>canonical-encoding\<close> defines the
  frames: a magic number, type, version and numbered fields in ascending order. \<^verbatim>\<open>hashing\<close> and \<^verbatim>\<open>crypto\<close>
  wrap frames into domain-separated hash inputs and signature messages; which hash suite is active
  depends on the epoch, by the schedules of \<^verbatim>\<open>protocol-upgrades\<close>. \<^verbatim>\<open>validator-set\<close> gives the quorum
  threshold and the leader of a view. \<^verbatim>\<open>consensus\<close> orders shared-object transactions by chained HotStuff
  and certifies owned-object transactions by fast votes; whoever signs contradicting fast votes is
  exposed by equivocation evidence, and \<^verbatim>\<open>bonds\<close> keeps the collateral such offences put at risk. \<^verbatim>\<open>objects\<close>, \<^verbatim>\<open>abi\<close> and
  \<^verbatim>\<open>standard-assets\<close> describe what transactions touch, and \<^verbatim>\<open>fees\<close> prices their execution.

  \<^bold>\<open>Conventions.\<close> \<^verbatim>\<open>Edge_Prelude\<close> holds the result type: \<open>Ok\<close> and \<open>Err\<close> are Rust's, \<open>Abort\<close> is a call that
  panics or does not return, so that total behaviour is a statement. \<open>try_bind\<close> is the \<open>?\<close> operator and
  \<open>map_err\<close> the \<open>From\<close> conversion of the error. Integers have their width: \<open>u8\<close> to \<open>u64\<close> are words,
  \<open>usize\<close> is a natural number whose checked addition is bounded by \<open>2 ^ 64 - 1\<close>, checked arithmetic returns
  an option. Bytes are lists of \<open>u8\<close>, and a fixed array \<open>[u8; 32]\<close> is a list with the predicate \<open>array32\<close>.
  \<^verbatim>\<open>Edge_Collections\<close> has \<open>BTreeMap\<close> and \<open>BTreeSet\<close> as sorted association lists, and the binary search of
  slices with insertion, removal and replacement at the position found. A struct is a record with
  prefixed fields, an enum a datatype, and a method that changes its receiver returns the new value.

  \<^bold>\<open>Theories and sources.\<close>
  \<^item> \<^verbatim>\<open>Protocol_Types\<close>: \<^verbatim>\<open>protocol-types\<close>, identifiers, digests, hash suites, execution generations.
  \<^item> \<^verbatim>\<open>Canonical_Encoding\<close>: \<^verbatim>\<open>canonical-encoding\<close>, \<open>CanonicalStruct\<close> with \<open>finish\<close>, the frame decoder with its
    bounds, the field accessors, the identifier codecs. \<^verbatim>\<open>Canonical_Codec\<close> proves the decoder to be the
    exact inverse of the encoder; \<^verbatim>\<open>Indexed_Lists\<close> and \<^verbatim>\<open>Item_Frames\<close> do so for frames that carry lists.
  \<^item> \<^verbatim>\<open>Hashing\<close>: \<^verbatim>\<open>hashing\<close>. \<^verbatim>\<open>Signature_Frames\<close>: \<^verbatim>\<open>crypto\<close>, with \<^verbatim>\<open>ed25519.rs\<close> and \<^verbatim>\<open>owner_address.rs\<close>.
  \<^item> \<^verbatim>\<open>Validator_Set\<close>: \<^verbatim>\<open>validator-set\<close>. \<^verbatim>\<open>Protocol_Upgrades\<close>: \<^verbatim>\<open>protocol-upgrades\<close>. \<^verbatim>\<open>Objects\<close>: \<^verbatim>\<open>objects\<close>.
  \<^item> \<^verbatim>\<open>Consensus_Messages\<close>, \<^verbatim>\<open>Consensus_Codec\<close>: the messages of \<^verbatim>\<open>consensus/src/lib.rs\<close> and their bounded
    decoders in \<^verbatim>\<open>durable.rs\<close>.
  \<^item> \<^verbatim>\<open>Chained_HotStuff\<close>: the state machine of \<^verbatim>\<open>consensus/src/lib.rs\<close>; \<open>on_event\<close> dispatches to
    \<open>process_proposal\<close>, \<open>process_vote\<close>, the certificate and the tick handler, and \<open>propose\<close> builds the
    leader's proposal. \<^verbatim>\<open>HotStuff_Certificates\<close> says when its checks succeed, \<^verbatim>\<open>HotStuff_Invariants\<close> what a
    transition keeps, \<^verbatim>\<open>HotStuff_Runs\<close> what holds over any sequence of events, \<^verbatim>\<open>HotStuff_Returns\<close> that every
    event returns and that accepted certificates are applied.
  \<^item> \<^verbatim>\<open>Commit_Proof\<close>: \<^verbatim>\<open>consensus/src/commit_proof.rs\<close>.
  \<^item> \<^verbatim>\<open>HotStuff_Network\<close>, \<^verbatim>\<open>HotStuff_Agreement\<close>, \<^verbatim>\<open>HotStuff_Properties\<close>: several validators, agreement, and the
    guarantees of one; \<^verbatim>\<open>HotStuff_Samples\<close> and \<^verbatim>\<open>HotStuff_Witnesses\<close> hold a network of four validators on
    which the statements are instantiated.
  \<^item> \<^verbatim>\<open>Fast_Votes\<close>, \<^verbatim>\<open>Fast_Codec\<close>: \<^verbatim>\<open>consensus/src/fast_vote.rs\<close>. \<^verbatim>\<open>Equivocation\<close>: \<^verbatim>\<open>equivocation.rs\<close>, classes a
    and b. \<^verbatim>\<open>Fast_Witnesses\<close>: their instances.
  \<^item> \<^verbatim>\<open>Typed_Abi\<close>: \<^verbatim>\<open>abi/src/lib.rs\<close>. \<^verbatim>\<open>Standard_Assets\<close>: \<^verbatim>\<open>standard-assets\<close>. \<^verbatim>\<open>Fees\<close>: \<^verbatim>\<open>fees\<close> with
    \<^verbatim>\<open>reservation.rs\<close>. \<^verbatim>\<open>Bonds\<close>, \<^verbatim>\<open>Bond_Codec\<close>: \<^verbatim>\<open>bonds\<close>.

  \<^bold>\<open>Interfaces.\<close> \<open>ordered_map\<close> is the contract of the sorted maps; \<open>sorted_registry\<close> that of a registry
  kept as a sorted vector (feature flags, fee assets, bond resources), whose contents do not depend on
  the order of registration. \<open>frame_codec\<close> and \<open>strict_codec\<close> are an encoder with a decoder that accepts
  exactly its output; every codec proved exact interprets it. \<open>activation_schedule\<close> is a list of entries
  by activation epoch, for the hash suites of the resolver and the committed schedule.
  \<open>weighted_quorum\<close> gives the intersection of quorums from the threshold alone, and \<open>certificate_scheme\<close>
  extends it to certificates of votes; the HotStuff and the fast certificates both interpret it, and
  the two accountability theorems rest on its lemma.
\<close>

text \<open>
  \<^bold>\<open>What the theorems show.\<close>
  \<^item> Consensus, one validator: for every sequence of events, views voted in strictly increase, votes
    respect the lock, commits are gapless and the state invariant holds. In an authentic network (at
    most a third of the power faulty, valid votes of correct validators cast by them, all proposals
    received of distinct digests) also: every event returns, given that signer and verifier do; every
    emitted commit proof verifies; and a vote that completes a quorum forms a certificate that verifies,
    is applied, stored and sent. These three need the network because a certificate carries its own view
    and height, which the code compares with a proposal only when it knows both: a faulty quorum could
    certify a digest under another height.
  \<^item> Consensus, several validators: conflicting certificates expose more than a third of the voting
    power. Agreement on committed blocks holds when the three views of a commit are consecutive and
    correct validators know the parents of what they vote for, with at most a third of the power
    faulty, genuine votes and distinct digests; \<open>agreement_without_consecutive_views\<close> is a run of four
    correct validators that commit two blocks of one height, since the code demands consecutive heights
    only.
  \<^item> Fast path: certificate formation depends only on the set of candidate votes and succeeds exactly
    with a quorum; contradicting certificates yield verifying evidence against more than a third.
  \<^item> Economics: a reservation is the exact ceiling quote and settles with charge plus refund equal to
    it; the checked fee arithmetic is the mathematical fee; a bond is slashable through its whole
    unbonding delay and admits its validator in exactly the epochs before it unlocks.
  \<^item> Types: the check of call inputs accepts exactly well-typed calls, coins of one call share their
    asset, and an asset identifier binds its creation data, unless its own framed inputs collide.
  \<^item> Signatures: a canonical signature that verifies was requested for exactly that domain and payload,
    if the key's signatures on framed messages cannot be forged.
  \<^item> Registries refine finite maps, errors included; schedules are append-only and select the latest
    activated entry; the quorum threshold is the least power above two thirds; leaders rotate fairly.
  \<^item> Codecs: each decoder accepts exactly the encodings of well-formed values.

  \<^bold>\<open>Bounds and fuel.\<close> Loops over slices are structural recursion and binary search has a termination
  proof. Only the two walks along justify links, \<open>extends_walk\<close> and \<open>commit_walk\<close>, carry fuel: one more
  than the number of known proposals. When every certificate names the height of the proposal it
  certifies, a walk visits known proposals of strictly decreasing height, so the fuel is enough on every
  state the handlers walk. \<open>every_event_returns\<close> proves this for authentic networks, where certificates
  do so; running out would be \<open>Abort\<close>. The limits on frames, fields, votes, transactions, entries and gas are the constants
  of the sources.

  \<^bold>\<open>Parameters.\<close> The SHA functions, signing, signature verification and curve arithmetic are external
  libraries and appear as arguments. Nothing is assumed of them except where a statement says so:
  that certain inputs do not collide, that a verified vote of a correct validator was cast by it, that
  signing and verification return, or that signatures of one key verify and cannot be forged.
  Each such statement has an instance with concrete functions.

  \<^bold>\<open>Not modelled.\<close> Display formatting. In \<^verbatim>\<open>consensus\<close>: the codec of the persisted state in \<^verbatim>\<open>durable.rs\<close>,
  \<^verbatim>\<open>epoch_transition.rs\<close> with class c of the evidence, \<^verbatim>\<open>availability.rs\<close> and \<^verbatim>\<open>readiness.rs\<close>, further families
  of weighted certificates of the shape proved here for fast votes. In \<^verbatim>\<open>abi\<close>: call values, the
  executable, package and public ABI, which are declarations without state. \<^verbatim>\<open>governance\<close> and
  \<^verbatim>\<open>system-modules\<close>, whose registries have the shape of the fee and bond registries; \<^verbatim>\<open>protocol-config\<close>,
  \<^verbatim>\<open>chain-ir\<close>, \<^verbatim>\<open>signing-view\<close> and \<^verbatim>\<open>sunrise-claim\<close>, on which nothing above depends; \<^verbatim>\<open>commitments\<close>, field
  arithmetic over tables of constants. \<^verbatim>\<open>execution\<close>, \<^verbatim>\<open>contract-sdk\<close> and \<^verbatim>\<open>src/contracts\<close> need the semantics
  of the external WebAssembly interpreter. \<^verbatim>\<open>runtime\<close> and its SQL stores, \<^verbatim>\<open>node-core\<close>, \<^verbatim>\<open>node-wire\<close>,
  \<^verbatim>\<open>native-http\<close>, and everything under \<^verbatim>\<open>src/adapters\<close>, \<^verbatim>\<open>src/apps\<close> and \<^verbatim>\<open>src/clients\<close> are storage, network and
  process handling around these crates.
\<close>

end
